(* ===== verification/Prelude.thy ===== *)
theory Prelude
  imports Main "HOL-Library.List_Lexorder" "HOL-Library.Char_ord" "HOL-Library.Sublist"
begin

text \<open>
  The vocabulary every component shares: byte strings, results of fallible code,
  machine-integer bounds, and the generic lemmas on them.

  A byte (\<open>u8\<close>) is a HOL \<open>char\<close>, which is exactly an 8-bit value, so that the literal
  key fragments of the source can be written as string literals; a \<open>Vec<u8>\<close> or
  \<open>&[u8]\<close> is a list of them. A \<open>u32\<close>, \<open>u64\<close> or \<open>usize\<close> is a \<open>nat\<close>;
  its bound is written out wherever an operation can reach it. An \<open>anyhow::Result<T>\<close>
  is a sum with the error text on the left.
\<close>

type_synonym byte = char
type_synonym bytes = "char list"
type_synonym 'a result = "string + 'a"

named_theorems result_simps
named_theorems key_simps
named_theorems log_simps

subsection \<open>Results\<close>

text \<open>The \<open>?\<close> operator: continue with the value, or return the error.\<close>

fun rbind :: "'e + 'a \<Rightarrow> ('a \<Rightarrow> 'e + 'b) \<Rightarrow> 'e + 'b" where
  "rbind (Inl e) f = Inl e"
| "rbind (Inr x) f = f x"

lemma rbind_cong [fundef_cong]:
  "\<lbrakk>r = r'; \<And>x. r' = Inr x \<Longrightarrow> f x = f' x\<rbrakk> \<Longrightarrow> rbind r f = rbind r' f'"
  by (cases r') auto

lemma rbind_eq_Inr [result_simps]:
  "rbind r f = Inr y \<longleftrightarrow> (\<exists>x. r = Inr x \<and> f x = Inr y)"
  by (cases r) auto

lemma rbind_eq_Inl [result_simps]:
  "rbind r f = Inl e \<longleftrightarrow> r = Inl e \<or> (\<exists>x. r = Inr x \<and> f x = Inl e)"
  by (cases r) auto

lemma rbind_assoc: "rbind (rbind r f) g = rbind r (\<lambda>x. rbind (f x) g)"
  by (cases r) auto

lemma rbind_split:
  "P (rbind r f) \<longleftrightarrow> (\<forall>e. r = Inl e \<longrightarrow> P (Inl e)) \<and> (\<forall>x. r = Inr x \<longrightarrow> P (f x))"
  by (cases r) auto

text \<open>A \<open>for\<close> loop whose body may return early with an error.\<close>

fun rfold :: "('a \<Rightarrow> 'b \<Rightarrow> 'e + 'b) \<Rightarrow> 'a list \<Rightarrow> 'b \<Rightarrow> 'e + 'b" where
  "rfold f [] b = Inr b"
| "rfold f (x # xs) b = rbind (f x b) (rfold f xs)"

lemma rfold_append: "rfold f (xs @ ys) b = rbind (rfold f xs b) (rfold f ys)"
  by (induction xs arbitrary: b) (auto simp: rbind_assoc cong: rbind_cong)

lemma rfold_cong [fundef_cong]:
  "\<lbrakk>xs = ys; b = c; \<And>x d. x \<in> set ys \<Longrightarrow> f x d = g x d\<rbrakk> \<Longrightarrow> rfold f xs b = rfold g ys c"
proof (induction ys arbitrary: xs b c)
  case (Cons y ys)
  then show ?case by (auto intro!: rbind_cong)
qed simp

lemma rfold_total:
  "(\<And>x b. x \<in> set xs \<Longrightarrow> f x b = Inr (g x b)) \<Longrightarrow> rfold f xs b = Inr (fold g xs b)"
  by (induction xs arbitrary: b) auto

lemma rfold_Inr [simp]: "rfold (\<lambda>x b. Inr (g x b)) xs b = Inr (fold g xs b)"
  by (induction xs arbitrary: b) auto

text \<open>
  Code that mutates a state through \<open>&mut self\<close> and may fail: the state reached is
  kept on the error path too.
\<close>

type_synonym ('s, 'e, 'a) est = "'s \<Rightarrow> ('e + 'a) \<times> 's"
type_synonym ('s, 'a) st = "('s, string, 'a) est"

definition sreturn :: "'a \<Rightarrow> ('s, 'e, 'a) est" where
  "sreturn x s = (Inr x, s)"

definition sfail :: "'e \<Rightarrow> ('s, 'e, 'a) est" where
  "sfail e s = (Inl e, s)"

definition sbind :: "('s, 'e, 'a) est \<Rightarrow> ('a \<Rightarrow> ('s, 'e, 'b) est) \<Rightarrow> ('s, 'e, 'b) est" where
  "sbind m f s = (case m s of (Inl e, s') \<Rightarrow> (Inl e, s') | (Inr x, s') \<Rightarrow> f x s')"

fun sfold :: "('a \<Rightarrow> 'b \<Rightarrow> ('s, 'e, 'b) est) \<Rightarrow> 'a list \<Rightarrow> 'b \<Rightarrow> ('s, 'e, 'b) est" where
  "sfold f [] b = sreturn b"
| "sfold f (x # xs) b = sbind (f x b) (sfold f xs)"

lemma sbind_cong [fundef_cong]:
  assumes "m s = m' s'" and "\<And>x t. m' s' = (Inr x, t) \<Longrightarrow> f x t = f' x t" and "s = s'"
  shows "sbind m f s = sbind m' f' s'"
  using assms by (auto simp: sbind_def split: prod.splits sum.splits)

lemma sreturn_app [simp]: "sreturn x s = (Inr x, s)"
  by (simp add: sreturn_def)

lemma sfail_app [simp]: "sfail e s = (Inl e, s)"
  by (simp add: sfail_def)

lemma sbind_Inr [simp]: "m s = (Inr x, s') \<Longrightarrow> sbind m f s = f x s'"
  by (simp add: sbind_def)

lemma sbind_Inl [simp]: "m s = (Inl e, s') \<Longrightarrow> sbind m f s = (Inl e, s')"
  by (simp add: sbind_def)

subsection \<open>Bounds of the machine integers\<close>

definition u32_max :: nat where "u32_max = 4294967295"
definition u64_max :: nat where "u64_max = 18446744073709551615"

text \<open>\<open>u32::saturating_add\<close>; \<open>saturating_sub\<close> is subtraction on \<open>nat\<close>.\<close>

definition sat_add32 :: "nat \<Rightarrow> nat \<Rightarrow> nat" where
  "sat_add32 a b = min (a + b) u32_max"

text \<open>A plain \<open>+\<close> on \<open>u32\<close> in a release build: it wraps.\<close>

definition add32 :: "nat \<Rightarrow> nat \<Rightarrow> nat" where
  "add32 a b = (a + b) mod 4294967296"

lemma add32_eq [simp]: "a + b \<le> u32_max \<Longrightarrow> add32 a b = a + b"
  by (simp add: add32_def u32_max_def)

lemma add32_bound: "add32 a b \<le> u32_max"
proof -
  have "(a + b) mod 4294967296 < 4294967296" by (rule mod_less_divisor) simp
  then show ?thesis by (simp add: add32_def u32_max_def)
qed

subsection \<open>Lists\<close>

lemma take_drop_split: "i + j = n \<Longrightarrow> take n xs = take i xs @ take j (drop i xs)"
  by (simp add: take_add [symmetric])

lemma sorted_wrt_filter_takeWhile:
  fixes xs :: "'a list" and f :: "'a \<Rightarrow> 'b :: linorder"
  assumes "sorted (map f xs)"
  shows "filter (\<lambda>x. f x \<le> b) xs = takeWhile (\<lambda>x. f x \<le> b) xs"
  using assms
proof (induction xs)
  case (Cons x xs)
  show ?case
  proof (cases "f x \<le> b")
    case False
    then have "\<forall>y \<in> set xs. \<not> f y \<le> b" using Cons.prems by auto
    with False show ?thesis by (simp add: filter_empty_conv)
  qed (use Cons in auto)
qed simp

lemma distinct_remdups_adj_sorted: "sorted xs \<Longrightarrow> distinct (remdups_adj (xs :: 'a :: linorder list))"
proof (induction xs rule: remdups_adj.induct)
  case (3 x y xs)
  then have "\<forall>z \<in> set (y # xs). x \<le> z" by simp
  with 3 show ?case by auto
qed simp_all

lemma map_eq_replicate_iff: "map f xs = ys \<longleftrightarrow> length xs = length ys \<and> (\<forall>i < length xs. f (xs ! i) = ys ! i)"
  by (metis length_map nth_equalityI nth_map)

end
