(* ===== verification/Bytes.thy ===== *)
theory Bytes
  imports Prelude
begin

text \<open>
  What the code uses of Rust's standard library on byte strings: little-endian integers
  (\<open>to_le_bytes\<close>, \<open>from_le_bytes\<close>), decimal printing (\<open>to_string\<close>) and
  \<open>str::parse::<u32>\<close>, \<open>String::from_utf8_lossy\<close>, \<open>str::find(':')\<close> with the two
  slices around it, and \<open>strip_prefix\<close>/\<open>ends_with\<close>. Every round trip the storage
  layer relies on is proved here once.
\<close>

subsection \<open>Little-endian integers\<close>

fun le_bytes :: "nat \<Rightarrow> nat \<Rightarrow> bytes" where
  "le_bytes 0 n = []"
| "le_bytes (Suc w) n = char_of n # le_bytes w (n div 256)"

fun from_le :: "bytes \<Rightarrow> nat" where
  "from_le [] = 0"
| "from_le (c # cs) = of_char c + 256 * from_le cs"

lemma length_le_bytes [simp]: "length (le_bytes w n) = w"
  by (induction w arbitrary: n) auto

lemma from_le_le_bytes: "from_le (le_bytes w n) = n mod 256 ^ w"
proof (induction w arbitrary: n)
  case (Suc w)
  have "n mod (256 * 256 ^ w) = 256 * (n div 256 mod 256 ^ w) + n mod 256"
    by (rule mod_mult2_eq)
  with Suc show ?case by simp
qed simp

lemma of_char_less [simp]: "(of_char c :: nat) < 256"
  by (metis char_of_char of_char_of zero_less_numeral mod_less_divisor)

lemma le_bytes_from_le [simp]: "le_bytes (length cs) (from_le cs) = cs"
proof (induction cs)
  case (Cons c cs)
  have "(of_char c + 256 * from_le cs) div 256 = from_le cs"
    by (simp add: div_add1_eq)
  moreover have "char_of (of_char c + 256 * from_le cs) = c"
    by (metis char_of_char char_of_mod_256 mod_mult_self2)
  ultimately show ?case using Cons by simp
qed simp

lemma from_le_less: "from_le cs < 256 ^ length cs"
  by (metis from_le_le_bytes le_bytes_from_le mod_less_divisor zero_less_numeral zero_less_power)

lemma le_bytes_inj: "le_bytes w m = le_bytes w n \<Longrightarrow> m < 256 ^ w \<Longrightarrow> n < 256 ^ w \<Longrightarrow> m = n"
  by (metis from_le_le_bytes mod_less)

lemma from_le_4_le [simp]: "length cs = 4 \<Longrightarrow> from_le cs \<le> u32_max"
  using from_le_less [of cs] by (simp add: u32_max_def)

text \<open>A \<open>u32\<close> read back from its four little-endian bytes, as \<open>value[..4]\<close> does.\<close>

lemma from_le_u32 [simp]: "n \<le> u32_max \<Longrightarrow> from_le (le_bytes 4 n) = n"
  by (simp add: u32_max_def from_le_le_bytes)

lemma from_le_u64 [simp]: "n \<le> u64_max \<Longrightarrow> from_le (le_bytes 8 n) = n"
  by (simp add: u64_max_def from_le_le_bytes)

subsection \<open>Decimal numbers\<close>

definition digit :: "nat \<Rightarrow> char" where
  "digit d = char_of (48 + d)"

fun dec :: "nat \<Rightarrow> bytes" where
  "dec n = (if n < 10 then [digit n] else dec (n div 10) @ [digit (n mod 10)])"

declare dec.simps [simp del]

definition is_digit :: "char \<Rightarrow> bool" where
  "is_digit c \<longleftrightarrow> 48 \<le> (of_char c :: nat) \<and> (of_char c :: nat) \<le> 57"

text \<open>
  \<open>str::parse::<u32>\<close>: an optional leading \<open>+\<close>, then at least one decimal digit,
  every step checked for overflow; anything else (the empty string, a lone sign, a minus
  sign, white space) is an error.
\<close>

fun parse_digits :: "nat \<Rightarrow> bytes \<Rightarrow> nat option" where
  "parse_digits acc [] = Some acc"
| "parse_digits acc (c # cs) =
     (if is_digit c \<and> acc * 10 + (of_char c - 48) \<le> u32_max
      then parse_digits (acc * 10 + (of_char c - 48)) cs else None)"

definition parse_u32 :: "bytes \<Rightarrow> nat option" where
  "parse_u32 s =
     (case s of
        [] \<Rightarrow> None
      | c # cs \<Rightarrow>
          if c = CHR ''+'' then (if cs = [] then None else parse_digits 0 cs)
          else parse_digits 0 s)"

lemma of_char_digit [simp]: "d < 10 \<Longrightarrow> (of_char (digit d) :: nat) = 48 + d"
  by (simp add: digit_def)

lemma is_digit_digit [simp]: "d < 10 \<Longrightarrow> is_digit (digit d)"
  by (simp add: is_digit_def)

lemma dec_digits: "c \<in> set (dec n) \<Longrightarrow> is_digit c"
proof (induction n rule: dec.induct)
  case (1 n)
  then show ?case by (subst (asm) (2) dec.simps) (auto split: if_splits)
qed

lemma dec_not_Nil [simp]: "dec n \<noteq> []"
  by (subst dec.simps) simp

lemma parse_digits_append:
  "parse_digits a (xs @ ys) = (case parse_digits a xs of None \<Rightarrow> None | Some b \<Rightarrow> parse_digits b ys)"
  by (induction xs arbitrary: a) auto

lemma parse_digits_dec: "n \<le> u32_max \<Longrightarrow> parse_digits 0 (dec n) = Some n"
proof (induction n rule: dec.induct)
  case (1 n)
  show ?case
  proof (cases "n < 10")
    case True
    with 1 show ?thesis by (subst dec.simps) (auto simp: u32_max_def)
  next
    case False
    with 1 have IH: "parse_digits 0 (dec (n div 10)) = Some (n div 10)" by auto
    show ?thesis using False 1(2) IH
      by (subst dec.simps) (auto simp: parse_digits_append)
  qed
qed

lemma digit_neq: "is_digit c \<Longrightarrow> \<not> is_digit d \<Longrightarrow> c \<noteq> d"
  by auto

lemma not_digit_specials [simp]:
  "\<not> is_digit CHR ''+''" "\<not> is_digit CHR ''/''" "\<not> is_digit CHR '':''" "\<not> is_digit CHR ''l''"
  by (simp_all add: is_digit_def)

lemma dec_notin [simp]: "\<not> is_digit c \<Longrightarrow> c \<notin> set (dec n)"
  using dec_digits by blast

lemma parse_u32_dec [simp]: "n \<le> u32_max \<Longrightarrow> parse_u32 (dec n) = Some n"
proof -
  assume n: "n \<le> u32_max"
  obtain c cs where d: "dec n = c # cs" by (cases "dec n") auto
  have "is_digit c" using dec_digits [of c n] d by simp
  then have "c \<noteq> CHR ''+''" by auto
  with n d parse_digits_dec [OF n] show ?thesis by (simp add: parse_u32_def)
qed

lemma parse_digits_bound: "parse_digits a s = Some n \<Longrightarrow> a \<le> u32_max \<Longrightarrow> n \<le> u32_max"
  by (induction s arbitrary: a) (auto split: if_splits)

lemma parse_u32_bound: "parse_u32 s = Some n \<Longrightarrow> n \<le> u32_max"
  by (auto simp: parse_u32_def split: list.splits if_splits dest: parse_digits_bound)

lemma parse_digits_chars: "parse_digits a s = Some n \<Longrightarrow> c \<in> set s \<Longrightarrow> is_digit c"
  by (induction s arbitrary: a) (auto split: if_splits)

lemma parse_u32_chars: "parse_u32 s = Some n \<Longrightarrow> c \<in> set s \<Longrightarrow> c = CHR ''+'' \<or> is_digit c"
  by (auto simp: parse_u32_def split: list.splits if_splits dest: parse_digits_chars)

fun dec_val :: "nat \<Rightarrow> bytes \<Rightarrow> nat" where
  "dec_val acc [] = acc"
| "dec_val acc (c # cs) = dec_val (acc * 10 + (of_char c - 48)) cs"

lemma dec_val_append: "dec_val a (xs @ ys) = dec_val (dec_val a xs) ys"
  by (induction xs arbitrary: a) auto

lemma dec_val_dec: "dec_val 0 (dec n) = n"
proof (induction n rule: dec.induct)
  case (1 n)
  show ?case using 1 by (subst dec.simps) (auto simp: dec_val_append)
qed

lemma dec_inj [simp]: "dec m = dec n \<longleftrightarrow> m = n"
  by (metis dec_val_dec)

subsection \<open>Lossy UTF-8\<close>

text \<open>
  \<open>String::from_utf8_lossy\<close>, as the bytes of the resulting string: well-formed
  sequences are copied, and each maximal ill-formed prefix becomes U+FFFD
  (EF BF BD). \<open>utf8_seq\<close> classifies the sequence that a non-ASCII lead byte starts:
  whether it is well formed, and how many bytes it takes.
\<close>

definition in_range :: "nat \<Rightarrow> nat \<Rightarrow> bytes \<Rightarrow> nat \<Rightarrow> bool" where
  "in_range lo hi cs i \<longleftrightarrow>
     i < length cs \<and> lo \<le> (of_char (cs ! i) :: nat) \<and> (of_char (cs ! i) :: nat) \<le> hi"

definition utf8_seq :: "nat \<Rightarrow> bytes \<Rightarrow> bool \<times> nat" where
  "utf8_seq b cs =
     (if 194 \<le> b \<and> b \<le> 223 then
        (if in_range 128 191 cs 0 then (True, 2) else (False, 1))
      else if 224 \<le> b \<and> b \<le> 239 then
        (if \<not> (if b = 224 then in_range 160 191 cs 0
               else if b = 237 then in_range 128 159 cs 0
               else in_range 128 191 cs 0) then (False, 1)
         else if in_range 128 191 cs 1 then (True, 3) else (False, 2))
      else if 240 \<le> b \<and> b \<le> 244 then
        (if \<not> (if b = 240 then in_range 144 191 cs 0
               else if b = 244 then in_range 128 143 cs 0
               else in_range 128 191 cs 0) then (False, 1)
         else if \<not> in_range 128 191 cs 1 then (False, 2)
         else if in_range 128 191 cs 2 then (True, 4) else (False, 3))
      else (False, 1))"

function utf8_lossy :: "bytes \<Rightarrow> bytes" where
  "utf8_lossy [] = []"
| "utf8_lossy (c # cs) =
     (if (of_char c :: nat) < 128 then c # utf8_lossy cs
      else (let (ok, n) = utf8_seq (of_char c) cs in
            (if ok then c # take (n - 1) cs else [char_of (239::nat), char_of (191::nat), char_of (189::nat)])
            @ utf8_lossy (drop (n - 1) cs)))"
  by pat_completeness auto
termination
  by (relation "measure length") auto

declare utf8_lossy.simps(2) [simp del]

definition ascii :: "bytes \<Rightarrow> bool" where
  "ascii s \<longleftrightarrow> (\<forall>c \<in> set s. (of_char c :: nat) < 128)"

lemma ascii_append [simp]: "ascii (xs @ ys) \<longleftrightarrow> ascii xs \<and> ascii ys"
  by (auto simp: ascii_def)

lemma ascii_Nil [simp]: "ascii []" by (simp add: ascii_def)

lemma ascii_Cons [simp]: "ascii (c # cs) \<longleftrightarrow> (of_char c :: nat) < 128 \<and> ascii cs"
  by (simp add: ascii_def)

lemma utf8_lossy_ascii [simp]: "ascii s \<Longrightarrow> utf8_lossy s = s"
proof (induction s)
  case (Cons c cs)
  then have "(of_char c :: nat) < 128" "ascii cs" by simp_all
  with Cons.IH show ?case by (simp only: utf8_lossy.simps(2) if_True)
qed simp

text \<open>Only bytes above 127 are ever replaced.\<close>

lemma utf8_seq_skips:
  assumes "utf8_seq b cs = (ok, n)" "i < n - 1"
  shows "i < length cs \<and> 128 \<le> (of_char (cs ! i) :: nat)"
proof -
  have "i = 0 \<or> i = 1 \<or> i = 2" if "n \<le> 4" using assms(2) that by auto
  moreover have "n \<le> 4" using assms(1) by (auto simp: utf8_seq_def split: if_splits)
  ultimately show ?thesis
    using assms by (auto simp: utf8_seq_def in_range_def split: if_splits)
qed

lemma utf8_lossy_keeps:
  assumes "c \<in> set s" "(of_char c :: nat) < 128"
  shows "c \<in> set (utf8_lossy s)"
  using assms
proof (induction s rule: utf8_lossy.induct)
  case (2 d cs)
  show ?case
  proof (cases "(of_char d :: nat) < 128")
    case True
    with 2 show ?thesis unfolding utf8_lossy.simps(2) by auto
  next
    case False
    obtain ok n where seq: "utf8_seq (of_char d) cs = (ok, n)" by fastforce
    have "c \<in> set cs" using 2(3,4) False by auto
    moreover have "c \<notin> set (take (n - 1) cs)"
      using utf8_seq_skips [OF seq] 2(4) by (fastforce simp: in_set_conv_nth)
    ultimately have "c \<in> set (drop (n - 1) cs)"
      by (metis Un_iff append_take_drop_id set_append)
    with 2(2) [OF False seq [symmetric] refl] 2(4) seq False show ?thesis
      unfolding utf8_lossy.simps(2) by simp
  qed
qed simp

lemma ascii_dec [simp]: "ascii (dec n)"
proof -
  have "(of_char c :: nat) < 128" if "c \<in> set (dec n)" for c
    using dec_digits [OF that] unfolding is_digit_def by linarith
  then show ?thesis by (simp only: ascii_def) blast
qed

subsection \<open>Splitting at the first colon\<close>

text \<open>
  \<open>s.find(':')\<close> together with the slices \<open>s[..pos]\<close> and \<open>s[pos + 1..]\<close>.
\<close>

fun split_colon :: "bytes \<Rightarrow> (bytes \<times> bytes) option" where
  "split_colon [] = None"
| "split_colon (c # cs) =
     (if c = CHR '':'' then Some ([], cs)
      else map_option (\<lambda>(a, b). (c # a, b)) (split_colon cs))"

lemma split_colon_append [simp]:
  "CHR '':'' \<notin> set xs \<Longrightarrow> split_colon (xs @ CHR '':'' # ys) = Some (xs, ys)"
  by (induction xs) auto

lemma split_colon_None: "split_colon s = None \<longleftrightarrow> CHR '':'' \<notin> set s"
  by (induction s) auto

lemma split_colon_Some: "split_colon s = Some (a, b) \<Longrightarrow> s = a @ CHR '':'' # b \<and> CHR '':'' \<notin> set a"
  by (induction s arbitrary: a) (auto split: if_splits)

subsection \<open>Prefixes and suffixes\<close>

definition strip_prefix :: "bytes \<Rightarrow> bytes \<Rightarrow> bytes option" where
  "strip_prefix p s = (if prefix p s then Some (drop (length p) s) else None)"

lemma strip_prefix_append [simp]: "strip_prefix p (p @ s) = Some s"
  by (simp add: strip_prefix_def)

lemma strip_prefix_Some: "strip_prefix p s = Some r \<longleftrightarrow> s = p @ r"
  by (auto simp: strip_prefix_def prefix_def)

definition ends_with :: "bytes \<Rightarrow> bytes \<Rightarrow> bool" where
  "ends_with s e \<longleftrightarrow> suffix e s"

definition strip_suffix_len :: "bytes \<Rightarrow> bytes \<Rightarrow> bytes" where
  "strip_suffix_len e s = take (length s - length e) s"

lemma ends_with_append [simp]: "ends_with (s @ e) e"
  by (simp add: ends_with_def suffix_def)

lemma strip_suffix_append [simp]: "strip_suffix_len e (s @ e) = s"
  by (simp add: strip_suffix_len_def)

lemma ends_with_iff: "ends_with s e \<longleftrightarrow> (\<exists>p. s = p @ e)"
  by (auto simp: ends_with_def suffix_def)

end
