(* ===== verification/KeyUtils.thy ===== *)
theory KeyUtils
  imports Bytes
begin

text \<open>
  Key construction: \<open>crates/metashrew-runtime/src/key_utils.rs\<close>, the database labels of
  \<open>crates/metashrew-runtime/src/lib.rs\<close>, and the key layouts that \<open>smt.rs\<close>,
  \<open>rollback.rs\<close> and the storage adapters build with \<open>concat\<close> and \<open>format!\<close>.
  The lemmas show which of those key families are disjoint: an append-only log never
  shares a database key with another log or with the bookkeeping records, with the two
  exceptions that \<open>reserved_base\<close> names.
\<close>

subsection \<open>key\_utils.rs\<close>

definition HEX_CHARS :: bytes where "HEX_CHARS = ''0123456789abcdef''"

definition hex_byte :: "byte \<Rightarrow> bytes" where
  "hex_byte b = [HEX_CHARS ! (of_char b div 16), HEX_CHARS ! (of_char b mod 16)]"

definition encode_hex_to_buf :: "bytes \<Rightarrow> bytes \<Rightarrow> bytes" where
  "encode_hex_to_buf input output = fold (\<lambda>b out. out @ hex_byte b) input output"

definition encode_hex_fast :: "bytes \<Rightarrow> bytes" where
  "encode_hex_fast input = encode_hex_to_buf input []"

definition make_current_key :: "bytes \<Rightarrow> bytes \<Rightarrow> bytes" where
  "make_current_key pre key = pre @ key"

definition make_historical_key :: "bytes \<Rightarrow> bytes \<Rightarrow> nat \<Rightarrow> bytes" where
  "make_historical_key pre key height = pre @ key @ '':'' @ dec height"

definition make_height_index_key :: "bytes \<Rightarrow> nat \<Rightarrow> bytes \<Rightarrow> bytes" where
  "make_height_index_key pre height key = pre @ dec height @ '':'' @ key"

definition make_smt_node_key :: "bytes \<Rightarrow> bytes \<Rightarrow> bytes" where
  "make_smt_node_key pre hash = pre @ '':'' @ hash"

definition make_prefixed_key :: "bytes \<Rightarrow> bytes \<Rightarrow> bytes" where
  "make_prefixed_key pre d = pre @ '':'' @ d"

definition make_update_key :: "bytes \<Rightarrow> bytes" where
  "make_update_key key = ''updates:'' @ key"

record key_prefixes =
  current_value :: bytes
  historical_value :: bytes
  height_index :: bytes
  keys_at_height :: bytes
  smt_node :: bytes
  smt_root :: bytes

definition PREFIXES :: key_prefixes where
  "PREFIXES = \<lparr>current_value = ''current:'', historical_value = ''hist:'',
     height_index = ''height:'', keys_at_height = ''keys:'',
     smt_node = ''smt:node:'', smt_root = ''smt:root:''\<rparr>"

subsection \<open>Labels\<close>

text \<open>The global \<open>_LABEL\<close> is the first argument of the functions that read it.\<close>

definition set_label :: "bytes \<Rightarrow> bytes option" where
  "set_label s = Some (s @ ''://'')"

definition to_labeled_key :: "bytes option \<Rightarrow> bytes \<Rightarrow> bytes" where
  "to_labeled_key lbl key = (case lbl of Some l \<Rightarrow> l @ key | None \<Rightarrow> key)"

subsection \<open>Key layouts of the storage layer\<close>

definition length_key :: "bytes \<Rightarrow> bytes" where
  "length_key key = key @ ''/length''"

definition update_key :: "bytes \<Rightarrow> nat \<Rightarrow> bytes" where
  "update_key key i = key @ ''/'' @ dec i"

definition SMT_ROOT_PREFIX :: bytes where "SMT_ROOT_PREFIX = ''smt:root:''"
definition MANIFEST_PREFIX :: bytes where "MANIFEST_PREFIX = ''/__INTERNAL/keys-at-height/''"
definition TIP_HEIGHT_KEY :: bytes where "TIP_HEIGHT_KEY = ''/__INTERNAL/tip-height''"
definition INDEXED_HEIGHT_KEY :: bytes where "INDEXED_HEIGHT_KEY = ''__INTERNAL/height''"
definition BLOCK_HASH_PREFIX :: bytes where "BLOCK_HASH_PREFIX = ''/__INTERNAL/height-to-hash/''"

definition root_key :: "nat \<Rightarrow> bytes" where
  "root_key height = SMT_ROOT_PREFIX @ dec height"

definition manifest_key :: "nat \<Rightarrow> bytes" where
  "manifest_key height = MANIFEST_PREFIX @ dec height"

definition blockhash_key :: "nat \<Rightarrow> bytes" where
  "blockhash_key height = BLOCK_HASH_PREFIX @ dec height"

text \<open>The flat records of the in-memory adapter, which both rollbacks also clear.\<close>

definition block_hash_record :: "nat \<Rightarrow> bytes" where
  "block_hash_record height = ''block_hash_'' @ dec height"

definition state_root_record :: "nat \<Rightarrow> bytes" where
  "state_root_record height = ''state_root_'' @ dec height"

definition node_key :: "bytes \<Rightarrow> bytes" where
  "node_key hash = make_smt_node_key (smt_node PREFIXES) hash"

lemmas key_defs = length_key_def update_key_def root_key_def manifest_key_def blockhash_key_def
  SMT_ROOT_PREFIX_def MANIFEST_PREFIX_def TIP_HEIGHT_KEY_def INDEXED_HEIGHT_KEY_def
  BLOCK_HASH_PREFIX_def

subsection \<open>Injectivity and disjointness\<close>

lemma encode_hex_to_buf_append: "encode_hex_to_buf input out = out @ concat (map hex_byte input)"
  unfolding encode_hex_to_buf_def by (induction input arbitrary: out) auto

lemma encode_hex_fast_eq: "encode_hex_fast input = concat (map hex_byte input)"
  by (simp add: encode_hex_fast_def encode_hex_to_buf_append)

lemma append_sep_inject:
  assumes "c \<notin> set ys" "c \<notin> set ys'"
  shows "xs @ c # ys = xs' @ c # ys' \<longleftrightarrow> xs = xs' \<and> ys = ys'"
proof
  assume eq: "xs @ c # ys = xs' @ c # ys'"
  then have "takeWhile (\<lambda>x. x \<noteq> c) (rev (xs @ c # ys)) = takeWhile (\<lambda>x. x \<noteq> c) (rev (xs' @ c # ys'))"
    by simp
  moreover have "takeWhile (\<lambda>x. x \<noteq> c) (rev zs) = rev zs" if "c \<notin> set zs" for zs
    using that by (intro takeWhile_eq_all_conv [THEN iffD2]) auto
  ultimately have "rev ys = rev ys'"
    using assms by (simp add: takeWhile_tail)
  with eq show "xs = xs' \<and> ys = ys'" by simp
qed simp

lemma length_key_inject [simp]: "length_key k = length_key k' \<longleftrightarrow> k = k'"
  by (simp add: length_key_def)

lemma update_key_inject [simp]: "update_key k i = update_key k' j \<longleftrightarrow> k = k' \<and> i = j"
  using append_sep_inject [of "CHR ''/''" "dec i" "dec j" k k'] by (simp add: update_key_def)

lemma length_key_neq_update_key [simp]: "length_key k \<noteq> update_key k' i" "update_key k' i \<noteq> length_key k"
proof -
  have "CHR ''l'' \<notin> set (dec i)" by simp
  then have "''length'' \<noteq> dec i" by (metis list.set_intros(1))
  then show "length_key k \<noteq> update_key k' i"
    using append_sep_inject [of "CHR ''/''" "''length''" "dec i" k k']
    by (simp add: length_key_def update_key_def)
  then show "update_key k' i \<noteq> length_key k" by metis
qed

lemma slash_notin_dec [simp]: "CHR ''/'' \<notin> set (dec n)"
  by simp

lemma slash_in_keys:
  "CHR ''/'' \<in> set (update_key k i)" "CHR ''/'' \<in> set (length_key k)"
  by (simp_all add: update_key_def length_key_def)

lemma root_key_no_slash: "CHR ''/'' \<notin> set (root_key h)"
  by (simp add: root_key_def SMT_ROOT_PREFIX_def)

lemma root_key_neq [simp]:
  "root_key h \<noteq> update_key k i" "root_key h \<noteq> length_key k"
  "update_key k i \<noteq> root_key h" "length_key k \<noteq> root_key h"
  using root_key_no_slash [of h] slash_in_keys(1) [of k i] slash_in_keys(2) [of k]
  by metis+

lemma root_key_inject [simp]: "root_key h = root_key h' \<longleftrightarrow> h = h'"
  by (simp add: root_key_def)

lemma manifest_key_inject [simp]: "manifest_key h = manifest_key h' \<longleftrightarrow> h = h'"
  by (simp add: manifest_key_def)

lemma blockhash_key_inject [simp]: "blockhash_key h = blockhash_key h' \<longleftrightarrow> h = h'"
  by (simp add: blockhash_key_def)

lemma flat_record_neq [simp]:
  "block_hash_record h \<noteq> root_key h'" "state_root_record h \<noteq> root_key h'"
  "block_hash_record h \<noteq> update_key key i" "state_root_record h \<noteq> update_key key i"
  "block_hash_record h \<noteq> length_key key" "state_root_record h \<noteq> length_key key"
  "block_hash_record h \<noteq> state_root_record h'"
proof -
  have "CHR ''/'' \<notin> set (block_hash_record h)" "CHR ''/'' \<notin> set (state_root_record h)"
    by (simp_all add: block_hash_record_def state_root_record_def)
  then show "block_hash_record h \<noteq> update_key key i" "state_root_record h \<noteq> update_key key i"
    "block_hash_record h \<noteq> length_key key" "state_root_record h \<noteq> length_key key"
    by (metis slash_in_keys)+
qed (simp_all add: block_hash_record_def state_root_record_def root_key_def SMT_ROOT_PREFIX_def)

lemmas flat_record_neq' [simp] = flat_record_neq [symmetric]

lemma flat_record_inject [simp]:
  "block_hash_record h = block_hash_record h' \<longleftrightarrow> h = h'"
  "state_root_record h = state_root_record h' \<longleftrightarrow> h = h'"
  by (simp_all add: block_hash_record_def state_root_record_def)

text \<open>
  The two bookkeeping families that share the shape \<open>base/number\<close> with a log: a user key
  equal to one of these bases would alias the node's own records.
\<close>

definition manifest_base :: bytes where "manifest_base = ''/__INTERNAL/keys-at-height''"
definition blockhash_base :: bytes where "blockhash_base = ''/__INTERNAL/height-to-hash''"

definition reserved_base :: "bytes \<Rightarrow> bool" where
  "reserved_base k \<longleftrightarrow> k = manifest_base \<or> k = blockhash_base"

lemma manifest_key_alt: "manifest_key h = update_key manifest_base h"
  by (simp add: manifest_key_def MANIFEST_PREFIX_def update_key_def manifest_base_def)

lemma blockhash_key_alt: "blockhash_key h = update_key blockhash_base h"
  by (simp add: blockhash_key_def BLOCK_HASH_PREFIX_def update_key_def blockhash_base_def)

lemma manifest_key_neq [simp]:
  "manifest_key h \<noteq> length_key k" "length_key k \<noteq> manifest_key h"
  "manifest_key h \<noteq> root_key h'" "root_key h' \<noteq> manifest_key h"
  by (simp_all add: manifest_key_alt)

lemma blockhash_key_neq [simp]:
  "blockhash_key h \<noteq> length_key k" "length_key k \<noteq> blockhash_key h"
  "blockhash_key h \<noteq> root_key h'" "root_key h' \<noteq> blockhash_key h"
  by (simp_all add: blockhash_key_alt)

lemma manifest_neq_blockhash [simp]: "manifest_key h \<noteq> blockhash_key h'" "blockhash_key h' \<noteq> manifest_key h"
  by (simp_all add: manifest_key_alt blockhash_key_alt manifest_base_def blockhash_base_def)

lemma manifest_key_neq_update [simp]:
  "k \<noteq> manifest_base \<Longrightarrow> manifest_key h \<noteq> update_key k i"
  "k \<noteq> manifest_base \<Longrightarrow> update_key k i \<noteq> manifest_key h"
  by (auto simp: manifest_key_alt)

lemma blockhash_key_neq_update [simp]:
  "k \<noteq> blockhash_base \<Longrightarrow> blockhash_key h \<noteq> update_key k i"
  "k \<noteq> blockhash_base \<Longrightarrow> update_key k i \<noteq> blockhash_key h"
  by (auto simp: blockhash_key_alt)

text \<open>The fixed keys end neither in a digit nor in \<open>/length\<close>.\<close>

lemma last_update_key: "is_digit (last (update_key k i))"
  using dec_digits [of "last (dec i)" i] by (simp add: update_key_def)

lemma fixed_key_neq_update:
  "\<not> is_digit (last f) \<Longrightarrow> f \<noteq> update_key k i"
  using last_update_key [of k i] by metis

lemma fixed_key_neq_length: "\<not> suffix ''/length'' f \<Longrightarrow> f \<noteq> length_key k"
  by (auto simp: length_key_def suffix_def)

lemma tip_key_neq [simp]:
  "TIP_HEIGHT_KEY \<noteq> update_key k i" "TIP_HEIGHT_KEY \<noteq> length_key k"
  "update_key k i \<noteq> TIP_HEIGHT_KEY" "length_key k \<noteq> TIP_HEIGHT_KEY"
proof -
  have 1: "TIP_HEIGHT_KEY \<noteq> update_key k i"
    by (rule fixed_key_neq_update) (simp add: TIP_HEIGHT_KEY_def is_digit_def)
  have 2: "TIP_HEIGHT_KEY \<noteq> length_key k"
    by (rule fixed_key_neq_length) (simp add: TIP_HEIGHT_KEY_def suffix_def append_eq_Cons_conv)
  show "TIP_HEIGHT_KEY \<noteq> update_key k i" "TIP_HEIGHT_KEY \<noteq> length_key k"
    "update_key k i \<noteq> TIP_HEIGHT_KEY" "length_key k \<noteq> TIP_HEIGHT_KEY"
    using 1 2 by metis+
qed

lemma indexed_key_neq [simp]:
  "INDEXED_HEIGHT_KEY \<noteq> update_key k i" "INDEXED_HEIGHT_KEY \<noteq> length_key k"
  "update_key k i \<noteq> INDEXED_HEIGHT_KEY" "length_key k \<noteq> INDEXED_HEIGHT_KEY"
proof -
  have 1: "INDEXED_HEIGHT_KEY \<noteq> update_key k i"
    by (rule fixed_key_neq_update) (simp add: INDEXED_HEIGHT_KEY_def is_digit_def)
  have 2: "INDEXED_HEIGHT_KEY \<noteq> length_key k"
    by (rule fixed_key_neq_length) (simp add: INDEXED_HEIGHT_KEY_def suffix_def append_eq_Cons_conv)
  show "INDEXED_HEIGHT_KEY \<noteq> update_key k i" "INDEXED_HEIGHT_KEY \<noteq> length_key k"
    "update_key k i \<noteq> INDEXED_HEIGHT_KEY" "length_key k \<noteq> INDEXED_HEIGHT_KEY"
    using 1 2 by metis+
qed

lemma fixed_keys_distinct [simp]:
  "TIP_HEIGHT_KEY \<noteq> INDEXED_HEIGHT_KEY" "INDEXED_HEIGHT_KEY \<noteq> TIP_HEIGHT_KEY"
  "TIP_HEIGHT_KEY \<noteq> root_key h" "root_key h \<noteq> TIP_HEIGHT_KEY"
  "INDEXED_HEIGHT_KEY \<noteq> root_key h" "root_key h \<noteq> INDEXED_HEIGHT_KEY"
  "TIP_HEIGHT_KEY \<noteq> manifest_key h" "manifest_key h \<noteq> TIP_HEIGHT_KEY"
  "INDEXED_HEIGHT_KEY \<noteq> manifest_key h" "manifest_key h \<noteq> INDEXED_HEIGHT_KEY"
  "TIP_HEIGHT_KEY \<noteq> blockhash_key h" "blockhash_key h \<noteq> TIP_HEIGHT_KEY"
  "INDEXED_HEIGHT_KEY \<noteq> blockhash_key h" "blockhash_key h \<noteq> INDEXED_HEIGHT_KEY"
  by (simp_all add: TIP_HEIGHT_KEY_def INDEXED_HEIGHT_KEY_def root_key_def SMT_ROOT_PREFIX_def
      manifest_key_def MANIFEST_PREFIX_def blockhash_key_def BLOCK_HASH_PREFIX_def)

lemma to_labeled_key_inject [simp]: "to_labeled_key l k = to_labeled_key l k' \<longleftrightarrow> k = k'"
  by (simp add: to_labeled_key_def split: option.splits)

end
