(* ===== verification/Store.thy ===== *)
theory Store
  imports KeyUtils
begin

text \<open>
  The storage interface of \<open>crates/metashrew-runtime/src/traits.rs\<close>: a batch is the list
  of its operations in order (\<open>BatchLike\<close>), and a backend is seen through its reads
  (\<open>KeyValueStoreLike::get_immutable\<close>), which may fail, and through the effect of
  writing a batch. Code that is generic in the backend takes the reader as an argument;
  its theorems are about readers of a database contents \<open>m\<close>, written \<open>reader_of m\<close>.
\<close>

type_synonym kvmap = "bytes \<rightharpoonup> bytes"
type_synonym reader = "bytes \<Rightarrow> bytes option result"

datatype batch_op = Put bytes bytes | Delete bytes

type_synonym batch = "batch_op list"

fun op_key :: "batch_op \<Rightarrow> bytes" where
  "op_key (Put k v) = k"
| "op_key (Delete k) = k"

fun apply_op :: "batch_op \<Rightarrow> kvmap \<Rightarrow> kvmap" where
  "apply_op (Put k v) m = m(k \<mapsto> v)"
| "apply_op (Delete k) m = m(k := None)"

definition apply_ops :: "batch \<Rightarrow> kvmap \<Rightarrow> kvmap" where
  "apply_ops ops m = fold apply_op ops m"

definition reader_of :: "kvmap \<Rightarrow> reader" where
  "reader_of m = (\<lambda>k. Inr (m k))"

text \<open>\<open>.map_err(|e| anyhow!("Storage error: \{:?\}", e))\<close>\<close>

definition storage_err :: "'a result \<Rightarrow> 'a result" where
  "storage_err r = (case r of Inl e \<Rightarrow> Inl (''Storage error: '' @ e) | Inr x \<Rightarrow> Inr x)"

text \<open>
  Unsigned addition as a build with overflow checks executes it: the sum, or the panic.
\<close>

definition add_u32 :: "nat \<Rightarrow> nat \<Rightarrow> nat result" where
  "add_u32 a b = (if a + b \<le> u32_max then Inr (a + b) else Inl ''attempt to add with overflow'')"

lemma storage_err_Inr [simp]: "storage_err (Inr x) = Inr x"
  by (simp add: storage_err_def)

lemma storage_err_reader_of [simp]: "storage_err (reader_of m k) = Inr (m k)"
  by (simp add: reader_of_def)

lemma reader_of_apply: "reader_of m k = Inr (m k)"
  by (simp add: reader_of_def)

lemma rbind_reader_of [simp]: "rbind (reader_of m k) f = f (m k)"
  by (simp add: reader_of_def)

lemma add_u32_ok [simp]: "a + b \<le> u32_max \<Longrightarrow> add_u32 a b = Inr (a + b)"
  by (simp add: add_u32_def)

lemma add_u32_Inr: "add_u32 a b = Inr c \<longleftrightarrow> a + b \<le> u32_max \<and> c = a + b"
  by (auto simp: add_u32_def)

lemma apply_ops_Nil [simp]: "apply_ops [] m = m"
  by (simp add: apply_ops_def)

lemma apply_ops_Cons [simp]: "apply_ops (x # xs) m = apply_ops xs (apply_op x m)"
  by (simp add: apply_ops_def)

lemma apply_ops_append [simp]: "apply_ops (xs @ ys) m = apply_ops ys (apply_ops xs m)"
  by (simp add: apply_ops_def)

lemma apply_op_other [simp]: "k \<noteq> op_key x \<Longrightarrow> apply_op x m k = m k"
  by (cases x) auto

lemma apply_op_key_cong: "m k = m' k \<Longrightarrow> apply_op x m k = apply_op x m' k"
  by (cases x) simp_all

lemma apply_ops_key_cong: "m k = m' k \<Longrightarrow> apply_ops ops m k = apply_ops ops m' k"
proof (induction ops arbitrary: m m')
  case (Cons x xs)
  show ?case unfolding apply_ops_Cons
    by (rule Cons.IH) (rule apply_op_key_cong [of m k m', OF Cons.prems])
qed simp

lemma apply_ops_other: "k \<notin> op_key ` set ops \<Longrightarrow> apply_ops ops m k = m k"
proof (induction ops arbitrary: m)
  case (Cons x xs)
  then have "apply_ops xs (apply_op x m) k = apply_op x m k" by simp
  with Cons.prems show ?case by simp
qed simp

text \<open>The value a batch leaves at a key depends on the operations on that key alone.\<close>

lemma apply_ops_filter: "apply_ops ops m k = apply_ops (filter (\<lambda>x. op_key x = k) ops) m k"
proof (induction ops arbitrary: m)
  case (Cons x xs)
  show ?case
  proof (cases "op_key x = k")
    case False
    have "apply_ops (x # xs) m k = apply_ops (filter (\<lambda>y. op_key y = k) xs) (apply_op x m) k"
      unfolding apply_ops_Cons by (rule Cons.IH)
    also have "\<dots> = apply_ops (filter (\<lambda>y. op_key y = k) xs) m k"
      by (rule apply_ops_key_cong) (use False in simp)
    finally show ?thesis using False by simp
  next
    case True
    have "apply_ops (x # xs) m k = apply_ops (filter (\<lambda>y. op_key y = k) xs) (apply_op x m) k"
      unfolding apply_ops_Cons by (rule Cons.IH)
    with True show ?thesis by simp
  qed
qed simp

lemma apply_ops_map_Delete:
  "apply_ops (map (\<lambda>i. Delete (f i)) is) m k = (if k \<in> f ` set is then None else m k)"
  by (induction "is" arbitrary: m) auto

lemma apply_ops_map_Put_nth:
  assumes "distinct (map f is)"
  shows "apply_ops (map (\<lambda>i. Put (f i) (g i)) is) m k =
    (case find (\<lambda>i. f i = k) is of Some i \<Rightarrow> Some (g i) | None \<Rightarrow> m k)"
  using assms
proof (induction "is" arbitrary: m)
  case (Cons i js)
  show ?case
  proof (cases "f i = k")
    case True
    with Cons.prems have "k \<notin> op_key ` set (map (\<lambda>i. Put (f i) (g i)) js)" by auto
    with True show ?thesis by (simp add: apply_ops_other)
  next
    case False
    with Cons show ?thesis by (simp split: option.splits)
  qed
qed simp

end
