(* ===== verification/RocksDb.thy ===== *)
theory RocksDb
  imports Store "HOL-Library.AList"
begin

text \<open>
  RocksDB is not part of the repository. The adapters' model takes its operations as a
  record, and the contract says what the adapters rely on, as the library documents it:
  reads show the database's contents, a write batch is applied in order and as a whole or
  not at all, and an iterator from the start lists every entry once in key order.
  \<open>list_rocks\<close> is a concrete instance, an ordered association list, on which the
  properties with this hypothesis are exercised.
\<close>

record 'd rocks =
  rocks_get :: "'d \<Rightarrow> bytes \<Rightarrow> bytes option result"
  rocks_put :: "bytes \<Rightarrow> bytes \<Rightarrow> ('d, unit) st"
  rocks_delete :: "bytes \<Rightarrow> ('d, unit) st"
  rocks_write :: "batch \<Rightarrow> ('d, unit) st"
  rocks_write_sync :: "batch \<Rightarrow> ('d, unit) st"
  rocks_iterator :: "'d \<Rightarrow> (bytes \<times> bytes) result list"

text \<open>Every operation either takes full effect or reports an error and changes nothing.\<close>

definition all_or_nothing :: "('d \<Rightarrow> kvmap) \<Rightarrow> batch \<Rightarrow> ('d, unit) st \<Rightarrow> bool" where
  "all_or_nothing contents ops f \<longleftrightarrow>
     (\<forall>d. case f d of
        (Inr _, d') \<Rightarrow> contents d' = apply_ops ops (contents d)
      | (Inl _, d') \<Rightarrow> contents d' = contents d)"

definition rocks_atomic :: "'d rocks \<Rightarrow> ('d \<Rightarrow> kvmap) \<Rightarrow> bool" where
  "rocks_atomic R contents \<longleftrightarrow>
     (\<forall>d k v. rocks_get R d k = Inr v \<longrightarrow> v = contents d k)
   \<and> (\<forall>k v. all_or_nothing contents [Put k v] (rocks_put R k v))
   \<and> (\<forall>k. all_or_nothing contents [Delete k] (rocks_delete R k))
   \<and> (\<forall>b. all_or_nothing contents b (rocks_write R b))
   \<and> (\<forall>b. all_or_nothing contents b (rocks_write_sync R b))"

text \<open>A database on which no operation fails.\<close>

definition succeeds :: "('d, unit) st \<Rightarrow> bool" where
  "succeeds f \<longleftrightarrow> (\<forall>d. \<exists>d'. f d = (Inr (), d'))"

definition rocks_ok :: "'d rocks \<Rightarrow> ('d \<Rightarrow> kvmap) \<Rightarrow> bool" where
  "rocks_ok R contents \<longleftrightarrow>
     rocks_atomic R contents
   \<and> (\<forall>d k. rocks_get R d k = Inr (contents d k))
   \<and> (\<forall>k v. succeeds (rocks_put R k v)) \<and> (\<forall>k. succeeds (rocks_delete R k))
   \<and> (\<forall>b. succeeds (rocks_write R b)) \<and> (\<forall>b. succeeds (rocks_write_sync R b))
   \<and> (\<forall>d. \<exists>kvs. rocks_iterator R d = map Inr kvs \<and> sorted (map fst kvs) \<and> distinct (map fst kvs)
          \<and> map_of kvs = contents d)"

lemma all_or_nothing_Inr:
  "all_or_nothing contents ops f \<Longrightarrow> f d = (Inr u, d') \<Longrightarrow> contents d' = apply_ops ops (contents d)"
  unfolding all_or_nothing_def by (metis (mono_tags, lifting) case_prod_conv sum.case(2))

lemma all_or_nothing_Inl:
  "all_or_nothing contents ops f \<Longrightarrow> f d = (Inl e, d') \<Longrightarrow> contents d' = contents d"
  unfolding all_or_nothing_def by (metis (mono_tags, lifting) case_prod_conv sum.case(1))

lemma rocks_run:
  "all_or_nothing contents ops f \<Longrightarrow> succeeds f \<Longrightarrow>
   \<exists>d'. f d = (Inr (), d') \<and> contents d' = apply_ops ops (contents d)"
  unfolding succeeds_def using all_or_nothing_Inr by metis

lemma rocks_okD:
  assumes "rocks_ok R contents"
  shows "rocks_get R d k = Inr (contents d k)"
    and "\<exists>d'. rocks_put R k v d = (Inr (), d') \<and> contents d' = (contents d)(k \<mapsto> v)"
    and "\<exists>d'. rocks_delete R k d = (Inr (), d') \<and> contents d' = (contents d)(k := None)"
    and "\<exists>d'. rocks_write R b d = (Inr (), d') \<and> contents d' = apply_ops b (contents d)"
    and "\<exists>d'. rocks_write_sync R b d = (Inr (), d') \<and> contents d' = apply_ops b (contents d)"
proof -
  note unfolded = assms [unfolded rocks_ok_def rocks_atomic_def]
  show "rocks_get R d k = Inr (contents d k)" using unfolded by blast
  have "all_or_nothing contents [Put k v] (rocks_put R k v)" "succeeds (rocks_put R k v)"
    using unfolded by blast+
  from rocks_run [OF this, of d]
  show "\<exists>d'. rocks_put R k v d = (Inr (), d') \<and> contents d' = (contents d)(k \<mapsto> v)" by simp
  have "all_or_nothing contents [Delete k] (rocks_delete R k)" "succeeds (rocks_delete R k)"
    using unfolded by blast+
  from rocks_run [OF this, of d]
  show "\<exists>d'. rocks_delete R k d = (Inr (), d') \<and> contents d' = (contents d)(k := None)" by simp
  have "all_or_nothing contents b (rocks_write R b)" "succeeds (rocks_write R b)"
    using unfolded by blast+
  from rocks_run [OF this]
  show "\<exists>d'. rocks_write R b d = (Inr (), d') \<and> contents d' = apply_ops b (contents d)" .
  have "all_or_nothing contents b (rocks_write_sync R b)" "succeeds (rocks_write_sync R b)"
    using unfolded by blast+
  from rocks_run [OF this]
  show "\<exists>d'. rocks_write_sync R b d = (Inr (), d') \<and> contents d' = apply_ops b (contents d)" .
qed

lemma rocks_ok_iter:
  assumes "rocks_ok R contents"
  obtains kvs where "rocks_iterator R d = map Inr kvs" "sorted (map fst kvs)"
    "distinct (map fst kvs)" "map_of kvs = contents d"
  using assms unfolding rocks_ok_def by metis

lemma rocks_ok_atomic: "rocks_ok R contents \<Longrightarrow> rocks_atomic R contents"
  by (simp add: rocks_ok_def)

subsection \<open>A concrete database\<close>

type_synonym list_db = "(bytes \<times> bytes) list"

fun list_apply :: "batch_op \<Rightarrow> list_db \<Rightarrow> list_db" where
  "list_apply (Put k v) d = AList.update k v d"
| "list_apply (Delete k) d = AList.delete k d"

definition list_write :: "batch \<Rightarrow> (list_db, unit) st" where
  "list_write b d = (Inr (), fold list_apply b d)"

definition list_entries :: "list_db \<Rightarrow> list_db" where
  "list_entries d = map (\<lambda>k. (k, the (map_of d k))) (remdups_adj (sort (map fst d)))"

definition list_rocks :: "list_db rocks" where
  "list_rocks = \<lparr>rocks_get = (\<lambda>d k. Inr (map_of d k)),
     rocks_put = (\<lambda>k v. list_write [Put k v]), rocks_delete = (\<lambda>k. list_write [Delete k]),
     rocks_write = list_write, rocks_write_sync = list_write,
     rocks_iterator = (\<lambda>d. map Inr (list_entries d))\<rparr>"

lemma map_of_list_apply: "map_of (fold list_apply b d) = apply_ops b (map_of d)"
proof (induction b arbitrary: d)
  case (Cons x b)
  have "map_of (list_apply x d) = apply_op x (map_of d)"
    by (cases x) (simp_all add: update_conv' delete_conv')
  with Cons show ?case by simp
qed simp

lemma list_entries_facts:
  "map fst (list_entries d) = remdups_adj (sort (map fst d))" "map_of (list_entries d) = map_of d"
proof -
  show "map fst (list_entries d) = remdups_adj (sort (map fst d))"
    by (simp add: list_entries_def comp_def)
  have tab: "map_of (map (\<lambda>k. (k, f k)) ks) k = (if k \<in> set ks then Some (f k) else None)"
    for f :: "bytes \<Rightarrow> bytes" and ks k
    by (induction ks) auto
  show "map_of (list_entries d) = map_of d"
  proof
    fix k
    show "map_of (list_entries d) k = map_of d k"
    proof (cases "map_of d k")
      case None
      then have "k \<notin> fst ` set d" by (simp add: map_of_eq_None_iff)
      with None show ?thesis by (simp add: list_entries_def tab)
    next
      case (Some v)
      then have "k \<in> fst ` set d" by (force dest: map_of_SomeD)
      with Some show ?thesis by (simp add: list_entries_def tab)
    qed
  qed
qed

lemma list_rocks_ok: "rocks_ok list_rocks map_of"
proof -
  have aon: "all_or_nothing map_of b (list_write b)" and suc: "succeeds (list_write b)" for b
    by (simp_all add: all_or_nothing_def succeeds_def list_write_def map_of_list_apply)
  have "\<exists>kvs. rocks_iterator list_rocks d = map Inr kvs \<and> sorted (map fst kvs)
      \<and> distinct (map fst kvs) \<and> map_of kvs = map_of d" for d
    by (rule exI [of _ "list_entries d"])
       (simp add: list_rocks_def list_entries_facts distinct_remdups_adj_sorted)
  then show ?thesis
    by (simp add: rocks_ok_def rocks_atomic_def list_rocks_def aon suc)
qed

end
