(* ===== verification/HexCodec.thy ===== *)
theory HexCodec
  imports Store
begin

text \<open>
  The \<open>hex\<close> crate is not part of the repository: \<open>hex::encode\<close> and \<open>hex::decode\<close> are
  the parameters \<open>hexe\<close> and \<open>hexd\<close> of the model, and the locale states what the code
  relies on. The interpretation shows that the contract is met by the repository's own
  encoder \<open>encode_hex_fast\<close> (\<open>key_utils.rs\<close>) together with a decoder of hexadecimal text.
\<close>

locale hex_codec =
  fixes hexe :: "bytes \<Rightarrow> bytes" and hexd :: "bytes \<Rightarrow> bytes option"
  assumes decode_encode: "hexd (hexe v) = Some v"
    and encode_ascii: "ascii (hexe v)"
begin

lemma encode_inject: "hexe v = hexe w \<longleftrightarrow> v = w"
  by (metis decode_encode option.inject)

lemma lossy_encode: "utf8_lossy (hexe v) = hexe v"
  by (rule utf8_lossy_ascii) (rule encode_ascii)

end

definition hex_val :: "char \<Rightarrow> nat option" where
  "hex_val c =
     (let n = of_char c in
      if 48 \<le> n \<and> n \<le> 57 then Some (n - 48)
      else if 97 \<le> n \<and> n \<le> 102 then Some (n - 87)
      else if 65 \<le> n \<and> n \<le> 70 then Some (n - 55) else None)"

fun hex_decode :: "bytes \<Rightarrow> bytes option" where
  "hex_decode [] = Some []"
| "hex_decode [c] = None"
| "hex_decode (c # d # cs) =
     (case (hex_val c, hex_val d, hex_decode cs) of
        (Some a, Some b, Some bs) \<Rightarrow> Some (char_of (16 * a + b) # bs)
      | _ \<Rightarrow> None)"

lemma hex_val_HEX_CHARS: "n < 16 \<Longrightarrow> hex_val (HEX_CHARS ! n) = Some n"
proof -
  assume "n < 16"
  then have "n \<in> set [0..<16]" by simp
  then show ?thesis by (auto simp: upt_conv_Cons HEX_CHARS_def hex_val_def)
qed

lemma HEX_CHARS_ascii: "n < 16 \<Longrightarrow> (of_char (HEX_CHARS ! n) :: nat) < 128"
proof -
  assume "n < 16"
  then have "n \<in> set [0..<16]" by simp
  then show ?thesis by (auto simp: upt_conv_Cons HEX_CHARS_def)
qed

lemma nibbles_less: "(of_char b :: nat) div 16 < 16" "(of_char b :: nat) mod 16 < 16"
  using of_char_less [of b] by (simp_all add: less_mult_imp_div_less)

lemma hex_decode_encode: "hex_decode (encode_hex_fast v) = Some v"
proof (induction v)
  case (Cons b v)
  have "16 * ((of_char b :: nat) div 16) + of_char b mod 16 = of_char b" by simp
  then have "char_of (16 * ((of_char b :: nat) div 16) + of_char b mod 16) = b"
    by (simp only: char_of_char)
  with Cons show ?case
    by (simp add: encode_hex_fast_eq hex_byte_def hex_val_HEX_CHARS nibbles_less)
qed (simp add: encode_hex_fast_eq)

lemma encode_hex_fast_ascii: "ascii (encode_hex_fast v)"
proof (induction v)
  case (Cons b v)
  then show ?case
    by (simp add: encode_hex_fast_eq hex_byte_def HEX_CHARS_ascii nibbles_less)
qed (simp add: encode_hex_fast_eq)

interpretation hx: hex_codec encode_hex_fast hex_decode
  by unfold_locales (rule hex_decode_encode encode_hex_fast_ascii)+

end
