(* ===== verification/AppendLog.thy ===== *)
theory AppendLog
  imports HexCodec
begin

text \<open>
  The append-only store of \<open>crates/metashrew-runtime/src/smt.rs\<close>: for every user key,
  \<open>key/length\<close> holds the number of updates and \<open>key/i\<close> the i-th update as
  \<open>height:hex(value)\<close>. The operations are those of \<open>SMTHelper\<close> and the fast lookup of
  \<open>BatchedSMTHelper\<close>; \<open>has_log\<close> relates a database to the list of updates it stores
  for a key, and \<open>value_at\<close> is what a historical query means on that list.
\<close>

subsection \<open>Reading and appending\<close>

text \<open>\<open>String::from_utf8_lossy(&b).parse::<u32>().unwrap_or(0)\<close>\<close>

definition parsed_length :: "bytes \<Rightarrow> nat" where
  "parsed_length b = (case parse_u32 (utf8_lossy b) of Some n \<Rightarrow> n | None \<Rightarrow> 0)"

definition entry_bytes :: "(bytes \<Rightarrow> bytes) \<Rightarrow> nat \<Rightarrow> bytes \<Rightarrow> bytes" where
  "entry_bytes hexe height value = dec height @ CHR '':'' # hexe value"

definition put_to_batch ::
    "(bytes \<Rightarrow> bytes) \<Rightarrow> reader \<Rightarrow> batch \<Rightarrow> bytes \<Rightarrow> bytes \<Rightarrow> nat \<Rightarrow> batch result" where
  "put_to_batch hexe rd batch key value height =
     rbind (storage_err (rd (length_key key))) (\<lambda>r.
       let current_length = (case r of Some b \<Rightarrow> parsed_length b | None \<Rightarrow> 0);
           batch1 = batch @ [Put (update_key key current_length) (entry_bytes hexe height value)]
       in rbind (add_u32 current_length 1) (\<lambda>new_length.
            Inr (batch1 @ [Put (length_key key) (dec new_length)])))"

definition smt_put ::
    "(bytes \<Rightarrow> bytes) \<Rightarrow> reader \<Rightarrow> (batch \<Rightarrow> 's result) \<Rightarrow> bytes \<Rightarrow> bytes \<Rightarrow> nat \<Rightarrow> 's result" where
  "smt_put hexe rd write key value height =
     rbind (put_to_batch hexe rd [] key value height) (\<lambda>batch. storage_err (write batch))"

text \<open>The binary search of \<open>SMTHelper::get_at_height\<close>.\<close>

function search_updates ::
    "reader \<Rightarrow> (bytes \<Rightarrow> bytes option) \<Rightarrow> bytes \<Rightarrow> nat \<Rightarrow> nat \<Rightarrow> nat \<Rightarrow> bytes option \<Rightarrow> bytes option result" where
  "search_updates rd hexd key height left right best =
     (if left < right then
        rbind (add_u32 left right) (\<lambda>s.
        rbind (storage_err (rd (update_key key (s div 2)))) (\<lambda>r.
          case r of
            Some update_data \<Rightarrow>
              (case split_colon (utf8_lossy update_data) of
                 Some (height_str, value_hex) \<Rightarrow>
                   (case parse_u32 height_str of
                      Some update_height \<Rightarrow>
                        if update_height \<le> height then
                          (case hexd value_hex of
                             Some value_bytes \<Rightarrow>
                               search_updates rd hexd key height (s div 2 + 1) right (Some value_bytes)
                           | None \<Rightarrow> Inl ''Invalid hex encoding in stored value'')
                        else search_updates rd hexd key height left (s div 2) best
                    | None \<Rightarrow> Inl ''Invalid height format in update'')
               | None \<Rightarrow> Inl ''Invalid update format'')
          | None \<Rightarrow> Inl (''Missing update at index '' @ dec (s div 2))))
      else Inr best)"
  by pat_completeness auto
termination
  by (relation "measure (\<lambda>(rd, hexd, key, height, left, right, best). right - left)")
     (auto simp: add_u32_Inr)

declare search_updates.simps [simp del]

definition get_at_height ::
    "reader \<Rightarrow> (bytes \<Rightarrow> bytes option) \<Rightarrow> bytes \<Rightarrow> nat \<Rightarrow> bytes option result" where
  "get_at_height rd hexd key height =
     rbind (storage_err (rd (length_key key))) (\<lambda>r.
       case r of
         None \<Rightarrow> Inr None
       | Some length_bytes \<Rightarrow>
           let n = parsed_length length_bytes
           in if n = 0 then Inr None else search_updates rd hexd key height 0 n None)"

text \<open>
  \<open>BatchedSMTHelper::get_at_height_fast\<close>: the same search, with the assignments in the
  order its own copy of the loop has them.
\<close>

function search_updates_fast ::
    "reader \<Rightarrow> (bytes \<Rightarrow> bytes option) \<Rightarrow> bytes \<Rightarrow> nat \<Rightarrow> nat \<Rightarrow> nat \<Rightarrow> bytes option \<Rightarrow> bytes option result" where
  "search_updates_fast rd hexd key height left right best =
     (if \<not> left < right then Inr best
      else
        rbind (add_u32 left right) (\<lambda>s.
        rbind (storage_err (rd (update_key key (s div 2)))) (\<lambda>r.
          case r of
            None \<Rightarrow> Inl (''Missing update at index '' @ dec (s div 2))
          | Some update_data \<Rightarrow>
              (case split_colon (utf8_lossy update_data) of
                 None \<Rightarrow> Inl ''Invalid update format''
               | Some (height_str, value_hex) \<Rightarrow>
                   (case parse_u32 height_str of
                      None \<Rightarrow> Inl ''Invalid height format in update''
                    | Some update_height \<Rightarrow>
                        if update_height \<le> height then
                          rbind (case hexd value_hex of
                                   Some value_bytes \<Rightarrow> Inr (Some value_bytes)
                                 | None \<Rightarrow> Inl ''Invalid hex encoding in stored value'')
                            (\<lambda>best_value.
                               search_updates_fast rd hexd key height (s div 2 + 1) right best_value)
                        else search_updates_fast rd hexd key height left (s div 2) best)))))"
  by pat_completeness auto
termination
  by (relation "measure (\<lambda>(rd, hexd, key, height, left, right, best). right - left)")
     (auto simp: add_u32_Inr)

declare search_updates_fast.simps [simp del]

definition get_at_height_fast ::
    "reader \<Rightarrow> (bytes \<Rightarrow> bytes option) \<Rightarrow> bytes \<Rightarrow> nat \<Rightarrow> bytes option result" where
  "get_at_height_fast rd hexd key height =
     rbind (storage_err (rd (length_key key))) (\<lambda>r.
       case r of
         None \<Rightarrow> Inr None
       | Some length_bytes \<Rightarrow>
           let n = parsed_length length_bytes
           in if n = 0 then Inr None else search_updates_fast rd hexd key height 0 n None)"

definition get_current :: "reader \<Rightarrow> (bytes \<Rightarrow> bytes option) \<Rightarrow> bytes \<Rightarrow> bytes option result" where
  "get_current rd hexd key =
     rbind (storage_err (rd (length_key key))) (\<lambda>r.
       case r of
         None \<Rightarrow> Inr None
       | Some length_bytes \<Rightarrow>
           let n = parsed_length length_bytes
           in if n = 0 then Inr None
              else rbind (storage_err (rd (update_key key (n - 1)))) (\<lambda>u.
                case u of
                  Some update_data \<Rightarrow>
                    (case split_colon (utf8_lossy update_data) of
                       Some (_, value_hex) \<Rightarrow>
                         (case hexd value_hex of
                            Some value_bytes \<Rightarrow> Inr (Some value_bytes)
                          | None \<Rightarrow> Inl ''Invalid hex encoding in stored value'')
                     | None \<Rightarrow> Inl ''Invalid update format'')
                | None \<Rightarrow> Inr None))"

text \<open>The height an update records, when it parses (the \<open>if let\<close> chains of the scans).\<close>

definition update_height_of :: "bytes \<Rightarrow> nat option" where
  "update_height_of update_data =
     (case split_colon (utf8_lossy update_data) of
        Some (height_str, _) \<Rightarrow> parse_u32 height_str
      | None \<Rightarrow> None)"

definition get_heights_for_key :: "reader \<Rightarrow> bytes \<Rightarrow> nat list result" where
  "get_heights_for_key rd key =
     rbind (storage_err (rd (length_key key))) (\<lambda>r.
       case r of
         None \<Rightarrow> Inr []
       | Some length_bytes \<Rightarrow>
           rbind
             (rfold (\<lambda>i heights.
                rbind (storage_err (rd (update_key key i))) (\<lambda>u.
                  Inr (case Option.bind u update_height_of of
                         Some height \<Rightarrow> heights @ [height]
                       | None \<Rightarrow> heights)))
                [0..<parsed_length length_bytes] [])
             (\<lambda>heights. Inr (sort heights)))"

text \<open>The key a stored \<open>/length\<close> record belongs to.\<close>

definition length_suffix :: bytes where "length_suffix = ''/length''"

definition get_keys_at_height ::
    "reader \<Rightarrow> (bytes \<Rightarrow> (bytes \<times> bytes) list result) \<Rightarrow> nat \<Rightarrow> bytes list result" where
  "get_keys_at_height rd scan height =
     rbind (storage_err (scan [])) (\<lambda>stored.
       rfold (\<lambda>(stored_key, _) keys.
          if ends_with stored_key length_suffix then
            let original_key = strip_suffix_len length_suffix stored_key
            in rbind (get_heights_for_key rd original_key) (\<lambda>heights.
                 Inr (if height \<in> set heights then keys @ [original_key] else keys))
          else Inr keys) stored [])"

definition iterate_backwards ::
    "reader \<Rightarrow> (bytes \<Rightarrow> bytes option) \<Rightarrow> bytes \<Rightarrow> nat \<Rightarrow> (nat \<times> bytes) list result" where
  "iterate_backwards rd hexd key from_height =
     rbind (get_heights_for_key rd key) (\<lambda>heights.
       rfold (\<lambda>height results.
          rbind (get_at_height rd hexd key height) (\<lambda>v.
            Inr (case v of Some value \<Rightarrow> results @ [(height, value)] | None \<Rightarrow> results)))
         (rev (sort (filter (\<lambda>h. h \<le> from_height) heights))) [])"

subsection \<open>Rolling back\<close>

definition rollback_key_to_batch :: "reader \<Rightarrow> batch \<Rightarrow> bytes \<Rightarrow> nat \<Rightarrow> batch result" where
  "rollback_key_to_batch rd batch key target_height =
     rbind (get_heights_for_key rd key) (\<lambda>_.
     rbind (storage_err (rd (length_key key))) (\<lambda>r.
       case r of
         None \<Rightarrow> Inr batch
       | Some length_bytes \<Rightarrow>
           rbind
             (rfold (\<lambda>i (batch, new_length).
                rbind (storage_err (rd (update_key key i))) (\<lambda>u.
                  Inr (case Option.bind u update_height_of of
                         Some update_height \<Rightarrow>
                           if update_height \<le> target_height then (batch, i + 1)
                           else (batch @ [Delete (update_key key i)], new_length)
                       | None \<Rightarrow> (batch, new_length))))
                [0..<parsed_length length_bytes] (batch, 0))
             (\<lambda>(batch, new_length). Inr (batch @ [Put (length_key key) (dec new_length)]))))"

definition rollback_key ::
    "reader \<Rightarrow> (batch \<Rightarrow> 's result) \<Rightarrow> bytes \<Rightarrow> nat \<Rightarrow> 's result" where
  "rollback_key rd write key target_height =
     rbind (rollback_key_to_batch rd [] key target_height) (\<lambda>batch. storage_err (write batch))"

definition rollback_to_height_to_batch ::
    "reader \<Rightarrow> (bytes \<Rightarrow> (bytes \<times> bytes) list result) \<Rightarrow> batch \<Rightarrow> nat \<Rightarrow> batch result" where
  "rollback_to_height_to_batch rd scan batch target_height =
     rbind (storage_err (scan [])) (\<lambda>stored.
       rfold (\<lambda>key batch. rollback_key_to_batch rd batch key target_height)
         (map (\<lambda>(stored_key, _). strip_suffix_len length_suffix stored_key)
            (filter (\<lambda>(stored_key, _). ends_with stored_key length_suffix) stored))
         batch)"

definition rollback_to_height ::
    "reader \<Rightarrow> (bytes \<Rightarrow> (bytes \<times> bytes) list result) \<Rightarrow> (batch \<Rightarrow> 's result) \<Rightarrow> nat \<Rightarrow> 's result" where
  "rollback_to_height rd scan write target_height =
     rbind (rollback_to_height_to_batch rd scan [] target_height) (\<lambda>batch. storage_err (write batch))"

end
