(* ===== verification/LogSpec.thy ===== *)
theory LogSpec
  imports AppendLog
begin

text \<open>
  What the append-only store means. \<open>has_log hexe m key us\<close> says that database \<open>m\<close> holds
  exactly the updates \<open>us\<close> (height and value, oldest first) for \<open>key\<close>; \<open>log_wf\<close> is the
  invariant block processing keeps (heights never decrease and fit a \<open>u32\<close>);
  \<open>value_at\<close> is the abstract historical lookup. The lemmas give the effect of every
  operation of \<open>AppendLog\<close> on that abstraction.
\<close>

type_synonym entry = "nat \<times> bytes"

definition has_log :: "(bytes \<Rightarrow> bytes) \<Rightarrow> kvmap \<Rightarrow> bytes \<Rightarrow> entry list \<Rightarrow> bool" where
  "has_log hexe m key us \<longleftrightarrow>
     length us \<le> u32_max
   \<and> (m (length_key key) = Some (dec (length us)) \<or> us = [] \<and> m (length_key key) = None)
   \<and> (\<forall>i < length us. m (update_key key i) = Some (entry_bytes hexe (fst (us ! i)) (snd (us ! i))))"

definition log_wf :: "entry list \<Rightarrow> bool" where
  "log_wf us \<longleftrightarrow> sorted (map fst us) \<and> (\<forall>e \<in> set us. fst e \<le> u32_max)"

definition upto_height :: "nat \<Rightarrow> entry list \<Rightarrow> entry list" where
  "upto_height h us = filter (\<lambda>e. fst e \<le> h) us"

definition value_at :: "nat \<Rightarrow> entry list \<Rightarrow> bytes option" where
  "value_at h us = (case rev (upto_height h us) of [] \<Rightarrow> None | e # _ \<Rightarrow> Some (snd e))"

text \<open>
  The search adds two indices below the length, so half of the \<open>u32\<close> range is enough
  for it not to overflow.
\<close>

definition searchable :: "entry list \<Rightarrow> bool" where
  "searchable us \<longleftrightarrow> length us \<le> 2147483648"

subsection \<open>Facts about the abstraction\<close>

lemma parsed_length_dec [simp]: "n \<le> u32_max \<Longrightarrow> parsed_length (dec n) = n"
  by (simp add: parsed_length_def)

lemma parsed_length_le [simp]: "parsed_length b \<le> u32_max"
  by (auto simp: parsed_length_def split: option.splits dest: parse_u32_bound)

lemma has_logD:
  assumes "has_log hexe m key us"
  shows "length us \<le> u32_max"
    and "i < length us \<Longrightarrow> m (update_key key i) = Some (entry_bytes hexe (fst (us ! i)) (snd (us ! i)))"
    and "m (length_key key) = None \<Longrightarrow> us = []"
    and "m (length_key key) = Some b \<Longrightarrow> parsed_length b = length us"
  using assms by (auto simp: has_log_def)

lemma has_log_empty: "m (length_key key) = None \<Longrightarrow> has_log hexe m key []"
  by (simp add: has_log_def)

lemma has_log_cong:
  "(\<And>i. m (update_key key i) = m' (update_key key i)) \<Longrightarrow> m (length_key key) = m' (length_key key) \<Longrightarrow>
   has_log hexe m key us = has_log hexe m' key us"
  by (simp add: has_log_def)

lemma log_wf_append: "log_wf (us @ [(h, v)]) \<longleftrightarrow> log_wf us \<and> h \<le> u32_max \<and> (\<forall>e \<in> set us. fst e \<le> h)"
  by (auto simp: log_wf_def sorted_append)

lemma log_wf_upto: "log_wf us \<Longrightarrow> log_wf (upto_height h us)"
  by (auto simp: log_wf_def upto_height_def sorted_filter)

lemma upto_height_take: "log_wf us \<Longrightarrow> upto_height h us = take (length (upto_height h us)) us"
proof -
  assume "log_wf us"
  then have "upto_height h us = takeWhile (\<lambda>e. fst e \<le> h) us"
    unfolding upto_height_def log_wf_def by (intro sorted_wrt_filter_takeWhile) simp
  then show ?thesis by (metis takeWhile_eq_take)
qed

lemma upto_height_le: "length (upto_height h us) \<le> length us"
  by (simp add: upto_height_def)

text \<open>In a well-formed log the first \<open>k\<close> updates are those at or below the height.\<close>

lemma upto_height_nth:
  assumes "log_wf us" "i < length us"
  shows "fst (us ! i) \<le> h \<longleftrightarrow> i < length (upto_height h us)"
proof -
  have tw: "upto_height h us = takeWhile (\<lambda>e. fst e \<le> h) us"
    using assms(1) unfolding upto_height_def log_wf_def
    by (intro sorted_wrt_filter_takeWhile) simp
  show ?thesis
  proof
    assume le: "fst (us ! i) \<le> h"
    have "\<forall>j \<le> i. fst (us ! j) \<le> fst (us ! i)"
      using assms sorted_nth_mono [of "map fst us"] by (auto simp: log_wf_def)
    with le have all: "\<And>j. j \<le> i \<Longrightarrow> fst (us ! j) \<le> h" by (meson le_trans)
    show "i < length (upto_height h us)"
    proof (rule ccontr)
      assume "\<not> i < length (upto_height h us)"
      then have "length (takeWhile (\<lambda>e. fst e \<le> h) us) \<le> i" using tw by simp
      moreover from this have "\<not> fst (us ! length (takeWhile (\<lambda>e. fst e \<le> h) us)) \<le> h"
        using assms(2) by (intro nth_length_takeWhile) simp
      ultimately show False using all by blast
    qed
  next
    assume "i < length (upto_height h us)"
    then have "i < length (takeWhile (\<lambda>e. fst e \<le> h) us)" using tw by simp
    then show "fst (us ! i) \<le> h"
      by (metis nth_mem set_takeWhileD takeWhile_nth)
  qed
qed

lemma value_at_eq:
  assumes "log_wf us"
  shows "value_at h us =
    (let k = length (upto_height h us) in if k = 0 then None else Some (snd (us ! (k - 1))))"
proof (cases "upto_height h us" rule: rev_cases)
  case Nil
  then show ?thesis by (simp add: value_at_def)
next
  case (snoc ys y)
  have "y = us ! length ys"
    using upto_height_take [OF assms, of h] snoc
    by (metis length_append_singleton lessI nth_append_length nth_take)
  with snoc show ?thesis by (simp add: value_at_def)
qed

lemma value_at_snoc: "value_at h (us @ [(h', v)]) = (if h' \<le> h then Some v else value_at h us)"
  by (simp add: value_at_def upto_height_def)

lemma value_at_upto: "value_at h (upto_height h' us) = value_at (min h h') us"
proof -
  have "upto_height h (upto_height h' us) = upto_height (min h h') us"
    unfolding upto_height_def by (induction us) auto
  then show ?thesis by (simp add: value_at_def)
qed

lemma value_at_above: "\<forall>e \<in> set us. fst e \<le> h \<Longrightarrow> value_at h us = (if us = [] then None else Some (snd (last us)))"
  by (cases us rule: rev_cases) (auto simp: value_at_def upto_height_def)

subsection \<open>Reading an update back\<close>

context hex_codec
begin

lemma entry_lossy: "utf8_lossy (entry_bytes hexe h v) = entry_bytes hexe h v"
  by (rule utf8_lossy_ascii) (simp add: entry_bytes_def encode_ascii)

lemma split_entry: "split_colon (utf8_lossy (entry_bytes hexe h v)) = Some (dec h, hexe v)"
  by (simp only: entry_lossy) (simp add: entry_bytes_def)

lemma update_height_entry: "h \<le> u32_max \<Longrightarrow> update_height_of (entry_bytes hexe h v) = Some h"
  by (simp add: update_height_of_def split_entry)

lemma search_updates_invariant:
  assumes log: "has_log hexe m key us" and wf: "log_wf us" and short: "searchable us"
    and k: "k = length (upto_height h us)"
    and bounds: "left \<le> k" "k \<le> right" "right \<le> length us"
    and best: "best = (if left = 0 then None else Some (snd (us ! (left - 1))))"
  shows "search_updates (reader_of m) hexd key h left right best
    = Inr (if k = 0 then None else Some (snd (us ! (k - 1))))"
  using bounds best
proof (induction "right - left" arbitrary: left right best rule: less_induct)
  case less
  show ?case
  proof (cases "left < right")
    case False
    with less.prems have "left = k" by linarith
    with False less.prems(4) show ?thesis by (subst search_updates.simps) auto
  next
    case True
    define mid where "mid = (left + right) div 2"
    have mid: "left \<le> mid" "mid < right" using True unfolding mid_def by linarith+
    then have midl: "mid < length us" using less.prems by linarith
    have add: "add_u32 left right = Inr (left + right)"
      using less.prems short True by (intro add_u32_ok) (auto simp: searchable_def u32_max_def)
    obtain uh v where e: "us ! mid = (uh, v)" by (cases "us ! mid")
    have "(uh, v) \<in> set us" using midl e by (metis nth_mem)
    then have uh: "uh \<le> u32_max" using wf by (auto simp: log_wf_def)
    have upd: "m (update_key key mid) = Some (entry_bytes hexe uh v)"
      using has_logD(2) [OF log midl] e by simp
    have cmp: "uh \<le> h \<longleftrightarrow> mid < k"
      using upto_height_nth [OF wf midl, of h] e k by simp
    note unfold = search_updates.simps [of "reader_of m" hexd key h left right best]
    show ?thesis
    proof (cases "uh \<le> h")
      case True
      have "search_updates (reader_of m) hexd key h left right best
          = search_updates (reader_of m) hexd key h (mid + 1) right (Some v)"
        by (subst unfold)
           (simp add: \<open>left < right\<close> add upd split_entry uh True decode_encode flip: mid_def)
      also have "\<dots> = Inr (if k = 0 then None else Some (snd (us ! (k - 1))))"
        using less.prems mid True cmp e by (intro less.hyps) auto
      finally show ?thesis .
    next
      case False
      have "search_updates (reader_of m) hexd key h left right best
          = search_updates (reader_of m) hexd key h left mid best"
        by (subst unfold)
           (simp add: \<open>left < right\<close> add upd split_entry uh False flip: mid_def)
      also have "\<dots> = Inr (if k = 0 then None else Some (snd (us ! (k - 1))))"
        using less.prems mid False cmp midl by (intro less.hyps) auto
      finally show ?thesis .
    qed
  qed
qed

lemma get_at_height_value:
  assumes log: "has_log hexe m key us" and wf: "log_wf us" and short: "searchable us"
  shows "get_at_height (reader_of m) hexd key h = Inr (value_at h us)"
proof (cases "m (length_key key)")
  case None
  with has_logD(3) [OF log] show ?thesis
    by (simp add: get_at_height_def value_at_def upto_height_def)
next
  case (Some b)
  then have n: "parsed_length b = length us" by (rule has_logD(4) [OF log])
  have "search_updates (reader_of m) hexd key h 0 (length us) None = Inr (value_at h us)"
    unfolding value_at_eq [OF wf] Let_def
    by (rule search_updates_invariant [OF log wf short refl]) (simp_all add: upto_height_le)
  with Some n show ?thesis
    by (auto simp: get_at_height_def Let_def value_at_def upto_height_def)
qed

end

text \<open>The two copies of the search are the same function.\<close>

lemma search_updates_fast_eq:
  "search_updates_fast rd hexd key h left right best = search_updates rd hexd key h left right best"
proof (induction "right - left" arbitrary: left right best rule: less_induct)
  case less
  show ?case
  proof (cases "left < right")
    case True
    then have 1: "search_updates_fast rd hexd key h ((left + right) div 2 + 1) right b
        = search_updates rd hexd key h ((left + right) div 2 + 1) right b" for b
      by (intro less.hyps) linarith
    from True have 2: "search_updates_fast rd hexd key h left ((left + right) div 2) b
        = search_updates rd hexd key h left ((left + right) div 2) b" for b
      by (intro less.hyps) linarith
    show ?thesis
      by (subst search_updates_fast.simps, subst search_updates.simps)
         (auto simp: True add_u32_def 1 [simplified] 2 intro!: rbind_cong split: option.splits)
  qed (simp add: search_updates_fast.simps search_updates.simps)
qed

lemma get_at_height_fast_eq: "get_at_height_fast rd hexd key h = get_at_height rd hexd key h"
  unfolding get_at_height_fast_def get_at_height_def search_updates_fast_eq ..

subsection \<open>Appending\<close>

definition append_ops :: "(bytes \<Rightarrow> bytes) \<Rightarrow> bytes \<Rightarrow> nat \<Rightarrow> bytes \<Rightarrow> nat \<Rightarrow> batch" where
  "append_ops hexe key n value height =
     [Put (update_key key n) (entry_bytes hexe height value), Put (length_key key) (dec (n + 1))]"

lemma put_to_batch_eq:
  assumes "has_log hexe m key us" "length us < u32_max"
  shows "put_to_batch hexe (reader_of m) batch key value height
    = Inr (batch @ append_ops hexe key (length us) value height)"
  using assms has_logD(3,4) [OF assms(1)]
  by (auto simp: put_to_batch_def append_ops_def Let_def split: option.splits)

lemma append_ops_log:
  assumes "has_log hexe m key us" "length us < u32_max"
  shows "has_log hexe (apply_ops (append_ops hexe key (length us) value height) m) key
    (us @ [(height, value)])"
  using assms by (auto simp: has_log_def append_ops_def nth_append)

lemma append_ops_frame:
  "key' \<noteq> key \<Longrightarrow> has_log hexe (apply_ops (append_ops hexe key n value height) m) key' us
    = has_log hexe m key' us"
  by (intro has_log_cong) (simp_all add: append_ops_def)

text \<open>A log determines its updates: the same database cannot hold two different ones.\<close>

lemma has_log_length:
  "has_log hexe m key us \<Longrightarrow> has_log hexe m key vs \<Longrightarrow> length us = length vs"
  by (cases "m (length_key key)") (metis has_logD(3), metis has_logD(4))

subsection \<open>Scanning and trimming a log\<close>

text \<open>The part of a log's database keys that an operation on \<open>key\<close> may touch.\<close>

definition log_keys :: "bytes \<Rightarrow> bytes set" where
  "log_keys key = insert (length_key key) (range (update_key key))"

lemma log_keys_disjoint: "key \<noteq> key' \<Longrightarrow> k \<in> log_keys key \<Longrightarrow> k \<notin> log_keys key'"
  by (auto simp: log_keys_def)

lemma has_log_frame:
  assumes "\<And>k. k \<in> log_keys key \<Longrightarrow> m k = m' k"
  shows "has_log hexe m key us = has_log hexe m' key us"
  using assms by (intro has_log_cong) (auto simp: log_keys_def)

definition trim_ops :: "bytes \<Rightarrow> nat \<Rightarrow> nat \<Rightarrow> batch" where
  "trim_ops key k n = map (\<lambda>i. Delete (update_key key i)) [k..<n] @ [Put (length_key key) (dec k)]"

lemma trim_ops_log:
  assumes "has_log hexe m key us" "k \<le> length us"
  shows "has_log hexe (apply_ops (trim_ops key k (length us)) m) key (take k us)"
  using assms unfolding has_log_def trim_ops_def apply_ops_append
  by (auto simp: apply_ops_map_Delete min_def)

lemma trim_ops_keys: "op_key ` set (trim_ops key k n) \<subseteq> log_keys key"
  by (auto simp: trim_ops_def log_keys_def)

context hex_codec
begin

lemma log_update_height:
  assumes "has_log hexe m key us" "log_wf us" "i < length us"
  shows "Option.bind (m (update_key key i)) update_height_of = Some (fst (us ! i))"
proof -
  have "fst (us ! i) \<le> u32_max" using assms(2,3) by (auto simp: log_wf_def)
  then show ?thesis using has_logD(2) [OF assms(1,3)] by (simp add: update_height_entry)
qed

lemma get_heights_log:
  assumes log: "has_log hexe m key us" and wf: "log_wf us"
  shows "get_heights_for_key (reader_of m) key = Inr (map fst us)"
proof -
  let ?step = "\<lambda>i heights. rbind (storage_err (reader_of m (update_key key i))) (\<lambda>u.
      Inr (case Option.bind u update_height_of of Some height \<Rightarrow> heights @ [height] | None \<Rightarrow> heights))"
  have scan: "k \<le> length us \<Longrightarrow> rfold ?step [0..<k] [] = Inr (map fst (take k us))" for k
  proof (induction k)
    case (Suc k)
    then show ?case
      using log_update_height [OF log wf, of k]
      by (simp add: rfold_append take_Suc_conv_app_nth)
  qed simp
  have srt: "sort (map fst us) = map fst us"
    using wf by (simp add: log_wf_def sorted_sort_id)
  show ?thesis
  proof (cases "m (length_key key)")
    case None
    with has_logD(3) [OF log] show ?thesis by (simp add: get_heights_for_key_def)
  next
    case (Some b)
    with has_logD(4) [OF log Some] scan [of "length us"] srt show ?thesis
      by (simp add: get_heights_for_key_def)
  qed
qed

lemma get_current_last:
  assumes log: "has_log hexe m key us"
  shows "get_current (reader_of m) hexd key = Inr (if us = [] then None else Some (snd (last us)))"
proof (cases "m (length_key key)")
  case None
  with has_logD(3) [OF log] show ?thesis by (simp add: get_current_def)
next
  case (Some b)
  then have n: "parsed_length b = length us" by (rule has_logD(4) [OF log])
  show ?thesis
  proof (cases "us = []")
    case False
    then have "m (update_key key (length us - 1))
        = Some (entry_bytes hexe (fst (last us)) (snd (last us)))"
      using has_logD(2) [OF log, of "length us - 1"] by (simp add: last_conv_nth)
    with Some n False show ?thesis
      by (simp add: get_current_def split_entry decode_encode)
  qed (use Some n in \<open>simp add: get_current_def\<close>)
qed

lemma rollback_key_log:
  assumes log: "has_log hexe m key us" and wf: "log_wf us"
  shows "rollback_key_to_batch (reader_of m) batch key h
    = Inr (batch @ (if m (length_key key) = None then []
                    else trim_ops key (length (upto_height h us)) (length us)))"
proof (cases "m (length_key key)")
  case None
  then show ?thesis by (simp add: rollback_key_to_batch_def get_heights_log [OF log wf])
next
  case (Some b)
  let ?K = "length (upto_height h us)"
  let ?step = "\<lambda>i (batch, new_length). rbind (storage_err (reader_of m (update_key key i))) (\<lambda>u.
      Inr (case Option.bind u update_height_of of
         Some update_height \<Rightarrow>
           if update_height \<le> h then (batch, i + 1) else (batch @ [Delete (update_key key i)], new_length)
       | None \<Rightarrow> (batch, new_length)))"
  have scan: "k \<le> length us \<Longrightarrow> rfold ?step [0..<k] (batch, 0)
      = Inr (batch @ map (\<lambda>i. Delete (update_key key i)) [?K..<k], min k ?K)" for k
  proof (induction k)
    case (Suc k)
    then have "rfold ?step [0..<Suc k] (batch, 0)
        = ?step k (batch @ map (\<lambda>i. Delete (update_key key i)) [?K..<k], min k ?K)"
      by (simp add: rfold_append)
    also have "\<dots> = Inr (batch @ map (\<lambda>i. Delete (update_key key i)) [?K..<Suc k], min (Suc k) ?K)"
      using Suc.prems log_update_height [OF log wf, of k] upto_height_nth [OF wf, of k h]
      by (simp add: not_less)
    finally show ?case .
  qed simp
  have "min (length us) ?K = ?K" using upto_height_le [of h us] by simp
  with Some has_logD(4) [OF log Some] scan [of "length us"] show ?thesis
    by (simp add: rollback_key_to_batch_def get_heights_log [OF log wf] trim_ops_def)
qed

lemma rollback_key_result:
  assumes log: "has_log hexe m key us" and wf: "log_wf us"
    and ops: "rollback_key_to_batch (reader_of m) [] key h = Inr ops"
  shows "has_log hexe (apply_ops ops m) key (upto_height h us)"
proof (cases "m (length_key key)")
  case None
  with ops log has_logD(3) [OF log None] show ?thesis
    by (simp add: rollback_key_log [OF log wf] upto_height_def)
next
  case (Some b)
  have "upto_height h us = take (length (upto_height h us)) us"
    by (rule upto_height_take [OF wf])
  with trim_ops_log [OF log upto_height_le [of h]] Some ops show ?thesis
    by (simp add: rollback_key_log [OF log wf])
qed

end

text \<open>
  On any database, well-formed or not, the rollback of a key succeeds and queues a fixed
  list of operations on that key's own records.
\<close>

definition rollback_ops :: "kvmap \<Rightarrow> bytes \<Rightarrow> nat \<Rightarrow> batch" where
  "rollback_ops m key h =
     (case m (length_key key) of
        None \<Rightarrow> []
      | Some b \<Rightarrow>
          let uh = (\<lambda>i. Option.bind (m (update_key key i)) update_height_of);
              is = [0..<parsed_length b]
          in map (\<lambda>i. Delete (update_key key i)) (filter (\<lambda>i. \<exists>x. uh i = Some x \<and> h < x) is)
             @ [Put (length_key key)
                  (dec (fold (\<lambda>i n. case uh i of Some x \<Rightarrow> if x \<le> h then i + 1 else n | None \<Rightarrow> n) is 0))])"

lemma rollback_key_eq:
  "rollback_key_to_batch (reader_of m) batch key h = Inr (batch @ rollback_ops m key h)"
proof (cases "m (length_key key)")
  case None
  then show ?thesis
    by (simp add: rollback_key_to_batch_def rollback_ops_def get_heights_for_key_def)
next
  case (Some b)
  let ?uh = "\<lambda>i. Option.bind (m (update_key key i)) update_height_of"
  let ?step = "\<lambda>i (batch, new_length). Inr (case ?uh i of
         Some update_height \<Rightarrow>
           if update_height \<le> h then (batch, i + 1) else (batch @ [Delete (update_key key i)], new_length)
       | None \<Rightarrow> (batch, new_length))"
  have scan: "rfold ?step is (batch, n) = Inr (batch @ map (\<lambda>i. Delete (update_key key i))
        (filter (\<lambda>i. \<exists>x. ?uh i = Some x \<and> h < x) is),
      fold (\<lambda>i n. case ?uh i of Some x \<Rightarrow> if x \<le> h then i + 1 else n | None \<Rightarrow> n) is n)"
    for "is" batch n
    by (induction "is" arbitrary: batch n) (auto split: option.splits)
  obtain heights where hs: "get_heights_for_key (reader_of m) key = Inr heights"
    using Some by (simp add: get_heights_for_key_def)
  show ?thesis
    unfolding rollback_key_to_batch_def hs rbind.simps storage_err_reader_of Some option.case scan
      rollback_ops_def Let_def prod.case append_assoc ..
qed

lemma rollback_ops_keys: "op_key ` set (rollback_ops m key h) \<subseteq> log_keys key"
  by (auto simp: rollback_ops_def Let_def log_keys_def split: option.splits)

text \<open>
  A full scan of the backend lists every entry once, in some order
  (\<open>KeyValueStoreLike::scan_prefix\<close> with the empty prefix).
\<close>

definition full_scan :: "kvmap \<Rightarrow> (bytes \<Rightarrow> (bytes \<times> bytes) list result) \<Rightarrow> bool" where
  "full_scan m scan \<longleftrightarrow>
     (\<exists>stored. scan [] = Inr stored \<and> distinct (map fst stored) \<and>
        (\<forall>k v. (k, v) \<in> set stored \<longleftrightarrow> m k = Some v))"

lemma scanned_base_keys:
  assumes "distinct (map fst stored)" "\<forall>k v. (k, v) \<in> set stored \<longleftrightarrow> m k = Some v"
  defines "keys \<equiv> map (\<lambda>(stored_key, _). strip_suffix_len length_suffix stored_key)
            (filter (\<lambda>(stored_key, _). ends_with stored_key length_suffix) stored)"
  shows "distinct keys" and "key \<in> set keys \<longleftrightarrow> m (length_key key) \<noteq> None"
proof -
  let ?sel = "filter (\<lambda>(stored_key, _). ends_with stored_key length_suffix) stored"
  have form: "map length_key keys = map fst ?sel"
    unfolding keys_def map_map
    by (rule map_cong) (auto simp: ends_with_iff length_key_def length_suffix_def strip_suffix_len_def)
  have "distinct (map fst ?sel)" using assms(1) by (simp add: distinct_map_filter)
  with form have "distinct (map length_key keys)" by simp
  then show "distinct keys" by (simp add: distinct_map)
  have "key \<in> set keys \<longleftrightarrow> length_key key \<in> set (map length_key keys)"
    by (auto simp: image_iff)
  also have "\<dots> \<longleftrightarrow> length_key key \<in> fst ` set ?sel" by (simp only: form set_map)
  also have "\<dots> \<longleftrightarrow> (\<exists>v. (length_key key, v) \<in> set stored)"
    by (force simp: length_key_def length_suffix_def)
  finally show "key \<in> set keys \<longleftrightarrow> m (length_key key) \<noteq> None"
    using assms(2) by auto
qed

text \<open>Rolling back distinct keys in one batch: each key's operations touch its own log only.\<close>

lemma rollback_keys_run:
  "rfold (\<lambda>key batch. rollback_key_to_batch (reader_of m) batch key h) keys batch
     = Inr (batch @ concat (map (\<lambda>key. rollback_ops m key h) keys))"
  by (induction keys arbitrary: batch) (simp_all add: rollback_key_eq)

lemma per_key_effect:
  assumes keys: "\<And>key. op_key ` set (f key) \<subseteq> log_keys key"
    and "distinct keys" "k \<in> log_keys key"
  shows "apply_ops (concat (map f keys)) m k
    = (if key \<in> set keys then apply_ops (f key) m k else m k)"
proof -
  have others: "apply_ops (concat (map f ks)) m' k = m' k"
    if "key \<notin> set ks" for ks m'
  proof (rule apply_ops_other)
    have "k \<notin> op_key ` set (f key')" if "key' \<in> set ks" for key'
      using log_keys_disjoint [of key key' k] keys [of key'] assms(3) that
        \<open>key \<notin> set ks\<close> by blast
    then show "k \<notin> op_key ` set (concat (map f ks))" by auto
  qed
  show ?thesis
  proof (cases "key \<in> set keys")
    case True
    then obtain as bs where split: "keys = as @ key # bs" by (auto dest: split_list)
    then have "key \<notin> set as" "key \<notin> set bs" using assms(2) by auto
    then show ?thesis
      using True others [of bs] others [of as m]
      by (simp add: split) (rule apply_ops_key_cong)
  qed (simp add: others)
qed

lemma rollback_keys_effect:
  assumes "distinct keys" "k \<in> log_keys key"
  shows "apply_ops (concat (map (\<lambda>key. rollback_ops m key h) keys)) m k
    = (if key \<in> set keys then apply_ops (rollback_ops m key h) m k else m k)"
  by (rule per_key_effect [OF rollback_ops_keys assms])

context hex_codec
begin

lemma rollback_ops_log:
  assumes "has_log hexe m key us" "log_wf us"
  shows "has_log hexe (apply_ops (rollback_ops m key h) m) key (upto_height h us)"
  using rollback_key_result [OF assms, where h = h and ops = "rollback_ops m key h"]
  by (simp add: rollback_key_eq)

lemma rollback_to_height_log:
  assumes scan: "full_scan m scan" and log: "has_log hexe m key us" and wf: "log_wf us"
  shows "\<exists>ops. rollback_to_height_to_batch (reader_of m) scan [] h = Inr ops
     \<and> has_log hexe (apply_ops ops m) key (upto_height h us)"
proof -
  obtain stored where st: "scan [] = Inr stored" "distinct (map fst stored)"
      "\<forall>k v. (k, v) \<in> set stored \<longleftrightarrow> m k = Some v"
    using scan by (auto simp: full_scan_def)
  define keys where "keys = map (\<lambda>(stored_key, _). strip_suffix_len length_suffix stored_key)
            (filter (\<lambda>(stored_key, _). ends_with stored_key length_suffix) stored)"
  note base = scanned_base_keys [OF st(2,3), folded keys_def]
  let ?ops = "concat (map (\<lambda>key. rollback_ops m key h) keys)"
  have run: "rollback_to_height_to_batch (reader_of m) scan [] h = Inr ?ops"
    unfolding rollback_to_height_to_batch_def st(1) storage_err_Inr rbind.simps
      keys_def [symmetric] rollback_keys_run by simp
  have "has_log hexe (apply_ops ?ops m) key (upto_height h us)
      = has_log hexe (apply_ops (rollback_ops m key h) m) key (upto_height h us)"
  proof (rule has_log_frame)
    fix k assume k: "k \<in> log_keys key"
    show "apply_ops ?ops m k = apply_ops (rollback_ops m key h) m k"
      unfolding rollback_keys_effect [OF base(1) k] using base(2) [of key]
      by (simp add: rollback_ops_def)
  qed
  with run rollback_ops_log [OF log wf] show ?thesis by blast
qed

lemma iterate_backwards_log:
  assumes log: "has_log hexe m key us" and wf: "log_wf us" and short: "searchable us"
  shows "iterate_backwards (reader_of m) hexd key from = Inr
    (map (\<lambda>h. (h, the (value_at h us))) (rev (map fst (upto_height from us))))"
proof -
  let ?hs = "rev (map fst (upto_height from us))"
  have get: "get_at_height (reader_of m) hexd key h = Inr (value_at h us)" for h
    by (rule get_at_height_value [OF log wf short])
  have some: "\<exists>v. value_at h us = Some v" if h: "h \<in> fst ` set us" for h
  proof -
    from h obtain e where "e \<in> set us" "fst e = h" by auto
    then have "upto_height h us \<noteq> []" by (auto simp: upto_height_def filter_empty_conv)
    then show ?thesis by (simp add: value_at_def split: list.splits)
  qed
  have run: "set hs \<subseteq> fst ` set us \<Longrightarrow>
      rfold (\<lambda>height results. rbind (get_at_height (reader_of m) hexd key height) (\<lambda>v.
         Inr (case v of Some value \<Rightarrow> results @ [(height, value)] | None \<Rightarrow> results))) hs acc
      = Inr (acc @ map (\<lambda>h. (h, the (value_at h us))) hs)" for hs acc
    by (induction hs arbitrary: acc) (auto simp: get dest!: some)
  have hs: "rev (sort (filter (\<lambda>h. h \<le> from) (map fst us))) = ?hs"
  proof -
    have "filter (\<lambda>h. h \<le> from) (map fst us) = map fst (upto_height from us)"
      by (simp add: filter_map upto_height_def comp_def)
    moreover have "sorted (map fst (upto_height from us))"
      using log_wf_upto [OF wf, of "from"] by (simp add: log_wf_def)
    ultimately show ?thesis by (simp add: sorted_sort_id)
  qed
  have "set ?hs \<subseteq> fst ` set us" by (auto simp: upto_height_def)
  from run [OF this, of "[]"] show ?thesis
    by (simp add: iterate_backwards_def get_heights_log [OF log wf] hs)
qed

end

subsection \<open>A concrete log, and the properties\<close>

definition sample_log :: "entry list" where
  "sample_log = [(3, ''a''), (5, ''b''), (5, ''c'')]"

definition sample_db :: kvmap where
  "sample_db = [length_key ''k'' \<mapsto> dec 3,
     update_key ''k'' 0 \<mapsto> entry_bytes encode_hex_fast 3 ''a'',
     update_key ''k'' 1 \<mapsto> entry_bytes encode_hex_fast 5 ''b'',
     update_key ''k'' 2 \<mapsto> entry_bytes encode_hex_fast 5 ''c'']"

lemma sample_has_log: "has_log encode_hex_fast sample_db ''k'' sample_log"
  by (auto simp: has_log_def sample_db_def sample_log_def u32_max_def less_Suc_eq numeral_3_eq_3 dec_inj)

lemma sample_wf: "log_wf sample_log" "searchable sample_log"
  by (simp_all add: log_wf_def searchable_def sample_log_def u32_max_def)

lemmas sample_facts = hx.hex_codec_axioms sample_has_log sample_wf

lemma sample_scan: "full_scan sample_db (\<lambda>p. Inr (map (\<lambda>k. (k, the (sample_db k)))
    [length_key ''k'', update_key ''k'' 0, update_key ''k'' 1, update_key ''k'' 2]))"
  by (auto simp: full_scan_def sample_db_def split: if_splits)

text \<open>
  C10: a historical query is a binary search over the update records of a key. On a key
  whose database records hold the updates \<open>us\<close> at non-decreasing heights, it returns
  the value of the last update at or below the height asked for, and nothing when there
  is none; the copy in the batched helper returns the same.
\<close>

theorem historical_lookup_correct:
  assumes "hex_codec hexe hexd" "has_log hexe m key us" "log_wf us" "searchable us"
  shows "get_at_height (reader_of m) hexd key h = Inr (value_at h us)
    \<and> get_at_height_fast (reader_of m) hexd key h = Inr (value_at h us)"
  unfolding get_at_height_fast_eq
  using hex_codec.get_at_height_value [OF assms] by simp

theorem historical_lookup_correct_witness:
  "get_at_height (reader_of sample_db) hex_decode ''k'' 4 = Inr (Some ''a'')"
  using historical_lookup_correct [OF sample_facts, of 4]
  by (simp add: value_at_def upto_height_def sample_log_def)

text \<open>
  Appending never rewrites history. Writing the batch of \<open>put_to_batch\<close> at a height
  no lower than any recorded one changes the answer of a query at that height or above
  to the new value and of no query below it, and the new current value is the one put;
  the log of every other key is untouched.
\<close>

theorem put_preserves_history:
  assumes hex: "hex_codec hexe hexd" and log: "has_log hexe m key us" and wf: "log_wf us"
    and short: "length us < 2147483648" and h: "height \<le> u32_max" "\<forall>e \<in> set us. fst e \<le> height"
  shows "\<exists>ops. put_to_batch hexe (reader_of m) [] key v height = Inr ops
     \<and> (\<forall>q. get_at_height (reader_of (apply_ops ops m)) hexd key q
           = (if height \<le> q then Inr (Some v) else get_at_height (reader_of m) hexd key q))
     \<and> get_current (reader_of (apply_ops ops m)) hexd key = Inr (Some v)
     \<and> (\<forall>key' vs. key' \<noteq> key \<longrightarrow> has_log hexe m key' vs \<longrightarrow> has_log hexe (apply_ops ops m) key' vs)"
proof -
  let ?ops = "append_ops hexe key (length us) v height"
  have len: "length us < u32_max" using short by (simp add: u32_max_def)
  have log': "has_log hexe (apply_ops ?ops m) key (us @ [(height, v)])"
    by (rule append_ops_log [OF log len])
  have wf': "log_wf (us @ [(height, v)])" "searchable (us @ [(height, v)])"
    using wf h short by (simp_all add: log_wf_append searchable_def)
  have "searchable us" using short by (simp add: searchable_def)
  then show ?thesis
    using put_to_batch_eq [OF log len, of "[]"] hex_codec.get_at_height_value [OF hex log' wf']
      hex_codec.get_at_height_value [OF hex log wf] hex_codec.get_current_last [OF hex log']
    by (auto simp: value_at_snoc append_ops_frame)
qed

theorem put_preserves_history_witness:
  "\<exists>ops. put_to_batch encode_hex_fast (reader_of sample_db) [] ''k'' ''d'' 6 = Inr ops
     \<and> get_at_height (reader_of (apply_ops ops sample_db)) hex_decode ''k'' 9 = Inr (Some ''d'')"
  using put_preserves_history [OF hx.hex_codec_axioms sample_has_log sample_wf(1),
      where height = 6 and v = "''d''"]
  by (auto simp: sample_log_def u32_max_def)

text \<open>
  C12: rolling the whole store back to a target height truncates every log. After the batch
  of \<open>rollback_to_height_to_batch\<close> is applied, a query at any height answers what the
  query at the smaller of that height and the target answered before the rollback.
\<close>

theorem rollback_truncates_history:
  assumes hex: "hex_codec hexe hexd" and scan: "full_scan m scan"
    and log: "has_log hexe m key us" and wf: "log_wf us" and short: "searchable us"
  shows "\<exists>ops. rollback_to_height_to_batch (reader_of m) scan [] target = Inr ops
     \<and> (\<forall>q. get_at_height (reader_of (apply_ops ops m)) hexd key q
           = get_at_height (reader_of m) hexd key (min q target))"
proof -
  obtain ops where ops: "rollback_to_height_to_batch (reader_of m) scan [] target = Inr ops"
      and log': "has_log hexe (apply_ops ops m) key (upto_height target us)"
    using hex_codec.rollback_to_height_log [OF hex scan log wf] by blast
  have "searchable (upto_height target us)"
    using short upto_height_le [of target us] by (simp add: searchable_def)
  with ops log' show ?thesis
    by (simp add: hex_codec.get_at_height_value [OF hex log wf short] value_at_upto
        hex_codec.get_at_height_value [OF hex log' log_wf_upto [OF wf]])
qed

theorem rollback_truncates_history_witness:
  "\<exists>scan ops. rollback_to_height_to_batch (reader_of sample_db) scan [] 4 = Inr ops
     \<and> get_at_height (reader_of (apply_ops ops sample_db)) hex_decode ''k'' 9
         = get_at_height (reader_of sample_db) hex_decode ''k'' 4"
  using rollback_truncates_history [OF hx.hex_codec_axioms sample_scan sample_has_log sample_wf,
      of 4]
  by fastforce

text \<open>
  Walking a key's history backwards from a height lists the recorded heights at or
  below it, newest first, each with the value a query at that height returns.
\<close>

theorem iterate_backwards_correct:
  assumes "hex_codec hexe hexd" "has_log hexe m key us" "log_wf us" "searchable us"
  shows "iterate_backwards (reader_of m) hexd key from = Inr
    (map (\<lambda>h. (h, the (value_at h us))) (rev (map fst (upto_height from us))))"
  by (rule hex_codec.iterate_backwards_log [OF assms])

theorem iterate_backwards_correct_witness:
  "iterate_backwards (reader_of sample_db) hex_decode ''k'' 5
     = Inr [(5, ''c''), (5, ''c''), (3, ''a'')]"
  using iterate_backwards_correct [OF sample_facts, of 5]
  by (simp add: value_at_def upto_height_def sample_log_def)

end
