(* ===== verification/Manifest.thy ===== *)
theory Manifest
  imports Store
begin

text \<open>
  The per-height manifest of modified keys (\<open>serialize_key_manifest\<close> and
  \<open>deserialize_key_manifest\<close> of \<open>smt.rs\<close>): the binary format that the fast rollback
  reads back. The lemmas show the round trip for manifests whose counts fit a \<open>u32\<close>,
  and what the decoder may return on arbitrary bytes.
\<close>

definition manifest_item :: "bytes \<Rightarrow> bytes" where
  "manifest_item key = le_bytes 4 (length key) @ key"

definition serialize_key_manifest :: "bytes list \<Rightarrow> bytes" where
  "serialize_key_manifest keys =
     fold (\<lambda>key buf. buf @ le_bytes 4 (length key) @ key) keys (le_bytes 4 (length keys))"

text \<open>The \<open>for _ in 0..num_keys\<close> loop, with its two \<open>break\<close>s.\<close>

fun deserialize_items :: "bytes \<Rightarrow> nat \<Rightarrow> nat \<Rightarrow> bytes list \<Rightarrow> bytes list" where
  "deserialize_items d 0 offset keys = keys"
| "deserialize_items d (Suc n) offset keys =
     (if offset + 4 > length d then keys
      else let key_len = from_le (take 4 (drop offset d)); offset1 = offset + 4 in
        if offset1 + key_len > length d then keys
        else deserialize_items d n (offset1 + key_len) (keys @ [take key_len (drop offset1 d)]))"

definition deserialize_key_manifest :: "bytes \<Rightarrow> bytes list" where
  "deserialize_key_manifest d =
     (if length d < 4 then [] else deserialize_items d (from_le (take 4 d)) 4 [])"

lemma serialize_key_manifest_eq:
  "serialize_key_manifest keys = le_bytes 4 (length keys) @ concat (map manifest_item keys)"
proof -
  have "fold (\<lambda>key buf. buf @ le_bytes 4 (length key) @ key) keys b
      = b @ concat (map manifest_item keys)" for b
    by (induction keys arbitrary: b) (auto simp: manifest_item_def)
  then show ?thesis by (simp add: serialize_key_manifest_def)
qed

lemma deserialize_items_serialized:
  assumes "\<forall>k \<in> set ks. length k \<le> u32_max" "offset = length p"
  shows "deserialize_items (p @ concat (map manifest_item ks) @ q) (length ks) offset acc = acc @ ks"
  using assms
proof (induction ks arbitrary: p offset acc)
  case (Cons k ks)
  let ?d = "p @ manifest_item k @ concat (map manifest_item ks) @ q"
  have len: "from_le (take 4 (drop offset ?d)) = length k"
    using Cons.prems by (simp add: manifest_item_def)
  have key: "take (length k) (drop (offset + 4) ?d) = k"
    using Cons.prems by (simp add: manifest_item_def)
  have "deserialize_items ?d (length (k # ks)) offset acc
      = deserialize_items ((p @ manifest_item k) @ concat (map manifest_item ks) @ q) (length ks)
          (offset + 4 + length k) (acc @ [k])"
    using len key Cons.prems(2) by (simp add: Let_def) (simp add: manifest_item_def)
  also have "\<dots> = (acc @ [k]) @ ks"
    using Cons.prems by (intro Cons.IH) (simp_all add: manifest_item_def)
  finally show ?case by simp
qed simp

lemma deserialize_serialize_manifest [simp]:
  assumes "length ks \<le> u32_max" "\<forall>k \<in> set ks. length k \<le> u32_max"
  shows "deserialize_key_manifest (serialize_key_manifest ks) = ks"
  using deserialize_items_serialized [OF assms(2), of 4 "le_bytes 4 (length ks)" "[]" "[]"] assms(1)
  by (simp add: deserialize_key_manifest_def serialize_key_manifest_eq)

text \<open>
  On any input the decoder returns keys that were laid out in it, one after the other: the
  items it read, re-encoded, are a prefix of what follows the count.
\<close>

lemma deserialize_items_prefix:
  assumes "concat (map manifest_item acc) = take (offset - 4) (drop 4 d)" "4 \<le> offset" "offset \<le> length d"
  shows "prefix (concat (map manifest_item (deserialize_items d n offset acc))) (drop 4 d)
    \<and> length (deserialize_items d n offset acc) \<le> length acc + n"
  using assms
proof (induction d n offset acc rule: deserialize_items.induct)
  case (1 d offset keys)
  then show ?case by (auto intro: take_is_prefix)
next
  case (2 d n offset keys)
  define kl where "kl = from_le (take 4 (drop offset d))"
  show ?case
  proof (cases "offset + 4 > length d \<or> offset + 4 + kl > length d")
    case True
    with 2 show ?thesis by (auto simp: kl_def Let_def intro: take_is_prefix)
  next
    case False
    let ?k = "take kl (drop (offset + 4) d)"
    have le: "le_bytes 4 kl = take 4 (drop offset d)"
    proof -
      have "length (take 4 (drop offset d)) = 4" using False by (simp add: min_def) linarith
      then show ?thesis using le_bytes_from_le [of "take 4 (drop offset d)"] unfolding kl_def by metis
    qed
    have len: "length ?k = kl" using False by (simp add: min_def) linarith
    have "manifest_item ?k = take (4 + kl) (drop offset d)"
    proof -
      have "drop 4 (drop offset d) = drop (offset + 4) d" by (simp add: add.commute)
      then show ?thesis
        using take_add [of 4 kl "drop offset d"] le len unfolding manifest_item_def by metis
    qed
    moreover have "drop (offset - 4) (drop 4 d) = drop offset d" using 2(3) by simp
    ultimately have items: "concat (map manifest_item (keys @ [?k]))
        = take (offset - 4 + (4 + kl)) (drop 4 d)"
      using 2(2) take_add [of "offset - 4" "4 + kl" "drop 4 d"] by simp
    have "deserialize_items d (Suc n) offset keys
        = deserialize_items d n (offset + 4 + kl) (keys @ [?k])"
      using False by (simp add: kl_def Let_def)
    moreover have "prefix (concat (map manifest_item
          (deserialize_items d n (offset + 4 + kl) (keys @ [?k])))) (drop 4 d)
        \<and> length (deserialize_items d n (offset + 4 + kl) (keys @ [?k])) \<le> length (keys @ [?k]) + n"
    proof (rule 2(1) [of kl "offset + 4", OF _ kl_def refl])
      show "concat (map manifest_item (keys @ [?k])) = take (offset + 4 + kl - 4) (drop 4 d)"
        unfolding items using 2(3) by (intro arg_cong2 [where f = take]) simp_all
    qed (use False in simp_all)
    ultimately show ?thesis by simp
  qed
qed

text \<open>
  The manifest of a block survives storage: decoding what the encoder wrote gives the
  list of keys back, provided the number of keys and every key's length fit a \<open>u32\<close>.
  On arbitrary bytes the decoder never invents data: what it returns, re-encoded without
  the count, is a prefix of the input after its first four bytes.
\<close>

theorem manifest_roundtrip:
  assumes "length ks \<le> u32_max" "\<forall>k \<in> set ks. length k \<le> u32_max"
  shows "deserialize_key_manifest (serialize_key_manifest ks) = ks
    \<and> (\<forall>d. 4 \<le> length d \<longrightarrow>
         prefix (concat (map manifest_item (deserialize_key_manifest d))) (drop 4 d))"
proof (intro conjI allI impI)
  show "deserialize_key_manifest (serialize_key_manifest ks) = ks" using assms by simp
  fix d :: bytes assume "4 \<le> length d"
  then show "prefix (concat (map manifest_item (deserialize_key_manifest d))) (drop 4 d)"
    using deserialize_items_prefix [of "[]" 4 d] by (simp add: deserialize_key_manifest_def)
qed

theorem manifest_roundtrip_witness:
  "deserialize_key_manifest (serialize_key_manifest [''ab'', '''', ''c'']) = [''ab'', '''', ''c'']"
  using manifest_roundtrip [of "[''ab'', '''', ''c'']"] by (simp add: u32_max_def)

end
