(* ===== verification/SmtNode.thy ===== *)
theory SmtNode
  imports Store
begin

text \<open>
  The nodes of the sparse Merkle tree of \<open>crates/metashrew-runtime/src/smt.rs\<close>: hashing,
  the storage format and its decoder, and the node reads of \<open>SMTHelper\<close> and of
  \<open>BatchedSMTHelper\<close> with its two block-scoped caches. SHA-256 comes from the \<open>sha2\<close>
  crate and is the parameter \<open>sha\<close>; a \<open>[u8; 32]\<close> is a byte list of length 32.
\<close>

datatype smt_node =
    Internal (left_child: bytes) (right_child: bytes)
  | Leaf (leaf_key: bytes) (value_index: bytes)

definition EMPTY_NODE_HASH :: bytes where
  "EMPTY_NODE_HASH = replicate 32 (char_of (0::nat))"

type_synonym hash_fn = "bytes \<Rightarrow> bytes"

definition hash_key :: "hash_fn \<Rightarrow> bytes \<Rightarrow> bytes" where
  "hash_key sha key = sha key"

definition hash_value :: "hash_fn \<Rightarrow> bytes \<Rightarrow> bytes" where
  "hash_value sha val = sha val"

text \<open>The bytes \<open>hash_node\<close> feeds to the hasher, one \<open>update\<close> after the other.\<close>

fun node_preimage :: "smt_node \<Rightarrow> bytes" where
  "node_preimage (Internal l r) = [char_of (0::nat)] @ l @ r"
| "node_preimage (Leaf key vi) = [char_of (1::nat)] @ key @ vi"

definition hash_node :: "hash_fn \<Rightarrow> smt_node \<Rightarrow> bytes" where
  "hash_node sha node = sha (node_preimage node)"

fun serialize_node :: "smt_node \<Rightarrow> bytes" where
  "serialize_node (Internal l r) = [char_of (0::nat)] @ l @ r"
| "serialize_node (Leaf key vi) = [char_of (1::nat)] @ le_bytes 4 (length key) @ key @ vi"

definition deserialize_node :: "bytes \<Rightarrow> smt_node result" where
  "deserialize_node d =
     (case d of
        [] \<Rightarrow> Inl ''Empty node data''
      | t # rest \<Rightarrow>
          if (of_char t :: nat) = 0 then
            (if length d \<noteq> 65 then Inl ''Invalid internal node data length''
             else Inr (Internal (take 32 (drop 1 d)) (take 32 (drop 33 d))))
          else if (of_char t :: nat) = 1 then
            (if length d < 5 then Inl ''Invalid leaf node data length''
             else let key_len = from_le (take 4 (drop 1 d)) in
               if length d \<noteq> 5 + key_len + 32 then Inl ''Invalid leaf node data length''
               else Inr (Leaf (take key_len (drop 5 d)) (take 32 (drop (5 + key_len) d))))
          else Inl ''Invalid node type'')"

text \<open>\<open>SMTHelper::get_node\<close>\<close>

definition get_node :: "reader \<Rightarrow> bytes \<Rightarrow> smt_node option result" where
  "get_node rd h =
     (if h = EMPTY_NODE_HASH then Inr None
      else rbind (storage_err (rd (node_key h))) (\<lambda>r.
        case r of
          Some node_data \<Rightarrow> rbind (deserialize_node node_data) (\<lambda>n. Inr (Some n))
        | None \<Rightarrow> Inr None))"

subsection \<open>The caches of \<open>BatchedSMTHelper\<close>\<close>

record smt_caches =
  node_cache :: "bytes \<rightharpoonup> smt_node"
  key_hash_cache :: "bytes \<rightharpoonup> bytes"

definition new_caches :: smt_caches where
  "new_caches = \<lparr>node_cache = Map.empty, key_hash_cache = Map.empty\<rparr>"

definition clear_caches :: "smt_caches \<Rightarrow> smt_caches" where
  "clear_caches c = c\<lparr>node_cache := Map.empty, key_hash_cache := Map.empty\<rparr>"

definition caches_are_empty :: "smt_caches \<Rightarrow> bool" where
  "caches_are_empty c \<longleftrightarrow> node_cache c = Map.empty \<and> key_hash_cache c = Map.empty"

definition get_key_hash :: "hash_fn \<Rightarrow> bytes \<Rightarrow> smt_caches \<Rightarrow> bytes \<times> smt_caches" where
  "get_key_hash sha key c =
     (case key_hash_cache c key of
        Some h \<Rightarrow> (h, c)
      | None \<Rightarrow> let h = hash_key sha key in
          (h, c\<lparr>key_hash_cache := (key_hash_cache c)(key \<mapsto> h)\<rparr>))"

definition get_node_cached :: "reader \<Rightarrow> bytes \<Rightarrow> (smt_caches, smt_node option) st" where
  "get_node_cached rd h c =
     (if h = EMPTY_NODE_HASH then (Inr None, c)
      else case node_cache c h of
        Some node \<Rightarrow> (Inr (Some node), c)
      | None \<Rightarrow>
          (case storage_err (rd (node_key h)) of
             Inl e \<Rightarrow> (Inl e, c)
           | Inr None \<Rightarrow> (Inr None, c)
           | Inr (Some node_data) \<Rightarrow>
               (case deserialize_node node_data of
                  Inl e \<Rightarrow> (Inl e, c)
                | Inr node \<Rightarrow> (Inr (Some node), c\<lparr>node_cache := (node_cache c)(h \<mapsto> node)\<rparr>))))"

subsection \<open>Facts\<close>

text \<open>The sizes Rust's array types carry.\<close>

fun sized :: "smt_node \<Rightarrow> bool" where
  "sized (Internal l r) \<longleftrightarrow> length l = 32 \<and> length r = 32"
| "sized (Leaf key vi) \<longleftrightarrow> length vi = 32 \<and> length key \<le> u32_max"

lemma length_EMPTY [simp]: "length EMPTY_NODE_HASH = 32"
  by (simp add: EMPTY_NODE_HASH_def)

lemma deserialize_leaf:
  assumes "length kl = 4" "length vi = 32" "from_le kl = length key"
  shows "deserialize_node (char_of (1::nat) # kl @ key @ vi) = Inr (Leaf key vi)"
  unfolding deserialize_node_def using assms by (simp add: Let_def drop_Cons')

lemma deserialize_internal:
  "length l = 32 \<Longrightarrow> length r = 32 \<Longrightarrow>
   deserialize_node (char_of (0::nat) # l @ r) = Inr (Internal l r)"
  by (simp add: deserialize_node_def drop_Cons')

lemma deserialize_serialize [simp]: "sized n \<Longrightarrow> deserialize_node (serialize_node n) = Inr n"
  by (cases n) (simp_all add: deserialize_leaf deserialize_internal del: One_nat_def)

lemma split_node_parts:
  assumes "length d = 1 + a + b"
  obtains t l r where "d = t # l @ r" "length l = a" "length r = b"
proof -
  from assms obtain t d' where d: "d = t # d'" by (cases d) auto
  have "d' = take a d' @ drop a d'" by simp
  with assms d that [of t "take a d'" "drop a d'"] show ?thesis by simp
qed

lemma deserialize_sized:
  assumes "deserialize_node d = Inr n"
  shows "sized n \<and> serialize_node n = d"
proof (cases d)
  case Nil
  with assms show ?thesis by (simp add: deserialize_node_def)
next
  case (Cons t rest)
  consider "t = char_of (0::nat)" | "t = char_of (1::nat)"
  proof -
    have "(of_char t :: nat) = 0 \<or> (of_char t :: nat) = 1"
      using assms Cons by (rule_tac ccontr) (simp add: deserialize_node_def)
    with that show ?thesis by (metis char_of_char)
  qed
  then show ?thesis
  proof cases
    case 1
    with assms Cons have "length d = 1 + 32 + 32"
      by (simp add: deserialize_node_def split: if_splits)
    then obtain t' l r where d: "d = t' # l @ r" "length l = 32" "length r = 32"
      by (rule split_node_parts)
    with assms 1 Cons deserialize_internal [OF d(2,3)] show ?thesis by simp
  next
    case 2
    define kl where "kl = from_le (take 4 rest)"
    have t1: "(of_char t :: nat) = 1" unfolding 2 by simp
    have len: "length d = 5 + kl + 32"
    proof (rule ccontr)
      assume "length d \<noteq> 5 + kl + 32"
      with Cons have "deserialize_node d = Inl ''Invalid leaf node data length''"
        unfolding kl_def by (simp add: deserialize_node_def Let_def t1)
      with assms show False by simp
    qed
    then have "length d = 1 + 4 + (kl + 32)" by simp
    then obtain t' lb q where d: "d = t' # lb @ q" "length lb = 4" "length q = kl + 32"
      by (rule split_node_parts)
    define key where "key = take kl q"
    define vi where "vi = drop kl q"
    have q: "q = key @ vi" "length key = kl" "length vi = 32"
      using d(3) by (simp_all add: key_def vi_def)
    have kl': "from_le lb = kl" using d Cons by (simp add: kl_def)
    then have lb: "lb = le_bytes 4 kl" using le_bytes_from_le [of lb] d(2) by simp
    have "kl \<le> u32_max" using kl' d(2) from_le_4_le [of lb] by simp
    moreover have "n = Leaf key vi"
      using assms deserialize_leaf [of lb vi key] d q 2 Cons kl' by simp
    ultimately show ?thesis using d q lb 2 Cons by simp
  qed
qed

lemma node_preimage_inject:
  "sized n \<Longrightarrow> sized n' \<Longrightarrow> node_preimage n = node_preimage n' \<Longrightarrow> n = n'"
  by (cases n; cases n') (auto simp: append_eq_append_conv)

text \<open>
  C19: nodes survive storage and are hashed without ambiguity. A node of the sizes Rust's
  types guarantee is decoded to itself; whatever the decoder accepts is the encoding of
  the node it returns, of those sizes; and two different nodes never feed the same bytes
  to the hash function, so that node hashes collide only where SHA-256 does.
\<close>

theorem node_storage_roundtrip:
  assumes "sized n" "sized n'"
  shows "deserialize_node (serialize_node n) = Inr n
     \<and> (deserialize_node d = Inr n' \<longrightarrow> serialize_node n' = d)
     \<and> (node_preimage n = node_preimage n' \<longrightarrow> n = n')"
  using assms node_preimage_inject deserialize_sized by auto

theorem node_storage_roundtrip_witness:
  "deserialize_node (serialize_node (Leaf ''k'' (replicate 32 CHR ''v''))) = Inr (Leaf ''k'' (replicate 32 CHR ''v''))
   \<and> node_preimage (Leaf ''k'' (replicate 32 CHR ''v'')) \<noteq> node_preimage (Internal EMPTY_NODE_HASH EMPTY_NODE_HASH)"
  using node_storage_roundtrip [of "Leaf ''k'' (replicate 32 CHR ''v'')" "Internal EMPTY_NODE_HASH EMPTY_NODE_HASH" "[]"]
  by (simp add: u32_max_def)

end
