(* ===== verification/StateRoot.thy ===== *)
theory StateRoot
  imports SmtNode
begin

text \<open>
  The state-root records \<open>smt:root:\{height\}\<close> of \<open>smt.rs\<close>: the root of a height, falling
  back to the closest lower height that has one, and the most recent root. The lookup
  exists twice, in \<open>SMTHelper\<close> and in \<open>BatchedSMTHelper\<close>.
\<close>

text \<open>One probe: a stored root counts only when it has 32 bytes.\<close>

definition read_root :: "reader \<Rightarrow> nat \<Rightarrow> bytes option result" where
  "read_root rd height =
     rbind (storage_err (rd (root_key height))) (\<lambda>r.
       Inr (case r of
              Some root_data \<Rightarrow> if length root_data = 32 then Some root_data else None
            | None \<Rightarrow> None))"

text \<open>The downward loop from \<open>target_height\<close> to 0.\<close>

fun search_roots :: "reader \<Rightarrow> nat \<Rightarrow> bytes option result" where
  "search_roots rd 0 = read_root rd 0"
| "search_roots rd (Suc target_height) =
     rbind (read_root rd (Suc target_height)) (\<lambda>r.
       case r of Some root \<Rightarrow> Inr (Some root) | None \<Rightarrow> search_roots rd target_height)"

definition no_root_error :: "nat \<Rightarrow> string" where
  "no_root_error height =
     ''No state root found for height '' @ dec height @ '' or any previous height''"

definition get_smt_root_at_height :: "reader \<Rightarrow> nat \<Rightarrow> bytes result" where
  "get_smt_root_at_height rd height =
     rbind (read_root rd height) (\<lambda>r.
       case r of
         Some root \<Rightarrow> Inr root
       | None \<Rightarrow>
           rbind (if height > 0 then search_roots rd (height - 1) else Inr None) (\<lambda>r.
             case r of Some root \<Rightarrow> Inr root | None \<Rightarrow> Inl (no_root_error height)))"

text \<open>\<open>BatchedSMTHelper::get_smt_root_at_height\<close>, the same body on its own storage.\<close>

definition batched_get_smt_root_at_height :: "reader \<Rightarrow> nat \<Rightarrow> bytes result" where
  "batched_get_smt_root_at_height rd height =
     rbind (read_root rd height) (\<lambda>r.
       case r of
         Some root \<Rightarrow> Inr root
       | None \<Rightarrow>
           if height > 0 then
             rbind (search_roots rd (height - 1)) (\<lambda>r.
               case r of Some root \<Rightarrow> Inr root | None \<Rightarrow> Inl (no_root_error height))
           else Inl (no_root_error height))"

text \<open>
  \<open>get_current_state_root\<close>: the root of the highest parsed height among the records with
  the prefix; \<open>scan\<close> is \<open>scan_prefix\<close> of the backend.
\<close>

definition current_root_step ::
    "bytes \<times> bytes \<Rightarrow> (nat \<times> bytes) option \<Rightarrow> (nat \<times> bytes) option" where
  "current_root_step kv best =
     (case kv of (key, val) \<Rightarrow>
        case Option.bind (strip_prefix SMT_ROOT_PREFIX key) parse_u32 of
          None \<Rightarrow> best
        | Some height \<Rightarrow>
            if (case best of None \<Rightarrow> True | Some (highest, _) \<Rightarrow> height > highest) \<and> length val = 32
            then Some (height, val) else best)"

definition get_current_state_root ::
    "(bytes \<Rightarrow> (bytes \<times> bytes) list result) \<Rightarrow> bytes result" where
  "get_current_state_root scan =
     rbind (scan SMT_ROOT_PREFIX) (\<lambda>stored.
       Inr (case fold current_root_step stored None of
              Some (_, root) \<Rightarrow> root
            | None \<Rightarrow> EMPTY_NODE_HASH))"

subsection \<open>Meaning\<close>

definition root_at :: "kvmap \<Rightarrow> nat \<Rightarrow> bytes option" where
  "root_at m h = (case m (root_key h) of Some d \<Rightarrow> if length d = 32 then Some d else None | None \<Rightarrow> None)"

lemma read_root_eq [simp]: "read_root (reader_of m) h = Inr (root_at m h)"
  by (simp add: read_root_def root_at_def)

lemma batched_root_eq: "batched_get_smt_root_at_height rd h = get_smt_root_at_height rd h"
  unfolding batched_get_smt_root_at_height_def get_smt_root_at_height_def
  by (auto intro!: rbind_cong split: option.splits)

text \<open>The closest height at or below \<open>h\<close> that has a root.\<close>

fun closest_root :: "kvmap \<Rightarrow> nat \<Rightarrow> bytes option" where
  "closest_root m 0 = root_at m 0"
| "closest_root m (Suc h) = (case root_at m (Suc h) of Some r \<Rightarrow> Some r | None \<Rightarrow> closest_root m h)"

lemma search_roots_eq: "search_roots (reader_of m) h = Inr (closest_root m h)"
  by (induction h) (auto split: option.splits)

lemma get_smt_root_eq:
  "get_smt_root_at_height (reader_of m) h
    = (case closest_root m h of Some r \<Rightarrow> Inr r | None \<Rightarrow> Inl (no_root_error h))"
  by (cases h) (auto simp: get_smt_root_at_height_def search_roots_eq split: option.splits)

lemma closest_root_Some:
  "closest_root m h = Some r \<longleftrightarrow>
     (\<exists>h' \<le> h. root_at m h' = Some r \<and> (\<forall>h''. h' < h'' \<longrightarrow> h'' \<le> h \<longrightarrow> root_at m h'' = None))"
proof (induction h)
  case (Suc h)
  show ?case
  proof (cases "root_at m (Suc h)")
    case None
    then have "(\<exists>h' \<le> Suc h. root_at m h' = Some r
          \<and> (\<forall>h''. h' < h'' \<longrightarrow> h'' \<le> Suc h \<longrightarrow> root_at m h'' = None))
      \<longleftrightarrow> (\<exists>h' \<le> h. root_at m h' = Some r
          \<and> (\<forall>h''. h' < h'' \<longrightarrow> h'' \<le> h \<longrightarrow> root_at m h'' = None))"
      by (metis le_Suc_eq option.distinct(1))
    with Suc None show ?thesis by simp
  next
    case (Some r')
    have "h' = Suc h" if "h' \<le> Suc h" "\<forall>h''. h' < h'' \<longrightarrow> h'' \<le> Suc h \<longrightarrow> root_at m h'' = None" for h'
      using that Some by (metis le_neq_implies_less option.distinct(1) order_refl)
    then have "(\<exists>h' \<le> Suc h. root_at m h' = Some r
          \<and> (\<forall>h''. h' < h'' \<longrightarrow> h'' \<le> Suc h \<longrightarrow> root_at m h'' = None)) \<longleftrightarrow> root_at m (Suc h) = Some r"
      by (metis le_neq_implies_less not_le order_refl)
    with Some show ?thesis by simp
  qed
qed auto

lemma closest_root_None: "closest_root m h = None \<longleftrightarrow> (\<forall>h' \<le> h. root_at m h' = None)"
  by (induction h) (auto simp: le_Suc_eq split: option.splits)

text \<open>
  The root of a height is the one stored at the greatest height not above it that
  holds a 32-byte record, an error naming the height when there is none, and the copy in
  the batched helper computes the same.
\<close>

theorem root_at_height_correct:
  "(\<forall>r. get_smt_root_at_height (reader_of m) h = Inr r \<longleftrightarrow>
      (\<exists>h' \<le> h. root_at m h' = Some r \<and> (\<forall>h''. h' < h'' \<longrightarrow> h'' \<le> h \<longrightarrow> root_at m h'' = None)))
   \<and> (\<forall>e. get_smt_root_at_height (reader_of m) h = Inl e \<longleftrightarrow>
      e = no_root_error h \<and> (\<forall>h' \<le> h. root_at m h' = None))
   \<and> batched_get_smt_root_at_height (reader_of m) h = get_smt_root_at_height (reader_of m) h"
proof -
  have "get_smt_root_at_height (reader_of m) h = Inr r \<longleftrightarrow> closest_root m h = Some r" for r
    by (simp add: get_smt_root_eq split: option.splits)
  moreover have "get_smt_root_at_height (reader_of m) h = Inl e \<longleftrightarrow>
      e = no_root_error h \<and> closest_root m h = None" for e
    by (auto simp: get_smt_root_eq split: option.splits)
  ultimately show ?thesis
    by (simp only: closest_root_Some closest_root_None batched_root_eq) simp
qed

theorem root_at_height_correct_witness:
  "get_smt_root_at_height (reader_of [root_key 2 \<mapsto> EMPTY_NODE_HASH]) 5 = Inr EMPTY_NODE_HASH"
  using root_at_height_correct [of "[root_key 2 \<mapsto> EMPTY_NODE_HASH]" 5]
  by (auto simp: root_at_def)

end
