(* ===== verification/BlockBatch.thy ===== *)
theory BlockBatch
  imports LogSpec Manifest StateRoot
begin

text \<open>
  Building the one atomic batch of a block
  (\<open>BatchedSMTHelper::build_state_root_batch_unwritten\<close> of \<open>smt.rs\<close>) and committing it
  (\<open>calculate_and_store_state_root_batched\<close>). The lemmas give the batch's effect: the log
  of every key of the block is extended by the block's values in order, every other log
  is left alone, and the manifest, the root record and the runtime tip are set.
\<close>

definition block_update_step ::
    "(bytes \<Rightarrow> bytes) \<Rightarrow> reader \<Rightarrow> nat \<Rightarrow> bytes \<times> bytes \<Rightarrow> batch \<times> (bytes \<rightharpoonup> nat)
     \<Rightarrow> (batch \<times> (bytes \<rightharpoonup> nat)) result" where
  "block_update_step hexe rd height kv st =
     (case (kv, st) of ((key, val), (batch, key_lengths)) \<Rightarrow>
        rbind (case key_lengths key of
                 Some len \<Rightarrow> Inr len
               | None \<Rightarrow> rbind (rd (length_key key)) (\<lambda>r.
                   Inr (case r of Some length_bytes \<Rightarrow> parsed_length length_bytes | None \<Rightarrow> 0)))
          (\<lambda>len.
             let batch1 = batch @ [Put (update_key key len) (entry_bytes hexe height val)]
             in rbind (add_u32 len 1) (\<lambda>new_length.
                  Inr (batch1 @ [Put (length_key key) (dec new_length)],
                       key_lengths(key \<mapsto> new_length)))))"

definition prev_root_of :: "reader \<Rightarrow> nat \<Rightarrow> bytes" where
  "prev_root_of rd height =
     (if height > 0 then
        (case batched_get_smt_root_at_height rd (height - 1) of
           Inr root \<Rightarrow> root
         | Inl _ \<Rightarrow> EMPTY_NODE_HASH)
      else EMPTY_NODE_HASH)"

text \<open>\<open>sort_unstable\<close> then \<open>dedup\<close> on byte strings.\<close>

definition unique_keys :: "(bytes \<times> bytes) list \<Rightarrow> bytes list" where
  "unique_keys key_values = remdups_adj (sort (map fst key_values))"

definition block_records :: "reader \<Rightarrow> nat \<Rightarrow> (bytes \<times> bytes) list \<Rightarrow> batch" where
  "block_records rd height key_values =
     [Put (root_key height) (prev_root_of rd height)]
     @ (if key_values \<noteq> [] then
          [Put (manifest_key height) (serialize_key_manifest (unique_keys key_values))]
        else [])
     @ [Put TIP_HEIGHT_KEY (le_bytes 4 height)]"

definition build_state_root_batch_unwritten ::
    "(bytes \<Rightarrow> bytes) \<Rightarrow> reader \<Rightarrow> nat \<Rightarrow> (bytes \<times> bytes) list \<Rightarrow> bytes
     \<Rightarrow> (smt_caches, bytes \<times> batch) st" where
  "build_state_root_batch_unwritten hexe rd height key_values block_hash c =
     (rbind (rfold (block_update_step hexe rd height) key_values ([], Map.empty)) (\<lambda>(batch, _).
        Inr (prev_root_of rd height, batch @ block_records rd height key_values)),
      clear_caches c)"

definition calculate_and_store_state_root_batched ::
    "(bytes \<Rightarrow> bytes) \<Rightarrow> reader \<Rightarrow> (batch \<Rightarrow> 's result) \<Rightarrow> nat \<Rightarrow> (bytes \<times> bytes) list \<Rightarrow> bytes
     \<Rightarrow> (smt_caches, bytes \<times> 's) st" where
  "calculate_and_store_state_root_batched hexe rd write height key_values block_hash =
     sbind (build_state_root_batch_unwritten hexe rd height key_values block_hash)
       (\<lambda>(new_root, batch) c.
          case storage_err (write batch) of
            Inl e \<Rightarrow> (Inl e, c)
          | Inr s \<Rightarrow> (Inr (new_root, s), clear_caches c))"

subsection \<open>The effect of a block\<close>

definition block_values :: "bytes \<Rightarrow> (bytes \<times> bytes) list \<Rightarrow> bytes list" where
  "block_values key key_values = map snd (filter (\<lambda>kv. fst kv = key) key_values)"

definition append_block :: "nat \<Rightarrow> (bytes \<times> bytes) list \<Rightarrow> bytes \<Rightarrow> entry list \<Rightarrow> entry list" where
  "append_block height key_values key us = us @ map (Pair height) (block_values key key_values)"

lemma block_values_Nil: "block_values key kvs = [] \<longleftrightarrow> key \<notin> fst ` set kvs"
  by (auto simp: block_values_def filter_empty_conv)

lemma append_block_Nil [simp]: "append_block h [] key us = us"
  by (simp add: append_block_def block_values_def)

lemma append_block_Cons [simp]:
  "append_block h ((key, v) # kvs) key' us
    = append_block h kvs key' (if key = key' then us @ [(h, v)] else us)"
  by (simp add: append_block_def block_values_def)

lemma append_block_notin: "key \<notin> fst ` set kvs \<Longrightarrow> append_block h kvs key us = us"
  by (induction kvs arbitrary: us) auto

lemma length_append_block: "length (append_block h kvs key us) \<le> length us + length kvs"
  by (simp add: append_block_def block_values_def)

lemma log_wf_append_block:
  assumes "log_wf us" "\<forall>e \<in> set us. fst e \<le> h" "h \<le> u32_max"
  shows "log_wf (append_block h kvs key us)"
proof -
  have "log_wf (us @ map (Pair h) vs)" for vs
  proof (induction vs rule: rev_induct)
    case (snoc v vs)
    have "\<forall>e \<in> set (us @ map (Pair h) vs). fst e \<le> h" using assms(2) by auto
    with snoc assms(3) log_wf_append [of "us @ map (Pair h) vs" h v] show ?case by simp
  qed (simp add: assms(1))
  then show ?thesis by (simp add: append_block_def)
qed

lemma value_at_append_block:
  "value_at q (append_block h kvs key us)
    = (if h \<le> q \<and> key \<in> fst ` set kvs then Some (last (block_values key kvs)) else value_at q us)"
proof (cases "block_values key kvs" rule: rev_cases)
  case Nil
  with block_values_Nil [of key kvs] show ?thesis by (simp add: append_block_notin)
next
  case (snoc vs v)
  with block_values_Nil [of key kvs] have "key \<in> fst ` set kvs" by simp
  moreover have "value_at q (us @ map (Pair h) vs @ [(h, v)])
      = (if h \<le> q then Some v else value_at q us)"
  proof (cases "h \<le> q")
    case False
    then have "upto_height q (us @ map (Pair h) vs @ [(h, v)]) = upto_height q us"
      by (simp add: upto_height_def)
    with False show ?thesis by (simp add: value_at_def)
  qed (simp add: value_at_def upto_height_def)
  ultimately show ?thesis by (simp add: append_block_def snoc)
qed

text \<open>The loop over the block's pairs: the batch so far, seen through its effect.\<close>

definition loop_inv ::
    "(bytes \<Rightarrow> bytes) \<Rightarrow> kvmap \<Rightarrow> batch \<Rightarrow> (bytes \<rightharpoonup> nat) \<Rightarrow> bytes \<Rightarrow> entry list \<Rightarrow> bool" where
  "loop_inv hexe m batch kl key us \<longleftrightarrow>
     has_log hexe (apply_ops batch m) key us
   \<and> (case kl key of
        Some n \<Rightarrow> n = length us
      | None \<Rightarrow> apply_ops batch m (length_key key) = m (length_key key))"

lemma block_update_step_eq:
  assumes "loop_inv hexe m batch kl key us" "length us < u32_max"
  shows "block_update_step hexe (reader_of m) height (key, v) (batch, kl)
    = Inr (batch @ append_ops hexe key (length us) v height, kl(key \<mapsto> length us + 1))"
proof (cases "kl key")
  case None
  with assms have log: "has_log hexe (apply_ops batch m) key us"
      and same: "apply_ops batch m (length_key key) = m (length_key key)"
    by (simp_all add: loop_inv_def)
  have "(case m (length_key key) of Some b \<Rightarrow> parsed_length b | None \<Rightarrow> 0) = length us"
    using has_logD(3,4) [OF log] same by (auto split: option.splits)
  with None assms(2) show ?thesis by (simp add: block_update_step_def append_ops_def Let_def)
next
  case (Some n)
  with assms show ?thesis
    by (simp add: block_update_step_def append_ops_def Let_def loop_inv_def)
qed

lemma append_ops_keys: "op_key ` set (append_ops hexe key n v h) \<subseteq> log_keys key"
  by (auto simp: append_ops_def log_keys_def)

lemma loop_inv_step:
  assumes "loop_inv hexe m batch kl key us" "length us < u32_max"
  shows "loop_inv hexe m (batch @ append_ops hexe key (length us) v h) (kl(key \<mapsto> length us + 1))
      key (us @ [(h, v)])"
  using assms append_ops_log [of hexe "apply_ops batch m" key us v h] by (simp add: loop_inv_def)

lemma loop_inv_other:
  assumes "loop_inv hexe m batch kl key' us'" "key' \<noteq> key"
  shows "loop_inv hexe m (batch @ append_ops hexe key n v h) (kl(key \<mapsto> n')) key' us'"
  using assms append_ops_frame [of key' key hexe n v h "apply_ops batch m" us']
  by (simp add: loop_inv_def append_ops_def split: option.splits)

lemma block_loop:
  assumes "\<And>key. key \<in> fst ` set kvs \<Longrightarrow> loop_inv hexe m batch kl key (L key)"
    and "\<And>key. key \<in> fst ` set kvs \<Longrightarrow> length (L key) + length kvs \<le> u32_max"
  shows "\<exists>ops kl'. rfold (block_update_step hexe (reader_of m) height) kvs (batch, kl) = Inr (batch @ ops, kl')
     \<and> op_key ` set ops \<subseteq> (\<Union>key \<in> fst ` set kvs. log_keys key)
     \<and> (\<forall>key us. loop_inv hexe m batch kl key us \<longrightarrow> (key \<in> fst ` set kvs \<longrightarrow> us = L key) \<longrightarrow>
          has_log hexe (apply_ops (batch @ ops) m) key (append_block height kvs key us))"
  using assms
proof (induction kvs arbitrary: batch kl L)
  case Nil
  then show ?case by (auto simp: loop_inv_def)
next
  case (Cons kv kvs)
  obtain k v where kv: "kv = (k, v)" by (cases kv)
  let ?us = "L k"
  let ?ops = "append_ops hexe k (length ?us) v height"
  let ?kl = "kl(k \<mapsto> length ?us + 1)"
  let ?L = "L(k := ?us @ [(height, v)])"
  have inv: "loop_inv hexe m batch kl k ?us" using Cons.prems(1) kv by simp
  have room: "length ?us < u32_max" using Cons.prems(2) [of k] kv by simp
  have step: "block_update_step hexe (reader_of m) height kv (batch, kl) = Inr (batch @ ?ops, ?kl)"
    unfolding kv by (rule block_update_step_eq [OF inv room])
  have "loop_inv hexe m (batch @ ?ops) ?kl key (?L key)" if "key \<in> fst ` set kvs" for key
    using Cons.prems(1) [of key] that loop_inv_step [OF inv room] loop_inv_other [of hexe m batch kl key]
    by auto
  moreover have "length (?L key) + length kvs \<le> u32_max" if "key \<in> fst ` set kvs" for key
    using Cons.prems(2) [of key] that by auto
  ultimately obtain ops kl' where
      run: "rfold (block_update_step hexe (reader_of m) height) kvs (batch @ ?ops, ?kl)
        = Inr ((batch @ ?ops) @ ops, kl')"
      and keys: "op_key ` set ops \<subseteq> (\<Union>key \<in> fst ` set kvs. log_keys key)"
      and logs: "\<And>key us. loop_inv hexe m (batch @ ?ops) ?kl key us \<Longrightarrow>
          (key \<in> fst ` set kvs \<longrightarrow> us = ?L key) \<Longrightarrow>
          has_log hexe (apply_ops ((batch @ ?ops) @ ops) m) key (append_block height kvs key us)"
    using Cons.IH [of "batch @ ?ops" ?kl ?L] by blast
  show ?case
  proof (intro exI conjI allI impI)
    show "rfold (block_update_step hexe (reader_of m) height) (kv # kvs) (batch, kl)
        = Inr (batch @ (?ops @ ops), kl')"
      using step run by simp
    show "op_key ` set (?ops @ ops) \<subseteq> (\<Union>key \<in> fst ` set (kv # kvs). log_keys key)"
      using keys append_ops_keys [of hexe k "length ?us" v height] kv by auto
    fix key us
    assume "loop_inv hexe m batch kl key us" "key \<in> fst ` set (kv # kvs) \<longrightarrow> us = L key"
    then show "has_log hexe (apply_ops (batch @ (?ops @ ops)) m) key (append_block height (kv # kvs) key us)"
      using logs [of key "if key = k then ?us @ [(height, v)] else us"]
        loop_inv_step [OF inv room, of v height]
        loop_inv_other [of hexe m batch kl key us k "length ?us" v height]
      by (auto simp: kv)
  qed
qed

text \<open>
  The databases block processing works on: every key has a log (an absent one is empty).
\<close>

definition logs_of :: "(bytes \<Rightarrow> bytes) \<Rightarrow> kvmap \<Rightarrow> (bytes \<Rightarrow> entry list) \<Rightarrow> bool" where
  "logs_of hexe m L \<longleftrightarrow> (\<forall>key. has_log hexe m key (L key))"

definition room_for :: "(bytes \<times> bytes) list \<Rightarrow> (bytes \<Rightarrow> entry list) \<Rightarrow> bool" where
  "room_for kvs L \<longleftrightarrow> (\<forall>key \<in> fst ` set kvs. length (L key) + length kvs \<le> u32_max)"

lemma loop_inv_start: "has_log hexe m key us \<Longrightarrow> loop_inv hexe m [] Map.empty key us"
  by (simp add: loop_inv_def)

lemma block_records_keys:
  "op_key ` set (block_records rd height kvs) \<subseteq> {root_key height, manifest_key height, TIP_HEIGHT_KEY}"
  by (auto simp: block_records_def)

lemma reserved_log_keys [simp]:
  "root_key h \<notin> log_keys key" "TIP_HEIGHT_KEY \<notin> log_keys key"
  "key \<noteq> manifest_base \<Longrightarrow> manifest_key h \<notin> log_keys key"
  by (auto simp: log_keys_def)

lemma block_records_frame:
  assumes "us = [] \<or> key \<noteq> manifest_base"
  shows "has_log hexe (apply_ops (block_records rd height kvs) m) key us = has_log hexe m key us"
proof -
  have len: "apply_ops (block_records rd height kvs) m (length_key key) = m (length_key key)"
    by (rule apply_ops_other) (use block_records_keys [of rd height kvs] in auto)
  show ?thesis
  proof (cases "us = []")
    case True
    then show ?thesis by (simp add: has_log_def len)
  next
    case False
    with assms have "key \<noteq> manifest_base" by simp
    then have "k \<notin> op_key ` set (block_records rd height kvs)" if "k \<in> log_keys key" for k
      using block_records_keys [of rd height kvs] that by auto
    then show ?thesis by (intro has_log_frame) (simp add: apply_ops_other)
  qed
qed

lemma build_batch_effect:
  assumes logs: "logs_of hexe m L" and room: "room_for kvs L" and user: "manifest_base \<notin> fst ` set kvs"
    and base: "L manifest_base = []"
  obtains ops where
    "build_state_root_batch_unwritten hexe (reader_of m) height kvs bh c
       = (Inr (prev_root_of (reader_of m) height, ops), clear_caches c)"
    "logs_of hexe (apply_ops ops m) (\<lambda>key. append_block height kvs key (L key))"
    "op_key ` set ops \<subseteq> (\<Union>key \<in> fst ` set kvs. log_keys key)
        \<union> {root_key height, manifest_key height, TIP_HEIGHT_KEY}"
    "apply_ops ops m (root_key height) = Some (prev_root_of (reader_of m) height)"
    "kvs \<noteq> [] \<Longrightarrow> apply_ops ops m (manifest_key height) = Some (serialize_key_manifest (unique_keys kvs))"
    "apply_ops ops m TIP_HEIGHT_KEY = Some (le_bytes 4 height)"
proof -
  have "\<exists>ops kl'. rfold (block_update_step hexe (reader_of m) height) kvs ([], Map.empty) = Inr ([] @ ops, kl')
     \<and> op_key ` set ops \<subseteq> (\<Union>key \<in> fst ` set kvs. log_keys key)
     \<and> (\<forall>key us. loop_inv hexe m [] Map.empty key us \<longrightarrow> (key \<in> fst ` set kvs \<longrightarrow> us = L key) \<longrightarrow>
          has_log hexe (apply_ops ([] @ ops) m) key (append_block height kvs key us))"
    by (rule block_loop) (use logs room in \<open>auto simp: logs_of_def room_for_def loop_inv_start\<close>)
  then obtain ops kl' where
      run: "rfold (block_update_step hexe (reader_of m) height) kvs ([], Map.empty) = Inr (ops, kl')"
      and keys: "op_key ` set ops \<subseteq> (\<Union>key \<in> fst ` set kvs. log_keys key)"
      and ext: "\<And>key. has_log hexe (apply_ops ops m) key (append_block height kvs key (L key))"
    using logs unfolding logs_of_def by (auto simp: loop_inv_start)
  let ?recs = "block_records (reader_of m) height kvs"
  show ?thesis
  proof (rule that [of "ops @ ?recs"])
    show "build_state_root_batch_unwritten hexe (reader_of m) height kvs bh c
       = (Inr (prev_root_of (reader_of m) height, ops @ ?recs), clear_caches c)"
      by (simp add: build_state_root_batch_unwritten_def run)
    show "logs_of hexe (apply_ops (ops @ ?recs) m) (\<lambda>key. append_block height kvs key (L key))"
      unfolding logs_of_def apply_ops_append
    proof
      fix key
      have "append_block height kvs key (L key) = [] \<or> key \<noteq> manifest_base"
        using base user by (auto simp: append_block_notin)
      from block_records_frame [OF this] ext [of key]
      show "has_log hexe (apply_ops ?recs (apply_ops ops m)) key (append_block height kvs key (L key))"
        by simp
    qed
    show "op_key ` set (ops @ ?recs) \<subseteq> (\<Union>key \<in> fst ` set kvs. log_keys key)
        \<union> {root_key height, manifest_key height, TIP_HEIGHT_KEY}"
      using keys block_records_keys [of "reader_of m" height kvs] by auto
  qed (simp_all add: block_records_def)
qed

lemma clear_caches_idem [simp]: "clear_caches (clear_caches c) = clear_caches c"
  by (simp add: clear_caches_def)

lemma clear_caches_empty [simp]: "caches_are_empty (clear_caches c)"
  by (simp add: clear_caches_def caches_are_empty_def)

text \<open>
  C14: one block. On a database whose records are logs with room for the block's pairs, and
  for a block that does not use the manifest's own key as a user key, the batch builder
  succeeds and the committed batch extends the log of every key by that key's values in
  the block, in order and all at the block's height (so a key written twice in a block
  keeps both updates), leaves every other log as it was, stores the previous root as the
  block's root, the manifest of the distinct keys, and the height as the runtime tip. The
  caches end empty whatever they held.
\<close>

theorem block_batch_correct:
  assumes "logs_of hexe m L" "room_for kvs L" "manifest_base \<notin> fst ` set kvs" "L manifest_base = []"
  shows "\<exists>ops. calculate_and_store_state_root_batched hexe (reader_of m)
          (\<lambda>b. Inr (apply_ops b m)) height kvs bh c
        = (Inr (prev_root_of (reader_of m) height, apply_ops ops m), clear_caches c)
     \<and> (\<forall>key. has_log hexe (apply_ops ops m) key (append_block height kvs key (L key)))
     \<and> apply_ops ops m (root_key height) = Some (prev_root_of (reader_of m) height)
     \<and> (kvs \<noteq> [] \<longrightarrow> apply_ops ops m (manifest_key height)
          = Some (serialize_key_manifest (unique_keys kvs)))
     \<and> apply_ops ops m TIP_HEIGHT_KEY = Some (le_bytes 4 height)
     \<and> caches_are_empty (clear_caches c)"
proof -
  obtain ops where
      "build_state_root_batch_unwritten hexe (reader_of m) height kvs bh c
         = (Inr (prev_root_of (reader_of m) height, ops), clear_caches c)"
      "logs_of hexe (apply_ops ops m) (\<lambda>key. append_block height kvs key (L key))"
      "apply_ops ops m (root_key height) = Some (prev_root_of (reader_of m) height)"
      "kvs \<noteq> [] \<Longrightarrow> apply_ops ops m (manifest_key height) = Some (serialize_key_manifest (unique_keys kvs))"
      "apply_ops ops m TIP_HEIGHT_KEY = Some (le_bytes 4 height)"
    using assms by (rule build_batch_effect [where height = height and bh = bh and c = c]) blast
  then show ?thesis
    by (auto simp: calculate_and_store_state_root_batched_def logs_of_def)
qed

lemma logs_of_empty [simp]: "logs_of hexe Map.empty (\<lambda>_. [])"
  by (simp add: logs_of_def has_log_def)

theorem block_batch_correct_witness:
  "\<exists>ops. calculate_and_store_state_root_batched encode_hex_fast (reader_of Map.empty)
        (\<lambda>b. Inr (apply_ops b Map.empty)) 7 [(''a'', ''1''), (''b'', ''2''), (''a'', ''3'')] [] new_caches
      = (Inr (prev_root_of (reader_of Map.empty) 7, apply_ops ops Map.empty), clear_caches new_caches)
    \<and> has_log encode_hex_fast (apply_ops ops Map.empty) ''a'' [(7, ''1''), (7, ''3'')]"
proof -
  let ?kvs = "[(''a'', ''1''), (''b'', ''2''), (''a'', ''3'')]"
  have "room_for ?kvs (\<lambda>_. [])" "manifest_base \<notin> fst ` set ?kvs"
    by (simp_all add: room_for_def u32_max_def manifest_base_def)
  from block_batch_correct [OF logs_of_empty this refl, of encode_hex_fast 7 "[]" new_caches]
  obtain ops where "calculate_and_store_state_root_batched encode_hex_fast (reader_of Map.empty)
        (\<lambda>b. Inr (apply_ops b Map.empty)) 7 ?kvs [] new_caches
      = (Inr (prev_root_of (reader_of Map.empty) 7, apply_ops ops Map.empty), clear_caches new_caches)"
    "has_log encode_hex_fast (apply_ops ops Map.empty) ''a'' (append_block 7 ?kvs ''a'' [])"
    by blast
  then show ?thesis by (intro exI [of _ ops]) simp
qed

end
