(* ===== verification/Chain.thy ===== *)
theory Chain
  imports BlockBatch
begin

text \<open>
  A chain of blocks indexed from an empty database, each committed as one batch by
  \<open>calculate_and_store_state_root_batched\<close> at the next height. \<open>chain_log\<close> is what the
  blocks put under a key, \<open>chain_inv\<close> the invariant every indexed database satisfies,
  and \<open>last_write\<close> the meaning of a historical query, stated on the blocks alone.
\<close>

type_synonym block_kvs = "(bytes \<times> bytes) list"

fun index_blocks :: "(bytes \<Rightarrow> bytes) \<Rightarrow> kvmap \<Rightarrow> nat \<Rightarrow> block_kvs list \<Rightarrow> kvmap result" where
  "index_blocks hexe m height [] = Inr m"
| "index_blocks hexe m height (kvs # blocks) =
     rbind (fst (calculate_and_store_state_root_batched hexe (reader_of m)
                   (\<lambda>b. Inr (apply_ops b m)) height kvs [] new_caches))
       (\<lambda>(root, m'). index_blocks hexe m' (height + 1) blocks)"

definition chain_log :: "block_kvs list \<Rightarrow> bytes \<Rightarrow> entry list" where
  "chain_log blocks key =
     concat (map (\<lambda>h. map (Pair h) (block_values key (blocks ! h))) [0..<length blocks])"

text \<open>The value last written to the key by the blocks at heights 0 to \<open>q\<close>.\<close>

definition last_write :: "block_kvs list \<Rightarrow> bytes \<Rightarrow> nat \<Rightarrow> bytes option" where
  "last_write blocks key q =
     (case rev (concat (map (block_values key) (take (q + 1) blocks))) of
        [] \<Rightarrow> None | v # _ \<Rightarrow> Some v)"

definition user_block :: "block_kvs \<Rightarrow> bool" where
  "user_block kvs \<longleftrightarrow> (\<forall>key \<in> fst ` set kvs. \<not> reserved_base key \<and> length key \<le> u32_max)"

definition total_pairs :: "block_kvs list \<Rightarrow> nat" where
  "total_pairs blocks = sum_list (map length blocks)"

text \<open>The chains that fit the code's integer types.\<close>

definition chain_ok :: "block_kvs list \<Rightarrow> bool" where
  "chain_ok blocks \<longleftrightarrow> (\<forall>kvs \<in> set blocks. user_block kvs)
     \<and> total_pairs blocks \<le> 2147483648 \<and> length blocks \<le> u32_max"

text \<open>
  The invariant of an indexed database. A manifest at a height whose block is empty, or
  above the chain, may be left over from a rolled-back block; what every manifest keeps is
  that it lists distinct keys.
\<close>

definition chain_inv :: "(bytes \<Rightarrow> bytes) \<Rightarrow> kvmap \<Rightarrow> block_kvs list \<Rightarrow> bool" where
  "chain_inv hexe m blocks \<longleftrightarrow>
     logs_of hexe m (chain_log blocks)
   \<and> (\<forall>h < length blocks. m (root_key h) = Some EMPTY_NODE_HASH)
   \<and> (\<forall>h < length blocks. blocks ! h \<noteq> [] \<longrightarrow>
        m (manifest_key h) = Some (serialize_key_manifest (unique_keys (blocks ! h))))
   \<and> (\<forall>h d. m (manifest_key h) = Some d \<longrightarrow> distinct (deserialize_key_manifest d))"

subsection \<open>The logs of a chain\<close>

lemma chain_log_Nil [simp]: "chain_log [] = (\<lambda>_. [])"
  by (simp add: chain_log_def fun_eq_iff)

lemma chain_log_snoc:
  "chain_log (blocks @ [kvs]) key = append_block (length blocks) kvs key (chain_log blocks key)"
proof -
  have "map (\<lambda>h. map (Pair h) (block_values key ((blocks @ [kvs]) ! h))) [0..<length blocks]
      = map (\<lambda>h. map (Pair h) (block_values key (blocks ! h))) [0..<length blocks]"
    by (rule map_cong) (simp_all add: nth_append)
  then show ?thesis unfolding chain_log_def append_block_def
    by (simp del: map_eq_conv)
qed

lemma chain_log_heights: "e \<in> set (chain_log blocks key) \<Longrightarrow> fst e < length blocks"
  by (auto simp: chain_log_def)

lemma chain_log_wf: "length blocks \<le> u32_max \<Longrightarrow> log_wf (chain_log blocks key)"
proof (induction blocks rule: rev_induct)
  case (snoc kvs blocks)
  then have "log_wf (chain_log blocks key)" by simp
  moreover have "\<forall>e \<in> set (chain_log blocks key). fst e \<le> length blocks"
    using chain_log_heights by (meson less_imp_le)
  ultimately show ?case
    using snoc.prems unfolding chain_log_snoc by (intro log_wf_append_block) simp_all
qed (simp add: log_wf_def)

lemma chain_log_length: "length (chain_log blocks key) \<le> total_pairs blocks"
proof (induction blocks rule: rev_induct)
  case (snoc kvs blocks)
  show ?case
    using snoc length_append_block [of "length blocks" kvs key "chain_log blocks key"]
    unfolding chain_log_snoc by (simp add: total_pairs_def)
qed (simp add: total_pairs_def)

lemma chain_log_reserved:
  "\<forall>kvs \<in> set blocks. user_block kvs \<Longrightarrow> reserved_base key \<Longrightarrow> chain_log blocks key = []"
proof (induction blocks rule: rev_induct)
  case (snoc kvs blocks)
  then have "key \<notin> fst ` set kvs" by (auto simp: user_block_def)
  with snoc show ?case by (simp add: chain_log_snoc append_block_notin)
qed simp

lemma upto_chain_log: "upto_height rh (chain_log blocks key) = chain_log (take (rh + 1) blocks) key"
proof (induction blocks rule: rev_induct)
  case (snoc kvs blocks)
  have app: "upto_height rh (append_block h kvs key us)
      = (if h \<le> rh then append_block h kvs key (upto_height rh us) else upto_height rh us)" for h us
    by (auto simp: append_block_def upto_height_def filter_empty_conv)
  show ?case
  proof (cases "length blocks \<le> rh")
    case True
    with snoc show ?thesis by (simp add: chain_log_snoc app)
  next
    case False
    with snoc show ?thesis by (simp add: chain_log_snoc app)
  qed
qed (simp add: upto_height_def)

lemma chain_log_above:
  assumes "upto_height rh (chain_log blocks key) \<noteq> chain_log blocks key"
  obtains h where "rh < h" "h < length blocks" "key \<in> fst ` set (blocks ! h)"
proof -
  obtain e where e: "e \<in> set (chain_log blocks key)" "rh < fst e"
    using assms by (auto simp: upto_height_def filter_id_conv not_le)
  then obtain h where "h < length blocks" "e \<in> Pair h ` set (block_values key (blocks ! h))"
    by (auto simp: chain_log_def)
  moreover from this have "key \<in> fst ` set (blocks ! h)"
    using block_values_Nil [of key "blocks ! h"] by fastforce
  ultimately show ?thesis using that [of h] e(2) by auto
qed

lemma chain_ok_take: "chain_ok blocks \<Longrightarrow> chain_ok (take n blocks)"
proof -
  assume ok: "chain_ok blocks"
  have "total_pairs blocks = total_pairs (take n blocks) + total_pairs (drop n blocks)"
    unfolding total_pairs_def by (metis append_take_drop_id map_append sum_list_append)
  with ok show ?thesis by (auto simp: chain_ok_def dest: in_set_takeD)
qed

lemma set_unique_keys [simp]: "set (unique_keys kvs) = fst ` set kvs"
  by (simp add: unique_keys_def)

lemma distinct_unique_keys [simp]: "distinct (unique_keys kvs)"
  unfolding unique_keys_def by (rule distinct_remdups_adj_sorted) simp

lemma length_unique_keys: "length (unique_keys kvs) \<le> length kvs"
  unfolding unique_keys_def using remdups_adj_length [of "sort (map fst kvs)"] by simp

lemma block_manifest_roundtrip:
  "user_block kvs \<Longrightarrow> length kvs \<le> u32_max \<Longrightarrow>
   deserialize_key_manifest (serialize_key_manifest (unique_keys kvs)) = unique_keys kvs"
  using length_unique_keys [of kvs]
  by (intro deserialize_serialize_manifest) (auto simp: user_block_def)

lemma value_at_chain_log: "value_at q (chain_log blocks key) = last_write blocks key q"
proof -
  have "map snd (upto_height q (chain_log blocks key))
      = concat (map (block_values key) (take (q + 1) blocks))"
  proof (induction blocks rule: rev_induct)
    case (snoc kvs blocks)
    show ?case
    proof (cases "length blocks \<le> q")
      case True
      with snoc show ?thesis
        by (simp add: chain_log_snoc append_block_def upto_height_def comp_def)
    next
      case False
      with snoc show ?thesis
        by (simp add: chain_log_snoc append_block_def upto_height_def)
    qed
  qed (simp add: upto_height_def)
  then have "rev (concat (map (block_values key) (take (q + 1) blocks)))
      = map snd (rev (upto_height q (chain_log blocks key)))" unfolding rev_map [symmetric] by simp
  then show ?thesis
    by (simp add: value_at_def last_write_def split: list.splits)
qed

subsection \<open>The invariant\<close>

lemma chain_inv_empty: "chain_inv hexe Map.empty []"
  by (simp add: chain_inv_def)

lemma chain_inv_prev_root:
  assumes "chain_inv hexe m blocks"
  shows "prev_root_of (reader_of m) (length blocks) = EMPTY_NODE_HASH"
proof (cases blocks rule: rev_cases)
  case (snoc ys y)
  then have "root_at m (length ys) = Some EMPTY_NODE_HASH"
    using assms by (simp add: chain_inv_def root_at_def)
  then have "closest_root m (length ys) = Some EMPTY_NODE_HASH"
    by (cases "length ys") simp_all
  then show ?thesis
    by (simp add: prev_root_of_def batched_root_eq get_smt_root_eq snoc)
qed (simp add: prev_root_of_def)

text \<open>The batch of the next block, with the keys it touches.\<close>

lemma chain_build:
  assumes inv: "chain_inv hexe m blocks" and ok: "chain_ok (blocks @ [kvs])"
  obtains ops where
    "build_state_root_batch_unwritten hexe (reader_of m) (length blocks) kvs bh c
        = (Inr (EMPTY_NODE_HASH, ops), clear_caches c)"
    "logs_of hexe (apply_ops ops m) (\<lambda>key. append_block (length blocks) kvs key (chain_log blocks key))"
    "op_key ` set ops \<subseteq> (\<Union>key \<in> fst ` set kvs. log_keys key)
         \<union> {root_key (length blocks), manifest_key (length blocks), TIP_HEIGHT_KEY}"
    "apply_ops ops m (root_key (length blocks)) = Some EMPTY_NODE_HASH"
    "kvs \<noteq> [] \<Longrightarrow> apply_ops ops m (manifest_key (length blocks))
          = Some (serialize_key_manifest (unique_keys kvs))"
proof -
  let ?h = "length blocks"
  let ?L = "chain_log blocks"
  have ub: "user_block kvs" and users: "\<forall>kvs \<in> set blocks. user_block kvs"
    using ok by (simp_all add: chain_ok_def)
  have user: "manifest_base \<notin> fst ` set kvs" and base: "?L manifest_base = []"
    using ub chain_log_reserved [OF users] by (auto simp: user_block_def reserved_base_def)
  have room: "room_for kvs ?L"
    unfolding room_for_def
  proof
    fix key
    have "length (?L key) + length kvs \<le> total_pairs (blocks @ [kvs])"
      using chain_log_length [of blocks key] by (simp add: total_pairs_def)
    then show "length (?L key) + length kvs \<le> u32_max"
      using ok by (simp add: chain_ok_def u32_max_def)
  qed
  have "logs_of hexe m ?L" using inv by (simp add: chain_inv_def)
  then obtain ops where
      "build_state_root_batch_unwritten hexe (reader_of m) ?h kvs bh c
        = (Inr (prev_root_of (reader_of m) ?h, ops), clear_caches c)"
      "logs_of hexe (apply_ops ops m) (\<lambda>key. append_block ?h kvs key (?L key))"
      "op_key ` set ops \<subseteq> (\<Union>key \<in> fst ` set kvs. log_keys key)
         \<union> {root_key ?h, manifest_key ?h, TIP_HEIGHT_KEY}"
      "apply_ops ops m (root_key ?h) = Some (prev_root_of (reader_of m) ?h)"
      "kvs \<noteq> [] \<Longrightarrow> apply_ops ops m (manifest_key ?h) = Some (serialize_key_manifest (unique_keys kvs))"
    by (rule build_batch_effect [OF _ room user base, where height = ?h and bh = bh and c = c]) (rule that)
  then show ?thesis using that [of ops] unfolding chain_inv_prev_root [OF inv] by blast
qed

lemma chain_step:
  assumes inv: "chain_inv hexe m blocks" and ok: "chain_ok (blocks @ [kvs])"
  obtains m' where
    "calculate_and_store_state_root_batched hexe (reader_of m) (\<lambda>b. Inr (apply_ops b m))
        (length blocks) kvs bh c = (Inr (EMPTY_NODE_HASH, m'), clear_caches c)"
    "chain_inv hexe m' (blocks @ [kvs])"
    "\<And>i. m' (blockhash_key i) = m (blockhash_key i)"
proof -
  let ?h = "length blocks"
  let ?L = "chain_log blocks"
  have ub: "user_block kvs" using ok by (simp add: chain_ok_def)
  then have user: "manifest_base \<notin> fst ` set kvs" by (auto simp: user_block_def reserved_base_def)
  obtain ops where
      run: "build_state_root_batch_unwritten hexe (reader_of m) ?h kvs bh c
        = (Inr (EMPTY_NODE_HASH, ops), clear_caches c)"
      and logs: "logs_of hexe (apply_ops ops m) (\<lambda>key. append_block ?h kvs key (?L key))"
      and keys: "op_key ` set ops \<subseteq> (\<Union>key \<in> fst ` set kvs. log_keys key)
         \<union> {root_key ?h, manifest_key ?h, TIP_HEIGHT_KEY}"
      and root: "apply_ops ops m (root_key ?h) = Some EMPTY_NODE_HASH"
      and man: "kvs \<noteq> [] \<Longrightarrow> apply_ops ops m (manifest_key ?h)
          = Some (serialize_key_manifest (unique_keys kvs))"
    by (rule chain_build [OF inv ok]) (rule that)
  have notin: "root_key h \<notin> op_key ` set ops" "manifest_key h \<notin> op_key ` set ops" if "h \<noteq> ?h" for h
  proof -
    let ?logs = "\<Union>key \<in> fst ` set kvs. log_keys key"
    let ?recs = "{root_key ?h, manifest_key ?h, TIP_HEIGHT_KEY}"
    have "root_key h \<notin> log_keys key" "manifest_key h \<notin> log_keys key" if "key \<in> fst ` set kvs" for key
    proof -
      have "key \<noteq> manifest_base" using user that by metis
      then show "root_key h \<notin> log_keys key" "manifest_key h \<notin> log_keys key" by simp_all
    qed
    then have "root_key h \<notin> ?logs" "manifest_key h \<notin> ?logs" by blast+
    moreover have "root_key h \<notin> ?recs" "manifest_key h \<notin> ?recs"
      using \<open>h \<noteq> ?h\<close> by simp_all
    ultimately have "root_key h \<notin> ?logs \<union> ?recs" "manifest_key h \<notin> ?logs \<union> ?recs"
      by (simp_all only: Un_iff not_False_eq_True simp_thms)
    then show "root_key h \<notin> op_key ` set ops" "manifest_key h \<notin> op_key ` set ops"
      using keys by (meson subsetD)+
  qed
  have empty: "apply_ops ops m (manifest_key ?h) = m (manifest_key ?h)" if "kvs = []"
    using run that
    by (intro apply_ops_other)
       (auto simp: build_state_root_batch_unwritten_def block_records_def)
  show ?thesis
  proof (rule that [of "apply_ops ops m"])
    show "calculate_and_store_state_root_batched hexe (reader_of m) (\<lambda>b. Inr (apply_ops b m))
        ?h kvs bh c = (Inr (EMPTY_NODE_HASH, apply_ops ops m), clear_caches c)"
      using run by (simp add: calculate_and_store_state_root_batched_def)
    have r: "apply_ops ops m (root_key h) = Some EMPTY_NODE_HASH" if "h < Suc ?h" for h
      using inv root notin(1) [of h] that
      by (cases "h = ?h") (auto simp: chain_inv_def apply_ops_other)
    have mf: "apply_ops ops m (manifest_key h)
        = Some (serialize_key_manifest (unique_keys ((blocks @ [kvs]) ! h)))"
      if "h < Suc ?h" "(blocks @ [kvs]) ! h \<noteq> []" for h
    proof (cases "h = ?h")
      case True
      with man that show ?thesis by simp
    next
      case False
      with that notin(2) [of h] inv show ?thesis
        by (auto simp: chain_inv_def apply_ops_other nth_append)
    qed
    have len: "length kvs \<le> u32_max"
      using ok by (simp add: chain_ok_def total_pairs_def u32_max_def)
    have md: "distinct (deserialize_key_manifest d)" if d: "apply_ops ops m (manifest_key h) = Some d" for h d
    proof (cases "h = ?h \<and> kvs \<noteq> []")
      case True
      with man d block_manifest_roundtrip [OF ub len] show ?thesis by auto
    next
      case False
      then have "apply_ops ops m (manifest_key h) = m (manifest_key h)"
        using empty notin(2) [of h] by (cases "h = ?h") (auto simp: apply_ops_other)
      with d inv show ?thesis by (simp add: chain_inv_def)
    qed
    show "chain_inv hexe (apply_ops ops m) (blocks @ [kvs])"
      using logs r mf md by (simp add: chain_inv_def logs_of_def chain_log_snoc)
    show "apply_ops ops m (blockhash_key i) = m (blockhash_key i)" for i
    proof (rule apply_ops_other)
      have "blockhash_key i \<notin> log_keys key" if "key \<in> fst ` set kvs" for key
      proof -
        have "key \<noteq> blockhash_base" using ub that by (auto simp: user_block_def reserved_base_def)
        then show ?thesis by (auto simp: log_keys_def)
      qed
      moreover have "blockhash_key i \<notin> {root_key ?h, manifest_key ?h, TIP_HEIGHT_KEY}"
        by (simp add: not_sym [OF manifest_neq_blockhash(1)])
      ultimately show "blockhash_key i \<notin> op_key ` set ops" using keys by blast
    qed
  qed
qed

lemma index_blocks_inv:
  assumes "chain_inv hexe m blocks" "chain_ok (blocks @ rest)"
  shows "\<exists>m'. index_blocks hexe m (length blocks) rest = Inr m' \<and> chain_inv hexe m' (blocks @ rest)"
  using assms
proof (induction rest arbitrary: m blocks)
  case (Cons kvs rest)
  have "chain_ok (blocks @ [kvs])"
    using Cons.prems(2) by (auto simp: chain_ok_def total_pairs_def)
  with Cons.prems(1) obtain m' where
      "calculate_and_store_state_root_batched hexe (reader_of m) (\<lambda>b. Inr (apply_ops b m))
        (length blocks) kvs [] new_caches = (Inr (EMPTY_NODE_HASH, m'), clear_caches new_caches)"
      and "chain_inv hexe m' (blocks @ [kvs])"
    by (rule chain_step)
  with Cons.IH [of m' "blocks @ [kvs]"] Cons.prems(2) show ?case by simp
qed auto

lemma chain_inv_query:
  assumes "hex_codec hexe hexd" "chain_inv hexe m blocks" "chain_ok blocks"
  shows "get_at_height (reader_of m) hexd key q = Inr (last_write blocks key q)"
proof -
  have "has_log hexe m key (chain_log blocks key)" "log_wf (chain_log blocks key)"
      "searchable (chain_log blocks key)"
    using assms(2,3) chain_log_wf chain_log_length [of blocks key]
    by (auto simp: chain_inv_def logs_of_def chain_ok_def searchable_def)
  from hex_codec.get_at_height_value [OF assms(1) this] show ?thesis
    by (simp add: value_at_chain_log)
qed

definition sample_chain :: "block_kvs list" where
  "sample_chain = [[(''a'', ''1''), (''b'', ''2'')], [], [(''a'', ''3''), (''a'', ''4'')]]"

lemma sample_chain_ok: "chain_ok sample_chain"
  by (simp add: chain_ok_def sample_chain_def user_block_def reserved_base_def manifest_base_def
      blockhash_base_def total_pairs_def u32_max_def)

text \<open>
  C9: indexing a whole chain. Committing any list of blocks, one batch per block at heights
  0, 1, 2 and so on, from an empty database succeeds (as long as the heights, and the
  number of pairs, fit the integer types and no block writes under the two reserved
  keys), and afterwards a historical query for any key at any height returns exactly the
  value last written to the key by the blocks up to that height.
\<close>

theorem indexed_chain_queries:
  assumes "hex_codec hexe hexd" "chain_ok blocks"
  shows "\<exists>m. index_blocks hexe Map.empty 0 blocks = Inr m
     \<and> (\<forall>key q. get_at_height (reader_of m) hexd key q = Inr (last_write blocks key q))"
  using index_blocks_inv [OF chain_inv_empty, of blocks hexe] assms
    chain_inv_query [OF assms(1) _ assms(2)] by auto

theorem indexed_chain_queries_witness:
  "\<exists>m. index_blocks encode_hex_fast Map.empty 0 sample_chain = Inr m
     \<and> get_at_height (reader_of m) hex_decode ''a'' 1 = Inr (Some ''1'')
     \<and> get_at_height (reader_of m) hex_decode ''a'' 9 = Inr (Some ''4'')
     \<and> get_at_height (reader_of m) hex_decode ''c'' 9 = Inr None"
  using indexed_chain_queries [OF hx.hex_codec_axioms sample_chain_ok]
  by (auto simp: sample_chain_def last_write_def block_values_def)

text \<open>
  The state root of block processing is a placeholder. Whatever the blocks write, the
  root stored for every height of a chain indexed from an empty database is the empty
  node hash, and so is the root each further block reports.
\<close>

theorem state_root_is_placeholder:
  assumes "chain_ok (blocks @ [kvs])"
  shows "\<exists>m m'. index_blocks hexe Map.empty 0 blocks = Inr m
     \<and> (\<forall>h < length blocks. get_smt_root_at_height (reader_of m) h = Inr EMPTY_NODE_HASH)
     \<and> fst (calculate_and_store_state_root_batched hexe (reader_of m) (\<lambda>b. Inr (apply_ops b m))
          (length blocks) kvs bh c) = Inr (EMPTY_NODE_HASH, m')"
proof -
  have "chain_ok blocks" using assms by (simp add: chain_ok_def total_pairs_def)
  then obtain m where m: "index_blocks hexe Map.empty 0 blocks = Inr m" "chain_inv hexe m blocks"
    using index_blocks_inv [OF chain_inv_empty, of blocks hexe] by auto
  obtain m' where "calculate_and_store_state_root_batched hexe (reader_of m) (\<lambda>b. Inr (apply_ops b m))
      (length blocks) kvs bh c = (Inr (EMPTY_NODE_HASH, m'), clear_caches c)"
    using chain_step [OF m(2) assms] by metis
  moreover have "get_smt_root_at_height (reader_of m) h = Inr EMPTY_NODE_HASH" if "h < length blocks" for h
  proof -
    have "root_at m h = Some EMPTY_NODE_HASH" using m(2) that by (simp add: chain_inv_def root_at_def)
    then have "closest_root m h = Some EMPTY_NODE_HASH" by (cases h) simp_all
    then show ?thesis by (simp add: get_smt_root_eq)
  qed
  ultimately show ?thesis using m(1) by (intro exI [of _ m] exI [of _ m']) simp
qed

theorem state_root_is_placeholder_witness:
  "\<exists>m m'. index_blocks encode_hex_fast Map.empty 0 sample_chain = Inr m
     \<and> fst (calculate_and_store_state_root_batched encode_hex_fast (reader_of m)
          (\<lambda>b. Inr (apply_ops b m)) 3 [(''k'', ''v'')] [] new_caches) = Inr (EMPTY_NODE_HASH, m')"
proof -
  have "chain_ok (sample_chain @ [[(''k'', ''v'')]])"
    by (simp add: chain_ok_def sample_chain_def user_block_def reserved_base_def manifest_base_def
        blockhash_base_def total_pairs_def u32_max_def)
  from state_root_is_placeholder [OF this, of encode_hex_fast "[]" new_caches]
  show ?thesis by (auto simp: sample_chain_def numeral_3_eq_3)
qed

end
