(* ===== verification/Rollback.thy ===== *)
theory Rollback
  imports Chain
begin

text \<open>
  The two rollback routines of \<open>crates/metashrew-runtime/src/rollback.rs\<close>, generic in the
  backend (\<open>trait SmtRollback\<close>): \<open>rollback_smt_data\<close> scans the whole store,
  \<open>rollback_with_manifests\<close> follows the per-height manifests. The locale states what a
  backend promises; inside it both are shown to truncate every log to the target height.
\<close>

text \<open>
  \<open>trait SmtRollback\<close>. \<open>iter_keys\<close> hands every key to a callback; the callbacks of this
  program only collect and never fail, so it is the list of the keys or the error.
\<close>

record 's smt_backend =
  iter_keys :: "'s \<Rightarrow> bytes list result"
  get_value :: "'s \<Rightarrow> bytes \<Rightarrow> bytes option result"
  apply_atomic :: "batch \<Rightarrow> ('s, unit) st"

text \<open>The default \<open>apply_atomic\<close>: one \<open>put_key\<close> or \<open>delete_key\<close> per operation.\<close>

definition apply_atomic_default ::
    "(bytes \<Rightarrow> bytes \<Rightarrow> ('s, unit) st) \<Rightarrow> (bytes \<Rightarrow> ('s, unit) st) \<Rightarrow> batch \<Rightarrow> ('s, unit) st" where
  "apply_atomic_default put_key delete_key ops =
     sfold (\<lambda>x _. case x of Put k v \<Rightarrow> put_key k v | Delete k \<Rightarrow> delete_key k) ops ()"

definition parse_height_from_smt_value :: "bytes \<Rightarrow> nat option" where
  "parse_height_from_smt_value val =
     (case split_colon (utf8_lossy val) of
        Some (height_str, _) \<Rightarrow> parse_u32 height_str
      | None \<Rightarrow> None)"

subsection \<open>The full scan\<close>

definition metadata_height :: "bytes \<Rightarrow> nat option" where
  "metadata_height key =
     (let key_str = utf8_lossy key in
      case strip_prefix ''block_hash_'' key_str of
        Some stripped \<Rightarrow> parse_u32 stripped
      | None \<Rightarrow>
          (case strip_prefix ''state_root_'' key_str of
             Some stripped \<Rightarrow> parse_u32 stripped
           | None \<Rightarrow>
               (case strip_prefix ''smt:root:'' key_str of
                  Some stripped \<Rightarrow> parse_u32 stripped
                | None \<Rightarrow> None)))"

definition collect_keys :: "nat \<Rightarrow> bytes list \<Rightarrow> bytes list \<times> bytes list" where
  "collect_keys rollback_height keys =
     fold (\<lambda>key (metadata_keys, base_keys).
        case metadata_height key of
          Some h \<Rightarrow> (if h > rollback_height then metadata_keys @ [key] else metadata_keys, base_keys)
        | None \<Rightarrow>
            if ends_with key length_suffix
            then (metadata_keys, base_keys @ [strip_suffix_len length_suffix key])
            else (metadata_keys, base_keys)) keys ([], [])"

text \<open>The surviving updates of one structure, in slot order.\<close>

definition valid_updates :: "reader \<Rightarrow> nat \<Rightarrow> bytes \<Rightarrow> nat \<Rightarrow> bytes list result" where
  "valid_updates rd rollback_height base_key old_length =
     rfold (\<lambda>i valid. rbind (rd (update_key base_key i)) (\<lambda>u.
        Inr (case u of
               Some update_data \<Rightarrow>
                 (case parse_height_from_smt_value update_data of
                    Some update_height \<Rightarrow>
                      if update_height \<le> rollback_height then valid @ [update_data] else valid
                  | None \<Rightarrow> valid)
             | None \<Rightarrow> valid))) [0..<old_length] []"

definition compact_ops :: "bytes \<Rightarrow> nat \<Rightarrow> bytes list \<Rightarrow> batch" where
  "compact_ops base_key old_length valid =
     map (\<lambda>i. Delete (update_key base_key i)) [0..<old_length]
     @ map (\<lambda>(new_index, update_data). Put (update_key base_key new_index) update_data) (enumerate 0 valid)
     @ [if length valid > 0 then Put (length_key base_key) (dec (length valid))
        else Delete (length_key base_key)]"

definition rollback_structure :: "'s smt_backend \<Rightarrow> nat \<Rightarrow> bytes \<Rightarrow> ('s, unit) st" where
  "rollback_structure be rollback_height base_key s =
     (case get_value be s (length_key base_key) of
        Inl e \<Rightarrow> (Inl e, s)
      | Inr None \<Rightarrow> (Inr (), s)
      | Inr (Some length_bytes) \<Rightarrow>
          let old_length = parsed_length length_bytes in
          (case valid_updates (get_value be s) rollback_height base_key old_length of
             Inl e \<Rightarrow> (Inl e, s)
           | Inr valid \<Rightarrow> apply_atomic be (compact_ops base_key old_length valid) s))"

definition rollback_smt_data :: "'s smt_backend \<Rightarrow> nat \<Rightarrow> nat \<Rightarrow> ('s, unit) st" where
  "rollback_smt_data be rollback_height current_height s =
     (if rollback_height \<ge> current_height then (Inr (), s)
      else case iter_keys be s of
        Inl e \<Rightarrow> (Inl e, s)
      | Inr keys \<Rightarrow>
          (case collect_keys rollback_height keys of (metadata_keys, base_keys) \<Rightarrow>
             sbind (apply_atomic be (map Delete metadata_keys)) (\<lambda>_.
               sfold (\<lambda>base_key _. rollback_structure be rollback_height base_key)
                 (remdups_adj (sort base_keys)) ()) s))"

subsection \<open>The manifest path\<close>

fun manifests_present :: "reader \<Rightarrow> nat list \<Rightarrow> bool result" where
  "manifests_present rd [] = Inr True"
| "manifests_present rd (h # hs) =
     rbind (rd (manifest_key h)) (\<lambda>r.
       case r of None \<Rightarrow> Inr False | Some _ \<Rightarrow> manifests_present rd hs)"

text \<open>The walk \<open>for i in (0..length).rev()\<close> with its early \<open>break\<close>.\<close>

fun walk_back :: "reader \<Rightarrow> nat \<Rightarrow> bytes \<Rightarrow> nat \<Rightarrow> batch \<Rightarrow> nat \<Rightarrow> (batch \<times> nat) result" where
  "walk_back rd rollback_height key 0 ops new_length = Inr (ops, new_length)"
| "walk_back rd rollback_height key (Suc i) ops new_length =
     rbind (rd (update_key key i)) (\<lambda>u.
       case Option.bind u parse_height_from_smt_value of
         Some entry_height \<Rightarrow>
           if entry_height > rollback_height
           then walk_back rd rollback_height key i (ops @ [Delete (update_key key i)]) i
           else Inr (ops, new_length)
       | None \<Rightarrow> walk_back rd rollback_height key i ops new_length)"

definition trim_key :: "reader \<Rightarrow> nat \<Rightarrow> bytes \<Rightarrow> batch \<Rightarrow> batch result" where
  "trim_key rd rollback_height key ops =
     rbind (rd (length_key key)) (\<lambda>r.
       case r of
         None \<Rightarrow> Inr ops
       | Some length_bytes \<Rightarrow>
           let n = parsed_length length_bytes in
           rbind (walk_back rd rollback_height key n ops n) (\<lambda>(ops, new_length).
             Inr (if new_length \<noteq> n then
                    ops @ [if new_length > 0 then Put (length_key key) (dec new_length)
                           else Delete (length_key key)]
                  else ops)))"

definition record_deletes :: "nat \<Rightarrow> batch" where
  "record_deletes h =
     [Delete (manifest_key h), Delete (root_key h), Delete (block_hash_record h),
      Delete (state_root_record h), Delete (blockhash_key h)]"

definition unwrap_panic :: string where
  "unwrap_panic = ''called `Option::unwrap()` on a `None` value''"

definition rollback_one_height :: "'s smt_backend \<Rightarrow> nat \<Rightarrow> nat \<Rightarrow> ('s, unit) st" where
  "rollback_one_height be rollback_height h s =
     (case get_value be s (manifest_key h) of
        Inl e \<Rightarrow> (Inl e, s)
      | Inr None \<Rightarrow> (Inl unwrap_panic, s)
      | Inr (Some manifest_data) \<Rightarrow>
          (case rfold (trim_key (get_value be s) rollback_height)
                  (deserialize_key_manifest manifest_data) [] of
             Inl e \<Rightarrow> (Inl e, s)
           | Inr ops \<Rightarrow> apply_atomic be (ops @ record_deletes h) s))"

definition rollback_with_manifests :: "'s smt_backend \<Rightarrow> nat \<Rightarrow> nat \<Rightarrow> ('s, bool) st" where
  "rollback_with_manifests be rollback_height current_height s =
     (if rollback_height \<ge> current_height then (Inr True, s)
      else case manifests_present (get_value be s) [rollback_height + 1..<current_height + 1] of
        Inl e \<Rightarrow> (Inl e, s)
      | Inr False \<Rightarrow> (Inr False, s)
      | Inr True \<Rightarrow>
          sbind (sfold (\<lambda>h _. rollback_one_height be rollback_height h)
                   (rev [rollback_height + 1..<current_height + 1]) ())
            (\<lambda>_. sreturn True) s)"

subsection \<open>Facts about the steps\<close>

lemma parse_height_eq: "parse_height_from_smt_value = update_height_of"
  by (simp add: fun_eq_iff parse_height_from_smt_value_def update_height_of_def)

lemma metadata_no_slash:
  assumes "metadata_height k = Some h"
  shows "CHR ''/'' \<notin> set k"
proof
  assume "CHR ''/'' \<in> set k"
  then have "CHR ''/'' \<in> set (utf8_lossy k)" by (rule utf8_lossy_keeps) simp
  moreover have "CHR ''/'' \<notin> set r" if "parse_u32 r = Some h" for r
    using parse_u32_chars [OF that, of "CHR ''/''"] by auto
  ultimately show False
    using assms by (auto simp: metadata_height_def Let_def strip_prefix_Some split: option.splits)
qed

lemma log_keys_slash: "k \<in> log_keys key \<Longrightarrow> CHR ''/'' \<in> set k"
  using slash_in_keys by (auto simp: log_keys_def)

lemma log_keys_not_metadata: "k \<in> log_keys key \<Longrightarrow> metadata_height k = None"
  using metadata_no_slash [of k] log_keys_slash [of k key] by (cases "metadata_height k") auto

lemma metadata_root_key: "h \<le> u32_max \<Longrightarrow> metadata_height (root_key h) = Some h"
  by (simp add: metadata_height_def Let_def root_key_def SMT_ROOT_PREFIX_def strip_prefix_def)

lemma collect_keys_eq:
  "collect_keys rh keys =
    (filter (\<lambda>k. \<exists>h. metadata_height k = Some h \<and> h > rh) keys,
     map (strip_suffix_len length_suffix)
       (filter (\<lambda>k. metadata_height k = None \<and> ends_with k length_suffix) keys))"
proof -
  have "fold (\<lambda>key (metadata_keys, base_keys).
        case metadata_height key of
          Some h \<Rightarrow> (if h > rh then metadata_keys @ [key] else metadata_keys, base_keys)
        | None \<Rightarrow>
            if ends_with key length_suffix
            then (metadata_keys, base_keys @ [strip_suffix_len length_suffix key])
            else (metadata_keys, base_keys)) keys (ms, bs)
     = (ms @ filter (\<lambda>k. \<exists>h. metadata_height k = Some h \<and> h > rh) keys,
        bs @ map (strip_suffix_len length_suffix)
          (filter (\<lambda>k. metadata_height k = None \<and> ends_with k length_suffix) keys))" for ms bs
    by (induction keys arbitrary: ms bs) (auto split: option.splits)
  then show ?thesis by (simp add: collect_keys_def)
qed

lemma collected_bases:
  "key \<in> set (snd (collect_keys rh keys)) \<longleftrightarrow> length_key key \<in> set keys"
proof -
  have strip: "strip_suffix_len length_suffix k = key \<and> ends_with k length_suffix \<longleftrightarrow> k = length_key key" for k
    by (auto simp: ends_with_iff length_key_def length_suffix_def strip_suffix_len_def)
  let ?sel = "{k \<in> set keys. metadata_height k = None \<and> ends_with k length_suffix}"
  have none: "metadata_height (length_key key) = None"
    by (rule log_keys_not_metadata [of _ key]) (simp add: log_keys_def)
  have "key \<in> strip_suffix_len length_suffix ` ?sel \<longleftrightarrow> length_key key \<in> set keys"
  proof
    assume "key \<in> strip_suffix_len length_suffix ` ?sel"
    then obtain k where "k \<in> set keys" "strip_suffix_len length_suffix k = key \<and> ends_with k length_suffix"
      by blast
    then show "length_key key \<in> set keys" by (simp only: strip)
  next
    assume "length_key key \<in> set keys"
    moreover have "strip_suffix_len length_suffix (length_key key) = key
        \<and> ends_with (length_key key) length_suffix" by (simp only: strip)
    ultimately show "key \<in> strip_suffix_len length_suffix ` ?sel"
      using none by (intro image_eqI [of _ _ "length_key key"]) simp_all
  qed
  then show ?thesis by (simp add: collect_keys_eq)
qed

text \<open>What the full scan queues for one structure, on any database.\<close>

definition valid_of :: "kvmap \<Rightarrow> nat \<Rightarrow> bytes \<Rightarrow> nat \<Rightarrow> bytes list" where
  "valid_of m rh key n =
     concat (map (\<lambda>i. case m (update_key key i) of
        Some d \<Rightarrow> (case update_height_of d of Some h \<Rightarrow> if h \<le> rh then [d] else [] | None \<Rightarrow> [])
      | None \<Rightarrow> []) [0..<n])"

definition structure_ops :: "kvmap \<Rightarrow> nat \<Rightarrow> bytes \<Rightarrow> batch" where
  "structure_ops m rh key =
     (case m (length_key key) of
        None \<Rightarrow> []
      | Some b \<Rightarrow> compact_ops key (parsed_length b) (valid_of m rh key (parsed_length b)))"

lemma valid_updates_eq: "valid_updates (reader_of m) rh key n = Inr (valid_of m rh key n)"
proof (induction n)
  case (Suc n)
  then show ?case
    by (simp add: valid_updates_def valid_of_def rfold_append parse_height_eq split: option.splits)
qed (simp add: valid_updates_def valid_of_def)

lemma compact_ops_keys: "op_key ` set (compact_ops key n valid) \<subseteq> log_keys key"
  by (auto simp: compact_ops_def log_keys_def)

lemma structure_ops_keys: "op_key ` set (structure_ops m rh key) \<subseteq> log_keys key"
  by (cases "m (length_key key)") (simp_all add: structure_ops_def compact_ops_keys)

lemma structure_ops_cong:
  assumes "\<And>k. k \<in> log_keys key \<Longrightarrow> m k = m' k"
  shows "structure_ops m rh key = structure_ops m' rh key"
proof -
  have "m (length_key key) = m' (length_key key)" "\<And>i. m (update_key key i) = m' (update_key key i)"
    using assms by (simp_all add: log_keys_def)
  then show ?thesis by (simp add: structure_ops_def valid_of_def cong: option.case_cong)
qed

lemma compact_ops_effect:
  "apply_ops (compact_ops key n valid) m (length_key key)
     = (if valid = [] then None else Some (dec (length valid)))"
  "apply_ops (compact_ops key n valid) m (update_key key i)
     = (if i < length valid then Some (valid ! i) else if i < n then None else m (update_key key i))"
proof -
  let ?puts = "map (\<lambda>(j, d). Put (update_key key j) d) (enumerate 0 valid)"
  have puts: "apply_ops ?puts m' (update_key key i)
      = (if i < length valid then Some (valid ! i) else m' (update_key key i))" for m' i
  proof (induction valid rule: rev_induct)
    case (snoc v vs)
    then show ?case by (auto simp: enumerate_append_eq nth_append less_Suc_eq)
  qed simp
  show "apply_ops (compact_ops key n valid) m (length_key key)
     = (if valid = [] then None else Some (dec (length valid)))"
    by (simp add: compact_ops_def)
  show "apply_ops (compact_ops key n valid) m (update_key key i)
     = (if i < length valid then Some (valid ! i) else if i < n then None else m (update_key key i))"
    by (auto simp: compact_ops_def puts apply_ops_map_Delete)
qed

context hex_codec
begin

lemma valid_of_log:
  assumes log: "has_log hexe m key us" and wf: "log_wf us"
  shows "valid_of m rh key (length us)
    = map (\<lambda>e. entry_bytes hexe (fst e) (snd e)) (upto_height rh us)"
proof -
  have "k \<le> length us \<Longrightarrow> valid_of m rh key k
      = map (\<lambda>e. entry_bytes hexe (fst e) (snd e)) (upto_height rh (take k us))" for k
  proof (induction k)
    case (Suc k)
    have "fst (us ! k) \<le> u32_max" using wf Suc.prems by (simp add: log_wf_def)
    with Suc has_logD(2) [OF log, of k] show ?case
      by (simp add: valid_of_def take_Suc_conv_app_nth upto_height_def update_height_entry)
  qed (simp add: valid_of_def upto_height_def)
  from this [of "length us"] show ?thesis by simp
qed

lemma structure_ops_log:
  assumes log: "has_log hexe m key us" and wf: "log_wf us"
  shows "has_log hexe (apply_ops (structure_ops m rh key) m) key (upto_height rh us)"
proof (cases "m (length_key key)")
  case None
  with has_logD(3) [OF log None] log show ?thesis
    by (simp add: structure_ops_def upto_height_def)
next
  case (Some b)
  have "length (upto_height rh us) \<le> u32_max"
    using upto_height_le [of rh us] has_logD(1) [OF log] by simp
  then show ?thesis
    using Some has_logD(4) [OF log Some]
    by (auto simp: structure_ops_def has_log_def compact_ops_effect valid_of_log [OF log wf])
qed

end

subsection \<open>What the manifest path queues\<close>

definition fast_ops :: "nat \<Rightarrow> bytes \<Rightarrow> entry list \<Rightarrow> batch" where
  "fast_ops rh key us =
     (let k = length (upto_height rh us); n = length us in
      map (\<lambda>i. Delete (update_key key i)) (rev [k..<n])
      @ (if k = n then []
         else [if k > 0 then Put (length_key key) (dec k) else Delete (length_key key)]))"

lemma fast_ops_keys: "op_key ` set (fast_ops rh key us) \<subseteq> log_keys key"
  by (auto simp: fast_ops_def Let_def log_keys_def)

lemma fast_ops_log:
  assumes log: "has_log hexe m key us" and wf: "log_wf us"
  shows "has_log hexe (apply_ops (fast_ops rh key us) m) key (upto_height rh us)"
proof -
  let ?k = "length (upto_height rh us)"
  have up: "upto_height rh us = take ?k us" by (rule upto_height_take [OF wf])
  have le: "?k \<le> length us" by (rule upto_height_le)
  show ?thesis
  proof (cases "?k = length us")
    case True
    with up log show ?thesis by (simp add: fast_ops_def)
  next
    case False
    have "has_log hexe (apply_ops (fast_ops rh key us) m) key (take ?k us)"
      using has_logD(1,2) [OF log] False le
      by (auto simp: has_log_def fast_ops_def Let_def apply_ops_map_Delete min_def)
    with up show ?thesis by simp
  qed
qed

context hex_codec
begin

lemma walk_back_log:
  assumes log: "has_log hexe m key us" and wf: "log_wf us"
    and "i \<le> length us" and k_def: "k = length (upto_height rh us)"
  shows "walk_back (reader_of m) rh key i ops nl
    = Inr (ops @ map (\<lambda>i. Delete (update_key key i)) (rev [k..<i]), if k < i then k else nl)"
  using assms(3)
proof (induction i arbitrary: ops nl)
  case (Suc i)
  then have i: "i < length us" by simp
  have h: "Option.bind (m (update_key key i)) parse_height_from_smt_value = Some (fst (us ! i))"
    unfolding parse_height_eq by (rule log_update_height [OF log wf i])
  have "fst (us ! i) \<le> rh \<longleftrightarrow> i < k"
    unfolding k_def by (rule upto_height_nth [OF wf i])
  with h Suc show ?case by (auto simp: not_less)
qed simp

lemma trim_key_log:
  assumes log: "has_log hexe m key us" and wf: "log_wf us"
  shows "trim_key (reader_of m) rh key ops = Inr (ops @ fast_ops rh key us)"
proof (cases "m (length_key key)")
  case None
  with has_logD(3) [OF log None] show ?thesis
    by (simp add: trim_key_def fast_ops_def upto_height_def)
next
  case (Some b)
  have le: "length (upto_height rh us) \<le> length us" by (rule upto_height_le)
  show ?thesis
    using Some has_logD(4) [OF log Some] walk_back_log [OF log wf order_refl refl, of rh ops] le
    by (auto simp: trim_key_def fast_ops_def Let_def)
qed

end

lemma upto_height_idem [simp]: "upto_height h (upto_height h us) = upto_height h us"
  by (simp add: upto_height_def)

lemma fast_ops_concat_effect:
  assumes "distinct keys" "k \<in> log_keys key"
  shows "apply_ops (concat (map (\<lambda>key. fast_ops rh key (L key)) keys)) m k
    = (if key \<in> set keys then apply_ops (fast_ops rh key (L key)) m k else m k)"
  by (rule per_key_effect [OF fast_ops_keys assms])

lemma record_deletes_root:
  "apply_ops (record_deletes h) m (root_key h') = (if h' = h then None else m (root_key h'))"
  by (simp add: record_deletes_def)

lemma record_deletes_manifest:
  "apply_ops (record_deletes h) m (update_key manifest_base h')
    = (if h' = h then None else m (update_key manifest_base h'))"
proof -
  have "update_key manifest_base h' \<noteq> blockhash_key h" by (simp flip: manifest_key_alt)
  then show ?thesis by (auto simp: record_deletes_def manifest_key_alt)
qed

lemma record_deletes_frame:
  assumes "us = [] \<or> \<not> reserved_base key"
  shows "has_log hexe (apply_ops (record_deletes h) m) key us = has_log hexe m key us"
proof -
  have len: "apply_ops (record_deletes h) m (length_key key) = m (length_key key)"
    by (simp add: record_deletes_def)
  have "apply_ops (record_deletes h) m (update_key key i) = m (update_key key i)"
    if "\<not> reserved_base key" for i
    using that by (simp add: record_deletes_def reserved_base_def)
  with len assms show ?thesis
    by (cases "us = []") (auto simp: has_log_def)
qed

subsection \<open>The contract of a backend, and both rollbacks under it\<close>

locale smt_rollback =
  fixes be :: "'s smt_backend" and contents :: "'s \<Rightarrow> kvmap"
  assumes iter_all: "\<exists>keys. iter_keys be s = Inr keys \<and> set keys = dom (contents s)"
    and get_contents: "get_value be s k = Inr (contents s k)"
    and apply_all: "\<exists>s'. apply_atomic be ops s = (Inr (), s') \<and> contents s' = apply_ops ops (contents s)"
begin

lemma get_reader: "get_value be s = reader_of (contents s)"
  by (simp add: fun_eq_iff get_contents reader_of_def)

lemma rollback_structure_run:
  "\<exists>s'. rollback_structure be rh key s = (Inr (), s')
     \<and> contents s' = apply_ops (structure_ops (contents s) rh key) (contents s)"
proof (cases "contents s (length_key key)")
  case None
  then show ?thesis by (simp add: rollback_structure_def get_contents structure_ops_def)
next
  case (Some b)
  have "rollback_structure be rh key s = apply_atomic be (structure_ops (contents s) rh key) s"
    using Some valid_updates_eq [of "contents s"]
    by (simp add: rollback_structure_def get_reader reader_of_apply structure_ops_def Let_def)
  then show ?thesis using apply_all by metis
qed

lemma rollback_structures_run:
  assumes "distinct keys"
  shows "\<exists>s'. sfold (\<lambda>key _. rollback_structure be rh key) keys () s = (Inr (), s')
     \<and> (\<forall>key k. k \<in> log_keys key \<longrightarrow> contents s' k
          = (if key \<in> set keys then apply_ops (structure_ops (contents s) rh key) (contents s) k
             else contents s k))
     \<and> (\<forall>k. (\<forall>key \<in> set keys. k \<notin> log_keys key) \<longrightarrow> contents s' k = contents s k)"
  using assms
proof (induction keys arbitrary: s)
  case (Cons a keys)
  obtain s1 where s1: "rollback_structure be rh a s = (Inr (), s1)"
      and c1: "contents s1 = apply_ops (structure_ops (contents s) rh a) (contents s)"
    using rollback_structure_run by blast
  obtain s' where run: "sfold (\<lambda>key _. rollback_structure be rh key) keys () s1 = (Inr (), s')"
      and eff: "\<And>key k. k \<in> log_keys key \<Longrightarrow> contents s' k
          = (if key \<in> set keys then apply_ops (structure_ops (contents s1) rh key) (contents s1) k
             else contents s1 k)"
      and frame: "\<And>k. \<forall>key \<in> set keys. k \<notin> log_keys key \<Longrightarrow> contents s' k = contents s1 k"
    using Cons.IH [of s1] Cons.prems by auto
  have other: "contents s1 k = contents s k" if "k \<notin> log_keys a" for k
    unfolding c1 using structure_ops_keys [of "contents s" rh a] that by (intro apply_ops_other) blast
  have eff': "contents s' k = (if key \<in> set (a # keys)
      then apply_ops (structure_ops (contents s) rh key) (contents s) k else contents s k)"
    if k: "k \<in> log_keys key" for key k
  proof (cases "key = a")
    case True
    with Cons.prems eff [OF k] c1 show ?thesis by simp
  next
    case False
    then have same: "contents s1 k' = contents s k'" if "k' \<in> log_keys key" for k'
      using log_keys_disjoint [of key a k'] that by (intro other) auto
    then have "structure_ops (contents s1) rh key = structure_ops (contents s) rh key"
      by (rule structure_ops_cong)
    moreover have "apply_ops ops (contents s1) k = apply_ops ops (contents s) k" for ops
      by (rule apply_ops_key_cong) (rule same [OF k])
    ultimately show ?thesis using eff [OF k] False same [OF k] by simp
  qed
  show ?case
  proof (intro exI conjI allI impI)
    show "sfold (\<lambda>key _. rollback_structure be rh key) (a # keys) () s = (Inr (), s')"
      using s1 run by simp
    show "contents s' k = (if key \<in> set (a # keys)
      then apply_ops (structure_ops (contents s) rh key) (contents s) k else contents s k)"
      if "k \<in> log_keys key" for key k by (rule eff' [OF that])
    show "contents s' k = contents s k" if "\<forall>key \<in> set (a # keys). k \<notin> log_keys key" for k
      using frame [of k] other [of k] that by simp
  qed
qed simp

lemma rollback_smt_data_run:
  assumes hex: "hex_codec hexe hexd" and lt: "rh < ch"
    and logs: "logs_of hexe (contents s) L" and wf: "\<And>key. log_wf (L key)"
  obtains s' where
    "rollback_smt_data be rh ch s = (Inr (), s')"
    "logs_of hexe (contents s') (\<lambda>key. upto_height rh (L key))"
    "\<forall>k. (\<forall>key. k \<notin> log_keys key) \<longrightarrow> contents s' k
        = (if \<exists>h. metadata_height k = Some h \<and> h > rh then None else contents s k)"
    "\<And>key i. L key = [] \<Longrightarrow> contents s' (update_key key i) = contents s (update_key key i)"
proof -
  obtain keys where keys: "iter_keys be s = Inr keys" "set keys = dom (contents s)"
    using iter_all by blast
  define ms where "ms = fst (collect_keys rh keys)"
  define bases where "bases = remdups_adj (sort (snd (collect_keys rh keys)))"
  have ms: "set ms = {k \<in> dom (contents s). \<exists>h. metadata_height k = Some h \<and> h > rh}"
    by (simp add: ms_def collect_keys_eq keys)
  have bases: "key \<in> set bases \<longleftrightarrow> contents s (length_key key) \<noteq> None" for key
    unfolding bases_def by (simp add: collected_bases keys(2) domIff)
  obtain s1 where s1: "apply_atomic be (map Delete ms) s = (Inr (), s1)"
      "contents s1 = apply_ops (map Delete ms) (contents s)"
    using apply_all by blast
  have c1: "contents s1 k = (if k \<in> set ms then None else contents s k)" for k
    unfolding s1(2) using apply_ops_map_Delete [of "\<lambda>k. k" ms "contents s" k] by simp
  have log1: "contents s1 k = contents s k" if "k \<in> log_keys key" for k key
    using log_keys_not_metadata [OF that] by (simp add: c1 ms)
  have "distinct bases"
    unfolding bases_def by (rule distinct_remdups_adj_sorted) simp
  from rollback_structures_run [OF this, of rh s1]
  obtain s' where run: "sfold (\<lambda>key _. rollback_structure be rh key) bases () s1 = (Inr (), s')"
      and eff: "\<And>key k. k \<in> log_keys key \<Longrightarrow> contents s' k
          = (if key \<in> set bases then apply_ops (structure_ops (contents s1) rh key) (contents s1) k
             else contents s1 k)"
      and frame: "\<And>k. \<forall>key \<in> set bases. k \<notin> log_keys key \<Longrightarrow> contents s' k = contents s1 k"
    by auto
  have same_ops: "structure_ops (contents s1) rh key = structure_ops (contents s) rh key" for key
    by (rule structure_ops_cong) (rule log1)
  have eff': "contents s' k = apply_ops (structure_ops (contents s) rh key) (contents s) k"
    if k: "k \<in> log_keys key" for key k
  proof (cases "key \<in> set bases")
    case True
    have "apply_ops ops (contents s1) k = apply_ops ops (contents s) k" for ops
      by (rule apply_ops_key_cong) (rule log1 [OF k])
    with True eff [OF k] show ?thesis by (simp add: same_ops)
  next
    case False
    then have "structure_ops (contents s) rh key = []" using bases [of key] by (simp add: structure_ops_def)
    with False eff [OF k] log1 [OF k] show ?thesis by simp
  qed
  show ?thesis
  proof (rule that [of s'])
    show "rollback_smt_data be rh ch s = (Inr (), s')"
      using lt keys(1) s1(1) run
      by (simp add: rollback_smt_data_def ms_def bases_def case_prod_beta)
    show "logs_of hexe (contents s') (\<lambda>key. upto_height rh (L key))"
      unfolding logs_of_def
    proof
      fix key
      have "has_log hexe (apply_ops (structure_ops (contents s) rh key) (contents s)) key (upto_height rh (L key))"
        using logs wf by (intro hex_codec.structure_ops_log [OF hex]) (simp_all add: logs_of_def)
      then show "has_log hexe (contents s') key (upto_height rh (L key))"
        using has_log_frame [of key "contents s'"] eff' by simp
    qed
    show "\<forall>k. (\<forall>key. k \<notin> log_keys key) \<longrightarrow> contents s' k
        = (if \<exists>h. metadata_height k = Some h \<and> h > rh then None else contents s k)"
      using frame by (auto simp: c1 ms)
    show "contents s' (update_key key i) = contents s (update_key key i)" if "L key = []" for key i
    proof -
      have log: "has_log hexe (contents s) key []" using logs that by (metis logs_of_def)
      have "apply_ops (structure_ops (contents s) rh key) (contents s) (update_key key i)
          = contents s (update_key key i)"
        using has_logD(4) [OF log]
        by (cases "contents s (length_key key)")
           (simp_all add: structure_ops_def valid_of_def compact_ops_effect)
      then show ?thesis using eff' [of "update_key key i" key] by (simp add: log_keys_def)
    qed
  qed
qed

lemma rollback_one_height_run:
  assumes hex: "hex_codec hexe hexd"
    and logs: "logs_of hexe (contents s) L" and wf: "\<And>key. log_wf (L key)"
    and reserved: "L manifest_base = []" "L blockhash_base = []"
    and man: "contents s (manifest_key h) = Some d"
    and dist: "distinct (deserialize_key_manifest d)"
  obtains s' where
    "rollback_one_height be rh h s = (Inr (), s')"
    "logs_of hexe (contents s')
       (\<lambda>key. if key \<in> set (deserialize_key_manifest d) then upto_height rh (L key) else L key)"
    "\<And>h'. contents s' (root_key h') = (if h' = h then None else contents s (root_key h'))"
    "\<And>h'. contents s' (manifest_key h') = (if h' = h then None else contents s (manifest_key h'))"
proof -
  let ?keys = "deserialize_key_manifest d"
  let ?ops = "concat (map (\<lambda>key. fast_ops rh key (L key)) ?keys)"
  have log: "has_log hexe (contents s) key (L key)" for key using logs by (simp add: logs_of_def)
  have trims: "rfold (trim_key (reader_of (contents s)) rh) keys ops
      = Inr (ops @ concat (map (\<lambda>key. fast_ops rh key (L key)) keys))" for keys ops
    by (induction keys arbitrary: ops)
       (simp_all add: hex_codec.trim_key_log [OF hex log wf])
  obtain s' where s': "apply_atomic be (?ops @ record_deletes h) s = (Inr (), s')"
      "contents s' = apply_ops (?ops @ record_deletes h) (contents s)"
    using apply_all by blast
  have eff: "apply_ops ?ops (contents s) k
      = (if key \<in> set ?keys then apply_ops (fast_ops rh key (L key)) (contents s) k else contents s k)"
    if "k \<in> log_keys key" for k key
    by (rule fast_ops_concat_effect [OF dist that])
  have other: "apply_ops ?ops (contents s) k = contents s k" if "\<And>key. k \<notin> log_keys key" for k
  proof (rule apply_ops_other)
    show "k \<notin> op_key ` set ?ops"
    proof
      assume "k \<in> op_key ` set ?ops"
      then obtain key where "k \<in> op_key ` set (fast_ops rh key (L key))" by auto
      then show False using fast_ops_keys [of rh key "L key"] that by blast
    qed
  qed
  have trimmed: "has_log hexe (apply_ops ?ops (contents s)) key
      (if key \<in> set ?keys then upto_height rh (L key) else L key)" for key
    using has_log_frame [of key "apply_ops ?ops (contents s)"] eff [of _ key] log [of key]
      fast_ops_log [OF log [of key] wf [of key], of rh] by simp
  have empty: "fast_ops rh key (L key) = []" if "L key = []" for key
    by (simp add: that fast_ops_def upto_height_def)
  have upd: "apply_ops ?ops (contents s) (update_key key i) = contents s (update_key key i)"
    if "L key = []" for key i
    using eff [of "update_key key i" key] empty [OF that] by (simp add: log_keys_def)
  show ?thesis
  proof (rule that [of s'])
    show "rollback_one_height be rh h s = (Inr (), s')"
      using man s'(1) trims [of ?keys "[]"]
      by (simp add: rollback_one_height_def get_reader reader_of_apply)
    show "logs_of hexe (contents s') (\<lambda>key. if key \<in> set ?keys then upto_height rh (L key) else L key)"
      unfolding logs_of_def
    proof
      fix key
      have "has_log hexe (contents s') key us = has_log hexe (apply_ops ?ops (contents s)) key us"
        if "us = [] \<or> \<not> reserved_base key" for us
        unfolding s'(2) apply_ops_append by (rule record_deletes_frame [OF that])
      moreover have "L key = [] \<or> \<not> reserved_base key"
        using reserved by (auto simp: reserved_base_def)
      moreover have "upto_height rh [] = []" by (simp add: upto_height_def)
      ultimately show "has_log hexe (contents s') key (if key \<in> set ?keys then upto_height rh (L key) else L key)"
        using trimmed [of key] by (cases "L key = []") simp_all
    qed
    show "contents s' (root_key h') = (if h' = h then None else contents s (root_key h'))" for h'
    proof -
      have "root_key h' \<notin> log_keys key" for key by simp
      from other [OF this] show ?thesis
        by (auto simp: s'(2) record_deletes_root)
    qed
    show "contents s' (manifest_key h') = (if h' = h then None else contents s (manifest_key h'))" for h'
      using upd [OF reserved(1), of h'] by (auto simp: s'(2) record_deletes_manifest manifest_key_alt)
  qed
qed

lemma rollback_heights_run:
  assumes hex: "hex_codec hexe hexd"
    and "logs_of hexe (contents s) L" "\<And>key. log_wf (L key)"
    and "L manifest_base = []" "L blockhash_base = []" "distinct hs"
    and "\<And>h. h \<in> set hs \<Longrightarrow> \<exists>d. contents s (manifest_key h) = Some d
           \<and> deserialize_key_manifest d = ks h \<and> distinct (ks h)"
  shows "\<exists>s'. sfold (\<lambda>h _. rollback_one_height be rh h) hs () s = (Inr (), s')
     \<and> logs_of hexe (contents s')
         (\<lambda>key. if \<exists>h \<in> set hs. key \<in> set (ks h) then upto_height rh (L key) else L key)
     \<and> (\<forall>h'. contents s' (root_key h') = (if h' \<in> set hs then None else contents s (root_key h')))
     \<and> (\<forall>h'. contents s' (manifest_key h') = (if h' \<in> set hs then None else contents s (manifest_key h')))"
  using assms(2-)
proof (induction hs arbitrary: s L)
  case (Cons h hs)
  obtain d where d: "contents s (manifest_key h) = Some d" "deserialize_key_manifest d = ks h" "distinct (ks h)"
    using Cons.prems(6) [of h] by auto
  have dist: "distinct (deserialize_key_manifest d)" using d by simp
  let ?L = "\<lambda>key. if key \<in> set (ks h) then upto_height rh (L key) else L key"
  obtain s1 where s1: "rollback_one_height be rh h s = (Inr (), s1)"
      "logs_of hexe (contents s1) ?L"
      "\<And>h'. contents s1 (root_key h') = (if h' = h then None else contents s (root_key h'))"
      "\<And>h'. contents s1 (manifest_key h') = (if h' = h then None else contents s (manifest_key h'))"
    using rollback_one_height_run [OF hex Cons.prems(1-4) d(1) dist] unfolding d(2) by blast
  have "log_wf (?L key)" for key using Cons.prems(2) log_wf_upto by auto
  moreover have "?L manifest_base = []" "?L blockhash_base = []"
    using Cons.prems(3,4) by (simp_all add: upto_height_def)
  moreover have "\<exists>d. contents s1 (manifest_key h') = Some d
           \<and> deserialize_key_manifest d = ks h' \<and> distinct (ks h')" if "h' \<in> set hs" for h'
    using Cons.prems(5) Cons.prems(6) [of h'] s1(4) [of h'] that by auto
  ultimately obtain s' where s': "sfold (\<lambda>h _. rollback_one_height be rh h) hs () s1 = (Inr (), s')"
      "logs_of hexe (contents s')
         (\<lambda>key. if \<exists>h \<in> set hs. key \<in> set (ks h) then upto_height rh (?L key) else ?L key)"
      "\<And>h'. contents s' (root_key h') = (if h' \<in> set hs then None else contents s1 (root_key h'))"
      "\<And>h'. contents s' (manifest_key h') = (if h' \<in> set hs then None else contents s1 (manifest_key h'))"
    using Cons.IH [OF s1(2)] Cons.prems(5) by auto
  have L: "(\<lambda>key. if \<exists>h \<in> set hs. key \<in> set (ks h) then upto_height rh (?L key) else ?L key)
      = (\<lambda>key. if \<exists>h \<in> set (h # hs). key \<in> set (ks h) then upto_height rh (L key) else L key)"
    by (auto simp: fun_eq_iff)
  show ?case
    by (rule exI [of _ s']) (use s1 s' L in \<open>auto\<close>)
qed simp

lemma manifests_present_iff:
  "manifests_present (get_value be s) hs = Inr (\<forall>h \<in> set hs. contents s (manifest_key h) \<noteq> None)"
  by (induction hs) (auto simp: get_contents split: option.splits)

lemma rollback_with_manifests_run:
  assumes hex: "hex_codec hexe hexd" and lt: "rh < ch"
    and "logs_of hexe (contents s) L" "\<And>key. log_wf (L key)"
    and "L manifest_base = []" "L blockhash_base = []"
    and ks: "\<And>h. rh < h \<Longrightarrow> h \<le> ch \<Longrightarrow> \<exists>d. contents s (manifest_key h) = Some d
           \<and> deserialize_key_manifest d = ks h \<and> distinct (ks h)"
    and listed: "\<And>key. upto_height rh (L key) \<noteq> L key \<Longrightarrow> \<exists>h. rh < h \<and> h \<le> ch \<and> key \<in> set (ks h)"
  shows "\<exists>s'. rollback_with_manifests be rh ch s = (Inr True, s')
     \<and> logs_of hexe (contents s') (\<lambda>key. upto_height rh (L key))
     \<and> (\<forall>h'. contents s' (root_key h') = (if rh < h' \<and> h' \<le> ch then None else contents s (root_key h')))
     \<and> (\<forall>h'. contents s' (manifest_key h') = (if rh < h' \<and> h' \<le> ch then None else contents s (manifest_key h')))"
proof -
  let ?hs = "rev [rh + 1..<ch + 1]"
  have mem: "h \<in> set ?hs \<longleftrightarrow> rh < h \<and> h \<le> ch" for h by auto
  have "distinct ?hs" by simp
  moreover have "\<exists>d. contents s (manifest_key h) = Some d
           \<and> deserialize_key_manifest d = ks h \<and> distinct (ks h)" if "h \<in> set ?hs" for h
    using ks that unfolding mem by blast
  ultimately obtain s' where s': "sfold (\<lambda>h _. rollback_one_height be rh h) ?hs () s = (Inr (), s')"
      "logs_of hexe (contents s')
         (\<lambda>key. if \<exists>h \<in> set ?hs. key \<in> set (ks h) then upto_height rh (L key) else L key)"
      "\<And>h'. contents s' (root_key h') = (if h' \<in> set ?hs then None else contents s (root_key h'))"
      "\<And>h'. contents s' (manifest_key h') = (if h' \<in> set ?hs then None else contents s (manifest_key h'))"
    using rollback_heights_run [OF hex assms(3-6), where hs = ?hs and ks = ks and rh = rh] by blast
  have "manifests_present (get_value be s) [rh + 1..<ch + 1] = Inr True"
    using ks unfolding manifests_present_iff by (fastforce simp: less_Suc_eq_le Suc_le_eq)
  then have run: "rollback_with_manifests be rh ch s = (Inr True, s')"
    using lt s'(1) unfolding rollback_with_manifests_def by simp
  have L: "(if \<exists>h \<in> set ?hs. key \<in> set (ks h) then upto_height rh (L key) else L key)
      = upto_height rh (L key)" for key
  proof (cases "upto_height rh (L key) = L key")
    case False
    then obtain h where "rh < h \<and> h \<le> ch" "key \<in> set (ks h)" using listed by blast
    then have "\<exists>h \<in> set ?hs. key \<in> set (ks h)" unfolding mem Bex_def by blast
    then show ?thesis by (simp only: if_True)
  qed simp
  show ?thesis
  proof (intro exI conjI allI)
    show "rollback_with_manifests be rh ch s = (Inr True, s')" by (rule run)
    show "logs_of hexe (contents s') (\<lambda>key. upto_height rh (L key))"
      using s'(2) unfolding L .
    show "contents s' (root_key h') = (if rh < h' \<and> h' \<le> ch then None else contents s (root_key h'))" for h'
      using s'(3) [of h'] unfolding mem .
    show "contents s' (manifest_key h') = (if rh < h' \<and> h' \<le> ch then None else contents s (manifest_key h'))" for h'
      using s'(4) [of h'] unfolding mem .
  qed
qed

subsubsection \<open>On an indexed chain\<close>

lemma chain_facts:
  assumes inv: "chain_inv hexe m blocks" and ok: "chain_ok blocks"
  shows "logs_of hexe m (chain_log blocks)" "log_wf (chain_log blocks key)"
    "chain_log blocks manifest_base = []" "chain_log blocks blockhash_base = []"
  using inv ok chain_log_wf [of blocks key] chain_log_reserved [of blocks]
  by (auto simp: chain_inv_def chain_ok_def reserved_base_def)

lemma scan_rollback_chain:
  assumes hex: "hex_codec hexe hexd" and inv: "chain_inv hexe (contents s) blocks" and ok: "chain_ok blocks"
    and lt: "rh < ch"
  shows "\<exists>s'. rollback_smt_data be rh ch s = (Inr (), s') \<and> chain_inv hexe (contents s') (take (rh + 1) blocks)
     \<and> (\<forall>k. (\<forall>key. k \<notin> log_keys key) \<longrightarrow> metadata_height k = None \<longrightarrow> contents s' k = contents s k)"
proof -
  obtain s' where s': "rollback_smt_data be rh ch s = (Inr (), s')"
    "logs_of hexe (contents s') (\<lambda>key. upto_height rh (chain_log blocks key))"
    "\<forall>k. (\<forall>key. k \<notin> log_keys key) \<longrightarrow> contents s' k
        = (if \<exists>h. metadata_height k = Some h \<and> h > rh then None else contents s k)"
    "\<And>key i. chain_log blocks key = [] \<Longrightarrow> contents s' (update_key key i) = contents s (update_key key i)"
    by (rule rollback_smt_data_run [OF hex lt chain_facts(1,2) [OF inv ok]]) (rule that)
  have man: "contents s' (manifest_key h) = contents s (manifest_key h)" for h
    using s'(4) [OF chain_facts(3) [OF inv ok]] by (simp add: manifest_key_alt)
  have root: "contents s' (root_key h) = contents s (root_key h)" if "h \<le> rh" "h < length blocks" for h
  proof -
    have "metadata_height (root_key h) = Some h"
      using that(2) ok by (intro metadata_root_key) (simp add: chain_ok_def)
    with that(1) s'(3) show ?thesis by simp
  qed
  have "chain_inv hexe (contents s') (take (rh + 1) blocks)"
    using inv s'(2) root by (auto simp: chain_inv_def man logs_of_def upto_chain_log)
  moreover have "contents s' k = contents s k"
    if "\<forall>key. k \<notin> log_keys key" "metadata_height k = None" for k
    using s'(3) that by simp
  ultimately show ?thesis using s'(1) by blast
qed

lemma manifest_rollback_chain:
  assumes hex: "hex_codec hexe hexd" and inv: "chain_inv hexe (contents s) blocks" and ok: "chain_ok blocks"
    and lt: "rh < ch" and len: "length blocks = ch + 1"
  shows "\<exists>used s'. rollback_with_manifests be rh ch s = (Inr used, s')
     \<and> used = (\<forall>h. rh < h \<and> h \<le> ch \<longrightarrow> contents s (manifest_key h) \<noteq> None)
     \<and> (if used then chain_inv hexe (contents s') (take (rh + 1) blocks) else s' = s)"
proof (cases "\<forall>h. rh < h \<and> h \<le> ch \<longrightarrow> contents s (manifest_key h) \<noteq> None")
  case False
  then obtain h where "rh < h" "h \<le> ch" "contents s (manifest_key h) = None" by blast
  moreover from this have "h \<in> set [rh + 1..<ch + 1]" by (simp only: set_upt atLeastLessThan_iff) linarith
  ultimately have "\<exists>h \<in> set [rh + 1..<ch + 1]. contents s (manifest_key h) = None" by blast
  then have "manifests_present (get_value be s) [rh + 1..<ch + 1] = Inr False"
    unfolding manifests_present_iff by blast
  then have "rollback_with_manifests be rh ch s = (Inr False, s)"
    using lt unfolding rollback_with_manifests_def by simp
  with False show ?thesis by auto
next
  case True
  define ks where "ks = (\<lambda>h. deserialize_key_manifest (the (contents s (manifest_key h))))"
  have ks: "\<exists>d. contents s (manifest_key h) = Some d \<and> deserialize_key_manifest d = ks h \<and> distinct (ks h)"
    if "rh < h" "h \<le> ch" for h
    using True that inv by (auto simp: ks_def chain_inv_def)
  have listed: "\<exists>h. rh < h \<and> h \<le> ch \<and> key \<in> set (ks h)"
    if neq: "upto_height rh (chain_log blocks key) \<noteq> chain_log blocks key" for key
  proof -
    obtain h where h: "rh < h" "h < length blocks" "key \<in> fst ` set (blocks ! h)"
      by (rule chain_log_above [OF neq])
    have "user_block (blocks ! h)" "length (blocks ! h) \<le> u32_max"
      using ok h(2) elem_le_sum_list [of h "map length blocks"]
      by (auto simp: chain_ok_def total_pairs_def u32_max_def)
    then have "ks h = unique_keys (blocks ! h)"
      using inv h block_manifest_roundtrip by (auto simp: ks_def chain_inv_def)
    then have "key \<in> set (ks h)" using h(3) by simp
    moreover have "h \<le> ch" using h(2) len by simp
    ultimately show ?thesis using h(1) by blast
  qed
  obtain s' where s': "rollback_with_manifests be rh ch s = (Inr True, s')"
    "logs_of hexe (contents s') (\<lambda>key. upto_height rh (chain_log blocks key))"
    "\<And>h'. contents s' (root_key h') = (if rh < h' \<and> h' \<le> ch then None else contents s (root_key h'))"
    "\<And>h'. contents s' (manifest_key h') = (if rh < h' \<and> h' \<le> ch then None else contents s (manifest_key h'))"
    using rollback_with_manifests_run [OF hex lt chain_facts [OF inv ok] ks listed] by blast
  have "chain_inv hexe (contents s') (take (rh + 1) blocks)"
    using inv s'(2) by (auto simp: chain_inv_def logs_of_def upto_chain_log s'(3,4) split: if_splits)
  with True s'(1) show ?thesis by auto
qed

end

end
