(* ===== verification/RocksStorage.thy ===== *)
theory RocksStorage
  imports RocksDb Rollback
begin

text \<open>
  The durable backend, \<open>crates/rockshrew-runtime/src/storage_adapter.rs\<close>:
  \<open>RocksDBStorageAdapter\<close> as an \<open>SmtRollback\<close> and as the \<open>StorageAdapter\<close> of the sync
  layer, with the atomic block commit and the pointer repair at start-up. The adapter
  only holds the database handle, so its state is the database. Every error of this file
  is a \<open>SyncError::Storage\<close>; the model keeps its text.
\<close>

subsection \<open>As an \<open>SmtRollback\<close>\<close>

definition map_err :: "(string \<Rightarrow> string) \<Rightarrow> 'a result \<Rightarrow> 'a result" where
  "map_err f r = (case r of Inl e \<Rightarrow> Inl (f e) | Inr x \<Rightarrow> Inr x)"

definition smap_err :: "(string \<Rightarrow> string) \<Rightarrow> ('s, 'a) st \<Rightarrow> ('s, 'a) st" where
  "smap_err f m s = (case m s of (r, s') \<Rightarrow> (map_err f r, s'))"

definition rs_iter_keys :: "'d rocks \<Rightarrow> 'd \<Rightarrow> bytes list result" where
  "rs_iter_keys R d =
     rfold (\<lambda>item keys. case item of
        Inr (key, _) \<Rightarrow> Inr (keys @ [key])
      | Inl e \<Rightarrow> Inl (''Failed to iterate keys: '' @ e)) (rocks_iterator R d) []"

definition rs_delete_key :: "'d rocks \<Rightarrow> bytes \<Rightarrow> ('d, unit) st" where
  "rs_delete_key R key = smap_err (\<lambda>e. ''Failed to delete key: '' @ e) (rocks_delete R key)"

definition rs_put_key :: "'d rocks \<Rightarrow> bytes \<Rightarrow> bytes \<Rightarrow> ('d, unit) st" where
  "rs_put_key R key val = smap_err (\<lambda>e. ''Failed to put key: '' @ e) (rocks_put R key val)"

definition rs_get_value :: "'d rocks \<Rightarrow> 'd \<Rightarrow> bytes \<Rightarrow> bytes option result" where
  "rs_get_value R d key = map_err (\<lambda>e. ''Failed to get value: '' @ e) (rocks_get R d key)"

definition rs_apply_atomic :: "'d rocks \<Rightarrow> batch \<Rightarrow> ('d, unit) st" where
  "rs_apply_atomic R ops d =
     (if ops = [] then (Inr (), d)
      else smap_err (\<lambda>e. ''Atomic rollback batch write failed: '' @ e) (rocks_write R ops) d)"

definition rs_backend :: "'d rocks \<Rightarrow> 'd smt_backend" where
  "rs_backend R = \<lparr>iter_keys = rs_iter_keys R, get_value = rs_get_value R,
     apply_atomic = rs_apply_atomic R\<rparr>"

subsection \<open>As a \<open>StorageAdapter\<close>\<close>

definition db_error :: "string \<Rightarrow> string" where
  "db_error e = ''Database error: '' @ e"

definition rs_get_indexed_height :: "'d rocks \<Rightarrow> 'd \<Rightarrow> nat result" where
  "rs_get_indexed_height R d =
     (case rocks_get R d INDEXED_HEIGHT_KEY of
        Inr (Some v) \<Rightarrow> if length v \<ge> 4 then Inr (from_le (take 4 v)) else Inr 0
      | Inr None \<Rightarrow> Inr 0
      | Inl e \<Rightarrow> Inl (db_error e))"

definition rs_set_indexed_height :: "'d rocks \<Rightarrow> nat \<Rightarrow> ('d, unit) st" where
  "rs_set_indexed_height R h =
     smap_err (\<lambda>e. ''Failed to store height: '' @ e) (rocks_put R INDEXED_HEIGHT_KEY (le_bytes 4 h))"

definition rs_store_block_hash :: "'d rocks \<Rightarrow> nat \<Rightarrow> bytes \<Rightarrow> ('d, unit) st" where
  "rs_store_block_hash R h hash =
     smap_err (\<lambda>e. ''Failed to store blockhash: '' @ e) (rocks_put R (blockhash_key h) hash)"

definition rs_get_block_hash :: "'d rocks \<Rightarrow> 'd \<Rightarrow> nat \<Rightarrow> bytes option result" where
  "rs_get_block_hash R d h = map_err db_error (rocks_get R d (blockhash_key h))"

text \<open>
  The state root goes through a \<open>RocksDBRuntimeAdapter\<close>, which applies the label;
  \<open>SMTHelper::get_smt_root_at_height\<close> on it reads labeled keys too.
\<close>

definition rs_store_state_root :: "bytes option \<Rightarrow> 'd rocks \<Rightarrow> nat \<Rightarrow> bytes \<Rightarrow> ('d, unit) st" where
  "rs_store_state_root lbl R h root =
     smap_err (\<lambda>e. ''Failed to store state root: '' @ e)
       (rocks_put R (to_labeled_key lbl (root_key h)) root)"

definition rs_get_state_root :: "bytes option \<Rightarrow> 'd rocks \<Rightarrow> 'd \<Rightarrow> nat \<Rightarrow> bytes option result" where
  "rs_get_state_root lbl R d h =
     (case get_smt_root_at_height (\<lambda>k. rocks_get R d (to_labeled_key lbl k)) h of
        Inr root \<Rightarrow> Inr (Some root)
      | Inl _ \<Rightarrow> Inr None)"

definition rs_rollback_to_height :: "'d rocks \<Rightarrow> nat \<Rightarrow> ('d, unit) st" where
  "rs_rollback_to_height R h d =
     (case rs_get_indexed_height R d of
        Inl e \<Rightarrow> (Inl e, d)
      | Inr current_height \<Rightarrow>
          sbind (smap_err (\<lambda>e. ''Manifest rollback failed: '' @ e)
                   (rollback_with_manifests (rs_backend R) h current_height)) (\<lambda>used_fast.
          sbind (if used_fast then sreturn ()
                 else smap_err (\<lambda>e. ''SMT rollback failed: '' @ e)
                        (rollback_smt_data (rs_backend R) h current_height)) (\<lambda>_.
          rs_set_indexed_height R h)) d)"

definition rs_is_available :: "'d rocks \<Rightarrow> 'd \<Rightarrow> bool" where
  "rs_is_available R d = (case rocks_get R d ''__test'' of Inr _ \<Rightarrow> True | Inl _ \<Rightarrow> False)"

definition rs_get_runtime_tip_height :: "'d rocks \<Rightarrow> 'd \<Rightarrow> nat result" where
  "rs_get_runtime_tip_height R d =
     (case rocks_get R d TIP_HEIGHT_KEY of
        Inr (Some v) \<Rightarrow> if length v \<ge> 4 then Inr (from_le (take 4 v)) else Inr 0
      | Inr None \<Rightarrow> Inr 0
      | Inl e \<Rightarrow> Inl (''Database error reading runtime tip: '' @ e))"

text \<open>The downward walk of \<open>find_max_stored_block_hash_height\<close>.\<close>

fun scan_block_hashes :: "'d rocks \<Rightarrow> 'd \<Rightarrow> nat \<Rightarrow> nat \<Rightarrow> nat result" where
  "scan_block_hashes R d floor h =
     (case rocks_get R d (blockhash_key h) of
        Inr (Some _) \<Rightarrow> Inr h
      | Inl e \<Rightarrow> Inl (''DB error during blockhash scan: '' @ e)
      | Inr None \<Rightarrow> if h \<le> floor \<or> h = 0 then Inr 0 else scan_block_hashes R d floor (h - 1))"

declare scan_block_hashes.simps [simp del]

definition rs_find_max_stored_block_hash_height :: "'d rocks \<Rightarrow> 'd \<Rightarrow> nat \<Rightarrow> nat result" where
  "rs_find_max_stored_block_hash_height R d floor =
     rbind (rs_get_indexed_height R d) (\<lambda>top.
       if top = 0 then Inr 0 else scan_block_hashes R d floor top)"

definition heal_refused :: "nat \<Rightarrow> nat \<Rightarrow> string" where
  "heal_refused current target =
     ''heal_pointers_atomic refused to advance tip: current_indexed='' @ dec current
     @ '' target='' @ dec target @ '' (heal only rolls back, never forward)''"

definition rs_heal_pointers_atomic :: "'d rocks \<Rightarrow> nat \<Rightarrow> ('d, unit) st" where
  "rs_heal_pointers_atomic R target_height d =
     (case rs_get_indexed_height R d of
        Inl e \<Rightarrow> (Inl e, d)
      | Inr current_indexed \<Rightarrow>
          (case rs_get_runtime_tip_height R d of
             Inl e \<Rightarrow> (Inl e, d)
           | Inr current_runtime_tip \<Rightarrow>
               if current_indexed = target_height \<and> current_runtime_tip = target_height then (Inr (), d)
               else if current_indexed < target_height then
                 (Inl (heal_refused current_indexed target_height), d)
               else
                 sbind (if current_indexed > target_height then rs_rollback_to_height R target_height
                        else sreturn ()) (\<lambda>_.
                   smap_err (\<lambda>e. ''heal_pointers_atomic write failed: '' @ e)
                     (rocks_write_sync R [Put INDEXED_HEIGHT_KEY (le_bytes 4 target_height),
                        Put TIP_HEIGHT_KEY (le_bytes 4 target_height)])) d))"

subsection \<open>The atomic block commit\<close>

definition out_of_order :: "nat \<Rightarrow> nat \<Rightarrow> string" where
  "out_of_order h current =
     ''out-of-order commit rejected: attempted height '' @ dec h @ '' but current tip is ''
     @ dec current @ '' (commit_atomic only accepts height == tip + 1)''"

definition commit_failed :: "nat \<Rightarrow> string \<Rightarrow> string" where
  "commit_failed h e = ''commit_atomic write failed at height '' @ dec h @ '': '' @ e"

definition commit_metadata :: "nat \<Rightarrow> bytes \<Rightarrow> bytes \<Rightarrow> batch" where
  "commit_metadata h block_hash state_root =
     [Put (blockhash_key h) block_hash, Put (root_key h) state_root,
      Put INDEXED_HEIGHT_KEY (le_bytes 4 h)]"

text \<open>
  \<open>from_data\<close> is \<open>WriteBatch::from_data\<close>. The tip is read as \<open>get_indexed_height\<close> reads it
  (the function repeats that match); the second read happens only when it is 0.
\<close>

definition commit_atomic ::
    "'d rocks \<Rightarrow> (bytes \<Rightarrow> batch) \<Rightarrow> nat \<Rightarrow> bytes \<Rightarrow> bytes \<Rightarrow> bytes \<Rightarrow> ('d, unit) st" where
  "commit_atomic R from_data h block_hash state_root batch_data d =
     (case rs_get_indexed_height R d of
        Inl e \<Rightarrow> (Inl e, d)
      | Inr current \<Rightarrow>
          (case (if current = 0
                 then map_err db_error (rocks_get R d (blockhash_key 0))
                 else Inr (Some [])) of
             Inl e \<Rightarrow> (Inl e, d)
           | Inr zero_hash \<Rightarrow>
               let is_fresh_db = (current = 0 \<and> zero_hash = None) in
               if \<not> is_fresh_db \<and> h \<noteq> sat_add32 current 1 then (Inl (out_of_order h current), d)
               else
                 smap_err (commit_failed h)
                   (rocks_write_sync R ((if batch_data = [] then [] else from_data batch_data)
                      @ commit_metadata h block_hash state_root)) d))"

subsection \<open>What the database's contract gives\<close>

lemma smap_err_Inr [simp]: "m s = (Inr x, s') \<Longrightarrow> smap_err f m s = (Inr x, s')"
  by (simp add: smap_err_def map_err_def)

lemma smap_err_Inl [simp]: "m s = (Inl e, s') \<Longrightarrow> smap_err f m s = (Inl (f e), s')"
  by (simp add: smap_err_def map_err_def)

lemma map_err_Inr [simp]: "map_err f (Inr x) = Inr x"
  by (simp add: map_err_def)

lemma rs_iter_keys_ok:
  "rocks_iterator R d = map Inr kvs \<Longrightarrow> rs_iter_keys R d = Inr (map fst kvs)"
proof -
  have "rfold (\<lambda>item keys. case item of
        Inr (key, _) \<Rightarrow> Inr (keys @ [key])
      | Inl e \<Rightarrow> Inl (''Failed to iterate keys: '' @ e)) (map Inr kvs) acc = Inr (acc @ map fst kvs)"
    for acc :: "bytes list" and kvs :: "(bytes \<times> bytes) list"
    by (induction kvs arbitrary: acc) auto
  then show "rocks_iterator R d = map Inr kvs \<Longrightarrow> rs_iter_keys R d = Inr (map fst kvs)"
    by (simp add: rs_iter_keys_def)
qed

lemma rs_backend_ok:
  assumes "rocks_ok R contents"
  shows "smt_rollback (rs_backend R) contents"
proof
  fix s
  obtain kvs where kvs: "rocks_iterator R s = map Inr kvs" "map_of kvs = contents s"
    using rocks_ok_iter [OF assms] by metis
  have "dom (contents s) = fst ` set kvs"
    unfolding kvs(2) [symmetric] by (rule dom_map_of_conv_image_fst)
  then show "\<exists>keys. iter_keys (rs_backend R) s = Inr keys \<and> set keys = dom (contents s)"
    by (simp add: rs_backend_def rs_iter_keys_ok [OF kvs(1)])
next
  fix s k
  show "get_value (rs_backend R) s k = Inr (contents s k)"
    by (simp add: rs_backend_def rs_get_value_def rocks_okD(1) [OF assms])
next
  fix ops s
  obtain d' where "rocks_write R ops s = (Inr (), d')" "contents d' = apply_ops ops (contents s)"
    using rocks_okD(4) [OF assms] by blast
  then show "\<exists>s'. apply_atomic (rs_backend R) ops s = (Inr (), s') \<and> contents s' = apply_ops ops (contents s)"
    by (simp add: rs_backend_def rs_apply_atomic_def)
qed

interpretation list_rb: smt_rollback "rs_backend list_rocks" map_of
  by (rule rs_backend_ok) (rule list_rocks_ok)

definition indexed_height :: "kvmap \<Rightarrow> nat" where
  "indexed_height m =
     (case m INDEXED_HEIGHT_KEY of
        Some v \<Rightarrow> if length v \<ge> 4 then from_le (take 4 v) else 0
      | None \<Rightarrow> 0)"

definition runtime_tip :: "kvmap \<Rightarrow> nat" where
  "runtime_tip m =
     (case m TIP_HEIGHT_KEY of
        Some v \<Rightarrow> if length v \<ge> 4 then from_le (take 4 v) else 0
      | None \<Rightarrow> 0)"

lemma rs_get_indexed_height_ok:
  "rocks_get R d INDEXED_HEIGHT_KEY = Inr (m INDEXED_HEIGHT_KEY) \<Longrightarrow>
   rs_get_indexed_height R d = Inr (indexed_height m)"
  by (simp add: rs_get_indexed_height_def indexed_height_def split: option.splits)

lemma rs_get_runtime_tip_ok:
  "rocks_get R d TIP_HEIGHT_KEY = Inr (m TIP_HEIGHT_KEY) \<Longrightarrow>
   rs_get_runtime_tip_height R d = Inr (runtime_tip m)"
  by (simp add: rs_get_runtime_tip_height_def runtime_tip_def split: option.splits)

definition fresh_db :: "kvmap \<Rightarrow> bool" where
  "fresh_db m \<longleftrightarrow> indexed_height m = 0 \<and> m (blockhash_key 0) = None"

subsection \<open>The atomic commit\<close>

lemma indexed_height_put [simp]:
  "h \<le> u32_max \<Longrightarrow> indexed_height (m(INDEXED_HEIGHT_KEY \<mapsto> le_bytes 4 h)) = h"
  by (simp add: indexed_height_def)

lemma indexed_height_cong: "m INDEXED_HEIGHT_KEY = m' INDEXED_HEIGHT_KEY \<Longrightarrow> indexed_height m = indexed_height m'"
  by (simp add: indexed_height_def)

lemma commit_metadata_effect:
  "apply_ops (commit_metadata h bh root) m
    = m(blockhash_key h \<mapsto> bh, root_key h \<mapsto> root, INDEXED_HEIGHT_KEY \<mapsto> le_bytes 4 h)"
  by (simp add: commit_metadata_def)

lemma commit_atomic_eq:
  assumes "rs_get_indexed_height R d = Inr current"
    and "(if current = 0 then map_err db_error (rocks_get R d (blockhash_key 0)) else Inr (Some [])) = Inr z"
  shows "commit_atomic R from_data h bh root data d =
    (if \<not> (current = 0 \<and> z = None) \<and> h \<noteq> sat_add32 current 1 then (Inl (out_of_order h current), d)
     else smap_err (commit_failed h)
       (rocks_write_sync R ((if data = [] then [] else from_data data) @ commit_metadata h bh root)) d)"
  unfolding commit_atomic_def assms(1) sum.case assms(2) Let_def by simp

lemma smap_err_cases:
  assumes "all_or_nothing contents ops f"
  shows "case smap_err g f d of
     (Inr _, d') \<Rightarrow> contents d' = apply_ops ops (contents d)
   | (Inl _, d') \<Rightarrow> contents d' = contents d"
proof (cases "f d")
  case (Pair r d')
  then show ?thesis
    using all_or_nothing_Inr [OF assms, of d _ d'] all_or_nothing_Inl [OF assms, of d _ d']
    by (cases r) simp_all
qed

lemma commit_atomic_cases:
  assumes "rocks_atomic R contents"
  shows "case commit_atomic R from_data h bh root data d of
     (Inr _, d') \<Rightarrow> (fresh_db (contents d) \<or> h = sat_add32 (indexed_height (contents d)) 1)
        \<and> contents d' = apply_ops ((if data = [] then [] else from_data data) @ commit_metadata h bh root) (contents d)
   | (Inl _, d') \<Rightarrow> contents d' = contents d"
proof (cases "rs_get_indexed_height R d")
  case (Inl e)
  then show ?thesis by (simp add: commit_atomic_def)
next
  case (Inr current)
  have read: "rocks_get R d k = Inr v \<Longrightarrow> v = contents d k" for k v
    using assms by (simp add: rocks_atomic_def)
  have "rocks_get R d INDEXED_HEIGHT_KEY = Inr (contents d INDEXED_HEIGHT_KEY)"
    using Inr read [of INDEXED_HEIGHT_KEY]
    by (cases "rocks_get R d INDEXED_HEIGHT_KEY") (auto simp: rs_get_indexed_height_def)
  then have cur: "current = indexed_height (contents d)"
    using Inr rs_get_indexed_height_ok by fastforce
  let ?zero = "if current = 0 then map_err db_error (rocks_get R d (blockhash_key 0)) else Inr (Some [])"
  show ?thesis
  proof (cases ?zero)
    case (Inl e)
    then show ?thesis unfolding commit_atomic_def \<open>rs_get_indexed_height R d = Inr current\<close> by simp
  next
    case (Inr z)
    have fresh: "current = 0 \<and> z = None \<longleftrightarrow> fresh_db (contents d)"
    proof (cases "current = 0")
      case True
      with Inr have "rocks_get R d (blockhash_key 0) = Inr z"
        by (cases "rocks_get R d (blockhash_key 0)") (simp_all add: map_err_def)
      with True cur read [of "blockhash_key 0"] show ?thesis by (simp add: fresh_db_def)
    qed (simp add: fresh_db_def cur)
    have aon: "all_or_nothing contents ops (rocks_write_sync R ops)" for ops
      using assms by (simp add: rocks_atomic_def)
    note eq = commit_atomic_eq [OF \<open>rs_get_indexed_height R d = Inr current\<close> Inr, of from_data h bh root data]
    show ?thesis
    proof (cases "fresh_db (contents d) \<or> h = sat_add32 current 1")
      case True
      then have eq': "commit_atomic R from_data h bh root data d
          = smap_err (commit_failed h)
             (rocks_write_sync R ((if data = [] then [] else from_data data) @ commit_metadata h bh root)) d"
        using eq fresh by auto
      let ?ops = "(if data = [] then [] else from_data data) @ commit_metadata h bh root"
      obtain r d' where rd: "smap_err (commit_failed h) (rocks_write_sync R ?ops) d = (r, d')"
        by fastforce
      from smap_err_cases [OF aon, where g = "commit_failed h" and ops = ?ops and d = d] True cur
      show ?thesis unfolding eq' rd by (cases r) simp_all
    next
      case False
      then have "commit_atomic R from_data h bh root data d = (Inl (out_of_order h current), d)"
        using eq fresh by simp
      then show ?thesis by simp
    qed
  qed
qed

lemma commit_atomic_reads:
  assumes "rocks_ok R contents"
  shows "rs_get_indexed_height R d = Inr (indexed_height (contents d))"
    and "(if indexed_height (contents d) = 0 then map_err db_error (rocks_get R d (blockhash_key 0))
          else Inr (Some [])) = Inr (if indexed_height (contents d) = 0 then contents d (blockhash_key 0) else Some [])"
  using rs_get_indexed_height_ok [of R d "contents d"] rocks_okD(1) [OF assms] by simp_all

lemma commit_atomic_ok:
  assumes ok: "rocks_ok R contents"
    and acc: "fresh_db (contents d) \<or> h = sat_add32 (indexed_height (contents d)) 1"
  shows "\<exists>d'. commit_atomic R from_data h bh root data d = (Inr (), d')
     \<and> contents d' = apply_ops ((if data = [] then [] else from_data data) @ commit_metadata h bh root) (contents d)"
proof -
  let ?ops = "(if data = [] then [] else from_data data) @ commit_metadata h bh root"
  obtain d' where d': "rocks_write_sync R ?ops d = (Inr (), d')" "contents d' = apply_ops ?ops (contents d)"
    using rocks_okD(5) [OF ok] by blast
  have "commit_atomic R from_data h bh root data d
      = smap_err (commit_failed h) (rocks_write_sync R ?ops) d"
    using acc unfolding commit_atomic_eq [OF commit_atomic_reads [OF ok]] by (auto simp: fresh_db_def)
  with d' show ?thesis by simp
qed

lemma commit_atomic_rejects:
  assumes ok: "rocks_ok R contents"
    and "\<not> fresh_db (contents d)" "h \<noteq> sat_add32 (indexed_height (contents d)) 1"
  shows "commit_atomic R from_data h bh root data d
    = (Inl (out_of_order h (indexed_height (contents d))), d)"
proof -
  have "\<not> (indexed_height (contents d) = 0 \<and>
      (if indexed_height (contents d) = 0 then contents d (blockhash_key 0) else Some []) = None)"
    using assms(2) by (auto simp: fresh_db_def)
  with assms(3) show ?thesis
    unfolding commit_atomic_eq [OF commit_atomic_reads [OF ok]] by (simp only: simp_thms if_True)
qed

end
