(* ===== verification/RocksChain.thy ===== *)
theory RocksChain
  imports RocksStorage
begin

text \<open>
  Indexing on the durable backend: each block's batch is built by
  \<open>build_state_root_batch_unwritten\<close>, shipped as bytes, and committed by
  \<open>commit_atomic\<close> together with the block-hash, state-root and height records. The
  properties are those the crash and reorganisation handling relies on: a commit is all
  or nothing, no block is applied twice or out of order, a rollback restores the
  database of the shorter chain, and the start-up repair brings the two pointers back
  together. The process label is not set here.
\<close>

text \<open>\<open>to_data\<close> and \<open>from_data\<close> are \<open>WriteBatch::data\<close> and \<open>WriteBatch::from_data\<close>.\<close>

definition batch_format :: "(batch \<Rightarrow> bytes) \<Rightarrow> (bytes \<Rightarrow> batch) \<Rightarrow> bool" where
  "batch_format to_data from_data \<longleftrightarrow> (\<forall>b. from_data (to_data b) = b \<and> to_data b \<noteq> [])"

text \<open>One block: its pairs and its hash.\<close>

type_synonym hashed_block = "block_kvs \<times> bytes"

definition apply_block ::
    "(bytes \<Rightarrow> bytes) \<Rightarrow> 'd rocks \<Rightarrow> (batch \<Rightarrow> bytes) \<Rightarrow> (bytes \<Rightarrow> batch) \<Rightarrow> nat \<Rightarrow> hashed_block \<Rightarrow> ('d, unit) st" where
  "apply_block hexe R to_data from_data h blk d =
     (case fst (build_state_root_batch_unwritten hexe (rocks_get R d) h (fst blk) (snd blk) new_caches) of
        Inl e \<Rightarrow> (Inl e, d)
      | Inr (root, ops) \<Rightarrow> commit_atomic R from_data h (snd blk) root (to_data ops) d)"

fun apply_blocks ::
    "(bytes \<Rightarrow> bytes) \<Rightarrow> 'd rocks \<Rightarrow> (batch \<Rightarrow> bytes) \<Rightarrow> (bytes \<Rightarrow> batch) \<Rightarrow> nat \<Rightarrow> hashed_block list \<Rightarrow> ('d, unit) st" where
  "apply_blocks hexe R to_data from_data h [] = sreturn ()"
| "apply_blocks hexe R to_data from_data h (blk # blks) =
     sbind (apply_block hexe R to_data from_data h blk)
       (\<lambda>_. apply_blocks hexe R to_data from_data (h + 1) blks)"

text \<open>The durable invariant: an indexed chain whose height pointer is its last block.\<close>

definition durable_inv :: "(bytes \<Rightarrow> bytes) \<Rightarrow> kvmap \<Rightarrow> block_kvs list \<Rightarrow> bool" where
  "durable_inv hexe m blocks \<longleftrightarrow>
     chain_inv hexe m blocks
   \<and> (if blocks = [] then fresh_db m else indexed_height m = length blocks - 1)"

lemma metadata_chain_inv:
  assumes "chain_inv hexe m blocks" "chain_ok blocks"
  shows "chain_inv hexe (m(blockhash_key h \<mapsto> bh, root_key h \<mapsto> EMPTY_NODE_HASH,
    INDEXED_HEIGHT_KEY \<mapsto> hb)) blocks"
proof -
  let ?m = "m(blockhash_key h \<mapsto> bh, root_key h \<mapsto> EMPTY_NODE_HASH, INDEXED_HEIGHT_KEY \<mapsto> hb)"
  have "has_log hexe ?m key (chain_log blocks key)" for key
  proof (cases "reserved_base key")
    case True
    then have "chain_log blocks key = []"
      using assms(2) chain_log_reserved by (auto simp: chain_ok_def)
    moreover have "has_log hexe m key (chain_log blocks key)"
      using assms(1) by (simp add: chain_inv_def logs_of_def)
    ultimately show ?thesis by (simp add: has_log_def)
  next
    case False
    then have "has_log hexe ?m key us = has_log hexe m key us" for us
      by (intro has_log_cong) (auto simp: reserved_base_def)
    with assms(1) show ?thesis by (simp add: chain_inv_def logs_of_def)
  qed
  with assms(1) show ?thesis by (auto simp: chain_inv_def logs_of_def)
qed

lemma apply_block_run:
  assumes ok: "rocks_ok R contents" and fmt: "batch_format to_data from_data"
    and inv: "durable_inv hexe (contents d) blocks" and fits: "chain_ok (blocks @ [fst blk])"
  obtains d' where
    "apply_block hexe R to_data from_data (length blocks) blk d = (Inr (), d')"
    "durable_inv hexe (contents d') (blocks @ [fst blk])"
    "contents d' (blockhash_key (length blocks)) = Some (snd blk)"
    "runtime_tip (contents d') = length blocks"
    "\<And>i. i \<noteq> length blocks \<Longrightarrow> contents d' (blockhash_key i) = contents d (blockhash_key i)"
proof -
  let ?h = "length blocks"
  have hb: "?h \<le> u32_max" using fits by (simp add: chain_ok_def)
  have inv': "chain_inv hexe (contents d) blocks" using inv by (simp add: durable_inv_def)
  have rd: "rocks_get R d = reader_of (contents d)"
    by (simp add: fun_eq_iff rocks_okD(1) [OF ok] reader_of_def)
  obtain m' where step: "calculate_and_store_state_root_batched hexe (reader_of (contents d))
        (\<lambda>b. Inr (apply_ops b (contents d))) ?h (fst blk) (snd blk) new_caches
        = (Inr (EMPTY_NODE_HASH, m'), clear_caches new_caches)"
      and m': "chain_inv hexe m' (blocks @ [fst blk])"
      and hashes: "\<And>i. m' (blockhash_key i) = contents d (blockhash_key i)"
    by (rule chain_step [OF inv' fits]) (rule that)
  obtain root ops where build: "build_state_root_batch_unwritten hexe (reader_of (contents d)) ?h
        (fst blk) (snd blk) new_caches = (Inr (root, ops), clear_caches new_caches)"
    using step by (auto simp: calculate_and_store_state_root_batched_def sbind_def
        build_state_root_batch_unwritten_def split: sum.splits prod.splits)
  have root: "root = EMPTY_NODE_HASH" and ops: "m' = apply_ops ops (contents d)"
    using step build by (simp_all add: calculate_and_store_state_root_batched_def)
  obtain pre where pre: "ops = pre @ [Put TIP_HEIGHT_KEY (le_bytes 4 ?h)]"
    using build by (auto simp: build_state_root_batch_unwritten_def block_records_def result_simps
        split: if_splits)
  have "fresh_db (contents d) \<or> ?h = sat_add32 (indexed_height (contents d)) 1"
    using inv hb by (cases "blocks = []") (auto simp: durable_inv_def sat_add32_def)
  from commit_atomic_ok [OF ok this, of from_data "snd blk" EMPTY_NODE_HASH "to_data ops"]
  obtain d' where d': "commit_atomic R from_data ?h (snd blk) EMPTY_NODE_HASH (to_data ops) d = (Inr (), d')"
      "contents d' = apply_ops (ops @ commit_metadata ?h (snd blk) EMPTY_NODE_HASH) (contents d)"
    using fmt by (auto simp: batch_format_def)
  then have c: "contents d' = m'(blockhash_key ?h \<mapsto> snd blk, root_key ?h \<mapsto> EMPTY_NODE_HASH,
      INDEXED_HEIGHT_KEY \<mapsto> le_bytes 4 ?h)"
    by (simp add: commit_metadata_effect ops)
  show ?thesis
  proof (rule that [of d'])
    show "apply_block hexe R to_data from_data ?h blk d = (Inr (), d')"
      using d'(1) by (simp add: apply_block_def rd build root)
    have "chain_inv hexe (contents d') (blocks @ [fst blk])"
      unfolding c by (rule metadata_chain_inv [OF m' fits])
    then show "durable_inv hexe (contents d') (blocks @ [fst blk])"
      using hb by (simp add: durable_inv_def c)
    show "contents d' (blockhash_key ?h) = Some (snd blk)"
      by (simp add: c)
    have "m' TIP_HEIGHT_KEY = Some (le_bytes 4 ?h)" by (simp add: ops pre)
    then show "runtime_tip (contents d') = ?h"
      using hb by (simp add: runtime_tip_def c)
    show "contents d' (blockhash_key i) = contents d (blockhash_key i)" if "i \<noteq> ?h" for i
      using that by (simp add: c hashes)
  qed
qed

lemma apply_blocks_run:
  assumes ok: "rocks_ok R contents" and fmt: "batch_format to_data from_data"
    and "durable_inv hexe (contents d) blocks" "chain_ok (blocks @ map fst blks)"
  shows "\<exists>d'. apply_blocks hexe R to_data from_data (length blocks) blks d = (Inr (), d')
     \<and> durable_inv hexe (contents d') (blocks @ map fst blks)"
  using assms(3,4)
proof (induction blks arbitrary: d blocks)
  case (Cons blk blks)
  have "chain_ok (blocks @ [fst blk])"
    using chain_ok_take [OF Cons.prems(2), of "length blocks + 1"] by simp
  then obtain d1 where d1: "apply_block hexe R to_data from_data (length blocks) blk d = (Inr (), d1)"
      "durable_inv hexe (contents d1) (blocks @ [fst blk])"
    by (rule apply_block_run [OF ok fmt Cons.prems(1)]) (rule that)
  with Cons.IH [of d1 "blocks @ [fst blk]"] Cons.prems(2) show ?case by auto
qed auto

text \<open>The hash records of an indexed chain.\<close>

definition hashes_recorded :: "kvmap \<Rightarrow> bytes list \<Rightarrow> bool" where
  "hashes_recorded m hs \<longleftrightarrow> (\<forall>i < length hs. m (blockhash_key i) = Some (hs ! i))"

lemma apply_blocks_records:
  assumes ok: "rocks_ok R contents" and fmt: "batch_format to_data from_data"
    and "durable_inv hexe (contents d) blocks" "chain_ok (blocks @ map fst blks)"
  shows "\<exists>d'. apply_blocks hexe R to_data from_data (length blocks) blks d = (Inr (), d')
     \<and> durable_inv hexe (contents d') (blocks @ map fst blks)
     \<and> (\<forall>i < length blocks. contents d' (blockhash_key i) = contents d (blockhash_key i))
     \<and> (\<forall>i < length blks. contents d' (blockhash_key (length blocks + i)) = Some (snd (blks ! i)))
     \<and> (blks \<noteq> [] \<longrightarrow> runtime_tip (contents d') = length blocks + length blks - 1)"
  using assms(3-)
proof (induction blks arbitrary: d blocks)
  case (Cons blk blks)
  have "chain_ok (blocks @ [fst blk])"
    using chain_ok_take [OF Cons.prems(2), of "length blocks + 1"] by simp
  then obtain d1 where d1: "apply_block hexe R to_data from_data (length blocks) blk d = (Inr (), d1)"
      "durable_inv hexe (contents d1) (blocks @ [fst blk])"
      "contents d1 (blockhash_key (length blocks)) = Some (snd blk)"
      "runtime_tip (contents d1) = length blocks"
      "\<And>i. i \<noteq> length blocks \<Longrightarrow> contents d1 (blockhash_key i) = contents d (blockhash_key i)"
    by (rule apply_block_run [OF ok fmt Cons.prems(1)]) (rule that)
  from Cons.IH [OF d1(2)] Cons.prems(2) obtain d' where
    d': "apply_blocks hexe R to_data from_data (length blocks + 1) blks d1 = (Inr (), d')"
      "durable_inv hexe (contents d') (blocks @ fst blk # map fst blks)"
      "\<And>i. i < length blocks + 1 \<Longrightarrow> contents d' (blockhash_key i) = contents d1 (blockhash_key i)"
      "\<And>i. i < length blks \<Longrightarrow> contents d' (blockhash_key (length blocks + 1 + i)) = Some (snd (blks ! i))"
      "blks \<noteq> [] \<Longrightarrow> runtime_tip (contents d') = length blocks + length blks"
    by auto
  have "contents d' (blockhash_key (length blocks + i)) = Some (snd ((blk # blks) ! i))"
    if "i < Suc (length blks)" for i
    using that d'(3) [of "length blocks"] d'(4) [of "i - 1"] d1(3) by (cases i) auto
  moreover have "runtime_tip (contents d') = length blocks + length blks"
    using d'(1,5) d1(4) by (cases blks) auto
  ultimately show ?case using d1 d' by auto
qed auto

lemma apply_blocks_hashes:
  assumes "rocks_ok R contents" "batch_format to_data from_data" "contents d = Map.empty" "chain_ok (map fst blks)"
  obtains d' where "apply_blocks hexe R to_data from_data 0 blks d = (Inr (), d')"
    "durable_inv hexe (contents d') (map fst blks)" "hashes_recorded (contents d') (map snd blks)"
    "blks \<noteq> [] \<Longrightarrow> runtime_tip (contents d') = length blks - 1"
proof -
  have "durable_inv hexe (contents d) []"
    using assms(3) chain_inv_empty by (simp add: durable_inv_def fresh_db_def indexed_height_def)
  from apply_blocks_records [OF assms(1,2) this, of blks] assms(4) show ?thesis
    using that by (auto simp: hashes_recorded_def)
qed

lemma set_indexed_height_run:
  assumes ok: "rocks_ok R contents" and inv: "chain_inv hexe (contents d) blocks" and blk: "chain_ok blocks"
    and h: "h \<le> u32_max"
  shows "\<exists>d'. rs_set_indexed_height R h d = (Inr (), d') \<and> chain_inv hexe (contents d') blocks
     \<and> indexed_height (contents d') = h \<and> (\<forall>k. k \<noteq> INDEXED_HEIGHT_KEY \<longrightarrow> contents d' k = contents d k)"
proof -
  obtain d' where d': "rocks_put R INDEXED_HEIGHT_KEY (le_bytes 4 h) d = (Inr (), d')"
      "contents d' = (contents d)(INDEXED_HEIGHT_KEY \<mapsto> le_bytes 4 h)"
    using rocks_okD(2) [OF ok] by blast
  have "has_log hexe (contents d') key us = has_log hexe (contents d) key us" for key us
    by (intro has_log_cong) (simp_all add: d'(2))
  then have "chain_inv hexe (contents d') blocks"
    using inv by (simp add: chain_inv_def logs_of_def d'(2))
  with d' h show ?thesis by (simp add: rs_set_indexed_height_def)
qed

lemma rollback_run:
  assumes ok: "rocks_ok R contents" and hex: "hex_codec hexe hexd"
    and inv: "durable_inv hexe (contents d) blocks" and fits: "chain_ok blocks"
    and lt: "h + 1 < length blocks"
  shows "\<exists>d'. rs_rollback_to_height R h d = (Inr (), d') \<and> durable_inv hexe (contents d') (take (h + 1) blocks)"
proof -
  let ?ch = "length blocks - 1"
  let ?be = "rs_backend R"
  have be: "smt_rollback ?be contents" by (rule rs_backend_ok [OF ok])
  have c: "chain_inv hexe (contents d) blocks" and ih: "indexed_height (contents d) = ?ch"
    using inv lt by (auto simp: durable_inv_def split: if_splits)
  have hc: "h < ?ch" "length blocks = ?ch + 1" using lt by linarith+
  have hb: "h \<le> u32_max" using fits lt by (simp add: chain_ok_def)
  have get: "rs_get_indexed_height R d = Inr ?ch"
    using rs_get_indexed_height_ok [of R d "contents d"] rocks_okD(1) [OF ok] ih by simp
  obtain used d1 where fast: "rollback_with_manifests ?be h ?ch d = (Inr used, d1)"
      "if used then chain_inv hexe (contents d1) (take (h + 1) blocks) else d1 = d"
    using smt_rollback.manifest_rollback_chain [OF be hex c fits hc] by blast
  obtain d2 where d2: "(if used then sreturn ()
       else smap_err (\<lambda>e. ''SMT rollback failed: '' @ e) (rollback_smt_data ?be h ?ch)) d1 = (Inr (), d2)"
      "chain_inv hexe (contents d2) (take (h + 1) blocks)"
  proof (cases used)
    case True
    with fast(2) that [of d1] show ?thesis by simp
  next
    case False
    with fast(2) have "d1 = d" by simp
    moreover obtain d2 where "rollback_smt_data ?be h ?ch d = (Inr (), d2)"
        "chain_inv hexe (contents d2) (take (h + 1) blocks)"
      using smt_rollback.scan_rollback_chain [OF be hex c fits hc(1)] by blast
    ultimately show ?thesis using that [of d2] False by simp
  qed
  obtain d' where d': "rs_set_indexed_height R h d2 = (Inr (), d')"
      "chain_inv hexe (contents d') (take (h + 1) blocks)" "indexed_height (contents d') = h"
    using set_indexed_height_run [OF ok d2(2) chain_ok_take [OF fits] hb] by blast
  have "rs_rollback_to_height R h d = (Inr (), d')"
    using get fast(1) d2(1) d'(1)
    by (cases used) (simp_all add: rs_rollback_to_height_def del: One_nat_def)
  moreover have "durable_inv hexe (contents d') (take (h + 1) blocks)"
    using d'(2,3) lt by (auto simp: durable_inv_def)
  ultimately show ?thesis by blast
qed

lemma durable_query:
  assumes ok: "rocks_ok R contents" and "hex_codec hexe hexd" "durable_inv hexe (contents d) blocks" "chain_ok blocks"
  shows "get_at_height (rocks_get R d) hexd key q = Inr (last_write blocks key q)"
proof -
  have "rocks_get R d = reader_of (contents d)"
    by (simp add: fun_eq_iff rocks_okD(1) [OF ok] reader_of_def)
  with chain_inv_query [OF assms(2) _ assms(4)] assms(3) show ?thesis by (simp add: durable_inv_def)
qed

lemma heal_run:
  assumes ok: "rocks_ok R contents" and hex: "hex_codec hexe hexd"
    and inv: "durable_inv hexe (contents d) blocks" and fits: "chain_ok blocks"
    and t: "target < length blocks"
  shows "\<exists>d'. rs_heal_pointers_atomic R target d = (Inr (), d')
     \<and> durable_inv hexe (contents d') (take (target + 1) blocks)
     \<and> runtime_tip (contents d') = target"
proof -
  have ih: "indexed_height (contents d) = length blocks - 1" and c: "chain_inv hexe (contents d) blocks"
    using inv t by (auto simp: durable_inv_def split: if_splits)
  have tb: "target \<le> u32_max" using fits t by (simp add: chain_ok_def)
  have g: "rs_get_indexed_height R d = Inr (length blocks - 1)"
      "rs_get_runtime_tip_height R d = Inr (runtime_tip (contents d))"
    using rs_get_indexed_height_ok [of R d "contents d"] rs_get_runtime_tip_ok [of R d "contents d"]
      rocks_okD(1) [OF ok] ih by simp_all
  let ?t = "take (target + 1) blocks"
  show ?thesis
  proof (cases "length blocks - 1 = target \<and> runtime_tip (contents d) = target")
    case True
    then have "length blocks \<le> target + 1" using t by linarith
    then have "?t = blocks" by simp
    moreover have "rs_heal_pointers_atomic R target d = (Inr (), d)"
      using True g by (simp add: rs_heal_pointers_atomic_def)
    ultimately show ?thesis using inv True by auto
  next
    case False
    obtain d1 where d1: "(if length blocks - 1 > target then rs_rollback_to_height R target else sreturn ()) d
        = (Inr (), d1)" "durable_inv hexe (contents d1) ?t"
    proof (cases "length blocks - 1 > target")
      case True
      then have "target + 1 < length blocks" by simp
      from rollback_run [OF ok hex inv fits this] True that show ?thesis by auto
    next
      case False
      then have "length blocks \<le> target + 1" using t by linarith
      then have "?t = blocks" by simp
      with inv that [of d] False show ?thesis by simp
    qed
    let ?ops = "[Put INDEXED_HEIGHT_KEY (le_bytes 4 target), Put TIP_HEIGHT_KEY (le_bytes 4 target)]"
    obtain d' where d': "rocks_write_sync R ?ops d1 = (Inr (), d')" "contents d' = apply_ops ?ops (contents d1)"
      using rocks_okD(5) [OF ok] by blast
    have "\<not> length blocks - 1 < target" using t by simp
    with False g d1(1) d'(1) have run: "rs_heal_pointers_atomic R target d = (Inr (), d')"
      by (cases "length blocks - 1 > target")
         (auto simp: rs_heal_pointers_atomic_def simp del: One_nat_def)
    have c1: "chain_inv hexe (contents d1) ?t" using d1(2) by (simp add: durable_inv_def)
    have "has_log hexe (contents d') key us = has_log hexe (contents d1) key us" for key us
      by (intro has_log_cong) (simp_all add: d'(2))
    then have "chain_inv hexe (contents d') ?t"
      using c1 by (simp add: chain_inv_def logs_of_def d'(2))
    moreover have "indexed_height (contents d') = target" "runtime_tip (contents d') = target"
      using tb by (simp_all add: indexed_height_def runtime_tip_def d'(2))
    ultimately show ?thesis using run t by (auto simp: durable_inv_def)
  qed
qed

subsection \<open>A batch encoding\<close>

text \<open>
  A concrete encoding with the round trip that RocksDB documents: the fields in
  hexadecimal, each ended by a colon.
\<close>

fun op_fields :: "batch_op \<Rightarrow> bytes list" where
  "op_fields (Put k v) = [''P'', k, v]"
| "op_fields (Delete k) = [''D'', k, []]"

definition sample_data :: "batch \<Rightarrow> bytes" where
  "sample_data b = ''B'' @ concat (map (\<lambda>f. encode_hex_fast f @ '':'') (concat (map op_fields b)))"

function split_fields :: "bytes \<Rightarrow> bytes list" where
  "split_fields s =
     (case split_colon s of
        None \<Rightarrow> []
      | Some (a, b) \<Rightarrow> (case hex_decode a of Some f \<Rightarrow> f | None \<Rightarrow> []) # split_fields b)"
  by pat_completeness auto
termination
  by (relation "measure length") (auto dest!: split_colon_Some)

declare split_fields.simps [simp del]

fun ops_of_fields :: "bytes list \<Rightarrow> batch" where
  "ops_of_fields (t # k # v # fs) = (if t = ''P'' then Put k v else Delete k) # ops_of_fields fs"
| "ops_of_fields _ = []"

definition sample_from :: "bytes \<Rightarrow> batch" where
  "sample_from d = ops_of_fields (split_fields (drop 1 d))"

text \<open>The fields come back.\<close>

lemma split_fields_encoded: "split_fields (concat (map (\<lambda>f. encode_hex_fast f @ '':'') fs)) = fs"
proof -
  have colon: "CHR '':'' \<notin> set (encode_hex_fast f)" for f
  proof (induction f)
    case (Cons b f)
    have "CHR '':'' \<notin> set HEX_CHARS" by (simp add: HEX_CHARS_def)
    moreover have "HEX_CHARS ! n \<in> set HEX_CHARS" if "n < 16" for n
      using that by (intro nth_mem) (simp add: HEX_CHARS_def)
    ultimately have "CHR '':'' \<notin> set (hex_byte b)"
      using nibbles_less [of b] by (auto simp: hex_byte_def)
    with Cons show ?case by (simp add: encode_hex_fast_eq)
  qed (simp add: encode_hex_fast_eq)
  show ?thesis
  proof (induction fs)
    case Nil
    then show ?case by (subst split_fields.simps) simp
  next
    case (Cons f fs)
    have "split_colon (encode_hex_fast f @ CHR '':'' # concat (map (\<lambda>f. encode_hex_fast f @ '':'') fs))
        = Some (encode_hex_fast f, concat (map (\<lambda>f. encode_hex_fast f @ '':'') fs))"
      by (rule split_colon_append) (rule colon)
    with Cons show ?case
      by (subst split_fields.simps) (simp add: hex_decode_encode)
  qed
qed

lemma sample_format: "batch_format sample_data sample_from"
proof -
  have ops: "ops_of_fields (concat (map op_fields b)) = b" for b
  proof (induction b)
    case (Cons x b)
    then show ?case by (cases x) simp_all
  qed simp
  show ?thesis
    by (simp add: batch_format_def sample_from_def sample_data_def split_fields_encoded ops)
qed

subsection \<open>Properties\<close>

lemma list_empty_inv: "durable_inv hexe (map_of ([] :: list_db)) []"
  using chain_inv_empty by (simp add: durable_inv_def fresh_db_def indexed_height_def)

lemmas list_facts = list_rocks_ok sample_format

text \<open>
  C7: a block commit is all or nothing on a database that may fail: \<open>commit_atomic\<close> either
  returns an error and leaves every record as it was, or it accepted the height (the next
  one after the stored tip, or any on a fresh database) and then all writes of the block's
  batch and its three metadata records are there, with the tip now at that height.
\<close>

theorem commit_all_or_nothing:
  assumes "rocks_atomic R contents" "h \<le> u32_max"
  shows "case commit_atomic R from_data h bh root data d of
     (Inl e, d') \<Rightarrow> contents d' = contents d
   | (Inr _, d') \<Rightarrow>
       (fresh_db (contents d) \<or> h = sat_add32 (indexed_height (contents d)) 1)
     \<and> contents d' = (apply_ops (if data = [] then [] else from_data data) (contents d))
          (blockhash_key h \<mapsto> bh, root_key h \<mapsto> root, INDEXED_HEIGHT_KEY \<mapsto> le_bytes 4 h)
     \<and> indexed_height (contents d') = h"
proof -
  obtain r d' where rd: "commit_atomic R from_data h bh root data d = (r, d')" by fastforce
  show ?thesis
    using commit_atomic_cases [OF assms(1), where from_data = from_data and h = h and bh = bh
        and root = root and data = data and d = d] assms(2)
    unfolding rd by (cases r) (simp_all add: commit_metadata_effect)
qed

theorem commit_all_or_nothing_witness:
  "case commit_atomic list_rocks sample_from 5 ''h'' ''r'' (sample_data [Put ''k'' ''v'']) [] of
     (Inl e, d') \<Rightarrow> False
   | (Inr _, d') \<Rightarrow> indexed_height (map_of d') = 5"
proof -
  let ?run = "commit_atomic list_rocks sample_from 5 ''h'' ''r'' (sample_data [Put ''k'' ''v'']) []"
  obtain d' where d': "?run = (Inr (), d')"
    using commit_atomic_ok [OF list_rocks_ok, of "[]" 5 sample_from "''h''" "''r''" "sample_data [Put ''k'' ''v'']"]
    by (auto simp: fresh_db_def indexed_height_def)
  show ?thesis
    using commit_all_or_nothing [OF rocks_ok_atomic [OF list_rocks_ok], where h = 5
        and from_data = sample_from and bh = "''h''" and root = "''r''"
        and data = "sample_data [Put ''k'' ''v'']" and d = "[]"]
    unfolding d' by (simp add: u32_max_def)
qed

text \<open>
  C8: no block is applied twice, skipped or out of order. Once a block of height \<open>h\<close> is
  committed, every commit at another height than \<open>h + 1\<close>, in particular a repeated
  commit of \<open>h\<close> itself, is refused with the out-of-order error and changes nothing.
\<close>

theorem no_block_applied_twice:
  assumes "rocks_ok R contents" "commit_atomic R from_data h bh root data d = (Inr (), d1)"
    "h < u32_max" "h' \<noteq> h + 1"
  shows "commit_atomic R from_data h' bh' root' data' d1 = (Inl (out_of_order h' h), d1)"
proof -
  have c: "contents d1 = (apply_ops (if data = [] then [] else from_data data) (contents d))
      (blockhash_key h \<mapsto> bh, root_key h \<mapsto> root, INDEXED_HEIGHT_KEY \<mapsto> le_bytes 4 h)"
    using commit_atomic_cases [OF rocks_ok_atomic [OF assms(1)], where from_data = from_data and h = h
        and bh = bh and root = root and data = data and d = d] assms(2)
    by (simp add: commit_metadata_effect)
  have ih: "indexed_height (contents d1) = h" using assms(3) by (simp add: c)
  moreover have "\<not> fresh_db (contents d1)" using ih by (auto simp: fresh_db_def c)
  ultimately show ?thesis
    using commit_atomic_rejects [OF assms(1), of d1 h'] assms(3,4) by (simp add: sat_add32_def)
qed

theorem no_block_applied_twice_witness:
  "\<exists>d1. commit_atomic list_rocks sample_from 0 ''h'' ''r'' [] [] = (Inr (), d1)
     \<and> commit_atomic list_rocks sample_from 0 ''h'' ''r'' [] d1 = (Inl (out_of_order 0 0), d1)"
proof -
  obtain d1 where d1: "commit_atomic list_rocks sample_from 0 ''h'' ''r'' [] [] = (Inr (), d1)"
    using commit_atomic_ok [OF list_rocks_ok, of "[]" 0 sample_from "''h''" "''r''" "[]"]
    by (auto simp: fresh_db_def indexed_height_def)
  with no_block_applied_twice [OF list_rocks_ok d1] show ?thesis by (simp add: u32_max_def)
qed

text \<open>
  C6: a reorganisation leaves no trace in the queries. Index the blocks of one branch from an empty
  database, roll back to a fork height (through the manifests, or by the full scan when
  one is missing), and index the blocks of the other branch: every historical query
  answers as if the common part and the second branch had been indexed alone, and the
  height pointer is that chain's last block. Hash records, manifests and the runtime tip
  of the abandoned branch are not part of the claim; the full scan leaves some of them.
\<close>

theorem reorg_leaves_no_trace:
  assumes ok: "rocks_ok R contents" and fmt: "batch_format to_data from_data" and hex: "hex_codec hexe hexd"
    and start: "contents d = Map.empty"
    and fits: "chain_ok (map fst as)" "chain_ok (take (fork + 1) (map fst as) @ map fst bs)"
    and fork: "fork + 1 < length as"
  shows "\<exists>d1 d2 d3. apply_blocks hexe R to_data from_data 0 as d = (Inr (), d1)
     \<and> rs_rollback_to_height R fork d1 = (Inr (), d2)
     \<and> apply_blocks hexe R to_data from_data (fork + 1) bs d2 = (Inr (), d3)
     \<and> (\<forall>key q. get_at_height (rocks_get R d3) hexd key q
            = Inr (last_write (take (fork + 1) (map fst as) @ map fst bs) key q))
     \<and> rs_get_indexed_height R d3 = Inr (fork + length bs)"
proof -
  let ?A = "map fst as" and ?B = "map fst bs"
  let ?C = "take (fork + 1) ?A"
  have "durable_inv hexe (contents d) []"
    using start chain_inv_empty by (simp add: durable_inv_def fresh_db_def indexed_height_def)
  then obtain d1 where d1: "apply_blocks hexe R to_data from_data 0 as d = (Inr (), d1)"
      "durable_inv hexe (contents d1) ?A"
    using apply_blocks_run [OF ok fmt, of hexe d "[]" as] fits(1) by auto
  obtain d2 where d2: "rs_rollback_to_height R fork d1 = (Inr (), d2)" "durable_inv hexe (contents d2) ?C"
    using rollback_run [OF ok hex d1(2) fits(1)] fork by auto
  have len: "length ?C = fork + 1" using fork by simp
  obtain d3 where d3: "apply_blocks hexe R to_data from_data (fork + 1) bs d2 = (Inr (), d3)"
      "durable_inv hexe (contents d3) (?C @ ?B)"
    using apply_blocks_run [OF ok fmt d2(2) fits(2)] unfolding len by blast
  have "indexed_height (contents d3) = fork + length bs"
    using d3(2) fork by (auto simp: durable_inv_def split: if_splits)
  then have "rs_get_indexed_height R d3 = Inr (fork + length bs)"
    using rs_get_indexed_height_ok [of R d3 "contents d3"] rocks_okD(1) [OF ok] by simp
  with d1(1) d2(1) d3 durable_query [OF ok hex d3(2) fits(2)] show ?thesis by blast
qed

theorem reorg_leaves_no_trace_witness:
  "\<exists>d1 d2 d3. apply_blocks encode_hex_fast list_rocks sample_data sample_from 0
        [([(''a'', ''1'')], ''h0''), ([(''a'', ''2'')], ''h1''), ([], ''h2'')] [] = (Inr (), d1)
     \<and> rs_rollback_to_height list_rocks 0 d1 = (Inr (), d2)
     \<and> apply_blocks encode_hex_fast list_rocks sample_data sample_from 1 [([(''b'', ''3'')], ''g1'')] d2 = (Inr (), d3)
     \<and> get_at_height (rocks_get list_rocks d3) hex_decode ''a'' 7 = Inr (Some ''1'')"
proof -
  let ?as = "[([(''a'', ''1'')], ''h0''), ([(''a'', ''2'')], ''h1''), ([], ''h2'')]"
  let ?bs = "[([(''b'', ''3'')], ''g1'')]"
  have "chain_ok (map fst ?as)" "chain_ok (take (0 + 1) (map fst ?as) @ map fst ?bs)" "0 + 1 < length ?as"
    by (simp_all add: chain_ok_def user_block_def reserved_base_def manifest_base_def blockhash_base_def
        total_pairs_def u32_max_def)
  from reorg_leaves_no_trace [OF list_facts hx.hex_codec_axioms map_of.simps(1) this]
  obtain d1 d2 d3 where
      "apply_blocks encode_hex_fast list_rocks sample_data sample_from 0 ?as [] = (Inr (), d1)"
      "rs_rollback_to_height list_rocks 0 d1 = (Inr (), d2)"
      "apply_blocks encode_hex_fast list_rocks sample_data sample_from (0 + 1) ?bs d2 = (Inr (), d3)"
      "get_at_height (rocks_get list_rocks d3) hex_decode ''a'' 7
         = Inr (last_write (take (0 + 1) (map fst ?as) @ map fst ?bs) ''a'' 7)"
    by blast
  then show ?thesis by (auto simp: last_write_def block_values_def)
qed

text \<open>
  C13: the start-up repair. On an indexed database whose runtime tip may have drifted, asking
  \<open>heal_pointers_atomic\<close> for a height of the chain brings both pointers to it with the
  database of the chain up to it, doing it again writes nothing, and asking for a height
  above the tip is refused without a write.
\<close>

theorem heal_reconciles_pointers:
  assumes ok: "rocks_ok R contents" and hex: "hex_codec hexe hexd"
    and inv: "durable_inv hexe (contents d) blocks" and fits: "chain_ok blocks" and ne: "blocks \<noteq> []"
  shows "if target < length blocks
    then \<exists>d'. rs_heal_pointers_atomic R target d = (Inr (), d')
       \<and> rs_get_indexed_height R d' = Inr target \<and> rs_get_runtime_tip_height R d' = Inr target
       \<and> (\<forall>key q. get_at_height (rocks_get R d') hexd key q
             = Inr (last_write (take (target + 1) blocks) key q))
       \<and> rs_heal_pointers_atomic R target d' = (Inr (), d')
    else rs_heal_pointers_atomic R target d = (Inl (heal_refused (length blocks - 1) target), d)"
proof (cases "target < length blocks")
  case True
  obtain d' where d': "rs_heal_pointers_atomic R target d = (Inr (), d')"
      "durable_inv hexe (contents d') (take (target + 1) blocks)" "runtime_tip (contents d') = target"
    using heal_run [OF ok hex inv fits True] by blast
  have "indexed_height (contents d') = target"
    using d'(2) True by (auto simp: durable_inv_def split: if_splits)
  then have g: "rs_get_indexed_height R d' = Inr target" "rs_get_runtime_tip_height R d' = Inr target"
    using rs_get_indexed_height_ok [of R d' "contents d'"] rs_get_runtime_tip_ok [of R d' "contents d'"]
      rocks_okD(1) [OF ok] d'(3) by simp_all
  then have "rs_heal_pointers_atomic R target d' = (Inr (), d')"
    by (simp add: rs_heal_pointers_atomic_def)
  with True d'(1) g durable_query [OF ok hex d'(2) chain_ok_take [OF fits]] show ?thesis by auto
next
  case False
  have "rs_get_indexed_height R d = Inr (length blocks - 1)"
      "rs_get_runtime_tip_height R d = Inr (runtime_tip (contents d))"
    using rs_get_indexed_height_ok [of R d "contents d"] rs_get_runtime_tip_ok [of R d "contents d"]
      rocks_okD(1) [OF ok] inv ne by (simp_all add: durable_inv_def)
  moreover have "length blocks - 1 < target" using False ne by (cases blocks) auto
  ultimately show ?thesis
    using False by (auto simp: rs_heal_pointers_atomic_def simp del: One_nat_def)
qed

theorem heal_reconciles_pointers_witness:
  "\<exists>d d'. apply_blocks encode_hex_fast list_rocks sample_data sample_from 0
        [([(''a'', ''1'')], ''h0''), ([(''a'', ''2'')], ''h1'')] [] = (Inr (), d)
     \<and> rs_heal_pointers_atomic list_rocks 0 d = (Inr (), d')
     \<and> rs_get_runtime_tip_height list_rocks d' = Inr 0"
proof -
  let ?as = "[([(''a'', ''1'')], ''h0''), ([(''a'', ''2'')], ''h1'')]"
  have fits: "chain_ok (map fst ?as)"
    by (simp add: chain_ok_def user_block_def reserved_base_def manifest_base_def blockhash_base_def
        total_pairs_def u32_max_def)
  obtain d where d: "apply_blocks encode_hex_fast list_rocks sample_data sample_from 0 ?as [] = (Inr (), d)"
      "durable_inv encode_hex_fast (map_of d) (map fst ?as)"
    using apply_blocks_run [OF list_facts list_empty_inv, where blks = ?as] fits by auto
  from heal_reconciles_pointers [OF list_rocks_ok hx.hex_codec_axioms d(2) fits, of 0] d(1)
  show ?thesis by auto
qed

end
