(* ===== verification/SmtTree.thy ===== *)
theory SmtTree
  imports StateRoot AppendLog
begin

text \<open>
  The sparse Merkle tree operations of \<open>SMTHelper\<close> (\<open>crates/metashrew-runtime/src/smt.rs\<close>):
  looking a leaf up, collecting and rebuilding the path of a key, splitting a leaf whose
  hash shares a prefix with the new one, and the state-root calculations built on them.
  Nodes are content-addressed records, so the tree is only as shared and as complete as
  the database; \<open>SmtSpec\<close> relates it to an abstract tree.
\<close>

text \<open>\<open>(key_hash[depth / 8] >> (7 - (depth % 8))) & 1\<close>, as a truth value.\<close>

definition key_bit :: "bytes \<Rightarrow> nat \<Rightarrow> bool" where
  "key_bit key_hash depth \<longleftrightarrow>
     odd ((of_char (key_hash ! (depth div 8)) :: nat) div 2 ^ (7 - depth mod 8))"

definition depth_error :: string where
  "depth_error = ''Maximum SMT depth exceeded''"

definition separate_error :: string where
  "separate_error = ''Keys are identical - cannot separate''"

subsection \<open>Reading\<close>

function get_smt_leaf_loop ::
    "hash_fn \<Rightarrow> reader \<Rightarrow> bytes \<Rightarrow> bytes \<Rightarrow> nat \<Rightarrow> smt_node option result" where
  "get_smt_leaf_loop sha rd key_hash current_hash depth =
     rbind (get_node rd current_hash) (\<lambda>n.
       case n of
         None \<Rightarrow> Inr None
       | Some (Leaf key vi) \<Rightarrow>
           Inr (if hash_key sha key = key_hash then Some (Leaf key vi) else None)
       | Some (Internal l r) \<Rightarrow>
           let next = (if key_bit key_hash depth then r else l) in
           if next = EMPTY_NODE_HASH then Inr None
           else if depth + 1 \<ge> 256 then Inl depth_error
           else get_smt_leaf_loop sha rd key_hash next (depth + 1))"
  by pat_completeness auto
termination
  by (relation "measure (\<lambda>(sha, rd, key_hash, current_hash, depth). 256 - depth)") auto

declare get_smt_leaf_loop.simps [simp del]

definition get_smt_leaf ::
    "hash_fn \<Rightarrow> reader \<Rightarrow> bytes \<Rightarrow> bytes \<Rightarrow> nat \<Rightarrow> smt_node option result" where
  "get_smt_leaf sha rd root key_hash height =
     (if root = EMPTY_NODE_HASH then Inr None else get_smt_leaf_loop sha rd key_hash root 0)"

function collect_path_loop ::
    "reader \<Rightarrow> bytes \<Rightarrow> bytes \<Rightarrow> nat \<Rightarrow> (bool \<times> smt_node) list \<Rightarrow> (bool \<times> smt_node) list result" where
  "collect_path_loop rd key_hash current_hash depth path =
     rbind (get_node rd current_hash) (\<lambda>n.
       case n of
         None \<Rightarrow> Inr path
       | Some (Leaf key vi) \<Rightarrow> Inr (path @ [(False, Leaf key vi)])
       | Some (Internal l r) \<Rightarrow>
           let bit = key_bit key_hash depth;
               path1 = path @ [(bit, Internal l r)];
               next = (if bit then r else l) in
           if next = EMPTY_NODE_HASH then Inr path1
           else if depth + 1 \<ge> 256 then Inl depth_error
           else collect_path_loop rd key_hash next (depth + 1) path1)"
  by pat_completeness auto
termination
  by (relation "measure (\<lambda>(rd, key_hash, current_hash, depth, path). 256 - depth)") auto

declare collect_path_loop.simps [simp del]

definition collect_path_nodes ::
    "reader \<Rightarrow> bytes \<Rightarrow> bytes \<Rightarrow> nat \<Rightarrow> (bool \<times> smt_node) list result" where
  "collect_path_nodes rd root key_hash height =
     (if root = EMPTY_NODE_HASH then Inr [] else collect_path_loop rd key_hash root 0 [])"

subsection \<open>The single-update computation\<close>

definition put_node :: "hash_fn \<Rightarrow> smt_node \<Rightarrow> bytes \<times> bytes" where
  "put_node sha node = (node_key (hash_node sha node), serialize_node node)"

text \<open>
  One turn of the loop from the leaf to the root; \<open>n\<close> is the length of the path. The
  counter \<open>depth\<close> only numbers the new nodes; it is an \<open>i32\<close> by inference and goes to
  \<open>-1\<close> at the least.
\<close>

definition smt_update_step ::
    "hash_fn \<Rightarrow> nat \<Rightarrow> bytes \<Rightarrow> nat \<times> bool \<times> smt_node
     \<Rightarrow> (bytes \<times> bytes) list \<times> (int \<times> bytes) list \<times> int
     \<Rightarrow> (bytes \<times> bytes) list \<times> (int \<times> bytes) list \<times> int" where
  "smt_update_step sha n leaf_hash item st =
     (case (item, st) of ((i, path_bit, node), (updates, new_nodes, depth)) \<Rightarrow>
        case node of
          Leaf _ _ \<Rightarrow> (updates, new_nodes, depth)
        | Internal l r \<Rightarrow>
            let child_hash = (if i = n - 1 then leaf_hash else snd (last new_nodes));
                new_node = (if path_bit then Internal l child_hash else Internal child_hash r);
                new_hash = hash_node sha new_node
            in (updates @ [put_node sha new_node], new_nodes @ [(depth, new_hash)], depth - 1))"

definition compute_smt_updates ::
    "hash_fn \<Rightarrow> reader \<Rightarrow> bytes \<Rightarrow> bytes \<Rightarrow> bytes \<Rightarrow> nat \<Rightarrow> (bytes \<times> bytes) list result" where
  "compute_smt_updates sha rd key val current_root height =
     (let key_hash = hash_key sha key;
          leaf_node = Leaf key (hash_value sha val);
          leaf_hash = hash_node sha leaf_node;
          updates = [(node_key key_hash, serialize_node leaf_node)]
      in rbind (collect_path_nodes rd current_root key_hash height) (\<lambda>path_nodes.
           if path_nodes = [] then
             Inr (updates @ [put_node sha leaf_node, (root_key height, leaf_hash)])
           else
             case fold (smt_update_step sha (length path_nodes) leaf_hash)
                    (rev (enumerate 0 path_nodes))
                    (updates @ [put_node sha leaf_node], [(256, leaf_hash)], 255) of
               (updates, new_nodes, _) \<Rightarrow>
                 Inr (updates @ [(root_key height, snd (last new_nodes))])))"

text \<open>\<open>copy_from_slice\<close> panics on a source of another length.\<close>

definition copy32 :: "bytes \<Rightarrow> bytes result" where
  "copy32 v = (if length v = 32 then Inr v
     else Inl ''source slice length does not match destination slice length'')"

definition compute_new_root ::
    "hash_fn \<Rightarrow> reader \<Rightarrow> bytes \<Rightarrow> (bytes \<times> bytes) list \<Rightarrow> nat \<Rightarrow> bytes result" where
  "compute_new_root sha rd current_root kvs height =
     (if kvs = [] then Inr current_root
      else
        rbind (compute_smt_updates sha rd (fst (last kvs)) (snd (last kvs)) current_root height) (\<lambda>updates.
          case find (\<lambda>(key, _). prefix SMT_ROOT_PREFIX key) (rev updates) of
            Some (_, val) \<Rightarrow> copy32 val
          | None \<Rightarrow> Inr current_root))"

definition get_value_at_height ::
    "reader \<Rightarrow> (bytes \<Rightarrow> bytes option) \<Rightarrow> bytes \<Rightarrow> bytes \<Rightarrow> nat \<Rightarrow> bytes option result" where
  "get_value_at_height rd hexd key value_hash height = get_at_height rd hexd key height"

subsection \<open>Path updates\<close>

text \<open>
  The traversal: the nodes on the key's path, each with its depth and, for the leaf at the
  end, whether it is the key's own.
\<close>

type_synonym path_node = "nat \<times> smt_node \<times> bool"

function find_path ::
    "hash_fn \<Rightarrow> reader \<Rightarrow> bytes \<Rightarrow> bytes \<Rightarrow> nat \<Rightarrow> path_node list \<Rightarrow> path_node list result" where
  "find_path sha rd key_hash current_hash depth path_nodes =
     rbind (get_node rd current_hash) (\<lambda>n.
       case n of
         None \<Rightarrow> Inr path_nodes
       | Some (Leaf existing_key vi) \<Rightarrow>
           Inr (path_nodes @ [(depth, Leaf existing_key vi, hash_key sha existing_key = key_hash)])
       | Some (Internal l r) \<Rightarrow>
           if depth + 1 \<ge> 256 then Inl depth_error
           else find_path sha rd key_hash (if key_bit key_hash depth then r else l) (depth + 1)
                  (path_nodes @ [(depth, Internal l r, False)]))"
  by pat_completeness auto
termination
  by (relation "measure (\<lambda>(sha, rd, key_hash, current_hash, depth, path_nodes). 256 - depth)") auto

declare find_path.simps [simp del]

text \<open>The first depth from \<open>depth\<close> on at which the two hashes differ.\<close>

function find_divergence :: "bytes \<Rightarrow> bytes \<Rightarrow> nat \<Rightarrow> nat option" where
  "find_divergence existing new depth =
     (if depth < 256 then
        (if key_bit existing depth \<noteq> key_bit new depth then Some depth
         else find_divergence existing new (depth + 1))
      else None)"
  by pat_completeness auto
termination
  by (relation "measure (\<lambda>(existing, new, depth). 256 - depth)") auto

declare find_divergence.simps [simp del]

definition batch_node :: "hash_fn \<Rightarrow> smt_node \<Rightarrow> batch \<Rightarrow> batch" where
  "batch_node sha node batch = batch @ [Put (node_key (hash_node sha node)) (serialize_node node)]"

text \<open>The two leaves at the divergence point, and the parents above it.\<close>

definition split_node :: "bytes \<Rightarrow> nat \<Rightarrow> bytes \<Rightarrow> bytes \<Rightarrow> smt_node" where
  "split_node existing_key_hash depth existing_leaf_hash new_leaf_hash =
     (if \<not> key_bit existing_key_hash depth then Internal existing_leaf_hash new_leaf_hash
      else Internal new_leaf_hash existing_leaf_hash)"

definition parent_node :: "bytes \<Rightarrow> nat \<Rightarrow> bytes \<Rightarrow> smt_node" where
  "parent_node new_key_hash d current_hash =
     (if \<not> key_bit new_key_hash d then Internal current_hash EMPTY_NODE_HASH
      else Internal EMPTY_NODE_HASH current_hash)"

definition create_separating_internals_batched ::
    "hash_fn \<Rightarrow> nat \<Rightarrow> bytes \<Rightarrow> bytes \<Rightarrow> bytes \<Rightarrow> bytes \<Rightarrow> batch \<Rightarrow> (bytes \<times> batch) result" where
  "create_separating_internals_batched sha start_depth existing_key_hash existing_leaf_hash
       new_key_hash new_leaf_hash batch =
     (case find_divergence existing_key_hash new_key_hash start_depth of
        None \<Rightarrow> Inl separate_error
      | Some depth \<Rightarrow>
          let internal = split_node existing_key_hash depth existing_leaf_hash new_leaf_hash in
          Inr (fold (\<lambda>d (current_hash, batch).
                 let parent_internal = parent_node new_key_hash d current_hash
                 in (hash_node sha parent_internal, batch_node sha parent_internal batch))
               (rev [start_depth..<depth])
               (hash_node sha internal, batch_node sha internal batch)))"

text \<open>\<open>create_separating_internals\<close>, whose extra height is unused.\<close>

definition create_separating_internals ::
    "hash_fn \<Rightarrow> nat \<Rightarrow> bytes \<Rightarrow> bytes \<Rightarrow> bytes \<Rightarrow> bytes \<Rightarrow> nat \<Rightarrow> batch \<Rightarrow> (bytes \<times> batch) result" where
  "create_separating_internals sha start_depth existing_key_hash existing_leaf_hash
       new_key_hash new_leaf_hash height batch =
     (case find_divergence existing_key_hash new_key_hash start_depth of
        None \<Rightarrow> Inl separate_error
      | Some depth \<Rightarrow>
          let internal = split_node existing_key_hash depth existing_leaf_hash new_leaf_hash in
          Inr (fold (\<lambda>d (current_hash, batch).
                 let parent_internal = parent_node new_key_hash d current_hash
                 in (hash_node sha parent_internal, batch_node sha parent_internal batch))
               (rev [start_depth..<depth])
               (hash_node sha internal, batch_node sha internal batch)))"

text \<open>
  One turn of the loop from the leaf to the root. The separating step is an argument
  because the two copies of the loop call different functions.
\<close>

type_synonym rebuild_state = "bytes \<times> (nat \<times> bytes) list \<times> batch"

definition rebuild_step ::
    "hash_fn \<Rightarrow> (nat \<Rightarrow> bytes \<Rightarrow> bytes \<Rightarrow> bytes \<Rightarrow> bytes \<Rightarrow> batch \<Rightarrow> (bytes \<times> batch) result)
     \<Rightarrow> bytes \<Rightarrow> path_node \<Rightarrow> rebuild_state \<Rightarrow> rebuild_state result" where
  "rebuild_step sha sep key_hash item st =
     (case (item, st) of ((node_depth, node, is_replacement), (new_child_hash, updates, batch)) \<Rightarrow>
        case node of
          Leaf existing_key vi \<Rightarrow>
            if is_replacement then
              Inr (new_child_hash, updates @ [(node_depth, new_child_hash)], batch)
            else
              rbind (sep node_depth (hash_key sha existing_key) (hash_node sha (Leaf existing_key vi))
                       key_hash new_child_hash batch) (\<lambda>(h, batch).
                Inr (h, updates @ [(node_depth, h)], batch))
        | Internal l r \<Rightarrow>
            let new_internal = (if \<not> key_bit key_hash node_depth then Internal new_child_hash r
                                else Internal l new_child_hash);
                h = hash_node sha new_internal
            in Inr (h, updates @ [(node_depth, h)], batch_node sha new_internal batch))"

definition compute_path_updates_batched ::
    "hash_fn \<Rightarrow> reader \<Rightarrow> bytes \<Rightarrow> bytes \<Rightarrow> bytes \<Rightarrow> batch \<Rightarrow> ((nat \<times> bytes) list \<times> batch) result" where
  "compute_path_updates_batched sha rd current_root key_hash new_leaf_hash batch =
     rbind (find_path sha rd key_hash current_root 0 []) (\<lambda>path_nodes.
       rbind (rfold (rebuild_step sha (create_separating_internals_batched sha) key_hash)
                (rev path_nodes) (new_leaf_hash, [], batch))
         (\<lambda>(_, updates, batch). Inr (updates, batch)))"

definition compute_path_updates ::
    "hash_fn \<Rightarrow> reader \<Rightarrow> bytes \<Rightarrow> bytes \<Rightarrow> bytes \<Rightarrow> nat \<Rightarrow> batch \<Rightarrow> ((nat \<times> bytes) list \<times> batch) result" where
  "compute_path_updates sha rd current_root key_hash new_leaf_hash height batch =
     rbind (find_path sha rd key_hash current_root 0 []) (\<lambda>path_nodes.
       rbind (rfold (rebuild_step sha
                  (\<lambda>d ek el nk nl b. create_separating_internals sha d ek el nk nl height b) key_hash)
                (rev path_nodes) (new_leaf_hash, [], batch))
         (\<lambda>(_, updates, batch). Inr (updates, batch)))"

definition root_of_updates :: "(nat \<times> bytes) list \<Rightarrow> bytes \<Rightarrow> bytes" where
  "root_of_updates path_updates new_leaf_hash =
     (if path_updates = [] then new_leaf_hash else snd (last path_updates))"

definition update_smt_for_key_batched ::
    "hash_fn \<Rightarrow> reader \<Rightarrow> bytes \<Rightarrow> bytes \<Rightarrow> bytes \<Rightarrow> nat \<Rightarrow> batch \<Rightarrow> (bytes \<times> batch) result" where
  "update_smt_for_key_batched sha rd current_root key val height batch =
     (let key_hash = hash_key sha key;
          new_leaf = Leaf key (hash_value sha val);
          new_leaf_hash = hash_node sha new_leaf;
          batch1 = batch_node sha new_leaf batch
      in if current_root = EMPTY_NODE_HASH then Inr (new_leaf_hash, batch1)
         else rbind (compute_path_updates_batched sha rd current_root key_hash new_leaf_hash batch1)
           (\<lambda>(path_updates, batch2). Inr (root_of_updates path_updates new_leaf_hash, batch2)))"

definition compute_batched_smt_root ::
    "hash_fn \<Rightarrow> reader \<Rightarrow> bytes \<Rightarrow> (bytes \<times> bytes) list \<Rightarrow> nat \<Rightarrow> batch \<Rightarrow> (bytes \<times> batch) result" where
  "compute_batched_smt_root sha rd current_root key_values height batch =
     rfold (\<lambda>(key, val) (working_root, batch).
        update_smt_for_key_batched sha rd working_root key val height batch)
       key_values (current_root, batch)"

subsection \<open>Storing the state root\<close>

text \<open>
  The operations that write. A backend is a reader, a prefix scan and a write on its state.
\<close>

record 's store_ops =
  so_read :: "'s \<Rightarrow> reader"
  so_scan :: "'s \<Rightarrow> bytes \<Rightarrow> (bytes \<times> bytes) list result"
  so_write :: "batch \<Rightarrow> ('s, unit) st"

definition write_or_storage_error :: "'s store_ops \<Rightarrow> batch \<Rightarrow> ('s, unit) st" where
  "write_or_storage_error ops batch s =
     (case so_write ops batch s of (r, s') \<Rightarrow> (storage_err r, s'))"

definition lift_result :: "('s \<Rightarrow> 'a result) \<Rightarrow> ('s, 'a) st" where
  "lift_result f s = (f s, s)"

definition prev_state_root :: "reader \<Rightarrow> nat \<Rightarrow> bytes" where
  "prev_state_root rd height =
     (if height > 0 then
        (case get_smt_root_at_height rd (height - 1) of
           Inr root \<Rightarrow> root
         | Inl _ \<Rightarrow> EMPTY_NODE_HASH)
      else EMPTY_NODE_HASH)"

text \<open>
  \<open>update_smt_for_key\<close>. When the tree is empty it returns before the batch that holds the
  leaf is written.
\<close>

definition update_smt_for_key ::
    "hash_fn \<Rightarrow> 's store_ops \<Rightarrow> bytes \<Rightarrow> bytes \<Rightarrow> bytes \<Rightarrow> nat \<Rightarrow> ('s, bytes) st" where
  "update_smt_for_key sha ops current_root key val height s =
     (let key_hash = hash_key sha key;
          new_leaf = Leaf key (hash_value sha val);
          new_leaf_hash = hash_node sha new_leaf;
          batch = batch_node sha new_leaf []
      in if current_root = EMPTY_NODE_HASH then (Inr new_leaf_hash, s)
         else case compute_path_updates sha (so_read ops s) current_root key_hash new_leaf_hash 0 batch of
           Inl e \<Rightarrow> (Inl e, s)
         | Inr (path_updates, batch1) \<Rightarrow>
             sbind (write_or_storage_error ops batch1)
               (\<lambda>_. sreturn (root_of_updates path_updates new_leaf_hash)) s)"

definition compute_incremental_smt_root ::
    "hash_fn \<Rightarrow> (bytes \<Rightarrow> bytes option) \<Rightarrow> 's store_ops \<Rightarrow> bytes \<Rightarrow> bytes list \<Rightarrow> nat \<Rightarrow> ('s, bytes) st" where
  "compute_incremental_smt_root sha hexd ops current_root updated_keys height =
     sfold (\<lambda>key working_root.
        sbind (lift_result (\<lambda>s. get_at_height (so_read ops s) hexd key height)) (\<lambda>v.
          case v of
            Some val \<Rightarrow> update_smt_for_key sha ops working_root key val height
          | None \<Rightarrow> sreturn working_root)) updated_keys current_root"

definition calculate_and_store_state_root ::
    "hash_fn \<Rightarrow> (bytes \<Rightarrow> bytes option) \<Rightarrow> 's store_ops \<Rightarrow> nat \<Rightarrow> ('s, bytes) st" where
  "calculate_and_store_state_root sha hexd ops height s =
     (let prev_root = prev_state_root (so_read ops s) height in
      sbind (lift_result (\<lambda>s. get_keys_at_height (so_read ops s) (so_scan ops s) height)) (\<lambda>updated_keys.
        if updated_keys = [] then
          sbind (write_or_storage_error ops [Put (root_key height) prev_root]) (\<lambda>_. sreturn prev_root)
        else
          sbind (compute_incremental_smt_root sha hexd ops prev_root updated_keys height) (\<lambda>new_root.
          sbind (write_or_storage_error ops [Put (root_key height) new_root]) (\<lambda>_.
          sreturn new_root))) s)"

definition values_at ::
    "(bytes \<Rightarrow> bytes option) \<Rightarrow> reader \<Rightarrow> bytes list \<Rightarrow> nat \<Rightarrow> (bytes \<times> bytes) list result" where
  "values_at hexd rd updated_keys height =
     rfold (\<lambda>key kvs. rbind (get_at_height rd hexd key height) (\<lambda>v.
        Inr (case v of Some val \<Rightarrow> kvs @ [(key, val)] | None \<Rightarrow> kvs))) updated_keys []"

definition smt_calculate_and_store_state_root_batched ::
    "hash_fn \<Rightarrow> (bytes \<Rightarrow> bytes option) \<Rightarrow> 's store_ops \<Rightarrow> nat \<Rightarrow> bytes list \<Rightarrow> ('s, bytes) st" where
  "smt_calculate_and_store_state_root_batched sha hexd ops height updated_keys s =
     (let rd = so_read ops s; prev_root = prev_state_root rd height in
      if updated_keys = [] then
        sbind (write_or_storage_error ops [Put (root_key height) prev_root]) (\<lambda>_. sreturn prev_root) s
      else
        case rbind (values_at hexd rd updated_keys height) (\<lambda>key_values.
               compute_batched_smt_root sha rd prev_root key_values height []) of
          Inl e \<Rightarrow> (Inl e, s)
        | Inr (new_root, batch) \<Rightarrow>
            sbind (write_or_storage_error ops (batch @ [Put (root_key height) new_root]))
              (\<lambda>_. sreturn new_root) s)"

end
