(* ===== verification/SmtSpec.thy ===== *)
theory SmtSpec
  imports SmtTree
begin

text \<open>
  The abstract sparse Merkle tree and its relation to the database. \<open>stored\<close> says that
  every node of a tree is in the database under its hash; \<open>ins\<close> is the insertion the code
  performs on it. The lemmas show that the code's path update computes the hash of the
  inserted tree and writes its nodes, that lookups see exactly the inserted leaves, and
  that a tree is determined by its leaves, so that the root does not depend on the order
  of the updates.
\<close>

datatype stree = E | L bytes bytes | N stree stree

fun thash :: "hash_fn \<Rightarrow> stree \<Rightarrow> bytes" where
  "thash sha E = EMPTY_NODE_HASH"
| "thash sha (L k v) = hash_node sha (Leaf k v)"
| "thash sha (N l r) = hash_node sha (Internal (thash sha l) (thash sha r))"

fun tnodes :: "hash_fn \<Rightarrow> stree \<Rightarrow> smt_node list" where
  "tnodes sha E = []"
| "tnodes sha (L k v) = [Leaf k v]"
| "tnodes sha (N l r) = Internal (thash sha l) (thash sha r) # tnodes sha l @ tnodes sha r"

fun leaves :: "stree \<Rightarrow> (bytes \<times> bytes) set" where
  "leaves E = {}"
| "leaves (L k v) = {(k, v)}"
| "leaves (N l r) = leaves l \<union> leaves r"

definition stored :: "hash_fn \<Rightarrow> kvmap \<Rightarrow> stree \<Rightarrow> bool" where
  "stored sha m t \<longleftrightarrow>
     (\<forall>n \<in> set (tnodes sha t). m (node_key (hash_node sha n)) = Some (serialize_node n))"

text \<open>
  What is asked of the hash function on the nodes at hand: 32 bytes, no collision, and
  never the empty hash.
\<close>

definition good_nodes :: "hash_fn \<Rightarrow> smt_node set \<Rightarrow> bool" where
  "good_nodes sha U \<longleftrightarrow>
     inj_on (hash_node sha) U \<and> (\<forall>n \<in> U. sized n \<and> hash_node sha n \<noteq> EMPTY_NODE_HASH)"

lemma good_nodes_subset: "good_nodes sha U \<Longrightarrow> V \<subseteq> U \<Longrightarrow> good_nodes sha V"
  by (auto simp: good_nodes_def intro: inj_on_subset)

lemma node_key_inject [simp]: "node_key h = node_key h' \<longleftrightarrow> h = h'"
  by (simp add: node_key_def make_smt_node_key_def)

subsection \<open>Reading the top of a stored tree\<close>

fun top_node :: "hash_fn \<Rightarrow> stree \<Rightarrow> smt_node option" where
  "top_node sha E = None"
| "top_node sha (L k v) = Some (Leaf k v)"
| "top_node sha (N l r) = Some (Internal (thash sha l) (thash sha r))"

lemma thash_top: "thash sha t = (case top_node sha t of Some n \<Rightarrow> hash_node sha n | None \<Rightarrow> EMPTY_NODE_HASH)"
  by (cases t) simp_all

lemma thash_EMPTY:
  "good_nodes sha (set (tnodes sha t)) \<Longrightarrow> thash sha t = EMPTY_NODE_HASH \<longleftrightarrow> t = E"
  by (cases t) (auto simp: good_nodes_def)

lemma get_node_top:
  assumes "stored sha m t" "good_nodes sha (set (tnodes sha t))"
  shows "get_node (reader_of m) (thash sha t) = Inr (top_node sha t)"
proof (cases "top_node sha t")
  case None
  then have "t = E" by (cases t) simp_all
  then show ?thesis by (simp add: get_node_def)
next
  case (Some n)
  then have "n \<in> set (tnodes sha t)" by (cases t) auto
  then have "m (node_key (hash_node sha n)) = Some (serialize_node n)" "sized n"
      "hash_node sha n \<noteq> EMPTY_NODE_HASH"
    using assms by (auto simp: stored_def good_nodes_def)
  then show ?thesis using Some by (simp add: thash_top get_node_def)
qed

lemma stored_N: "stored sha m (N l r) \<Longrightarrow> stored sha m l \<and> stored sha m r"
  by (simp add: stored_def)

lemma good_N: "good_nodes sha (set (tnodes sha (N l r))) \<Longrightarrow>
    good_nodes sha (set (tnodes sha l)) \<and> good_nodes sha (set (tnodes sha r))"
  by (auto intro: good_nodes_subset)

subsection \<open>Lookup\<close>

fun lookup :: "hash_fn \<Rightarrow> bytes \<Rightarrow> nat \<Rightarrow> stree \<Rightarrow> smt_node option" where
  "lookup sha kh d E = None"
| "lookup sha kh d (L k v) = (if sha k = kh then Some (Leaf k v) else None)"
| "lookup sha kh d (N l r) = lookup sha kh (d + 1) (if key_bit kh d then r else l)"

text \<open>The path of a key stays above the depth limit of the traversals.\<close>

fun path_fits :: "bytes \<Rightarrow> nat \<Rightarrow> stree \<Rightarrow> bool" where
  "path_fits kh d (N l r) \<longleftrightarrow> d + 1 < 256 \<and> path_fits kh (d + 1) (if key_bit kh d then r else l)"
| "path_fits kh d t \<longleftrightarrow> True"

lemma get_smt_leaf_loop_eq:
  assumes "stored sha m t" "good_nodes sha (set (tnodes sha t))" "path_fits kh d t" "t \<noteq> E"
  shows "get_smt_leaf_loop sha (reader_of m) kh (thash sha t) d = Inr (lookup sha kh d t)"
  using assms
proof (induction sha kh d t rule: lookup.induct)
  case (2 sha kh d k v)
  then show ?case
    using get_node_top [OF 2(1,2)] by (simp add: get_smt_leaf_loop.simps hash_key_def)
next
  case (3 sha kh d l r)
  let ?c = "if key_bit kh d then r else l"
  have sub: "stored sha m ?c" "good_nodes sha (set (tnodes sha ?c))"
    using stored_N [OF 3(2)] good_N [OF 3(3)] by auto
  have node: "get_node (reader_of m) (thash sha (N l r)) = Inr (Some (Internal (thash sha l) (thash sha r)))"
    using get_node_top [OF 3(2,3)] by simp
  have next_c: "(if key_bit kh d then thash sha r else thash sha l) = thash sha ?c" by simp
  show ?case
  proof (cases "?c = E")
    case True
    then show ?thesis
      unfolding get_smt_leaf_loop.simps [of _ _ _ "thash sha (N l r)"] node
      by (simp add: Let_def split: if_splits)
  next
    case False
    then have "thash sha ?c \<noteq> EMPTY_NODE_HASH" using thash_EMPTY [OF sub(2)] by simp
    then show ?thesis
      unfolding get_smt_leaf_loop.simps [of _ _ _ "thash sha (N l r)"] node
      using 3(1) [OF sub] 3(4) False by (simp add: Let_def next_c)
  qed
qed simp

lemma get_smt_leaf_eq:
  assumes "stored sha m t" "good_nodes sha (set (tnodes sha t))" "path_fits kh 0 t"
  shows "get_smt_leaf sha (reader_of m) (thash sha t) kh h = Inr (lookup sha kh 0 t)"
proof (cases "t = E")
  case False
  with thash_EMPTY [OF assms(2)] get_smt_leaf_loop_eq [OF assms] show ?thesis
    by (simp add: get_smt_leaf_def)
qed (simp add: get_smt_leaf_def)

subsection \<open>Insertion\<close>

definition split_tree :: "bytes \<Rightarrow> nat \<Rightarrow> stree \<Rightarrow> stree \<Rightarrow> stree" where
  "split_tree ek e old new = (if \<not> key_bit ek e then N old new else N new old)"

definition parent_tree :: "bytes \<Rightarrow> nat \<Rightarrow> stree \<Rightarrow> stree" where
  "parent_tree nk d t = (if \<not> key_bit nk d then N t E else N E t)"

definition separate :: "bytes \<Rightarrow> stree \<Rightarrow> bytes \<Rightarrow> stree \<Rightarrow> nat \<Rightarrow> stree" where
  "separate ek old nk new d =
     (case find_divergence ek nk d of
        Some e \<Rightarrow> fold (parent_tree nk) (rev [d..<e]) (split_tree ek e old new)
      | None \<Rightarrow> new)"

fun ins :: "hash_fn \<Rightarrow> bytes \<Rightarrow> bytes \<Rightarrow> nat \<Rightarrow> stree \<Rightarrow> stree" where
  "ins sha k v d E = L k v"
| "ins sha k v d (L k' v') =
     (if sha k' = sha k then L k v else separate (sha k') (L k' v') (sha k) (L k v) d)"
| "ins sha k v d (N l r) =
     (if key_bit (sha k) d then N l (ins sha k v (d + 1) r) else N (ins sha k v (d + 1) l) r)"

text \<open>The other key differs from the new one at some depth from \<open>d\<close> on.\<close>

definition separable :: "hash_fn \<Rightarrow> bytes \<Rightarrow> nat \<Rightarrow> stree \<Rightarrow> bool" where
  "separable sha k d t \<longleftrightarrow>
     (\<forall>(k', v') \<in> leaves t. sha k' \<noteq> sha k \<longrightarrow> find_divergence (sha k') (sha k) d \<noteq> None)"

lemma find_divergence_Some:
  "find_divergence a b d = Some e \<Longrightarrow>
     d \<le> e \<and> e < 256 \<and> key_bit a e \<noteq> key_bit b e \<and> (\<forall>i. d \<le> i \<and> i < e \<longrightarrow> key_bit a i = key_bit b i)"
proof (induction a b d rule: find_divergence.induct)
  case (1 a b d)
  show ?case
  proof (cases "d < 256 \<and> key_bit a d = key_bit b d")
    case True
    with 1(2) have "find_divergence a b (d + 1) = Some e" by (simp add: find_divergence.simps [of _ _ d])
    with 1(1) True have IH: "d + 1 \<le> e" "e < 256" "key_bit a e \<noteq> key_bit b e"
        "\<forall>i. d + 1 \<le> i \<and> i < e \<longrightarrow> key_bit a i = key_bit b i" by auto
    have "key_bit a i = key_bit b i" if "d \<le> i" "i < e" for i
      using IH(4) True that by (cases "i = d") auto
    with IH show ?thesis by auto
  next
    case False
    with 1(2) show ?thesis by (auto simp: find_divergence.simps [of _ _ d] split: if_splits)
  qed
qed

lemma find_divergence_None:
  "find_divergence a b d = None \<longleftrightarrow> (\<forall>i. d \<le> i \<and> i < 256 \<longrightarrow> key_bit a i = key_bit b i)"
proof (induction a b d rule: find_divergence.induct)
  case (1 a b d)
  show ?case
  proof (cases "d < 256 \<and> key_bit a d = key_bit b d")
    case True
    then have "(\<forall>i. d \<le> i \<and> i < 256 \<longrightarrow> key_bit a i = key_bit b i)
        \<longleftrightarrow> (\<forall>i. d + 1 \<le> i \<and> i < 256 \<longrightarrow> key_bit a i = key_bit b i)"
      by (metis Suc_eq_plus1 Suc_leD le_antisym not_less_eq_eq)
    with 1 True show ?thesis by (simp add: find_divergence.simps [of _ _ d])
  next
    case False
    then show ?thesis by (auto simp: find_divergence.simps [of _ _ d])
  qed
qed

text \<open>Two different 32-byte hashes differ in one of the 256 bits.\<close>

lemma key_bit_alt: "key_bit kh i \<longleftrightarrow> bit (of_char (kh ! (i div 8)) :: nat) (7 - i mod 8)"
  by (simp add: key_bit_def bit_iff_odd)

lemma hashes_differ:
  assumes "length a = 32" "length b = 32" "a \<noteq> b"
  shows "find_divergence a b 0 \<noteq> None"
proof -
  obtain j where j: "j < 32" "a ! j \<noteq> b ! j" using assms nth_equalityI by metis
  then have "(of_char (a ! j) :: nat) \<noteq> of_char (b ! j)" by (metis char_of_char)
  then obtain p where p: "bit (of_char (a ! j) :: nat) p \<noteq> bit (of_char (b ! j) :: nat) p"
    using bit_eq_iff by blast
  have small: "\<not> bit (of_char c :: nat) q" if "8 \<le> q" for c q
  proof -
    have "(of_char c :: nat) < 2 ^ 8" using of_char_less [of c] by simp
    also have "(2::nat) ^ 8 \<le> 2 ^ q" using that by (intro power_increasing) simp_all
    finally show ?thesis by (simp add: bit_iff_odd)
  qed
  have "p < 8"
  proof (rule ccontr)
    assume "\<not> p < 8"
    with small [of p "a ! j"] small [of p "b ! j"] p show False by simp
  qed
  define i where "i = 8 * j + (7 - p)"
  have q: "7 - p < 8" by simp
  have "i div 8 = j" "i mod 8 = 7 - p" "i < 256"
    using q j(1) by (simp_all add: i_def del: One_nat_def)
  moreover have "7 - (7 - p) = p" using \<open>p < 8\<close> by simp
  ultimately have "i div 8 = j" "7 - i mod 8 = p" "i < 256" by simp_all
  with p have "key_bit a i \<noteq> key_bit b i" by (simp add: key_bit_alt)
  with \<open>i < 256\<close> show ?thesis using find_divergence_None [of a b 0] by blast
qed

subsection \<open>The path of a key\<close>

fun path_of :: "hash_fn \<Rightarrow> bytes \<Rightarrow> nat \<Rightarrow> stree \<Rightarrow> path_node list" where
  "path_of sha kh d E = []"
| "path_of sha kh d (L k v) = [(d, Leaf k v, sha k = kh)]"
| "path_of sha kh d (N l r) =
     (d, Internal (thash sha l) (thash sha r), False)
     # path_of sha kh (d + 1) (if key_bit kh d then r else l)"

lemma path_of_Nil [simp]: "path_of sha kh d t = [] \<longleftrightarrow> t = E"
  by (cases t) simp_all

lemma find_path_eq:
  assumes "stored sha m t" "good_nodes sha (set (tnodes sha t))" "path_fits kh d t"
  shows "find_path sha (reader_of m) kh (thash sha t) d acc = Inr (acc @ path_of sha kh d t)"
  using assms
proof (induction sha kh d t arbitrary: acc rule: path_of.induct)
  case (1 sha kh d)
  then show ?case by (simp add: find_path.simps get_node_def)
next
  case (2 sha kh d k v)
  then show ?case
    using get_node_top [OF 2(1,2)] by (simp add: find_path.simps hash_key_def)
next
  case (3 sha kh d l r)
  let ?c = "if key_bit kh d then r else l"
  have sub: "stored sha m ?c" "good_nodes sha (set (tnodes sha ?c))"
    using stored_N [OF 3(2)] good_N [OF 3(3)] by auto
  have node: "get_node (reader_of m) (thash sha (N l r)) = Inr (Some (Internal (thash sha l) (thash sha r)))"
    using get_node_top [OF 3(2,3)] by simp
  have next_c: "(if key_bit kh d then thash sha r else thash sha l) = thash sha ?c" by simp
  show ?case
    unfolding find_path.simps [of _ _ _ "thash sha (N l r)"] node
    using 3(1) [OF sub] 3(4) by (simp add: next_c)
qed

subsection \<open>Separating two leaves\<close>

lemma fold_rev_upt: "d < e \<Longrightarrow> fold f (rev [d..<e]) x = f d (fold f (rev [d + 1..<e]) x)"
  by (simp add: upt_conv_Cons)

lemma separate_differ:
  "d < 256 \<Longrightarrow> key_bit ek d \<noteq> key_bit nk d \<Longrightarrow> separate ek old nk new d = split_tree ek d old new"
  by (simp add: separate_def find_divergence.simps [of _ _ d])

lemma separate_same:
  assumes "d < 256" "key_bit ek d = key_bit nk d" "find_divergence ek nk d \<noteq> None"
  shows "separate ek old nk new d = parent_tree nk d (separate ek old nk new (d + 1))"
    and "find_divergence ek nk (d + 1) \<noteq> None"
proof -
  have fd: "find_divergence ek nk d = find_divergence ek nk (d + 1)"
    using assms(1,2) by (simp add: find_divergence.simps [of _ _ d])
  with assms(3) show "find_divergence ek nk (d + 1) \<noteq> None" by simp
  then obtain e where e: "find_divergence ek nk (d + 1) = Some e" by auto
  then have "d < e" using find_divergence_Some by fastforce
  then show "separate ek old nk new d = parent_tree nk d (separate ek old nk new (d + 1))"
    unfolding separate_def fd e by (simp only: option.case fold_rev_upt)
qed

text \<open>Induction over the shared part of two hashes.\<close>

lemma divergence_induct [consumes 1, case_names differ same]:
  assumes "find_divergence a b d \<noteq> None"
    and "\<And>d. d < 256 \<Longrightarrow> key_bit a d \<noteq> key_bit b d \<Longrightarrow> P d"
    and "\<And>d. d < 256 \<Longrightarrow> key_bit a d = key_bit b d \<Longrightarrow> find_divergence a b d \<noteq> None
           \<Longrightarrow> P (d + 1) \<Longrightarrow> P d"
  shows "P d"
  using assms(1)
proof (induction "256 - d" arbitrary: d rule: less_induct)
  case less
  have d: "d < 256" using less(2) find_divergence_None [of a b d] by (meson linorder_not_le order_trans leD)
  show ?case
  proof (cases "key_bit a d = key_bit b d")
    case True
    have "find_divergence a b (d + 1) \<noteq> None" using separate_same(2) [OF d True less(2)] .
    moreover have "256 - (d + 1) < 256 - d" using d by simp
    ultimately have "P (d + 1)" using less(1) by blast
    with d True less(2) show ?thesis by (rule assms(3))
  qed (rule assms(2) [OF d])
qed

definition node_puts :: "hash_fn \<Rightarrow> smt_node list \<Rightarrow> batch" where
  "node_puts sha ns = map (\<lambda>n. Put (node_key (hash_node sha n)) (serialize_node n)) ns"

lemma batch_node_puts: "batch_node sha n (b @ node_puts sha ns) = b @ node_puts sha (ns @ [n])"
  by (simp add: batch_node_def node_puts_def)

lemma thash_parent: "hash_node sha (parent_node nk d (thash sha t)) = thash sha (parent_tree nk d t)"
  by (simp add: parent_node_def parent_tree_def)

lemma tnodes_parent:
  "set (tnodes sha (parent_tree nk d t)) = insert (parent_node nk d (thash sha t)) (set (tnodes sha t))"
  by (simp add: parent_node_def parent_tree_def)

lemma thash_split:
  "hash_node sha (split_node ek d (thash sha old) (thash sha new)) = thash sha (split_tree ek d old new)"
  by (simp add: split_node_def split_tree_def)

lemma tnodes_split:
  "set (tnodes sha (split_tree ek d old new)) =
     insert (split_node ek d (thash sha old) (thash sha new)) (set (tnodes sha old) \<union> set (tnodes sha new))"
  by (auto simp: split_node_def split_tree_def)

lemma create_separating_unfold:
  assumes "d < 256"
  shows "create_separating_internals_batched sha d ek el nk nl b =
    (if key_bit ek d \<noteq> key_bit nk d
     then Inr (hash_node sha (split_node ek d el nl), batch_node sha (split_node ek d el nl) b)
     else rbind (create_separating_internals_batched sha (d + 1) ek el nk nl b) (\<lambda>(h, b).
       Inr (hash_node sha (parent_node nk d h), batch_node sha (parent_node nk d h) b)))"
proof (cases "key_bit ek d = key_bit nk d")
  case False
  with assms show ?thesis
    by (simp add: create_separating_internals_batched_def find_divergence.simps [of _ _ d] Let_def)
next
  case True
  have fd: "find_divergence ek nk d = find_divergence ek nk (d + 1)"
    using assms True by (simp add: find_divergence.simps [of _ _ d])
  show ?thesis
  proof (cases "find_divergence ek nk (d + 1)")
    case None
    with fd True show ?thesis by (simp add: create_separating_internals_batched_def)
  next
    case (Some e)
    then have "d < e" using find_divergence_Some by fastforce
    then show ?thesis
      unfolding create_separating_internals_batched_def fd Some
      using True by (simp add: Let_def fold_rev_upt split_beta)
  qed
qed

lemma create_separating_eq:
  assumes "find_divergence ek nk d \<noteq> None"
  shows "\<exists>ns. create_separating_internals_batched sha d ek (thash sha old) nk (thash sha new) b
       = Inr (thash sha (separate ek old nk new d), b @ node_puts sha ns)
     \<and> set (tnodes sha (separate ek old nk new d)) =
         set (tnodes sha old) \<union> set (tnodes sha new) \<union> set ns"
  using assms
proof (induction d rule: divergence_induct)
  case (differ d)
  then show ?case
    by (intro exI [of _ "[split_node ek d (thash sha old) (thash sha new)]"])
       (simp add: create_separating_unfold separate_differ thash_split tnodes_split batch_node_def
          node_puts_def)
next
  case (same d)
  then obtain ns where
    "create_separating_internals_batched sha (d + 1) ek (thash sha old) nk (thash sha new) b
       = Inr (thash sha (separate ek old nk new (d + 1)), b @ node_puts sha ns)"
    "set (tnodes sha (separate ek old nk new (d + 1))) = set (tnodes sha old) \<union> set (tnodes sha new) \<union> set ns"
    by blast
  with same(1,2) separate_same(1) [OF same(1-3)] show ?case
    by (intro exI [of _ "ns @ [parent_node nk d (thash sha (separate ek old nk new (d + 1)))]"])
       (auto simp: create_separating_unfold thash_parent tnodes_parent batch_node_puts)
qed

lemma create_separating_same:
  "create_separating_internals sha d ek el nk nl h b =
     create_separating_internals_batched sha d ek el nk nl b"
  by (simp add: create_separating_internals_def create_separating_internals_batched_def)

subsection \<open>Where the leaves are\<close>

text \<open>A hash follows a path when its bits are the path's, and a placed tree has every leaf there.\<close>

definition follows :: "bytes \<Rightarrow> bool list \<Rightarrow> bool" where
  "follows kh p \<longleftrightarrow> (\<forall>i < length p. key_bit kh i = p ! i)"

lemma follows_Nil [simp]: "follows kh []"
  by (simp add: follows_def)

lemma follows_snoc [simp]: "follows kh (p @ [b]) \<longleftrightarrow> follows kh p \<and> key_bit kh (length p) = b"
  by (auto simp: follows_def nth_append less_Suc_eq)

fun placed :: "hash_fn \<Rightarrow> bool list \<Rightarrow> stree \<Rightarrow> bool" where
  "placed sha p E \<longleftrightarrow> True"
| "placed sha p (L k v) \<longleftrightarrow> follows (sha k) p"
| "placed sha p (N l r) \<longleftrightarrow> placed sha (p @ [False]) l \<and> placed sha (p @ [True]) r"

lemma placed_leaves: "placed sha p t \<Longrightarrow> (k, v) \<in> leaves t \<Longrightarrow> follows (sha k) p"
  by (induction sha p t rule: placed.induct) auto

definition sha_256 :: "hash_fn \<Rightarrow> bool" where
  "sha_256 sha \<longleftrightarrow> (\<forall>x. length (sha x) = 32)"

lemma follows_divergence:
  assumes "sha_256 sha" "follows (sha a) p" "follows (sha b) p" "sha a \<noteq> sha b"
  shows "find_divergence (sha a) (sha b) (length p) \<noteq> None"
proof -
  obtain i where i: "i < 256" "key_bit (sha a) i \<noteq> key_bit (sha b) i"
    using hashes_differ [of "sha a" "sha b"] assms(1,4) find_divergence_None
    by (metis sha_256_def)
  then have "length p \<le> i" using assms(2,3) by (metis follows_def linorder_not_le)
  with i show ?thesis using find_divergence_None by blast
qed

subsection \<open>Rebuilding the path\<close>

definition rebuild_ok :: "hash_fn \<Rightarrow> smt_node \<Rightarrow> stree \<Rightarrow> stree \<Rightarrow> smt_node list \<Rightarrow> bool" where
  "rebuild_ok sha leaf t t' ns \<longleftrightarrow> set ns \<subseteq> set (tnodes sha t')
     \<and> set (tnodes sha t') \<subseteq> set (tnodes sha t) \<union> {leaf} \<union> set ns"

lemma rebuild_step_Internal:
  "rebuild_step sha sep kh (d, Internal l r, is_replacement) (h, us, b) =
     (let n = (if \<not> key_bit kh d then Internal h r else Internal l h)
      in Inr (hash_node sha n, us @ [(d, hash_node sha n)], batch_node sha n b))"
  by (simp add: rebuild_step_def Let_def)

lemma rebuild_eq:
  assumes "sha_256 sha" "placed sha p t" "follows (sha k) p"
  shows "\<exists>us ns. rfold (rebuild_step sha (create_separating_internals_batched sha) (sha k))
           (rev (path_of sha (sha k) (length p) t)) (hash_node sha (Leaf k v), [], b)
         = Inr (thash sha (ins sha k v (length p) t), us, b @ node_puts sha ns)
       \<and> root_of_updates us (hash_node sha (Leaf k v)) = thash sha (ins sha k v (length p) t)
       \<and> rebuild_ok sha (Leaf k v) t (ins sha k v (length p) t) ns"
  using assms(2,3)
proof (induction t arbitrary: p)
  case E
  then show ?case
    by (intro exI [of _ "[]"]) (simp add: root_of_updates_def rebuild_ok_def node_puts_def)
next
  case (L k' v')
  show ?case
  proof (cases "sha k' = sha k")
    case True
    then show ?thesis
      by (intro exI [of _ "[(length p, hash_node sha (Leaf k v))]"] exI [of _ "[]"])
         (simp add: root_of_updates_def rebuild_ok_def node_puts_def rebuild_step_def)
  next
    case False
    then have "find_divergence (sha k') (sha k) (length p) \<noteq> None"
      using follows_divergence [OF assms(1), of k' p k] L by simp
    from create_separating_eq [OF this, of sha "L k' v'" "L k v" b]
    obtain ns where ns: "create_separating_internals_batched sha (length p) (sha k') (thash sha (L k' v'))
          (sha k) (thash sha (L k v)) b
        = Inr (thash sha (ins sha k v (length p) (L k' v')), b @ node_puts sha ns)"
        "set (tnodes sha (ins sha k v (length p) (L k' v'))) = {Leaf k' v', Leaf k v} \<union> set ns"
      using False by auto
    then show ?thesis
      using False
      by (intro exI [of _ "[(length p, thash sha (ins sha k v (length p) (L k' v')))]"] exI [of _ ns])
         (auto simp: root_of_updates_def rebuild_ok_def rebuild_step_def hash_key_def)
  qed
next
  case (N l r)
  let ?b = "key_bit (sha k) (length p)"
  let ?c = "if ?b then r else l"
  let ?n = "if ?b then Internal (thash sha l) (thash sha (ins sha k v (length p + 1) r))
    else Internal (thash sha (ins sha k v (length p + 1) l)) (thash sha r)"
  have sub: "placed sha (p @ [?b]) ?c" "follows (sha k) (p @ [?b])" using N(3,4) by auto
  obtain us ns where IH: "rfold (rebuild_step sha (create_separating_internals_batched sha) (sha k))
           (rev (path_of sha (sha k) (length p + 1) ?c)) (hash_node sha (Leaf k v), [], b)
         = Inr (thash sha (ins sha k v (length p + 1) ?c), us, b @ node_puts sha ns)"
      "rebuild_ok sha (Leaf k v) ?c (ins sha k v (length p + 1) ?c) ns"
    using N(1) [of "p @ [?b]"] N(2) [of "p @ [?b]"] sub by (cases ?b) auto
  have ins: "ins sha k v (length p) (N l r) =
      (if ?b then N l (ins sha k v (length p + 1) r) else N (ins sha k v (length p + 1) l) r)"
    by simp
  have h: "hash_node sha ?n = thash sha (ins sha k v (length p) (N l r))" by simp
  show ?case
    by (intro exI [of _ "us @ [(length p, hash_node sha ?n)]"] exI [of _ "ns @ [?n]"])
       (use IH in \<open>auto simp: rfold_append rebuild_step_Internal Let_def batch_node_puts
          root_of_updates_def rebuild_ok_def split: if_splits\<close>)
qed

subsection \<open>The database after an update\<close>

lemma node_puts_hit:
  assumes "inj_on (hash_node sha) (insert n (set ns))"
    "n \<in> set ns \<or> m (node_key (hash_node sha n)) = Some (serialize_node n)"
  shows "apply_ops (node_puts sha ns) m (node_key (hash_node sha n)) = Some (serialize_node n)"
  using assms
proof (induction ns rule: rev_induct)
  case (snoc x ns)
  show ?case
  proof (cases "hash_node sha x = hash_node sha n")
    case True
    with snoc(2) have "x = n" by (rule inj_onD) simp_all
    then show ?thesis by (simp add: node_puts_def apply_ops_def)
  next
    case False
    have "inj_on (hash_node sha) (insert n (set ns))"
      using snoc(2) by (rule inj_on_subset) auto
    moreover have "n \<in> set ns \<or> m (node_key (hash_node sha n)) = Some (serialize_node n)"
      using snoc(3) False by auto
    ultimately have "apply_ops (node_puts sha ns) m (node_key (hash_node sha n)) = Some (serialize_node n)"
      by (rule snoc(1))
    then show ?thesis using False by (simp add: node_puts_def apply_ops_def)
  qed
qed (simp add: node_puts_def apply_ops_def)

lemma node_puts_miss:
  "(\<And>h. q \<noteq> node_key h) \<Longrightarrow> apply_ops (node_puts sha ns) m q = m q"
  by (induction ns rule: rev_induct) (simp_all add: node_puts_def apply_ops_def)

lemma stored_after:
  assumes good: "good_nodes sha (set (tnodes sha t) \<union> set (tnodes sha t'))"
    and old: "stored sha m t" and ok: "rebuild_ok sha leaf t t' ns"
    and leaf: "leaf \<in> set (tnodes sha t')"
  shows "stored sha (apply_ops (node_puts sha (leaf # ns)) m) t'"
  unfolding stored_def
proof
  fix n assume n: "n \<in> set (tnodes sha t')"
  have "insert n (set (leaf # ns)) \<subseteq> set (tnodes sha t) \<union> set (tnodes sha t')"
    using n ok leaf by (auto simp: rebuild_ok_def)
  moreover have "inj_on (hash_node sha) (set (tnodes sha t) \<union> set (tnodes sha t'))"
    using good by (simp add: good_nodes_def)
  ultimately have "inj_on (hash_node sha) (insert n (set (leaf # ns)))"
    by (rule inj_on_subset [rotated])
  moreover have "n \<in> set (leaf # ns) \<or> m (node_key (hash_node sha n)) = Some (serialize_node n)"
    using n ok old by (auto simp: rebuild_ok_def stored_def)
  ultimately show "apply_ops (node_puts sha (leaf # ns)) m (node_key (hash_node sha n))
      = Some (serialize_node n)" by (rule node_puts_hit)
qed

subsection \<open>What an insertion changes\<close>

lemma leaves_split: "leaves (split_tree ek d old new) = leaves old \<union> leaves new"
  by (auto simp: split_tree_def)

lemma leaves_parent: "leaves (parent_tree nk d t) = leaves t"
  by (simp add: parent_tree_def)

lemma leaves_separate:
  assumes "find_divergence ek nk d \<noteq> None"
  shows "leaves (separate ek old nk new d) = leaves old \<union> leaves new"
  using assms
proof (induction d rule: divergence_induct)
  case (same d)
  show ?case unfolding separate_same(1) [OF same(1-3)] leaves_parent by (rule same(4))
qed (simp add: separate_differ leaves_split)

lemma lookup_separate:
  assumes "find_divergence (sha k') (sha k) d \<noteq> None"
  shows "lookup sha kh d (separate (sha k') (L k' v') (sha k) (L k v) d) =
     (if kh = sha k then Some (Leaf k v) else if kh = sha k' then Some (Leaf k' v') else None)"
  using assms
proof (induction d rule: divergence_induct)
  case (differ d)
  then show ?case by (auto simp: separate_differ split_tree_def)
next
  case (same d)
  have "lookup sha kh d (parent_tree (sha k) d t) =
      (if key_bit kh d = key_bit (sha k) d then lookup sha kh (d + 1) t else None)" for t
    by (simp add: parent_tree_def)
  then show ?case
    unfolding separate_same(1) [OF same(1-3)] using same(2,4) by auto
qed

lemma placed_separate:
  assumes "find_divergence (sha k') (sha k) d \<noteq> None" "length p = d"
    "follows (sha k') p" "follows (sha k) p"
  shows "placed sha p (separate (sha k') (L k' v') (sha k) (L k v) d)"
  using assms
proof (induction d arbitrary: p rule: divergence_induct)
  case (differ d)
  then show ?case by (auto simp: separate_differ split_tree_def)
next
  case (same d)
  have "placed sha (p @ [key_bit (sha k) d]) (separate (sha k') (L k' v') (sha k) (L k v) (d + 1))"
    using same by (intro same(4)) auto
  then show ?case
    unfolding separate_same(1) [OF same(1-3)] using same(5)
    by (cases "key_bit (sha k) d") (simp_all add: parent_tree_def)
qed

lemma leaf_divergence:
  assumes "sha_256 sha" "placed sha p (L k' v')" "follows (sha k) p" "sha k' \<noteq> sha k"
  shows "find_divergence (sha k') (sha k) (length p) \<noteq> None"
  using follows_divergence [OF assms(1) _ assms(3,4)] assms(2) by simp

lemma placed_child:
  assumes "placed sha p (N l r)" "follows (sha k) p"
  shows "if key_bit (sha k) (length p)
     then placed sha (p @ [True]) r \<and> follows (sha k) (p @ [True])
     else placed sha (p @ [False]) l \<and> follows (sha k) (p @ [False])"
  using assms by auto

lemma ins_placed:
  assumes "sha_256 sha" "placed sha p t" "follows (sha k) p"
  shows "placed sha p (ins sha k v (length p) t)"
  using assms(2,3)
proof (induction t arbitrary: p)
  case (L k' v')
  show ?case
  proof (cases "sha k' = sha k")
    case False
    from leaf_divergence [OF assms(1) L False] show ?thesis using False L placed_separate by simp
  qed (use L in simp)
next
  case (N l r)
  show ?case
    using N(1) [of "p @ [False]"] N(2) [of "p @ [True]"] N(3,4)
    by (cases "key_bit (sha k) (length p)") auto
qed simp

lemma lookup_ins:
  assumes "sha_256 sha" "placed sha p t" "follows (sha k) p"
  shows "lookup sha kh (length p) (ins sha k v (length p) t) =
           (if kh = sha k then Some (Leaf k v) else lookup sha kh (length p) t)"
  using assms(2,3)
proof (induction t arbitrary: p)
  case (L k' v')
  show ?case
  proof (cases "sha k' = sha k")
    case False
    from leaf_divergence [OF assms(1) L False] show ?thesis using False by (simp add: lookup_separate)
  qed (use L in simp)
next
  case (N l r)
  show ?case
    using N(1) [of "p @ [False]"] N(2) [of "p @ [True]"] N(3,4)
    by (cases "key_bit (sha k) (length p)") auto
qed simp

lemma leaves_other_side:
  "placed sha (p @ [b]) t \<Longrightarrow> key_bit (sha k) (length p) \<noteq> b \<Longrightarrow> x \<in> leaves t \<Longrightarrow> sha (fst x) \<noteq> sha k"
  using placed_leaves [of sha "p @ [b]" t "fst x" "snd x"] by auto

lemma leaves_ins:
  assumes "sha_256 sha" "placed sha p t" "follows (sha k) p"
  shows "leaves (ins sha k v (length p) t) = insert (k, v) {x \<in> leaves t. sha (fst x) \<noteq> sha k}"
  using assms(2,3)
proof (induction t arbitrary: p)
  case (L k' v')
  show ?case
  proof (cases "sha k' = sha k")
    case False
    from leaf_divergence [OF assms(1) L False] show ?thesis using False by (auto simp: leaves_separate)
  qed (use L in auto)
next
  case (N l r)
  show ?case
  proof (cases "key_bit (sha k) (length p)")
    case True
    then have "leaves (ins sha k v (length p + 1) r) = insert (k, v) {x \<in> leaves r. sha (fst x) \<noteq> sha k}"
      using N(2) [of "p @ [True]"] N(3,4) by simp
    moreover have "{x \<in> leaves l. sha (fst x) \<noteq> sha k} = leaves l"
      using leaves_other_side [of sha p False l k] N(3) True by auto
    ultimately show ?thesis using True by auto
  next
    case False
    then have "leaves (ins sha k v (length p + 1) l) = insert (k, v) {x \<in> leaves l. sha (fst x) \<noteq> sha k}"
      using N(1) [of "p @ [False]"] N(3,4) by simp
    moreover have "{x \<in> leaves r. sha (fst x) \<noteq> sha k} = leaves r"
      using leaves_other_side [of sha p True r k] N(3) False by auto
    ultimately show ?thesis using False by auto
  qed
qed simp

lemma lookup_leaf:
  "placed sha p t \<Longrightarrow> (k, v) \<in> leaves t \<Longrightarrow> lookup sha (sha k) (length p) t = Some (Leaf k v)"
proof (induction sha p t rule: placed.induct)
  case (3 sha p l r)
  from 3(3,4) consider "(k, v) \<in> leaves l" "\<not> key_bit (sha k) (length p)"
    | "(k, v) \<in> leaves r" "key_bit (sha k) (length p)"
    using placed_leaves [of sha "p @ [False]" l k v] placed_leaves [of sha "p @ [True]" r k v] by auto
  then show ?case using 3 by cases auto
qed auto

lemma leaf_node_iff: "Leaf k v \<in> set (tnodes sha t) \<longleftrightarrow> (k, v) \<in> leaves t"
  by (induction t) auto

subsection \<open>A tree is determined by its leaves\<close>

text \<open>No internal node stands above a single leaf.\<close>

fun canon :: "stree \<Rightarrow> bool" where
  "canon (N l r) \<longleftrightarrow> canon l \<and> canon r \<and> (\<forall>x. \<not> leaves l \<union> leaves r \<subseteq> {x})"
| "canon t \<longleftrightarrow> True"

lemma leaves_empty: "canon t \<Longrightarrow> leaves t = {} \<longleftrightarrow> t = E"
  by (cases t) auto

lemma leaves_singleton: "canon t \<Longrightarrow> leaves t = {(k, v)} \<longleftrightarrow> t = L k v"
  by (cases t) auto

lemma leaves_sides:
  assumes "placed sha p (N l r)"
  shows "leaves l = {x \<in> leaves (N l r). \<not> key_bit (sha (fst x)) (length p)}"
    and "leaves r = {x \<in> leaves (N l r). key_bit (sha (fst x)) (length p)}"
proof -
  have "\<not> key_bit (sha (fst x)) (length p)" if "x \<in> leaves l" for x
    using placed_leaves [of sha "p @ [False]" l "fst x" "snd x"] assms that by auto
  moreover have "key_bit (sha (fst x)) (length p)" if "x \<in> leaves r" for x
    using placed_leaves [of sha "p @ [True]" r "fst x" "snd x"] assms that by auto
  ultimately show "leaves l = {x \<in> leaves (N l r). \<not> key_bit (sha (fst x)) (length p)}"
    and "leaves r = {x \<in> leaves (N l r). key_bit (sha (fst x)) (length p)}" by auto
qed

theorem tree_of_leaves:
  assumes "canon t" "canon t'" "placed sha p t" "placed sha p t'" "leaves t = leaves t'"
  shows "t = t'"
  using assms
proof (induction t arbitrary: t' p)
  case E
  then show ?case using leaves_empty [of t'] by simp
next
  case (L k v)
  then show ?case using leaves_singleton [of t' k v] by simp
next
  case (N l r)
  have "\<not> leaves t' \<subseteq> {x}" for x using N(3) unfolding N(7) [symmetric] by (cases x) simp
  then obtain l' r' where t': "t' = N l' r'" by (cases t') auto
  note eq = N(7) [unfolded t'] and pl = N(6) [unfolded t']
  have "leaves l = leaves l'"
    using leaves_sides(1) [OF N(5), unfolded eq] leaves_sides(1) [OF pl] by (rule trans [OF _ sym])
  moreover have "leaves r = leaves r'"
    using leaves_sides(2) [OF N(5), unfolded eq] leaves_sides(2) [OF pl] by (rule trans [OF _ sym])
  ultimately show ?case
    using N(1) [of l' "p @ [False]"] N(2) [of r' "p @ [True]"] N(3-6) t' by simp
qed

text \<open>A placed tree has at most one leaf for a hash.\<close>

lemma leaves_unique:
  "placed sha p t \<Longrightarrow> x \<in> leaves t \<Longrightarrow> y \<in> leaves t \<Longrightarrow> sha (fst x) = sha (fst y) \<Longrightarrow> x = y"
proof (induction t arbitrary: p)
  case (N l r)
  have sides: "z \<in> leaves l \<longleftrightarrow> z \<in> leaves (N l r) \<and> \<not> key_bit (sha (fst z)) (length p)"
      "z \<in> leaves r \<longleftrightarrow> z \<in> leaves (N l r) \<and> key_bit (sha (fst z)) (length p)" for z
    using leaves_sides [OF N(3)] by blast+
  show ?case
  proof (cases "key_bit (sha (fst x)) (length p)")
    case True
    have "x \<in> leaves r" "y \<in> leaves r" using True N(4-6) sides(2) by (metis, metis)
    with N(3,6) show ?thesis by (intro N(2) [of "p @ [True]"]) simp_all
  next
    case False
    have "x \<in> leaves l" "y \<in> leaves l" using False N(4-6) sides(1) by (metis, metis)
    with N(3,6) show ?thesis by (intro N(1) [of "p @ [False]"]) simp_all
  qed
qed auto

lemma ins_two_leaves:
  assumes "sha_256 sha" "placed sha p t" "follows (sha k) p" "\<forall>x. \<not> leaves t \<subseteq> {x}"
  shows "\<not> leaves (ins sha k v (length p) t) \<subseteq> {x}"
proof
  assume sub: "leaves (ins sha k v (length p) t) \<subseteq> {x}"
  have x: "x = (k, v)" using sub leaves_ins [OF assms(1-3), of v] by auto
  obtain a where a: "a \<in> leaves t" using assms(4) by blast
  obtain b where b: "b \<in> leaves t" "b \<noteq> a" using assms(4) by blast
  have "sha (fst c) = sha k" if "c \<in> leaves t" for c
    using sub leaves_ins [OF assms(1-3), of v] that x by (cases c) auto
  then show False using leaves_unique [OF assms(2) a b(1)] a b by simp
qed

lemma canon_separate:
  assumes "find_divergence (sha k') (sha k) d \<noteq> None"
  shows "canon (separate (sha k') (L k' v') (sha k) (L k v) d)"
  using assms
proof (induction d rule: divergence_induct)
  case (differ d)
  then have "k \<noteq> k'" by auto
  with differ show ?case by (auto simp: separate_differ split_tree_def)
next
  case (same d)
  obtain e where "find_divergence (sha k') (sha k) d = Some e" using same(3) by auto
  then have "k \<noteq> k'" using find_divergence_Some by blast
  then have "\<not> leaves (separate (sha k') (L k' v') (sha k) (L k v) (d + 1)) \<subseteq> {x}" for x
    using leaves_separate [OF separate_same(2) [OF same(1-3)]] by auto
  then show ?case
    unfolding separate_same(1) [OF same(1-3)] parent_tree_def using same(4) by auto
qed

lemma canon_ins:
  assumes "sha_256 sha" "placed sha p t" "follows (sha k) p" "canon t"
  shows "canon (ins sha k v (length p) t)"
  using assms(2-4)
proof (induction t arbitrary: p)
  case (L k' v')
  show ?case
  proof (cases "sha k' = sha k")
    case False
    from leaf_divergence [OF assms(1) L(1,2) False] show ?thesis using False by (simp add: canon_separate)
  qed simp
next
  case (N l r)
  have two: "\<not> leaves (ins sha k v (length p) (N l r)) \<subseteq> {x}" for x
    using ins_two_leaves [OF assms(1) N(3,4)] N(5) by simp
  show ?case
    using N(1) [of "p @ [False]"] N(2) [of "p @ [True]"] N(3-5) two
    by (cases "key_bit (sha k) (length p)") auto
qed simp

end
