(* ===== verification/KvStore.thy ===== *)
theory KvStore
  imports Chain
begin

text \<open>
  The contract of \<open>trait KeyValueStoreLike\<close> (\<open>crates/metashrew-runtime/src/traits.rs\<close>) as
  block processing uses it, and what follows for any backend that keeps it: a block
  committed through the backend extends the indexed chain. \<open>view\<close> is the database as the
  backend's reads show it; a backend may set the tip record on its own before it applies
  a batch (both adapters of the repository do).
\<close>

text \<open>The \<open>self.storage.write(batch)\<close> of the helpers, with the storage after it.\<close>

definition commit_via :: "(batch \<Rightarrow> ('s, unit) st) \<Rightarrow> 's \<Rightarrow> batch \<Rightarrow> 's result" where
  "commit_via write_batch s batch =
     (case write_batch batch s of (Inl e, _) \<Rightarrow> Inl e | (Inr _, s') \<Rightarrow> Inr s')"

locale kv_store =
  fixes get_immutable :: "'s \<Rightarrow> reader" and write_batch :: "batch \<Rightarrow> ('s, unit) st" and view :: "'s \<Rightarrow> kvmap"
    and writable :: "'s \<Rightarrow> bool"
  assumes read_view: "get_immutable s = reader_of (view s)"
    and write_view: "writable s \<Longrightarrow> \<exists>s' tip. write_batch batch s = (Inr (), s')
       \<and> view s' = apply_ops batch ((view s)(TIP_HEIGHT_KEY := tip))"
    and write_writable: "writable s \<Longrightarrow> write_batch batch s = (Inr (), s') \<Longrightarrow> writable s'"
begin

lemma block_commit:
  assumes inv: "chain_inv hexe (view s) blocks" and ok: "chain_ok (blocks @ [kvs])" and w: "writable s"
  obtains s' where
    "calculate_and_store_state_root_batched hexe (get_immutable s) (commit_via write_batch s)
        (length blocks) kvs bh c = (Inr (EMPTY_NODE_HASH, s'), clear_caches c)"
    "chain_inv hexe (view s') (blocks @ [kvs])" "writable s'"
    "view s' TIP_HEIGHT_KEY = Some (le_bytes 4 (length blocks))"
proof -
  obtain m' where run: "calculate_and_store_state_root_batched hexe (reader_of (view s))
        (\<lambda>b. Inr (apply_ops b (view s))) (length blocks) kvs bh c = (Inr (EMPTY_NODE_HASH, m'), clear_caches c)"
      and inv': "chain_inv hexe m' (blocks @ [kvs])"
    using chain_step [OF inv ok] by metis
  obtain root ops where build: "build_state_root_batch_unwritten hexe (reader_of (view s)) (length blocks) kvs bh c
        = (Inr (root, ops), clear_caches c)"
    using run by (auto simp: calculate_and_store_state_root_batched_def sbind_def
        build_state_root_batch_unwritten_def split: sum.splits prod.splits)
  have m': "m' = apply_ops ops (view s)" and root: "root = EMPTY_NODE_HASH"
    using run build by (simp_all add: calculate_and_store_state_root_batched_def)
  obtain s' tip where s': "write_batch ops s = (Inr (), s')"
      "view s' = apply_ops ops ((view s)(TIP_HEIGHT_KEY := tip))"
    using write_view [OF w] by blast
  obtain pre where pre: "ops = pre @ [Put TIP_HEIGHT_KEY (le_bytes 4 (length blocks))]"
    using build by (auto simp: build_state_root_batch_unwritten_def block_records_def result_simps
        split: if_splits)
  have "view s' k = m' k" for k
  proof (cases "k = TIP_HEIGHT_KEY")
    case True
    then show ?thesis by (simp add: s'(2) m' pre)
  next
    case False
    then show ?thesis by (simp add: s'(2) m') (rule apply_ops_key_cong, simp)
  qed
  then have "view s' = m'" by blast
  moreover have "calculate_and_store_state_root_batched hexe (get_immutable s) (commit_via write_batch s)
        (length blocks) kvs bh c = (Inr (EMPTY_NODE_HASH, s'), clear_caches c)"
    using build s'(1) root
    by (simp add: calculate_and_store_state_root_batched_def read_view commit_via_def)
  moreover have "view s' TIP_HEIGHT_KEY = Some (le_bytes 4 (length blocks))"
    by (simp add: s'(2) pre)
  ultimately show ?thesis using that inv' write_writable [OF w s'(1)] by blast
qed

text \<open>Historical queries through the backend.\<close>

lemma indexed_query:
  assumes "hex_codec hexe hexd" "chain_inv hexe (view s) blocks" "chain_ok blocks"
  shows "get_at_height (get_immutable s) hexd key q = Inr (last_write blocks key q)"
  unfolding read_view by (rule chain_inv_query [OF assms])

end

end
