(* ===== verification/SmtUpdate.thy ===== *)
theory SmtUpdate
  imports SmtSpec KvStore "HOL-Library.Multiset"
begin

text \<open>
  The update of one key against the abstract tree, for the batched and for the writing
  copy of the code, and the incremental root calculation over any backend that keeps the
  \<open>kv_store\<close> contract. The tree after the updates depends only on the leaves, so the root
  does not depend on the order of the keys.
\<close>

definition smt_inv :: "hash_fn \<Rightarrow> kvmap \<Rightarrow> stree \<Rightarrow> bool" where
  "smt_inv sha m t \<longleftrightarrow> stored sha m t \<and> placed sha [] t \<and> canon t"

fun tree_depth :: "stree \<Rightarrow> nat" where
  "tree_depth (N l r) = 1 + max (tree_depth l) (tree_depth r)"
| "tree_depth t = 0"

lemma path_fits_depth: "d + tree_depth t \<le> 255 \<Longrightarrow> path_fits kh d t"
  by (induction kh d t rule: path_fits.induct) auto

lemma tree_depth_ins: "tree_depth t \<le> tree_depth (ins sha k v d t)"
proof (induction t arbitrary: d)
  case (N l r)
  have "tree_depth l \<le> tree_depth (ins sha k v (Suc d) l)" "tree_depth r \<le> tree_depth (ins sha k v (Suc d) r)"
    by (rule N)+
  then show ?case by auto
qed simp_all

definition new_tree :: "hash_fn \<Rightarrow> bytes \<Rightarrow> bytes \<Rightarrow> stree \<Rightarrow> stree" where
  "new_tree sha key val t = ins sha key (sha val) 0 t"

subsection \<open>One key\<close>

lemma path_updates_run:
  assumes sha: "sha_256 sha" and inv: "smt_inv sha m t" and good: "good_nodes sha (set (tnodes sha t))"
    and depth: "tree_depth t \<le> 255"
  shows "\<exists>us ns. compute_path_updates_batched sha (reader_of m) (thash sha t) (sha k)
           (hash_node sha (Leaf k v)) b = Inr (us, b @ node_puts sha ns)
       \<and> root_of_updates us (hash_node sha (Leaf k v)) = thash sha (ins sha k v 0 t)
       \<and> rebuild_ok sha (Leaf k v) t (ins sha k v 0 t) ns"
proof -
  have st: "stored sha m t" and pl: "placed sha [] t" using inv by (simp_all add: smt_inv_def)
  have fits: "path_fits (sha k) 0 t" using depth by (intro path_fits_depth) simp
  obtain us ns where "rfold (rebuild_step sha (create_separating_internals_batched sha) (sha k))
           (rev (path_of sha (sha k) 0 t)) (hash_node sha (Leaf k v), [], b)
         = Inr (thash sha (ins sha k v 0 t), us, b @ node_puts sha ns)"
      "root_of_updates us (hash_node sha (Leaf k v)) = thash sha (ins sha k v 0 t)"
      "rebuild_ok sha (Leaf k v) t (ins sha k v 0 t) ns"
    using rebuild_eq [OF sha pl follows_Nil, of k v b] by auto
  with find_path_eq [OF st good fits, of "[]"] show ?thesis
    by (auto simp: compute_path_updates_batched_def)
qed

lemma compute_path_updates_same:
  "compute_path_updates sha rd root kh lh h b = compute_path_updates_batched sha rd root kh lh b"
proof -
  have "(\<lambda>d ek el nk nl b. create_separating_internals sha d ek el nk nl h b)
      = create_separating_internals_batched sha"
    by (simp add: fun_eq_iff create_separating_same)
  then show ?thesis unfolding compute_path_updates_def compute_path_updates_batched_def by simp
qed

lemma smt_inv_after:
  assumes sha: "sha_256 sha" and inv: "smt_inv sha m t"
    and good: "good_nodes sha (set (tnodes sha t) \<union> set (tnodes sha (ins sha k v 0 t)))"
    and ok: "rebuild_ok sha (Leaf k v) t (ins sha k v 0 t) ns"
  shows "smt_inv sha (apply_ops (node_puts sha (Leaf k v # ns)) m) (ins sha k v 0 t)"
proof -
  have st: "stored sha m t" and pl: "placed sha [] t" and cn: "canon t"
    using inv by (simp_all add: smt_inv_def)
  have "Leaf k v \<in> set (tnodes sha (ins sha k v 0 t))"
    using leaves_ins [OF sha pl follows_Nil, of k v] by (simp add: leaf_node_iff)
  from stored_after [OF good st ok this] show ?thesis
    using ins_placed [OF sha pl follows_Nil, of k v] canon_ins [OF sha pl follows_Nil cn, of k v]
    by (simp add: smt_inv_def)
qed

lemma update_batched_run:
  assumes sha: "sha_256 sha" and inv: "smt_inv sha m t"
    and good: "good_nodes sha (set (tnodes sha t) \<union> set (tnodes sha (new_tree sha key val t)))"
    and depth: "tree_depth t \<le> 255"
  obtains ns where
    "update_smt_for_key_batched sha (reader_of m) (thash sha t) key val h b
       = Inr (thash sha (new_tree sha key val t), b @ node_puts sha (Leaf key (sha val) # ns))"
    "rebuild_ok sha (Leaf key (sha val)) t (new_tree sha key val t) ns"
proof (cases "t = E")
  case True
  show ?thesis
    by (rule that [of "[]"])
       (simp_all add: True update_smt_for_key_batched_def Let_def new_tree_def hash_value_def
          batch_node_def node_puts_def rebuild_ok_def)
next
  case False
  have good': "good_nodes sha (set (tnodes sha t))" using good by (rule good_nodes_subset) simp
  obtain us ns where run: "compute_path_updates_batched sha (reader_of m) (thash sha t) (sha key)
           (hash_node sha (Leaf key (sha val))) (b @ node_puts sha [Leaf key (sha val)])
         = Inr (us, (b @ node_puts sha [Leaf key (sha val)]) @ node_puts sha ns)"
      "root_of_updates us (hash_node sha (Leaf key (sha val))) = thash sha (new_tree sha key val t)"
      "rebuild_ok sha (Leaf key (sha val)) t (new_tree sha key val t) ns"
    using path_updates_run [OF sha inv good' depth] unfolding new_tree_def by blast
  have "thash sha t \<noteq> EMPTY_NODE_HASH" using thash_EMPTY [OF good'] False by simp
  moreover have "batch_node sha (Leaf key (sha val)) b = b @ node_puts sha [Leaf key (sha val)]"
    by (simp add: batch_node_def node_puts_def)
  ultimately show ?thesis
    using run by (intro that [of ns])
      (simp_all add: update_smt_for_key_batched_def Let_def hash_key_def hash_value_def node_puts_def)
qed

subsection \<open>Several keys, in one batch per key\<close>

definition ins_all :: "hash_fn \<Rightarrow> (bytes \<times> bytes) list \<Rightarrow> stree \<Rightarrow> stree" where
  "ins_all sha kvs t = fold (\<lambda>(key, val). new_tree sha key val) kvs t"

text \<open>The nodes of all the trees the updates go through.\<close>

definition trace_nodes :: "hash_fn \<Rightarrow> (bytes \<times> bytes) list \<Rightarrow> stree \<Rightarrow> smt_node set" where
  "trace_nodes sha kvs t = (\<Union>i \<le> length kvs. set (tnodes sha (ins_all sha (take i kvs) t)))"

lemma ins_all_simps [simp]:
  "ins_all sha [] t = t"
  "ins_all sha ((key, val) # kvs) t = ins_all sha kvs (new_tree sha key val t)"
  "ins_all sha (kvs @ kvs') t = ins_all sha kvs' (ins_all sha kvs t)"
  by (simp_all add: ins_all_def)

lemma trace_nodes_head: "set (tnodes sha t) \<subseteq> trace_nodes sha kvs t"
  by (auto simp: trace_nodes_def intro!: bexI [of _ 0])

lemma trace_nodes_tail:
  "trace_nodes sha kvs (new_tree sha key val t) \<subseteq> trace_nodes sha ((key, val) # kvs) t"
proof
  fix n assume "n \<in> trace_nodes sha kvs (new_tree sha key val t)"
  then obtain i where "i \<le> length kvs" "n \<in> set (tnodes sha (ins_all sha (take i kvs) (new_tree sha key val t)))"
    by (auto simp: trace_nodes_def)
  then show "n \<in> trace_nodes sha ((key, val) # kvs) t"
    by (auto simp: trace_nodes_def intro!: bexI [of _ "Suc i"])
qed

lemma tree_depth_ins_all: "tree_depth t \<le> tree_depth (ins_all sha kvs t)"
proof (induction kvs arbitrary: t)
  case (Cons kv kvs)
  obtain key val where kv: "kv = (key, val)" by (cases kv)
  have "tree_depth t \<le> tree_depth (new_tree sha key val t)"
    unfolding new_tree_def by (rule tree_depth_ins)
  also have "\<dots> \<le> tree_depth (ins_all sha kvs (new_tree sha key val t))" by (rule Cons)
  finally show ?case by (simp add: kv)
qed simp

definition good_tree :: "hash_fn \<Rightarrow> stree \<Rightarrow> bool" where
  "good_tree sha t \<longleftrightarrow> placed sha [] t \<and> canon t"

lemma good_tree_new:
  "sha_256 sha \<Longrightarrow> good_tree sha t \<Longrightarrow> good_tree sha (new_tree sha key val t)"
  using ins_placed [of sha "[]" t key "sha val"] canon_ins [of sha "[]" t key "sha val"]
  by (simp add: good_tree_def new_tree_def)

lemma good_tree_all: "sha_256 sha \<Longrightarrow> good_tree sha t \<Longrightarrow> good_tree sha (ins_all sha kvs t)"
  by (induction kvs arbitrary: t) (auto simp: good_tree_new)

text \<open>The leaves after updates at keys with distinct hashes.\<close>

lemma leaves_ins_all:
  assumes "sha_256 sha" "good_tree sha t" "distinct (map (sha \<circ> fst) kvs)"
  shows "leaves (ins_all sha kvs t) = (\<lambda>(key, val). (key, sha val)) ` set kvs
           \<union> {x \<in> leaves t. sha (fst x) \<notin> (sha \<circ> fst) ` set kvs}"
  using assms(2,3)
proof (induction kvs arbitrary: t)
  case (Cons kv kvs)
  obtain key val where kv: "kv = (key, val)" by (cases kv)
  have "leaves (new_tree sha key val t) = insert (key, sha val) {x \<in> leaves t. sha (fst x) \<noteq> sha key}"
    using leaves_ins [OF assms(1), of "[]" t key "sha val"] Cons(2) by (simp add: good_tree_def new_tree_def)
  moreover have "leaves (ins_all sha kvs (new_tree sha key val t)) = (\<lambda>(key, val). (key, sha val)) ` set kvs
      \<union> {x \<in> leaves (new_tree sha key val t). sha (fst x) \<notin> (sha \<circ> fst) ` set kvs}"
    using Cons good_tree_new [OF assms(1)] by simp
  moreover have "sha (fst x) \<noteq> sha key" if "x \<in> set kvs" for x using Cons(3) that by (force simp: kv)
  ultimately show ?case by (auto simp: kv dest: \<open>\<And>x. x \<in> set kvs \<Longrightarrow> sha (fst x) \<noteq> sha key\<close>)
qed simp

theorem ins_all_order:
  assumes "sha_256 sha" "good_tree sha t" "distinct (map (sha \<circ> fst) kvs)" "mset kvs' = mset kvs"
  shows "ins_all sha kvs' t = ins_all sha kvs t"
proof -
  have "mset (map (sha \<circ> fst) kvs') = mset (map (sha \<circ> fst) kvs)" using assms(4) by simp
  then have d: "distinct (map (sha \<circ> fst) kvs')" using assms(3) by (metis mset_eq_imp_distinct_iff)
  have "set kvs' = set kvs" using assms(4) by (rule mset_eq_setD)
  then have "leaves (ins_all sha kvs' t) = leaves (ins_all sha kvs t)"
    by (simp only: leaves_ins_all [OF assms(1,2) d] leaves_ins_all [OF assms(1,2,3)])
  with good_tree_all [OF assms(1,2), of kvs'] good_tree_all [OF assms(1,2), of kvs] show ?thesis
    unfolding good_tree_def using tree_of_leaves by blast
qed

subsection \<open>Writing the updates through a backend\<close>

lemma node_key_tip [simp]: "node_key h \<noteq> TIP_HEIGHT_KEY"
  by (simp add: node_key_def make_smt_node_key_def PREFIXES_def TIP_HEIGHT_KEY_def)

lemma smt_inv_tip: "smt_inv sha (m(TIP_HEIGHT_KEY := tip)) t = smt_inv sha m t"
  by (simp add: smt_inv_def stored_def)

text \<open>The records of keys outside the node space are not touched.\<close>

definition outside_nodes :: "bytes \<Rightarrow> bool" where
  "outside_nodes key \<longleftrightarrow> \<not> prefix ''smt:node::'' key"

lemma outside_nodes_records:
  assumes "outside_nodes key"
  shows "length_key key \<noteq> node_key h" "update_key key i \<noteq> node_key h"
proof -
  have "prefix ''smt:node::'' key" if "key @ CHR ''/'' # r = ''smt:node::'' @ h" for r
  proof -
    have "prefix ''smt:node::'' (key @ CHR ''/'' # r)" using that by (auto simp: prefix_def)
    then consider "prefix ''smt:node::'' key" | zs where "''smt:node::'' = key @ CHR ''/'' # zs"
      by (auto simp: prefix_append prefix_Cons)
    then show ?thesis
    proof cases
      case 2
      then have "CHR ''/'' \<in> set ''smt:node::''" by (metis in_set_conv_decomp)
      then show ?thesis by simp
    qed
  qed
  with assms show "length_key key \<noteq> node_key h" "update_key key i \<noteq> node_key h"
    by (auto simp: outside_nodes_def key_defs node_key_def make_smt_node_key_def PREFIXES_def)
qed

text \<open>The log of a key is the same in both databases.\<close>

definition same_log :: "bytes \<Rightarrow> kvmap \<Rightarrow> kvmap \<Rightarrow> bool" where
  "same_log key m m' \<longleftrightarrow> (\<forall>hexe us. has_log hexe m' key us = has_log hexe m key us)"

lemma same_log_trans: "same_log k m m' \<Longrightarrow> same_log k m' m'' \<Longrightarrow> same_log k m m''"
  by (simp add: same_log_def)

text \<open>What the loop needs of the keys: a log each, outside the node space, with a value at the height.\<close>

definition readable :: "(bytes \<Rightarrow> bytes) \<Rightarrow> kvmap \<Rightarrow> nat \<Rightarrow> (bytes \<times> bytes) list \<Rightarrow> bool" where
  "readable hexe m h kvs \<longleftrightarrow> (\<forall>(key, val) \<in> set kvs. outside_nodes key
     \<and> (\<exists>us. has_log hexe m key us \<and> log_wf us \<and> searchable us \<and> value_at h us = Some val))"

lemma readable_same:
  assumes "readable hexe m h kvs" "\<And>k. outside_nodes k \<Longrightarrow> same_log k m m'"
  shows "readable hexe m' h kvs"
  using assms unfolding readable_def same_log_def by (auto 0 4)

lemma readable_perm: "mset kvs' = mset kvs \<Longrightarrow> readable hexe m h kvs' = readable hexe m h kvs"
  using mset_eq_setD [of kvs' kvs] by (simp add: readable_def)

lemma find_path_missing:
  assumes "m (node_key root) = None"
  shows "find_path sha (reader_of m) kh root d acc = Inr acc"
proof -
  have "get_node (reader_of m) root = Inr None" using assms by (simp add: get_node_def)
  then show ?thesis by (subst find_path.simps) simp
qed

locale smt_store = kv_store "so_read ops" "so_write ops" view writable
  for ops :: "'s store_ops" and view and writable
begin

lemma update_key_run:
  assumes sha: "sha_256 sha" and inv: "smt_inv sha (view s) t" and ne: "t \<noteq> E"
    and good: "good_nodes sha (set (tnodes sha t) \<union> set (tnodes sha (new_tree sha key val t)))"
    and depth: "tree_depth t \<le> 255" and w: "writable s"
  shows "\<exists>s'. update_smt_for_key sha ops (thash sha t) key val h s
           = (Inr (thash sha (new_tree sha key val t)), s')
       \<and> smt_inv sha (view s') (new_tree sha key val t) \<and> writable s'
       \<and> (\<forall>k. outside_nodes k \<longrightarrow> same_log k (view s) (view s'))"
proof -
  have good': "good_nodes sha (set (tnodes sha t))" using good by (rule good_nodes_subset) simp
  let ?leaf = "Leaf key (sha val)"
  obtain us ns where run: "compute_path_updates_batched sha (reader_of (view s)) (thash sha t) (sha key)
           (hash_node sha ?leaf) (node_puts sha [?leaf]) = Inr (us, node_puts sha [?leaf] @ node_puts sha ns)"
      "root_of_updates us (hash_node sha ?leaf) = thash sha (new_tree sha key val t)"
      "rebuild_ok sha ?leaf t (new_tree sha key val t) ns"
    using path_updates_run [OF sha inv good' depth] unfolding new_tree_def by blast
  have batch: "node_puts sha [?leaf] @ node_puts sha ns = node_puts sha (?leaf # ns)"
    by (simp add: node_puts_def)
  obtain s' tip where s': "so_write ops (node_puts sha (?leaf # ns)) s = (Inr (), s')"
      "view s' = apply_ops (node_puts sha (?leaf # ns)) ((view s)(TIP_HEIGHT_KEY := tip))"
    using write_view [OF w] by blast
  have "thash sha t \<noteq> EMPTY_NODE_HASH" using thash_EMPTY [OF good'] ne by simp
  moreover have "batch_node sha ?leaf [] = node_puts sha [?leaf]"
    by (simp add: batch_node_def node_puts_def)
  moreover have "write_or_storage_error ops (node_puts sha (?leaf # ns)) s = (Inr (), s')"
    by (simp add: write_or_storage_error_def s'(1))
  ultimately have "update_smt_for_key sha ops (thash sha t) key val h s
      = (Inr (thash sha (new_tree sha key val t)), s')"
    using run(1,2) unfolding batch
    by (simp add: update_smt_for_key_def Let_def hash_key_def hash_value_def compute_path_updates_same
        read_view)
  moreover have "smt_inv sha (view s') (new_tree sha key val t)"
    unfolding s'(2) new_tree_def
    by (rule smt_inv_after [OF sha]) (use inv good run(3) in \<open>simp_all add: smt_inv_tip new_tree_def\<close>)
  moreover have "same_log k (view s) (view s')" if "outside_nodes k" for k
  proof -
    have "view s' q = view s q" if "q = length_key k \<or> q = update_key k i" for q i
      using that outside_nodes_records [OF \<open>outside_nodes k\<close>] node_puts_miss [of q]
      unfolding s'(2) by (auto simp: node_puts_miss)
    then show ?thesis unfolding same_log_def by (intro allI has_log_cong) auto
  qed
  ultimately show ?thesis using write_writable [OF w s'(1)] by blast
qed

lemma incremental_run:
  assumes hex: "hex_codec hexe hexd" and sha: "sha_256 sha"
  shows "\<lbrakk>smt_inv sha (view s) t; t \<noteq> E; good_nodes sha (trace_nodes sha kvs t);
     tree_depth (ins_all sha kvs t) \<le> 255; readable hexe (view s) h kvs; writable s\<rbrakk> \<Longrightarrow>
     \<exists>s'. compute_incremental_smt_root sha hexd ops (thash sha t) (map fst kvs) h s
         = (Inr (thash sha (ins_all sha kvs t)), s')
       \<and> smt_inv sha (view s') (ins_all sha kvs t) \<and> writable s'
       \<and> (\<forall>k. outside_nodes k \<longrightarrow> same_log k (view s) (view s'))"
proof (induction kvs arbitrary: s t)
  case Nil
  then show ?case by (simp add: compute_incremental_smt_root_def same_log_def)
next
  case (Cons kv kvs)
  obtain key val where kv: "kv = (key, val)" by (cases kv)
  let ?t = "new_tree sha key val t"
  obtain us where us: "has_log hexe (view s) key us" "log_wf us" "searchable us" "value_at h us = Some val"
    using Cons(6) by (auto simp: readable_def kv)
  have read: "get_at_height (so_read ops s) hexd key h = Inr (Some val)"
    using hex_codec.get_at_height_value [OF hex us(1-3)] us(4) by (simp add: read_view)
  have "set (tnodes sha t) \<union> set (tnodes sha ?t) \<subseteq> trace_nodes sha (kv # kvs) t"
    using trace_nodes_head [of sha t "kv # kvs"] trace_nodes_head [of sha ?t kvs]
      trace_nodes_tail [of sha kvs key val t] kv by auto
  then have good: "good_nodes sha (set (tnodes sha t) \<union> set (tnodes sha ?t))"
    by (rule good_nodes_subset [OF Cons(4)])
  have "tree_depth t \<le> 255" using tree_depth_ins_all [of t sha "kv # kvs"] Cons(5) by simp
  from update_key_run [OF sha Cons(2,3) good this Cons(7), of h] obtain s1 where
    s1: "update_smt_for_key sha ops (thash sha t) key val h s = (Inr (thash sha ?t), s1)"
      "smt_inv sha (view s1) ?t" "writable s1" "\<forall>k. outside_nodes k \<longrightarrow> same_log k (view s) (view s1)" by blast
  have "readable hexe (view s1) h kvs"
    by (rule readable_same [of _ "view s"]) (use Cons(6) s1(4) in \<open>auto simp: readable_def kv\<close>)
  moreover have "?t \<noteq> E"
    using leaf_node_iff [of key "sha val" sha ?t] leaves_ins [OF sha _ follows_Nil, of t key "sha val"] Cons(2)
    by (auto simp: new_tree_def smt_inv_def)
  moreover have "good_nodes sha (trace_nodes sha kvs ?t)"
    using good_nodes_subset [OF Cons(4)] trace_nodes_tail [of sha kvs key val t] kv by simp
  moreover have "tree_depth (ins_all sha kvs ?t) \<le> 255" using Cons(5) by (simp add: kv)
  ultimately obtain s' where
    s': "compute_incremental_smt_root sha hexd ops (thash sha ?t) (map fst kvs) h s1
         = (Inr (thash sha (ins_all sha kvs ?t)), s')"
      "smt_inv sha (view s') (ins_all sha kvs ?t)" "writable s'" "\<forall>k. outside_nodes k \<longrightarrow> same_log k (view s1) (view s')"
    using Cons(1) [OF s1(2)] s1(3) by blast
  have "compute_incremental_smt_root sha hexd ops (thash sha t) (map fst (kv # kvs)) h s
      = (Inr (thash sha (ins_all sha kvs ?t)), s')"
    using s'(1) by (simp add: compute_incremental_smt_root_def kv lift_result_def sbind_def read s1(1))
  then show ?case using s'(2-4) s1(4) same_log_trans by (auto simp: kv)
qed

text \<open>An update under a root whose node is missing starts a new tree.\<close>

lemma update_missing_root:
  assumes miss: "view s (node_key root) = None" and ne: "root \<noteq> EMPTY_NODE_HASH"
    and good: "good_nodes sha {Leaf key (sha val)}" and w: "writable s"
  shows "\<exists>s'. update_smt_for_key sha ops root key val h s = (Inr (thash sha (L key (sha val))), s')
       \<and> smt_inv sha (view s') (L key (sha val)) \<and> writable s'
       \<and> (\<forall>k. outside_nodes k \<longrightarrow> same_log k (view s) (view s'))"
proof -
  let ?leaf = "Leaf key (sha val)"
  have path: "find_path sha (reader_of (view s)) (sha key) root 0 [] = Inr []"
    using miss by (rule find_path_missing)
  obtain s' tip where s': "so_write ops (node_puts sha [?leaf]) s = (Inr (), s')"
      "view s' = apply_ops (node_puts sha [?leaf]) ((view s)(TIP_HEIGHT_KEY := tip))"
    using write_view [OF w] by blast
  have "batch_node sha ?leaf [] = node_puts sha [?leaf]" by (simp add: batch_node_def node_puts_def)
  moreover have "write_or_storage_error ops (node_puts sha [?leaf]) s = (Inr (), s')"
    by (simp add: write_or_storage_error_def s'(1))
  ultimately have "update_smt_for_key sha ops root key val h s = (Inr (thash sha (L key (sha val))), s')"
    using ne path
    by (simp add: update_smt_for_key_def Let_def hash_key_def hash_value_def compute_path_updates_def
        read_view root_of_updates_def)
  moreover have "smt_inv sha (view s') (L key (sha val))"
    unfolding s'(2) by (simp add: smt_inv_def stored_def node_puts_def)
  moreover have "same_log k (view s) (view s')" if "outside_nodes k" for k
  proof -
    have "view s' q = view s q" if "q = length_key k \<or> q = update_key k i" for q i
      using that outside_nodes_records [OF \<open>outside_nodes k\<close>] unfolding s'(2) by (auto simp: node_puts_miss)
    then show ?thesis unfolding same_log_def by (intro allI has_log_cong) auto
  qed
  ultimately show ?thesis using write_writable [OF w s'(1)] by blast
qed

lemma fresh_incremental_run:
  assumes hex: "hex_codec hexe hexd" and sha: "sha_256 sha"
    and miss: "view s (node_key (hash_node sha (Leaf k1 (sha v1)))) = None"
    and good: "good_nodes sha (insert (Leaf k1 (sha v1)) (trace_nodes sha ((k2, v2) # kvs) E))"
    and depth: "tree_depth (ins_all sha ((k2, v2) # kvs) E) \<le> 255"
    and rd: "readable hexe (view s) h ((k1, v1) # (k2, v2) # kvs)" and w: "writable s"
  shows "\<exists>s'. compute_incremental_smt_root sha hexd ops EMPTY_NODE_HASH (k1 # k2 # map fst kvs) h s
         = (Inr (thash sha (ins_all sha ((k2, v2) # kvs) E)), s')"
proof -
  have read: "get_at_height (so_read ops s) hexd key h = Inr (Some val)"
    if "(key, val) \<in> {(k1, v1), (k2, v2)}" for key val
    using rd that hex_codec.get_at_height_value [OF hex, of "view s" key] by (auto simp: readable_def read_view)
  let ?r1 = "hash_node sha (Leaf k1 (sha v1))"
  have first: "update_smt_for_key sha ops EMPTY_NODE_HASH k1 v1 h s = (Inr ?r1, s)"
    by (simp add: update_smt_for_key_def Let_def hash_key_def hash_value_def)
  have "?r1 \<noteq> EMPTY_NODE_HASH" using good by (simp add: good_nodes_def)
  moreover have sub: "trace_nodes sha kvs (L k2 (sha v2)) \<subseteq> trace_nodes sha ((k2, v2) # kvs) E"
    using trace_nodes_tail [of sha kvs k2 v2 E] by (simp add: new_tree_def)
  moreover have "Leaf k2 (sha v2) \<in> trace_nodes sha kvs (L k2 (sha v2))"
    using trace_nodes_head [of sha "L k2 (sha v2)" kvs] by simp
  ultimately have "{Leaf k2 (sha v2)} \<subseteq> insert (Leaf k1 (sha v1)) (trace_nodes sha ((k2, v2) # kvs) E)" by blast
  from update_missing_root [OF miss \<open>?r1 \<noteq> EMPTY_NODE_HASH\<close> good_nodes_subset [OF good this] w, of h]
  obtain s1 where s1: "update_smt_for_key sha ops ?r1 k2 v2 h s = (Inr (thash sha (L k2 (sha v2))), s1)"
      "smt_inv sha (view s1) (L k2 (sha v2))" "writable s1" "\<forall>k. outside_nodes k \<longrightarrow> same_log k (view s) (view s1)"
    by blast
  have "readable hexe (view s1) h kvs"
    by (rule readable_same [of _ "view s"]) (use rd s1(4) in \<open>auto simp: readable_def\<close>)
  moreover have "good_nodes sha (trace_nodes sha kvs (L k2 (sha v2)))"
    by (rule good_nodes_subset [OF good]) (use sub in auto)
  moreover have "tree_depth (ins_all sha kvs (L k2 (sha v2))) \<le> 255"
    using depth by (simp add: new_tree_def)
  ultimately obtain s' where "compute_incremental_smt_root sha hexd ops (thash sha (L k2 (sha v2))) (map fst kvs) h s1
      = (Inr (thash sha (ins_all sha kvs (L k2 (sha v2)))), s')"
    using incremental_run [OF hex sha s1(2)] s1(3) by blast
  then show ?thesis
    using read [of k1 v1] read [of k2 v2]
    by (simp add: compute_incremental_smt_root_def lift_result_def sbind_def first s1(1) new_tree_def)
qed

end

subsection \<open>Several keys in one batch\<close>

text \<open>
  The batched root calculation reads nodes from storage only, so that on a database without
  nodes each key starts a new tree.
\<close>

lemma update_batched_missing:
  assumes "\<forall>h. m (node_key h) = None"
  shows "\<exists>ops. update_smt_for_key_batched sha (reader_of m) root key val h b
     = Inr (hash_node sha (Leaf key (sha val)), b @ ops)"
proof (cases "root = EMPTY_NODE_HASH")
  case True
  then show ?thesis
    by (simp add: update_smt_for_key_batched_def Let_def hash_value_def batch_node_def)
next
  case False
  then have "find_path sha (reader_of m) kh root 0 [] = Inr []" for kh
    using assms by (simp add: find_path_missing)
  with False show ?thesis
    by (simp add: update_smt_for_key_batched_def Let_def hash_value_def batch_node_def
        compute_path_updates_batched_def root_of_updates_def)
qed

lemma compute_batched_missing:
  assumes "\<forall>h. m (node_key h) = None"
  shows "\<exists>ops. compute_batched_smt_root sha (reader_of m) root kvs h b
     = Inr (if kvs = [] then root else hash_node sha (Leaf (fst (last kvs)) (sha (snd (last kvs)))), b @ ops)"
proof (induction kvs arbitrary: root b)
  case (Cons kv kvs)
  obtain key val where kv: "kv = (key, val)" by (cases kv)
  obtain ops where "update_smt_for_key_batched sha (reader_of m) root key val h b
      = Inr (hash_node sha (Leaf key (sha val)), b @ ops)"
    using update_batched_missing [OF assms] by blast
  moreover obtain ops' where "compute_batched_smt_root sha (reader_of m) (hash_node sha (Leaf key (sha val))) kvs h (b @ ops)
      = Inr (if kvs = [] then hash_node sha (Leaf key (sha val))
             else hash_node sha (Leaf (fst (last kvs)) (sha (snd (last kvs)))), (b @ ops) @ ops')"
    using Cons by blast
  ultimately have "compute_batched_smt_root sha (reader_of m) root (kv # kvs) h b
      = Inr (hash_node sha (Leaf (fst (last (kv # kvs))) (sha (snd (last (kv # kvs))))), b @ ops @ ops')"
    by (cases "kvs = []") (simp_all add: compute_batched_smt_root_def kv)
  then show ?case by (intro exI [of _ "ops @ ops'"]) simp
qed (simp add: compute_batched_smt_root_def)

end
