(* ===== verification/MemStore.thy ===== *)
theory MemStore
  imports SmtUpdate Rollback "HOL-Library.AList"
begin

text \<open>
  The in-memory backend, \<open>crates/memshrew-runtime/src/adapter.rs\<close>: \<open>MemStoreAdapter\<close> as a
  \<open>KeyValueStoreLike\<close>, as an \<open>SmtRollback\<close> and as the \<open>StorageAdapter\<close> of the sync layer.
  The hash map is an association list (its iteration order is the list's and no lemma
  depends on it); the label of the process is the first argument of the operations that
  read it. The two contracts are discharged for it here.
\<close>

record mem_store =
  db :: "(bytes \<times> bytes) list"
  height :: nat

definition mem_new :: mem_store where
  "mem_new = \<lparr>db = [], height = 0\<rparr>"

definition with_data :: "(bytes \<times> bytes) list \<Rightarrow> mem_store" where
  "with_data d = \<lparr>db = d, height = 0\<rparr>"

definition get_all_data :: "mem_store \<Rightarrow> (bytes \<times> bytes) list" where
  "get_all_data s = db s"

definition mem_clear :: "mem_store \<Rightarrow> mem_store" where
  "mem_clear s = s\<lparr>db := [], height := 0\<rparr>"

definition mem_len :: "mem_store \<Rightarrow> nat" where
  "mem_len s = length (db s)"

definition mem_is_empty :: "mem_store \<Rightarrow> bool" where
  "mem_is_empty s \<longleftrightarrow> db s = []"

definition deep_copy :: "mem_store \<Rightarrow> mem_store" where
  "deep_copy s = \<lparr>db = get_all_data s, height = height s\<rparr>"

definition mem_insert :: "bytes \<Rightarrow> bytes \<Rightarrow> mem_store \<Rightarrow> mem_store" where
  "mem_insert k v s = s\<lparr>db := AList.update k v (db s)\<rparr>"

definition mem_remove :: "bytes \<Rightarrow> mem_store \<Rightarrow> mem_store" where
  "mem_remove k s = s\<lparr>db := AList.delete k (db s)\<rparr>"

subsection \<open>As a \<open>KeyValueStoreLike\<close>\<close>

definition mem_apply :: "bytes option \<Rightarrow> batch_op \<Rightarrow> mem_store \<Rightarrow> mem_store" where
  "mem_apply lbl x s =
     (case x of
        Put k v \<Rightarrow> mem_insert (to_labeled_key lbl k) v s
      | Delete k \<Rightarrow> mem_remove (to_labeled_key lbl k) s)"

definition mem_write :: "bytes option \<Rightarrow> batch \<Rightarrow> (mem_store, unit) st" where
  "mem_write lbl batch s =
     (case add_u32 (height s) 1 of
        Inl e \<Rightarrow> (Inl e, s)
      | Inr n \<Rightarrow>
          (Inr (), fold (mem_apply lbl) batch
                     (mem_insert (to_labeled_key lbl TIP_HEIGHT_KEY) (le_bytes 4 n) s)))"

definition mem_get :: "bytes option \<Rightarrow> mem_store \<Rightarrow> bytes \<Rightarrow> bytes option result" where
  "mem_get lbl s key = Inr (map_of (db s) (to_labeled_key lbl key))"

definition mem_put :: "bytes option \<Rightarrow> bytes \<Rightarrow> bytes \<Rightarrow> (mem_store, unit) st" where
  "mem_put lbl key val s = (Inr (), mem_insert (to_labeled_key lbl key) val s)"

definition mem_delete :: "bytes option \<Rightarrow> bytes \<Rightarrow> (mem_store, unit) st" where
  "mem_delete lbl key s = (Inr (), mem_remove (to_labeled_key lbl key) s)"

definition mem_scan_prefix :: "bytes option \<Rightarrow> mem_store \<Rightarrow> bytes \<Rightarrow> (bytes \<times> bytes) list result" where
  "mem_scan_prefix lbl s pre =
     Inr (sort_key fst (filter (\<lambda>(key, val). prefix (to_labeled_key lbl pre) key) (db s)))"

definition mem_keys :: "mem_store \<Rightarrow> bytes list result" where
  "mem_keys s = Inr (map fst (db s))"

definition mem_set_height :: "nat \<Rightarrow> mem_store \<Rightarrow> mem_store" where
  "mem_set_height h s = s\<lparr>height := h\<rparr>"

definition mem_get_height :: "mem_store \<Rightarrow> nat" where
  "mem_get_height s = height s"

definition mem_create_isolated_copy :: "mem_store \<Rightarrow> mem_store" where
  "mem_create_isolated_copy s = deep_copy s"

subsection \<open>As an \<open>SmtRollback\<close>\<close>

text \<open>These methods use the keys as they are in the map, without the label.\<close>

definition mem_put_key :: "bytes \<Rightarrow> bytes \<Rightarrow> (mem_store, unit) st" where
  "mem_put_key key val s = (Inr (), mem_insert key val s)"

definition mem_delete_key :: "bytes \<Rightarrow> (mem_store, unit) st" where
  "mem_delete_key key s = (Inr (), mem_remove key s)"

definition mem_backend :: "mem_store smt_backend" where
  "mem_backend = \<lparr>iter_keys = (\<lambda>s. Inr (map fst (db s))),
     get_value = (\<lambda>s key. Inr (map_of (db s) key)),
     apply_atomic = apply_atomic_default mem_put_key mem_delete_key\<rparr>"

subsection \<open>As a \<open>StorageAdapter\<close>\<close>

definition mem_get_indexed_height :: "bytes option \<Rightarrow> mem_store \<Rightarrow> nat result" where
  "mem_get_indexed_height lbl s =
     (case map_of (db s) (to_labeled_key lbl TIP_HEIGHT_KEY) of
        Some v \<Rightarrow> if length v \<ge> 4 then Inr (from_le (take 4 v) - 1) else Inr (mem_get_height s)
      | None \<Rightarrow> Inr (mem_get_height s))"

definition mem_set_indexed_height :: "bytes option \<Rightarrow> nat \<Rightarrow> (mem_store, unit) st" where
  "mem_set_indexed_height lbl h s =
     (case add_u32 h 1 of
        Inl e \<Rightarrow> (Inl e, s)
      | Inr n \<Rightarrow> (Inr (), mem_set_height h
                     (mem_insert (to_labeled_key lbl TIP_HEIGHT_KEY) (le_bytes 4 n) s)))"

definition mem_store_block_hash :: "bytes option \<Rightarrow> nat \<Rightarrow> bytes \<Rightarrow> (mem_store, unit) st" where
  "mem_store_block_hash lbl h hash = mem_put lbl (block_hash_record h) hash"

definition mem_get_block_hash :: "bytes option \<Rightarrow> mem_store \<Rightarrow> nat \<Rightarrow> bytes option result" where
  "mem_get_block_hash lbl s h = mem_get lbl s (block_hash_record h)"

definition mem_store_state_root :: "bytes option \<Rightarrow> nat \<Rightarrow> bytes \<Rightarrow> (mem_store, unit) st" where
  "mem_store_state_root lbl h root = mem_put lbl (state_root_record h) root"

definition mem_get_state_root :: "bytes option \<Rightarrow> mem_store \<Rightarrow> nat \<Rightarrow> bytes option result" where
  "mem_get_state_root lbl s h = mem_get lbl s (state_root_record h)"

text \<open>
  The error of the final \<open>set_indexed_height\<close> is discarded (\<open>let _ = ...\<close>), but an
  overflow of \<open>height + 1\<close> in it is a panic and not such an error.
\<close>

definition mem_rollback_to_height :: "bytes option \<Rightarrow> nat \<Rightarrow> (mem_store, unit) st" where
  "mem_rollback_to_height lbl h s =
     (let current_height = (case mem_get_indexed_height lbl s of
                              Inr c \<Rightarrow> c | Inl _ \<Rightarrow> mem_get_height s)
      in case rollback_smt_data mem_backend h current_height s of
           (Inl e, s') \<Rightarrow> (Inl (''SMT rollback failed: '' @ e), s')
         | (Inr _, s') \<Rightarrow>
             sbind (mem_set_indexed_height lbl h) (\<lambda>_ s. (Inr (), mem_set_height h s)) s')"

text \<open>\<open>query_height\<close>; \<open>try_into().unwrap()\<close> panics unless the record has four bytes.\<close>

definition mem_query_height :: "bytes option \<Rightarrow> mem_store \<Rightarrow> nat \<Rightarrow> nat result" where
  "mem_query_height lbl s start_block =
     (case map_of (db s) (to_labeled_key lbl TIP_HEIGHT_KEY) of
        None \<Rightarrow> Inr start_block
      | Some v \<Rightarrow>
          if length v = 0 then Inr start_block
          else if length v = 4 then Inr (from_le v)
          else Inl ''called `Result::unwrap()` on an `Err` value: TryFromSliceError(())'')"

subsection \<open>The contracts hold\<close>

definition mem_contents :: "mem_store \<Rightarrow> kvmap" where
  "mem_contents s = map_of (db s)"

definition mem_view :: "bytes option \<Rightarrow> mem_store \<Rightarrow> kvmap" where
  "mem_view lbl s = (\<lambda>k. mem_contents s (to_labeled_key lbl k))"

lemma mem_contents_insert [simp]: "mem_contents (mem_insert k v s) = (mem_contents s)(k \<mapsto> v)"
  by (simp add: mem_contents_def mem_insert_def update_conv')

lemma mem_contents_remove [simp]: "mem_contents (mem_remove k s) = (mem_contents s)(k := None)"
  by (simp add: mem_contents_def mem_remove_def delete_conv')

lemma mem_contents_height [simp]: "mem_contents (mem_set_height h s) = mem_contents s"
  by (simp add: mem_contents_def mem_set_height_def)

lemma mem_height [simp]:
  "height (mem_insert k v s) = height s" "height (mem_remove k s) = height s"
  "height (mem_set_height h s) = h" "height (fold (mem_apply lbl) batch s) = height s"
proof -
  show "height (fold (mem_apply lbl) batch s) = height s"
    by (induction batch arbitrary: s)
       (auto simp: mem_apply_def mem_insert_def mem_remove_def split: batch_op.splits)
qed (simp_all add: mem_insert_def mem_remove_def mem_set_height_def)

lemma mem_view_insert: "mem_view lbl (mem_insert (to_labeled_key lbl k) v s) = (mem_view lbl s)(k \<mapsto> v)"
  by (auto simp: mem_view_def fun_eq_iff)

lemma mem_view_remove: "mem_view lbl (mem_remove (to_labeled_key lbl k) s) = (mem_view lbl s)(k := None)"
  by (auto simp: mem_view_def fun_eq_iff)

lemma mem_view_apply: "mem_view lbl (fold (mem_apply lbl) batch s) = apply_ops batch (mem_view lbl s)"
proof (induction batch arbitrary: s)
  case (Cons x xs)
  have "mem_view lbl (mem_apply lbl x s) = apply_op x (mem_view lbl s)"
    by (cases x) (simp_all add: mem_apply_def mem_view_insert mem_view_remove)
  with Cons show ?case by simp
qed simp

lemma mem_default_apply:
  "\<exists>s'. apply_atomic_default mem_put_key mem_delete_key ops s = (Inr (), s')
     \<and> mem_contents s' = apply_ops ops (mem_contents s)"
proof (induction ops arbitrary: s)
  case (Cons x xs)
  obtain s1 where "(case x of Put k v \<Rightarrow> mem_put_key k v | Delete k \<Rightarrow> mem_delete_key k) s = (Inr (), s1)"
      "mem_contents s1 = apply_op x (mem_contents s)"
    by (cases x) (simp_all add: mem_put_key_def mem_delete_key_def)
  moreover obtain s' where "apply_atomic_default mem_put_key mem_delete_key xs s1 = (Inr (), s')"
      "mem_contents s' = apply_ops xs (mem_contents s1)"
    using Cons.IH by blast
  ultimately show ?case by (simp add: apply_atomic_default_def)
qed (simp add: apply_atomic_default_def)

interpretation mem_rb: smt_rollback mem_backend mem_contents
proof unfold_locales
  fix s :: mem_store
  show "\<exists>keys. iter_keys mem_backend s = Inr keys \<and> set keys = dom (mem_contents s)"
    by (simp add: mem_backend_def mem_contents_def dom_map_of_conv_image_fst)
next
  fix s k
  show "get_value mem_backend s k = Inr (mem_contents s k)"
    by (simp add: mem_backend_def mem_contents_def)
next
  fix ops s
  show "\<exists>s'. apply_atomic mem_backend ops s = (Inr (), s') \<and> mem_contents s' = apply_ops ops (mem_contents s)"
    using mem_default_apply by (simp add: mem_backend_def)
qed

interpretation mem_kv: kv_store "mem_get lbl" "mem_write lbl" "mem_view lbl" "\<lambda>s. height s < u32_max" for lbl
proof unfold_locales
  fix s
  show "mem_get lbl s = reader_of (mem_view lbl s)"
    by (simp add: fun_eq_iff mem_get_def reader_of_def mem_view_def mem_contents_def)
next
  fix s :: mem_store and batch
  assume "height s < u32_max"
  then show "\<exists>s' tip. mem_write lbl batch s = (Inr (), s')
       \<and> mem_view lbl s' = apply_ops batch ((mem_view lbl s)(TIP_HEIGHT_KEY := tip))"
    by (auto simp: mem_write_def mem_view_apply mem_view_insert)
next
  fix s s' :: mem_store and batch
  assume "height s < u32_max" "mem_write lbl batch s = (Inr (), s')"
  then show "height s' < u32_max" by (auto simp: mem_write_def)
qed

text \<open>The adapter as the storage of the tree helpers.\<close>

definition mem_ops :: "bytes option \<Rightarrow> mem_store store_ops" where
  "mem_ops lbl = \<lparr>so_read = mem_get lbl, so_scan = mem_scan_prefix lbl, so_write = mem_write lbl\<rparr>"

interpretation mem_smt: smt_store "mem_ops lbl" "mem_view lbl" "\<lambda>s. height s < u32_max" for lbl
  unfolding smt_store_def mem_ops_def by (simp add: mem_kv.kv_store_axioms)

subsection \<open>The tip record\<close>

lemma mem_set_indexed_height_run:
  "h < u32_max \<Longrightarrow> mem_set_indexed_height lbl h s
     = (Inr (), mem_set_height h (mem_insert (to_labeled_key lbl TIP_HEIGHT_KEY) (le_bytes 4 (h + 1)) s))"
  by (simp add: mem_set_indexed_height_def)

lemma mem_get_indexed_height_eq:
  assumes "mem_view lbl s TIP_HEIGHT_KEY = Some (le_bytes 4 n)" "n \<le> u32_max"
  shows "mem_get_indexed_height lbl s = Inr (n - 1)"
  using assms by (simp add: mem_get_indexed_height_def mem_view_def mem_contents_def)

text \<open>Nothing of an indexed chain depends on the tip record.\<close>

lemma chain_inv_tip:
  "chain_inv hexe (m(TIP_HEIGHT_KEY := t)) blocks = chain_inv hexe m blocks"
proof -
  have "has_log hexe (m(TIP_HEIGHT_KEY := t)) key us = has_log hexe m key us" for key us
    by (intro has_log_cong) simp_all
  then show ?thesis by (simp add: chain_inv_def logs_of_def)
qed

lemma mem_contents_view: "mem_contents s = mem_view None s"
  by (simp add: mem_view_def to_labeled_key_def)

lemma mem_rollback_run:
  assumes hex: "hex_codec hexe hexd" and inv: "chain_inv hexe (mem_view None s) blocks"
    and fits: "chain_ok blocks" and ih: "mem_get_indexed_height None s = Inr ch" and lt: "h < ch" "h < u32_max"
  obtains s' where "mem_rollback_to_height None h s = (Inr (), s')"
    "chain_inv hexe (mem_view None s') (take (h + 1) blocks)"
    "mem_get_indexed_height None s' = Inr h" "height s' = h"
proof -
  obtain s1 where s1: "rollback_smt_data mem_backend h ch s = (Inr (), s1)"
      "chain_inv hexe (mem_contents s1) (take (h + 1) blocks)"
    using mem_rb.scan_rollback_chain [OF hex _ fits lt(1)] inv by (metis mem_contents_view)
  let ?s2 = "mem_insert (to_labeled_key None TIP_HEIGHT_KEY) (le_bytes 4 (h + 1)) s1"
  let ?s' = "mem_set_height h (mem_set_height h ?s2)"
  show ?thesis
  proof (rule that [of ?s'])
    show "mem_rollback_to_height None h s = (Inr (), ?s')"
      using ih s1(1) lt(2) by (simp add: mem_rollback_to_height_def Let_def mem_set_indexed_height_run
          sbind_Inr [OF mem_set_indexed_height_run])
    have v: "mem_view None ?s' = (mem_view None s1)(TIP_HEIGHT_KEY \<mapsto> le_bytes 4 (h + 1))"
      unfolding mem_view_insert [symmetric] by (simp add: mem_view_def)
    show "chain_inv hexe (mem_view None ?s') (take (h + 1) blocks)"
      using s1(2) unfolding v chain_inv_tip by (simp add: mem_contents_view)
    have "mem_get_indexed_height None ?s' = Inr (h + 1 - 1)"
      by (rule mem_get_indexed_height_eq) (use lt(2) v in simp_all)
    then show "mem_get_indexed_height None ?s' = Inr h" by simp
    show "height ?s' = h" by simp
  qed
qed

lemma mem_block_run:
  assumes "chain_inv hexe (mem_view lbl s) blocks" "chain_ok (blocks @ [kvs])" "height s < u32_max"
  obtains s' where
    "calculate_and_store_state_root_batched hexe (mem_get lbl s) (commit_via (mem_write lbl) s)
        (length blocks) kvs bh c = (Inr (EMPTY_NODE_HASH, s'), clear_caches c)"
    "chain_inv hexe (mem_view lbl s') (blocks @ [kvs])" "height s' < u32_max"
    "mem_view lbl s' TIP_HEIGHT_KEY = Some (le_bytes 4 (length blocks))"
  using mem_kv.block_commit [OF assms] by metis

lemma mem_view_new: "mem_view lbl mem_new = Map.empty"
  by (simp add: mem_view_def mem_contents_def mem_new_def fun_eq_iff)

text \<open>A store with two blocks, and the tip the sync layer then records.\<close>

lemma sample_mem_store:
  obtains s where "chain_inv encode_hex_fast (mem_view None s) [[(''k'', ''a'')], [(''k'', ''b'')]]"
    "mem_get_indexed_height None s = Inr 1"
proof -
  have ok: "chain_ok ([] @ [[(''k'', ''a'')]])" "chain_ok ([[(''k'', ''a'')]] @ [[(''k'', ''b'')]])"
    by (simp_all add: chain_ok_def user_block_def reserved_base_def manifest_base_def blockhash_base_def
        total_pairs_def u32_max_def)
  have new: "chain_inv encode_hex_fast (mem_view None mem_new) []" "height mem_new < u32_max"
    using chain_inv_empty mem_view_new by (simp_all add: mem_new_def u32_max_def)
  obtain s1 where s1: "chain_inv encode_hex_fast (mem_view None s1) ([] @ [[(''k'', ''a'')]])" "height s1 < u32_max"
    by (rule mem_block_run [OF new(1) ok(1) new(2), where bh = "[]" and c = new_caches]) (rule that)
  obtain s2 where s2: "chain_inv encode_hex_fast (mem_view None s2) ([[(''k'', ''a'')]] @ [[(''k'', ''b'')]])"
    by (rule mem_block_run [OF _ ok(2) s1(2), where bh = "[]" and c = new_caches and hexe = encode_hex_fast
          and lbl = None]) (use s1(1) that in auto)
  let ?s = "mem_insert (to_labeled_key None TIP_HEIGHT_KEY) (le_bytes 4 2) s2"
  show ?thesis
  proof (rule that [of ?s])
    show "chain_inv encode_hex_fast (mem_view None ?s) [[(''k'', ''a'')], [(''k'', ''b'')]]"
      using s2 unfolding mem_view_insert chain_inv_tip by simp
    have "mem_get_indexed_height None ?s = Inr (2 - 1)"
      by (rule mem_get_indexed_height_eq) (simp_all add: mem_view_insert u32_max_def)
    then show "mem_get_indexed_height None ?s = Inr 1" by simp
  qed
qed

text \<open>
  C11: the in-memory adapter rolls back as it should. On a store that holds an indexed chain
  and whose tip is above the target, \<open>rollback_to_height\<close> succeeds, the tip it then
  reports is the target, and every historical query answers as if only the blocks up to
  the target had been indexed.
\<close>

theorem mem_rollback_restores_chain:
  assumes "hex_codec hexe hexd" "chain_inv hexe (mem_view None s) blocks" "chain_ok blocks"
    "mem_get_indexed_height None s = Inr ch" "h < ch" "h < u32_max"
  shows "\<exists>s'. mem_rollback_to_height None h s = (Inr (), s') \<and> mem_get_indexed_height None s' = Inr h
     \<and> (\<forall>key q. get_at_height (mem_get None s') hexd key q = Inr (last_write (take (h + 1) blocks) key q))"
proof -
  obtain s' where s': "mem_rollback_to_height None h s = (Inr (), s')"
      "chain_inv hexe (mem_view None s') (take (h + 1) blocks)" "mem_get_indexed_height None s' = Inr h"
    by (rule mem_rollback_run [OF assms]) (rule that)
  with mem_kv.indexed_query [OF assms(1) s'(2) chain_ok_take [OF assms(3)]] show ?thesis by blast
qed

theorem mem_rollback_restores_chain_witness:
  "\<exists>s s'. mem_rollback_to_height None 0 s = (Inr (), s') \<and> mem_get_indexed_height None s = Inr 1
     \<and> mem_get_indexed_height None s' = Inr 0
     \<and> get_at_height (mem_get None s') hex_decode ''k'' 5 = Inr (Some ''a'')"
proof -
  obtain s where s: "chain_inv encode_hex_fast (mem_view None s) [[(''k'', ''a'')], [(''k'', ''b'')]]"
      "mem_get_indexed_height None s = Inr 1"
    by (rule sample_mem_store)
  have "chain_ok [[(''k'', ''a'')], [(''k'', ''b'')]]" "(0::nat) < 1" "0 < u32_max"
    by (simp_all add: chain_ok_def user_block_def reserved_base_def manifest_base_def blockhash_base_def
        total_pairs_def u32_max_def)
  from mem_rollback_restores_chain [OF hx.hex_codec_axioms s(1) this(1) s(2) this(2,3)]
  obtain s' where "mem_rollback_to_height None 0 s = (Inr (), s')" "mem_get_indexed_height None s' = Inr 0"
      "get_at_height (mem_get None s') hex_decode ''k'' 5
        = Inr (last_write (take (0 + 1) [[(''k'', ''a'')], [(''k'', ''b'')]]) ''k'' 5)"
    by blast
  moreover have "last_write (take (0 + 1) [[(''k'', ''a'')], [(''k'', ''b'')]]) ''k'' 5 = Some ''a''"
    by (simp add: last_write_def block_values_def)
  ultimately show ?thesis using s(2) by (intro exI [of _ s] exI [of _ s']) simp
qed

text \<open>
  Committing through the in-memory adapter. A block written through
  \<open>KeyValueStoreLike::write\<close> with any process label extends the indexed chain the labeled
  view shows. The tip record it leaves holds the block's height, so the adapter's
  \<open>get_indexed_height\<close>, which expects one more, reports one block less until the sync
  layer's \<open>set_indexed_height\<close> has run.
\<close>

theorem mem_block_commit:
  assumes "hex_codec hexe hexd" "chain_inv hexe (mem_view lbl s) blocks" "chain_ok (blocks @ [kvs])"
    "height s < u32_max" "length blocks < u32_max"
  shows "\<exists>s' s''. calculate_and_store_state_root_batched hexe (mem_get lbl s) (commit_via (mem_write lbl) s)
        (length blocks) kvs bh c = (Inr (EMPTY_NODE_HASH, s'), clear_caches c)
     \<and> (\<forall>key q. get_at_height (mem_get lbl s') hexd key q = Inr (last_write (blocks @ [kvs]) key q))
     \<and> mem_get_indexed_height lbl s' = Inr (length blocks - 1)
     \<and> mem_set_indexed_height lbl (length blocks) s' = (Inr (), s'')
     \<and> mem_get_indexed_height lbl s'' = Inr (length blocks)"
proof -
  obtain s' where s': "calculate_and_store_state_root_batched hexe (mem_get lbl s) (commit_via (mem_write lbl) s)
        (length blocks) kvs bh c = (Inr (EMPTY_NODE_HASH, s'), clear_caches c)"
      "chain_inv hexe (mem_view lbl s') (blocks @ [kvs])"
      "mem_view lbl s' TIP_HEIGHT_KEY = Some (le_bytes 4 (length blocks))"
    by (rule mem_block_run [OF assms(2-4), where bh = bh and c = c]) (rule that)
  let ?s'' = "mem_set_height (length blocks)
      (mem_insert (to_labeled_key lbl TIP_HEIGHT_KEY) (le_bytes 4 (length blocks + 1)) s')"
  have "mem_view lbl ?s'' TIP_HEIGHT_KEY = Some (le_bytes 4 (length blocks + 1))"
    by (simp add: mem_view_def)
  from mem_get_indexed_height_eq [OF this] mem_get_indexed_height_eq [OF s'(3)] assms(5)
  have "mem_get_indexed_height lbl s' = Inr (length blocks - 1)"
      "mem_get_indexed_height lbl ?s'' = Inr (length blocks)" by simp_all
  with s'(1) mem_set_indexed_height_run [OF assms(5)]
    mem_kv.indexed_query [OF assms(1) s'(2) assms(3)] show ?thesis by blast
qed

theorem mem_block_commit_witness:
  "\<exists>s'. calculate_and_store_state_root_batched encode_hex_fast (mem_get (Some ''x://'') mem_new)
        (commit_via (mem_write (Some ''x://'')) mem_new) 0 [(''k'', ''v'')] [] new_caches
      = (Inr (EMPTY_NODE_HASH, s'), clear_caches new_caches)
    \<and> get_at_height (mem_get (Some ''x://'') s') hex_decode ''k'' 3 = Inr (Some ''v'')"
proof -
  have "chain_inv encode_hex_fast (mem_view (Some ''x://'') mem_new) []"
      "chain_ok ([] @ [[(''k'', ''v'')]])" "height mem_new < u32_max" "length ([] :: block_kvs list) < u32_max"
    using chain_inv_empty mem_view_new
    by (simp_all add: mem_new_def u32_max_def chain_ok_def user_block_def reserved_base_def
        manifest_base_def blockhash_base_def total_pairs_def)
  from mem_block_commit [OF hx.hex_codec_axioms this, of "[]" new_caches]
  obtain s' where s': "calculate_and_store_state_root_batched encode_hex_fast (mem_get (Some ''x://'') mem_new)
        (commit_via (mem_write (Some ''x://'')) mem_new) (length ([] :: block_kvs list)) [(''k'', ''v'')] [] new_caches
      = (Inr (EMPTY_NODE_HASH, s'), clear_caches new_caches)"
      "get_at_height (mem_get (Some ''x://'') s') hex_decode ''k'' 3
        = Inr (last_write ([] @ [[(''k'', ''v'')]]) ''k'' 3)"
    by blast
  have "last_write ([] @ [[(''k'', ''v'')]]) ''k'' 3 = Some ''v''"
    by (simp add: last_write_def block_values_def)
  with s' show ?thesis by (intro exI [of _ s']) simp
qed

end
