(* ===== verification/RocksRuntime.thy ===== *)
theory RocksRuntime
  imports RocksDb SmtUpdate
begin

text \<open>
  The backend the runtime executes on, \<open>crates/rockshrew-runtime/src/adapter.rs\<close>:
  \<open>RocksDBRuntimeAdapter\<close> with the process label, the read-only fork database, the
  in-memory write shadow of preview mode and the update tracker. Its contract as a
  \<open>KeyValueStoreLike\<close> is discharged for production mode without a fork and for preview
  mode; a forked adapter in production mode breaks it on deletes.
\<close>

type_synonym shadow = "(bytes \<times> bytes option) list"

text \<open>A registered tracker is seen through the updates it has been handed.\<close>

record 'd rocks_runtime =
  rt_db :: 'd
  rt_fork :: "'d option"
  rt_height :: nat
  kv_tracker :: "(bytes \<times> bytes) list option"
  write_shadow :: "shadow option"

definition make_labeled_key_fast :: "bytes option \<Rightarrow> bytes \<Rightarrow> bytes" where
  "make_labeled_key_fast lbl key = (case lbl of Some label \<Rightarrow> label @ key | None \<Rightarrow> key)"

definition rt_new :: "'d \<Rightarrow> 'd rocks_runtime" where
  "rt_new d = \<lparr>rt_db = d, rt_fork = None, rt_height = 0, kv_tracker = None, write_shadow = None\<rparr>"

definition set_kv_tracker :: "(bytes \<times> bytes) list option \<Rightarrow> 'd rocks_runtime \<Rightarrow> 'd rocks_runtime" where
  "set_kv_tracker tracker s = s\<lparr>kv_tracker := tracker\<rparr>"

definition track_kv_update_internal :: "bytes \<Rightarrow> bytes \<Rightarrow> 'd rocks_runtime \<Rightarrow> 'd rocks_runtime" where
  "track_kv_update_internal key val s =
     (case kv_tracker s of
        Some seen \<Rightarrow> s\<lparr>kv_tracker := Some (seen @ [(key, val)])\<rparr>
      | None \<Rightarrow> s)"

definition rt_track_kv_update :: "bytes \<Rightarrow> bytes \<Rightarrow> 'd rocks_runtime \<Rightarrow> 'd rocks_runtime" where
  "rt_track_kv_update key val s =
     (if write_shadow s \<noteq> None then s else track_kv_update_internal key val s)"

text \<open>\<open>RocksDBBatch::put\<close> and \<open>delete\<close> label the key as they record it.\<close>

definition rocks_batch :: "bytes option \<Rightarrow> batch \<Rightarrow> batch" where
  "rocks_batch lbl ops = map (\<lambda>x. case x of
     Put k v \<Rightarrow> Put (make_labeled_key_fast lbl k) v
   | Delete k \<Rightarrow> Delete (make_labeled_key_fast lbl k)) ops"

text \<open>\<open>BatchTracker\<close>: forward each operation, and hand the puts to the tracker.\<close>

definition batch_tracker_step :: "batch_op \<Rightarrow> batch \<times> 'd rocks_runtime \<Rightarrow> batch \<times> 'd rocks_runtime" where
  "batch_tracker_step x st =
     (case st of (inner, s) \<Rightarrow>
        case x of
          Put k v \<Rightarrow> (inner @ [Put k v], track_kv_update_internal k v s)
        | Delete k \<Rightarrow> (inner @ [Delete k], s))"

definition create_atomic_batch ::
    "bytes option \<Rightarrow> batch \<Rightarrow> ('d rocks_runtime, batch) st" where
  "create_atomic_batch lbl operations s =
     (case add_u32 (rt_height s) 1 of
        Inl e \<Rightarrow> (Inl e, s)
      | Inr n \<Rightarrow>
          (case fold batch_tracker_step operations
                  ([Put (make_labeled_key_fast lbl TIP_HEIGHT_KEY) (le_bytes 4 n)], s) of
             (atomic_batch, s') \<Rightarrow> (Inr atomic_batch, s')))"

definition on_db :: "('d, unit) st \<Rightarrow> ('d rocks_runtime, unit) st" where
  "on_db f s = (case f (rt_db s) of (r, d) \<Rightarrow> (r, s\<lparr>rt_db := d\<rparr>))"

definition write_atomic_batch :: "'d rocks \<Rightarrow> batch \<Rightarrow> ('d rocks_runtime, unit) st" where
  "write_atomic_batch R batch = on_db (rocks_write_sync R batch)"

text \<open>\<open>ShadowApplier\<close>\<close>

definition shadow_apply :: "batch_op \<Rightarrow> shadow \<Rightarrow> shadow" where
  "shadow_apply x sh =
     (case x of
        Put k v \<Rightarrow> AList.update k (Some v) sh
      | Delete k \<Rightarrow> AList.update k None sh)"

definition rt_write :: "bytes option \<Rightarrow> 'd rocks \<Rightarrow> batch \<Rightarrow> ('d rocks_runtime, unit) st" where
  "rt_write lbl R ops s =
     (case write_shadow s of
        Some sh \<Rightarrow> (Inr (), s\<lparr>write_shadow := Some (fold shadow_apply (rocks_batch lbl ops) sh)\<rparr>)
      | None \<Rightarrow>
          sbind (create_atomic_batch lbl (rocks_batch lbl ops))
            (\<lambda>atomic_batch. write_atomic_batch R atomic_batch) s)"

definition rt_get :: "bytes option \<Rightarrow> 'd rocks \<Rightarrow> 'd rocks_runtime \<Rightarrow> bytes \<Rightarrow> bytes option result" where
  "rt_get lbl R s key =
     (let labeled_key = make_labeled_key_fast lbl key in
      case Option.bind (write_shadow s) (\<lambda>sh. map_of sh labeled_key) of
        Some opt \<Rightarrow> Inr opt
      | None \<Rightarrow>
          rbind (rocks_get R (rt_db s) labeled_key) (\<lambda>r.
            case r of
              Some val \<Rightarrow> Inr (Some val)
            | None \<Rightarrow>
                (case rt_fork s of
                   Some fork \<Rightarrow> rocks_get R fork labeled_key
                 | None \<Rightarrow> Inr None)))"

definition rt_delete :: "bytes option \<Rightarrow> 'd rocks \<Rightarrow> bytes \<Rightarrow> ('d rocks_runtime, unit) st" where
  "rt_delete lbl R key s =
     (let labeled_key = make_labeled_key_fast lbl key in
      case write_shadow s of
        Some sh \<Rightarrow> (Inr (), s\<lparr>write_shadow := Some (AList.update labeled_key None sh)\<rparr>)
      | None \<Rightarrow> on_db (rocks_delete R labeled_key) s)"

definition rt_put :: "bytes option \<Rightarrow> 'd rocks \<Rightarrow> bytes \<Rightarrow> bytes \<Rightarrow> ('d rocks_runtime, unit) st" where
  "rt_put lbl R key val s =
     (let labeled_key = make_labeled_key_fast lbl key in
      case write_shadow s of
        Some sh \<Rightarrow> (Inr (), s\<lparr>write_shadow := Some (AList.update labeled_key (Some val) sh)\<rparr>)
      | None \<Rightarrow>
          let should_track = (kv_tracker s \<noteq> None);
              s1 = (if should_track then rt_track_kv_update key val s else s)
          in on_db (rocks_put R labeled_key val) s1)"

text \<open>A raw iterator stops being valid at an error.\<close>

fun raw_entries :: "(bytes \<times> bytes) result list \<Rightarrow> (bytes \<times> bytes) list" where
  "raw_entries (Inr e # es) = e # raw_entries es"
| "raw_entries _ = []"

text \<open>The loop that adds the overlay's matching overrides; tombstones add nothing.\<close>

fun shadow_matches :: "bytes \<Rightarrow> shadow \<Rightarrow> (bytes \<times> bytes) list" where
  "shadow_matches prefix_bytes [] = []"
| "shadow_matches prefix_bytes ((k, v_opt) # sh) =
     (if prefix prefix_bytes k then
        (case v_opt of
           Some v \<Rightarrow> (k, v) # shadow_matches prefix_bytes sh
         | None \<Rightarrow> shadow_matches prefix_bytes sh)
      else shadow_matches prefix_bytes sh)"

definition rt_scan_prefix ::
    "bytes option \<Rightarrow> 'd rocks \<Rightarrow> 'd rocks_runtime \<Rightarrow> bytes \<Rightarrow> (bytes \<times> bytes) list result" where
  "rt_scan_prefix lbl R s pre =
     (let prefix_bytes = make_labeled_key_fast lbl pre;
          results = takeWhile (\<lambda>(key, _). prefix prefix_bytes key)
                      (dropWhile (\<lambda>(key, _). key < prefix_bytes) (raw_entries (rocks_iterator R (rt_db s))))
      in Inr (case write_shadow s of
                None \<Rightarrow> results
              | Some sh \<Rightarrow>
                  filter (\<lambda>(k, _). map_of sh k = None) results
                  @ shadow_matches prefix_bytes sh))"

definition rt_keys :: "'d rocks \<Rightarrow> 'd rocks_runtime \<Rightarrow> bytes list result" where
  "rt_keys R s =
     (let db_keys = concat (map (\<lambda>item. case item of Inr (k, _) \<Rightarrow> [k] | Inl _ \<Rightarrow> [])
                      (rocks_iterator R (rt_db s)))
      in Inr (case write_shadow s of
                None \<Rightarrow> db_keys
              | Some sh \<Rightarrow>
                  filter (\<lambda>k. map_of sh k = None) db_keys
                  @ concat (map (\<lambda>(k, v). if v \<noteq> None then [k] else []) sh)))"

definition rt_set_height :: "nat \<Rightarrow> 'd rocks_runtime \<Rightarrow> 'd rocks_runtime" where
  "rt_set_height h s = s\<lparr>rt_height := h\<rparr>"

definition rt_get_height :: "'d rocks_runtime \<Rightarrow> nat" where
  "rt_get_height s = rt_height s"

definition rt_create_isolated_copy :: "'d rocks_runtime \<Rightarrow> 'd rocks_runtime" where
  "rt_create_isolated_copy s = \<lparr>rt_db = rt_db s, rt_fork = rt_fork s, rt_height = rt_height s,
     kv_tracker = None, write_shadow = Some []\<rparr>"

text \<open>\<open>bytes[..4]\<close> panics on a shorter record.\<close>

definition rt_query_height :: "bytes option \<Rightarrow> 'd rocks \<Rightarrow> 'd \<Rightarrow> nat \<Rightarrow> nat result" where
  "rt_query_height lbl R d start_block =
     rbind (rocks_get R d (make_labeled_key_fast lbl TIP_HEIGHT_KEY)) (\<lambda>r.
       case r of
         None \<Rightarrow> Inr start_block
       | Some bytes \<Rightarrow>
           if length bytes = 0 then Inr start_block
           else if length bytes < 4 then Inl ''range end index 4 out of range''
           else Inr (from_le (take 4 bytes)))"

definition rt_query_height_legacy :: "bytes option \<Rightarrow> 'd rocks \<Rightarrow> 'd \<Rightarrow> nat \<Rightarrow> nat result" where
  "rt_query_height_legacy lbl R d start_block =
     rbind (rocks_get R d (if lbl \<noteq> None then to_labeled_key lbl TIP_HEIGHT_KEY else TIP_HEIGHT_KEY)) (\<lambda>r.
       case r of
         None \<Rightarrow> Inr start_block
       | Some bytes \<Rightarrow>
           if length bytes = 0 then Inr start_block
           else if length bytes < 4 then Inl ''range end index 4 out of range''
           else Inr (from_le (take 4 bytes)))"

subsection \<open>What the reads show\<close>

definition rt_base :: "('d \<Rightarrow> kvmap) \<Rightarrow> 'd rocks_runtime \<Rightarrow> kvmap" where
  "rt_base contents s = (\<lambda>k.
     case contents (rt_db s) k of
       Some v \<Rightarrow> Some v
     | None \<Rightarrow> Option.bind (rt_fork s) (\<lambda>f. contents f k))"

definition rt_raw :: "('d \<Rightarrow> kvmap) \<Rightarrow> 'd rocks_runtime \<Rightarrow> kvmap" where
  "rt_raw contents s = (\<lambda>k.
     case Option.bind (write_shadow s) (\<lambda>sh. map_of sh k) of
       Some opt \<Rightarrow> opt
     | None \<Rightarrow> rt_base contents s k)"

lemma rt_base_update [simp]:
  "rt_base contents (s\<lparr>write_shadow := sh\<rparr>) = rt_base contents s"
  "rt_base contents (s\<lparr>kv_tracker := t\<rparr>) = rt_base contents s"
  by (simp_all add: rt_base_def cong: option.case_cong)

definition rt_view :: "bytes option \<Rightarrow> ('d \<Rightarrow> kvmap) \<Rightarrow> 'd rocks_runtime \<Rightarrow> kvmap" where
  "rt_view lbl contents s = (\<lambda>k. rt_raw contents s (make_labeled_key_fast lbl k))"

definition rt_writable :: "'d rocks_runtime \<Rightarrow> bool" where
  "rt_writable s \<longleftrightarrow> write_shadow s \<noteq> None \<or> rt_fork s = None \<and> rt_height s < u32_max"

lemma labeled_fast_inject [simp]: "make_labeled_key_fast lbl k = make_labeled_key_fast lbl k' \<longleftrightarrow> k = k'"
  by (simp add: make_labeled_key_fast_def split: option.splits)

lemma labeled_fast_eq: "make_labeled_key_fast = to_labeled_key"
  by (simp add: fun_eq_iff make_labeled_key_fast_def to_labeled_key_def)

lemma rt_get_eq:
  assumes "rocks_ok R contents"
  shows "rt_get lbl R s = reader_of (rt_view lbl contents s)"
  by (auto simp: fun_eq_iff rt_get_def reader_of_def rt_view_def rt_raw_def rt_base_def Let_def rocks_okD(1) [OF assms]
      split: option.splits)

lemma rocks_batch_Cons:
  "rocks_batch lbl (Put k v # b) = Put (make_labeled_key_fast lbl k) v # rocks_batch lbl b"
  "rocks_batch lbl (Delete k # b) = Delete (make_labeled_key_fast lbl k) # rocks_batch lbl b"
  "rocks_batch lbl [] = []"
  by (simp_all add: rocks_batch_def)

lemma rocks_batch_view:
  "apply_ops (rocks_batch lbl b) m (make_labeled_key_fast lbl k)
     = apply_ops b (\<lambda>k. m (make_labeled_key_fast lbl k)) k"
proof (induction b arbitrary: m)
  case (Cons x b)
  show ?case
  proof (cases x)
    case (Put k' v)
    have "(\<lambda>j. (m(make_labeled_key_fast lbl k' \<mapsto> v)) (make_labeled_key_fast lbl j))
        = (\<lambda>j. m (make_labeled_key_fast lbl j))(k' \<mapsto> v)" by (simp add: fun_eq_iff)
    with Put Cons show ?thesis by (simp add: rocks_batch_Cons del: fun_upd_apply)
  next
    case (Delete k')
    have "(\<lambda>j. (m(make_labeled_key_fast lbl k' := None)) (make_labeled_key_fast lbl j))
        = (\<lambda>j. m (make_labeled_key_fast lbl j))(k' := None)" by (simp add: fun_eq_iff)
    with Delete Cons show ?thesis by (simp add: rocks_batch_Cons del: fun_upd_apply)
  qed
qed (simp add: rocks_batch_Cons)

lemma shadow_apply_raw:
  "rt_raw contents (s\<lparr>write_shadow := Some (shadow_apply x sh)\<rparr>)
    = apply_op x (rt_raw contents (s\<lparr>write_shadow := Some sh\<rparr>))"
  by (cases x) (auto simp: rt_raw_def shadow_apply_def fun_eq_iff update_conv' cong: option.case_cong)

lemma shadow_fold_raw:
  "rt_raw contents (s\<lparr>write_shadow := Some (fold shadow_apply b sh)\<rparr>)
    = apply_ops b (rt_raw contents (s\<lparr>write_shadow := Some sh\<rparr>))"
  by (induction b arbitrary: sh) (simp_all add: shadow_apply_raw)

lemma batch_tracker_run:
  "\<exists>t. fold batch_tracker_step b (inner, s) = (inner @ b, s\<lparr>kv_tracker := t\<rparr>)"
proof (induction b arbitrary: inner s)
  case Nil
  show ?case by (rule exI [of _ "kv_tracker s"]) simp
next
  case (Cons x b)
  obtain t where "batch_tracker_step x (inner, s) = (inner @ [x], s\<lparr>kv_tracker := t\<rparr>)"
  proof (cases x)
    case (Put k v)
    then show ?thesis
      using that [of "kv_tracker s"] that [of "Some (the (kv_tracker s) @ [(k, v)])"]
      by (cases "kv_tracker s") (simp_all add: batch_tracker_step_def track_kv_update_internal_def)
  next
    case (Delete k)
    then show ?thesis using that [of "kv_tracker s"] by (simp add: batch_tracker_step_def)
  qed
  with Cons [of "inner @ [x]" "s\<lparr>kv_tracker := t\<rparr>"] show ?case by auto
qed

lemma rt_write_shadow:
  assumes "write_shadow s = Some sh"
  shows "rt_write lbl R b s = (Inr (), s\<lparr>write_shadow := Some (fold shadow_apply (rocks_batch lbl b) sh)\<rparr>)"
    and "rt_raw contents (s\<lparr>write_shadow := Some (fold shadow_apply (rocks_batch lbl b) sh)\<rparr>)
      = apply_ops (rocks_batch lbl b) (rt_raw contents s)"
proof -
  have "s\<lparr>write_shadow := Some sh\<rparr> = s" using assms by simp
  then show "rt_raw contents (s\<lparr>write_shadow := Some (fold shadow_apply (rocks_batch lbl b) sh)\<rparr>)
      = apply_ops (rocks_batch lbl b) (rt_raw contents s)"
    by (simp add: shadow_fold_raw)
qed (simp add: rt_write_def assms)

lemma rt_write_production:
  assumes ok: "rocks_ok R contents" and "write_shadow s = None" "rt_fork s = None" "rt_height s < u32_max"
  shows "\<exists>s'. rt_write lbl R b s = (Inr (), s') \<and> write_shadow s' = None \<and> rt_fork s' = None
     \<and> rt_height s' = rt_height s
     \<and> rt_raw contents s' = apply_ops (rocks_batch lbl b)
          ((rt_raw contents s)(make_labeled_key_fast lbl TIP_HEIGHT_KEY \<mapsto> le_bytes 4 (rt_height s + 1)))"
proof -
  let ?tip = "Put (make_labeled_key_fast lbl TIP_HEIGHT_KEY) (le_bytes 4 (rt_height s + 1))"
  obtain t where t: "fold batch_tracker_step (rocks_batch lbl b) ([?tip], s)
      = ([?tip] @ rocks_batch lbl b, s\<lparr>kv_tracker := t\<rparr>)"
    using batch_tracker_run by blast
  obtain d' where d': "rocks_write_sync R (?tip # rocks_batch lbl b) (rt_db s) = (Inr (), d')"
      "contents d' = apply_ops (?tip # rocks_batch lbl b) (contents (rt_db s))"
    using rocks_okD(5) [OF ok] by blast
  have raw: "rt_raw contents x = contents (rt_db x)" if "write_shadow x = None" "rt_fork x = None"
    for x :: "'a rocks_runtime"
    using that by (simp add: rt_raw_def rt_base_def fun_eq_iff split: option.splits)
  have "rt_write lbl R b s = (Inr (), s\<lparr>kv_tracker := t, rt_db := d'\<rparr>)"
    using assms(2,4) t d'(1)
    by (simp add: rt_write_def create_atomic_batch_def sbind_def write_atomic_batch_def on_db_def)
  then show ?thesis
    using assms(2,3) by (simp add: raw d'(2))
qed

lemma rt_kv_store:
  assumes "rocks_ok R contents"
  shows "kv_store (rt_get lbl R) (rt_write lbl R) (rt_view lbl contents) rt_writable"
proof
  fix s show "rt_get lbl R s = reader_of (rt_view lbl contents s)" by (rule rt_get_eq [OF assms])
next
  fix s :: "'a rocks_runtime" and b assume w: "rt_writable s"
  show "\<exists>s' tip. rt_write lbl R b s = (Inr (), s')
       \<and> rt_view lbl contents s' = apply_ops b ((rt_view lbl contents s)(TIP_HEIGHT_KEY := tip))"
  proof (cases "write_shadow s")
    case (Some sh)
    have "rt_view lbl contents (s\<lparr>write_shadow := Some (fold shadow_apply (rocks_batch lbl b) sh)\<rparr>)
        = apply_ops b ((rt_view lbl contents s)(TIP_HEIGHT_KEY := rt_view lbl contents s TIP_HEIGHT_KEY))"
      unfolding fun_upd_triv by (simp add: rt_view_def fun_eq_iff rt_write_shadow(2) [OF Some] rocks_batch_view)
    with rt_write_shadow(1) [OF Some] show ?thesis by blast
  next
    case None
    then obtain s' where s': "rt_write lbl R b s = (Inr (), s')"
        "rt_raw contents s' = apply_ops (rocks_batch lbl b)
          ((rt_raw contents s)(make_labeled_key_fast lbl TIP_HEIGHT_KEY \<mapsto> le_bytes 4 (rt_height s + 1)))"
      using rt_write_production [OF assms None] w unfolding rt_writable_def by blast
    have "(\<lambda>k. ((rt_raw contents s)(make_labeled_key_fast lbl TIP_HEIGHT_KEY \<mapsto> le_bytes 4 (rt_height s + 1)))
          (make_labeled_key_fast lbl k))
        = (rt_view lbl contents s)(TIP_HEIGHT_KEY \<mapsto> le_bytes 4 (rt_height s + 1))"
      by (simp add: rt_view_def fun_eq_iff)
    then have "rt_view lbl contents s' = apply_ops b
        ((rt_view lbl contents s)(TIP_HEIGHT_KEY := Some (le_bytes 4 (rt_height s + 1))))"
      by (simp add: rt_view_def [of _ _ s'] s'(2) rocks_batch_view fun_eq_iff del: fun_upd_apply)
    with s'(1) show ?thesis by blast
  qed
next
  fix s s' :: "'a rocks_runtime" and b
  assume w: "rt_writable s" and run: "rt_write lbl R b s = (Inr (), s')"
  show "rt_writable s'"
  proof (cases "write_shadow s")
    case (Some sh)
    with run show ?thesis by (auto simp: rt_write_def rt_writable_def)
  next
    case None
    with w have "rt_fork s = None" "rt_height s < u32_max" by (simp_all add: rt_writable_def)
    from rt_write_production [OF assms None this, of lbl b] run this(2) show ?thesis
      by (auto simp: rt_writable_def)
  qed
qed

interpretation rt_kv: kv_store "rt_get lbl list_rocks" "rt_write lbl list_rocks" "rt_view lbl map_of" rt_writable
  for lbl
  by (rule rt_kv_store) (rule list_rocks_ok)

text \<open>The adapter as the storage of the tree helpers.\<close>

definition rt_ops :: "bytes option \<Rightarrow> 'd rocks \<Rightarrow> 'd rocks_runtime store_ops" where
  "rt_ops lbl R = \<lparr>so_read = rt_get lbl R, so_scan = rt_scan_prefix lbl R, so_write = rt_write lbl R\<rparr>"

interpretation rt_smt: smt_store "rt_ops lbl list_rocks" "rt_view lbl map_of" rt_writable for lbl
  unfolding smt_store_def rt_ops_def by (simp add: rt_kv.kv_store_axioms)

subsection \<open>Prefix scans\<close>

text \<open>Keys with a common prefix are contiguous in the database's order.\<close>

lemma prefix_le: "prefix p k \<Longrightarrow> p \<le> (k :: bytes)"
proof (induction p arbitrary: k)
  case (Cons c p)
  then show ?case by (cases k) auto
qed simp

lemma prefix_between:
  "prefix p k' \<Longrightarrow> p \<le> k \<Longrightarrow> k \<le> k' \<Longrightarrow> prefix p (k :: bytes)"
proof (induction p arbitrary: k k')
  case (Cons c p)
  obtain r where k': "k' = c # r" "prefix p r" using Cons.prems(1) by (cases k') auto
  with Cons.prems obtain j where "k = c # j" "p \<le> j" "j \<le> r" by (cases k) auto
  with Cons.IH [OF k'(2)] show ?case by simp
qed simp

lemma scan_contiguous:
  assumes "sorted (map fst kvs)"
  shows "takeWhile (\<lambda>(key, _). prefix p key) (dropWhile (\<lambda>(key, _). key < p) kvs)
    = filter (\<lambda>(key, _). prefix p key) (kvs :: (bytes \<times> bytes) list)"
  using assms
proof (induction kvs)
  case (Cons kv kvs)
  obtain k v where kv: "kv = (k, v)" by (cases kv)
  show ?case
  proof (cases "k < p")
    case True
    then have "\<not> prefix p k" using prefix_le [of p k] by auto
    with True Cons kv show ?thesis by simp
  next
    case False
    have hd: "dropWhile (\<lambda>(key, _). key < p) (kv # kvs) = kv # kvs" using False kv by simp
    have ge: "\<forall>(k', _) \<in> set kvs. k \<le> k'" using Cons.prems kv by auto
    then have drop: "dropWhile (\<lambda>(key, _). key < p) kvs = kvs"
      using False by (cases kvs) auto
    show ?thesis
    proof (cases "prefix p k")
      case True
      with Cons kv hd drop show ?thesis by simp
    next
      case no: False
      have "\<not> prefix p k'" if "(k', v') \<in> set kvs" for k' v'
        using prefix_between [of p k' k] ge that no False by (auto simp: not_less)
      then have "filter (\<lambda>(key, _). prefix p key) kvs = []" by (auto simp: filter_empty_conv)
      with no hd kv show ?thesis by simp
    qed
  qed
qed simp

lemma raw_entries_ok [simp]: "raw_entries (map Inr kvs) = kvs"
  by (induction kvs) simp_all

text \<open>The shadow as the adapter builds it, one entry per key.\<close>

definition shadow_wf :: "'d rocks_runtime \<Rightarrow> bool" where
  "shadow_wf s \<longleftrightarrow> (\<forall>sh. write_shadow s = Some sh \<longrightarrow> distinct (map fst sh))"

lemma scan_prefix_set:
  assumes ok: "rocks_ok R contents" and wf: "shadow_wf s" and nofork: "rt_fork s = None"
  shows "\<exists>kvs. rt_scan_prefix lbl R s pre = Inr kvs
     \<and> (\<forall>k v. (k, v) \<in> set kvs \<longleftrightarrow> prefix (make_labeled_key_fast lbl pre) k \<and> rt_raw contents s k = Some v)"
proof -
  let ?p = "make_labeled_key_fast lbl pre"
  obtain kvs where it: "rocks_iterator R (rt_db s) = map Inr kvs" "sorted (map fst kvs)"
      "distinct (map fst kvs)" "map_of kvs = contents (rt_db s)"
    by (rule rocks_ok_iter [OF ok]) (rule that)
  have mem: "(k, v) \<in> set kvs \<longleftrightarrow> contents (rt_db s) k = Some v" for k v
    using it(3) by (simp add: it(4) [symmetric])
  have base: "rt_base contents s k = contents (rt_db s) k" for k
    using nofork by (simp add: rt_base_def split: option.splits)
  show ?thesis
  proof (cases "write_shadow s")
    case None
    then show ?thesis
      by (auto simp: rt_scan_prefix_def Let_def it(1) scan_contiguous [OF it(2)] mem rt_raw_def base)
  next
    case (Some sh)
    have shm: "(k, v) \<in> set sh \<longleftrightarrow> map_of sh k = Some v" for k v
      using wf Some by (simp add: shadow_wf_def)
    let ?over = "shadow_matches ?p sh"
    have over: "(k, v) \<in> set ?over \<longleftrightarrow> prefix ?p k \<and> map_of sh k = Some (Some v)" for k v
    proof -
      have "(k, v) \<in> set (shadow_matches ?p l) \<longleftrightarrow> prefix ?p k \<and> (k, Some v) \<in> set l" for l
        by (induction ?p l rule: shadow_matches.induct) (auto split: option.splits)
      then show ?thesis by (simp only: shm)
    qed
    have raw: "rt_raw contents s k = (case map_of sh k of Some opt \<Rightarrow> opt | None \<Rightarrow> contents (rt_db s) k)" for k
      using Some by (simp add: rt_raw_def base cong: option.case_cong)
    have eq: "rt_scan_prefix lbl R s pre = Inr (filter (\<lambda>(k, _). map_of sh k = None)
        (filter (\<lambda>(key, _). prefix ?p key) kvs) @ ?over)"
      unfolding rt_scan_prefix_def Let_def it(1) raw_entries_ok scan_contiguous [OF it(2)] Some
      by (simp only: option.case)
    show ?thesis
    proof (rule exI, rule conjI, rule eq, intro allI)
      fix k v
      show "(k, v) \<in> set (filter (\<lambda>(k, _). map_of sh k = None) (filter (\<lambda>(key, _). prefix ?p key) kvs) @ ?over)
        \<longleftrightarrow> prefix ?p k \<and> rt_raw contents s k = Some v"
        unfolding raw set_append Un_iff over by (auto simp: mem split: option.splits)
    qed
  qed
qed

subsection \<open>A preview session\<close>

datatype rt_call = WriteBatch batch | PutKey bytes bytes | DeleteKey bytes

fun rt_step :: "bytes option \<Rightarrow> 'd rocks \<Rightarrow> rt_call \<Rightarrow> ('d rocks_runtime, unit) st" where
  "rt_step lbl R (WriteBatch b) = rt_write lbl R b"
| "rt_step lbl R (PutKey k v) = rt_put lbl R k v"
| "rt_step lbl R (DeleteKey k) = rt_delete lbl R k"

fun call_ops :: "rt_call \<Rightarrow> batch" where
  "call_ops (WriteBatch b) = b"
| "call_ops (PutKey k v) = [Put k v]"
| "call_ops (DeleteKey k) = [Delete k]"

definition rt_session :: "bytes option \<Rightarrow> 'd rocks \<Rightarrow> rt_call list \<Rightarrow> ('d rocks_runtime, unit) st" where
  "rt_session lbl R calls = sfold (\<lambda>c _. rt_step lbl R c) calls ()"

lemma shadow_apply_distinct: "distinct (map fst sh) \<Longrightarrow> distinct (map fst (shadow_apply x sh))"
  by (cases x) (simp_all add: shadow_apply_def distinct_update)

lemma shadow_fold_distinct: "distinct (map fst sh) \<Longrightarrow> distinct (map fst (fold shadow_apply b sh))"
  by (induction b arbitrary: sh) (simp_all add: shadow_apply_distinct)

lemma rt_step_shadow:
  assumes "write_shadow s = Some sh"
  shows "rt_step lbl R c s
    = (Inr (), s\<lparr>write_shadow := Some (fold shadow_apply (rocks_batch lbl (call_ops c)) sh)\<rparr>)"
  using assms
  by (cases c) (simp_all add: rt_write_def rt_put_def rt_delete_def rocks_batch_Cons shadow_apply_def)

lemma rt_session_shadow:
  assumes "write_shadow s = Some sh" "distinct (map fst sh)"
  shows "\<exists>sh'. rt_session lbl R calls s = (Inr (), s\<lparr>write_shadow := Some sh'\<rparr>) \<and> distinct (map fst sh')
     \<and> rt_view lbl contents (s\<lparr>write_shadow := Some sh'\<rparr>)
         = apply_ops (concat (map call_ops calls)) (rt_view lbl contents s)"
  using assms
proof (induction calls arbitrary: s sh)
  case Nil
  then have same: "s\<lparr>write_shadow := Some sh\<rparr> = s" by simp
  show ?case by (rule exI [of _ sh]) (use Nil in \<open>simp add: rt_session_def same\<close>)
next
  case (Cons c calls)
  let ?sh = "fold shadow_apply (rocks_batch lbl (call_ops c)) sh"
  let ?s = "s\<lparr>write_shadow := Some ?sh\<rparr>"
  obtain sh' where sh': "rt_session lbl R calls ?s = (Inr (), ?s\<lparr>write_shadow := Some sh'\<rparr>)"
      "distinct (map fst sh')"
      "rt_view lbl contents (?s\<lparr>write_shadow := Some sh'\<rparr>)
         = apply_ops (concat (map call_ops calls)) (rt_view lbl contents ?s)"
    using Cons.IH [of ?s ?sh] Cons.prems(2) shadow_fold_distinct by auto
  have "rt_view lbl contents ?s = apply_ops (call_ops c) (rt_view lbl contents s)"
    by (simp add: rt_view_def fun_eq_iff rt_write_shadow(2) [OF Cons.prems(1)] rocks_batch_view)
  with sh' rt_step_shadow [OF Cons.prems(1), of lbl R c] show ?case
    by (intro exI [of _ sh']) (simp add: rt_session_def)
qed

definition sample_runtime :: "list_db rocks_runtime" where
  "sample_runtime = rt_new [(''x://k'', ''1''), (''x://k2'', ''2''), (''y'', ''3'')]"

text \<open>
  C15: a preview never touches the database. Whatever sequence of batch writes, puts and
  deletes runs on \<open>create_isolated_copy\<close>, every call succeeds, the underlying database,
  the fork and the height are the ones of the original, no tracker hears of it, and the
  copy reads as the original with those operations applied in order.
\<close>

theorem preview_is_isolated:
  assumes "rocks_ok R contents"
  shows "\<exists>s'. rt_session lbl R calls (rt_create_isolated_copy s) = (Inr (), s')
     \<and> rt_db s' = rt_db s \<and> rt_fork s' = rt_fork s \<and> rt_height s' = rt_height s \<and> kv_tracker s' = None
     \<and> (\<forall>k. rt_get lbl R s' k
           = Inr (apply_ops (concat (map call_ops calls)) (rt_view lbl contents (rt_create_isolated_copy s)) k))
     \<and> (write_shadow s = None \<longrightarrow>
           rt_view lbl contents (rt_create_isolated_copy s) = rt_view lbl contents s)"
proof -
  let ?c = "rt_create_isolated_copy s"
  have c: "write_shadow ?c = Some []" "distinct (map fst ([] :: shadow))"
    by (simp_all add: rt_create_isolated_copy_def)
  obtain sh' where sh': "rt_session lbl R calls ?c = (Inr (), ?c\<lparr>write_shadow := Some sh'\<rparr>)"
      "rt_view lbl contents (?c\<lparr>write_shadow := Some sh'\<rparr>)
         = apply_ops (concat (map call_ops calls)) (rt_view lbl contents ?c)"
    using rt_session_shadow [OF c, of lbl R calls contents] by blast
  have "write_shadow s = None \<longrightarrow> rt_view lbl contents ?c = rt_view lbl contents s"
    by (simp add: rt_view_def rt_raw_def rt_base_def rt_create_isolated_copy_def cong: option.case_cong)
  then show ?thesis
    using sh' by (intro exI [of _ "?c\<lparr>write_shadow := Some sh'\<rparr>"])
       (simp add: rt_get_eq [OF assms] reader_of_apply rt_create_isolated_copy_def)
qed

theorem preview_is_isolated_witness:
  "\<exists>s'. rt_session (Some ''x://'') list_rocks [PutKey ''k'' ''9'', DeleteKey ''k2'']
         (rt_create_isolated_copy sample_runtime) = (Inr (), s')
     \<and> rt_db s' = rt_db sample_runtime
     \<and> rt_get (Some ''x://'') list_rocks s' ''k'' = Inr (Some ''9'')
     \<and> rt_get (Some ''x://'') list_rocks s' ''k2'' = Inr None"
proof -
  from preview_is_isolated [OF list_rocks_ok, of "Some ''x://''" "[PutKey ''k'' ''9'', DeleteKey ''k2'']"
      sample_runtime]
  obtain s' where "rt_session (Some ''x://'') list_rocks [PutKey ''k'' ''9'', DeleteKey ''k2'']
         (rt_create_isolated_copy sample_runtime) = (Inr (), s')" "rt_db s' = rt_db sample_runtime"
      "\<And>k. rt_get (Some ''x://'') list_rocks s' k
           = Inr (apply_ops (concat (map call_ops [PutKey ''k'' ''9'', DeleteKey ''k2'']))
               (rt_view (Some ''x://'') map_of (rt_create_isolated_copy sample_runtime)) k)" by blast
  then show ?thesis by (intro exI [of _ s']) simp
qed

text \<open>
  A prefix scan is complete and exact. On an adapter without a fork, in production or
  preview mode, \<open>scan_prefix\<close> returns exactly the entries whose stored key starts with the
  labeled prefix, with the preview's overrides and without its tombstones. The keys it
  returns carry the label.
\<close>

theorem scan_prefix_exact:
  assumes "rocks_ok R contents" "shadow_wf s" "rt_fork s = None"
  shows "\<exists>kvs. rt_scan_prefix lbl R s pre = Inr kvs
     \<and> (\<forall>k v. (k, v) \<in> set kvs \<longleftrightarrow> prefix (make_labeled_key_fast lbl pre) k \<and> rt_raw contents s k = Some v)"
  by (rule scan_prefix_set [OF assms])

theorem scan_prefix_exact_witness:
  "\<exists>kvs. rt_scan_prefix (Some ''x://'') list_rocks sample_runtime ''k'' = Inr kvs
     \<and> (''x://k2'', ''2'') \<in> set kvs \<and> (''y'', ''3'') \<notin> set kvs"
proof -
  have "shadow_wf sample_runtime" "rt_fork sample_runtime = None"
    by (simp_all add: shadow_wf_def sample_runtime_def rt_new_def)
  from scan_prefix_exact [OF list_rocks_ok this, of "Some ''x://''" "''k''"] obtain kvs where
      "rt_scan_prefix (Some ''x://'') list_rocks sample_runtime ''k'' = Inr kvs"
      "\<And>k v. (k, v) \<in> set kvs \<longleftrightarrow> prefix (make_labeled_key_fast (Some ''x://'') ''k'') k
         \<and> rt_raw map_of sample_runtime k = Some v" by blast
  then show ?thesis
    by (intro exI [of _ kvs]) (simp add: rt_raw_def rt_base_def sample_runtime_def rt_new_def make_labeled_key_fast_def)
qed

text \<open>
  A delete on a forked adapter does not delete. In production mode with a fork, a key
  the fork database holds is still read with the fork's value right after \<open>delete\<close>
  returned successfully; in preview mode the tombstone hides it.
\<close>

theorem forked_delete_resurrects:
  assumes ok: "rocks_ok R contents" and fork: "rt_fork s = Some f"
    and held: "contents f (make_labeled_key_fast lbl k) = Some v" and prod: "write_shadow s = None"
  shows "(\<exists>s'. rt_delete lbl R k s = (Inr (), s') \<and> rt_get lbl R s' k = Inr (Some v))
     \<and> (\<exists>s'. rt_delete lbl R k (rt_create_isolated_copy s) = (Inr (), s') \<and> rt_get lbl R s' k = Inr None)"
proof
  obtain d' where d': "rocks_delete R (make_labeled_key_fast lbl k) (rt_db s) = (Inr (), d')"
      "contents d' = (contents (rt_db s))(make_labeled_key_fast lbl k := None)"
    using rocks_okD(3) [OF ok] by blast
  then show "\<exists>s'. rt_delete lbl R k s = (Inr (), s') \<and> rt_get lbl R s' k = Inr (Some v)"
    using fork held prod
    by (simp add: rt_delete_def Let_def on_db_def rt_get_eq [OF ok] reader_of_apply rt_view_def rt_raw_def rt_base_def)
  show "\<exists>s'. rt_delete lbl R k (rt_create_isolated_copy s) = (Inr (), s') \<and> rt_get lbl R s' k = Inr None"
    by (simp add: rt_delete_def Let_def rt_create_isolated_copy_def rt_get_eq [OF ok] reader_of_apply
        rt_view_def rt_raw_def)
qed

theorem forked_delete_resurrects_witness:
  "\<exists>s'. rt_delete None list_rocks ''k'' ((rt_new [])\<lparr>rt_fork := Some [(''k'', ''old'')]\<rparr>) = (Inr (), s')
     \<and> rt_get None list_rocks s' ''k'' = Inr (Some ''old'')"
  using forked_delete_resurrects [OF list_rocks_ok, of "(rt_new [])\<lparr>rt_fork := Some [(''k'', ''old'')]\<rparr>"
      "[(''k'', ''old'')]" None "''k''" "''old''"]
  by (simp add: rt_new_def make_labeled_key_fast_def)

end
