(* ===== verification/SmtRoots.thy ===== *)
theory SmtRoots
  imports MemStore RocksRuntime
begin

text \<open>
  The properties of the sparse Merkle tree code: one update, the incremental root over a
  backend, the root as a commitment, and the two ways in which the code's tree loses
  leaves (a first insertion that is never written, a batch whose nodes are read back from
  storage). A toy hash, the byte sum of the input followed by ones, is collision-free on
  the nodes of the samples.
\<close>

fun byte_sum :: "bytes \<Rightarrow> nat" where
  "byte_sum [] = 0"
| "byte_sum (c # cs) = of_char c + byte_sum cs"

definition toy_sha :: "bytes \<Rightarrow> bytes" where
  "toy_sha x = char_of (byte_sum x mod 256) # replicate 31 (char_of (1 :: nat))"

lemma byte_sum_append [simp]: "byte_sum (xs @ ys) = byte_sum xs + byte_sum ys"
  by (induction xs) simp_all

lemma byte_sum_replicate: "byte_sum (replicate n c) = n * of_char c"
  by (induction n) simp_all

lemma byte_sum_toy_sha: "byte_sum (toy_sha x) = byte_sum x mod 256 + 31"
  by (simp add: toy_sha_def byte_sum_replicate)

lemma toy_sha_eq: "toy_sha x = toy_sha y \<longleftrightarrow> byte_sum x mod 256 = byte_sum y mod 256"
  by (simp add: toy_sha_def char_of_eq_iff take_bit_eq_mod)

lemma toy_sha_EMPTY: "toy_sha x \<noteq> EMPTY_NODE_HASH"
proof
  assume "toy_sha x = EMPTY_NODE_HASH"
  then have "toy_sha x ! 1 = EMPTY_NODE_HASH ! 1" by simp
  then show False by (simp add: toy_sha_def EMPTY_NODE_HASH_def)
qed

lemma length_toy_sha [simp]: "length (toy_sha x) = 32"
  by (simp add: toy_sha_def)

lemma toy_sha_256: "sha_256 toy_sha"
  by (simp add: sha_256_def toy_sha_def)

definition sample_tree :: stree where
  "sample_tree = L ''a'' (toy_sha ''1'')"

definition sample_nodes :: kvmap where
  "sample_nodes = [node_key (thash toy_sha sample_tree) \<mapsto> serialize_node (Leaf ''a'' (toy_sha ''1''))]"

lemma sample_nodes_inv: "smt_inv toy_sha sample_nodes sample_tree"
  by (simp add: smt_inv_def stored_def sample_nodes_def sample_tree_def)

lemma sample_tree_new:
  "new_tree toy_sha ''zz'' ''2'' sample_tree = N (L ''a'' (toy_sha ''1'')) (L ''zz'' (toy_sha ''2''))"
  by (simp add: new_tree_def sample_tree_def separate_differ split_tree_def key_bit_def toy_sha_def)

lemma sample_good:
  "good_nodes toy_sha (set (tnodes toy_sha sample_tree)
     \<union> set (tnodes toy_sha (new_tree toy_sha ''zz'' ''2'' sample_tree)))"
  unfolding sample_tree_new
  by (simp add: sample_tree_def good_nodes_def hash_node_def toy_sha_eq toy_sha_EMPTY byte_sum_toy_sha
      u32_max_def inj_on_def)

subsection \<open>One update\<close>

text \<open>
  C16: one update of the sparse Merkle tree. On a database that stores a tree, the batched
  update of a key returns the root of the tree with the key's leaf inserted; after the
  returned batch is written the database stores that tree, a lookup of the key under the
  new root finds the new leaf, and a lookup of any other hash answers exactly as it did
  under the old root. The hypotheses: SHA-256 returns 32 bytes and does not collide on the
  nodes of the two trees, and no two keys share 255 leading hash bits.
\<close>

theorem smt_update_correct:
  assumes "sha_256 sha" "smt_inv sha m t" "tree_depth (new_tree sha key val t) \<le> 255"
    "good_nodes sha (set (tnodes sha t) \<union> set (tnodes sha (new_tree sha key val t)))"
  shows "\<exists>root' batch. update_smt_for_key_batched sha (reader_of m) (thash sha t) key val h [] = Inr (root', batch)
     \<and> root' = thash sha (new_tree sha key val t)
     \<and> smt_inv sha (apply_ops batch m) (new_tree sha key val t)
     \<and> (\<forall>kh. get_smt_leaf sha (reader_of (apply_ops batch m)) root' kh h =
          (if kh = sha key then Inr (Some (Leaf key (sha val)))
           else get_smt_leaf sha (reader_of m) (thash sha t) kh h))"
proof -
  let ?t' = "new_tree sha key val t"
  have d: "tree_depth t \<le> 255"
    using assms(3) tree_depth_ins [of t sha key "sha val" 0] by (simp add: new_tree_def)
  obtain ns where run: "update_smt_for_key_batched sha (reader_of m) (thash sha t) key val h []
       = Inr (thash sha ?t', [] @ node_puts sha (Leaf key (sha val) # ns))"
      "rebuild_ok sha (Leaf key (sha val)) t ?t' ns"
    by (rule update_batched_run [OF assms(1,2,4) d])
  let ?m' = "apply_ops (node_puts sha (Leaf key (sha val) # ns)) m"
  have inv': "smt_inv sha ?m' ?t'"
    using smt_inv_after [OF assms(1,2)] assms(4) run(2) by (simp add: new_tree_def)
  have st: "stored sha m t" "placed sha [] t" "stored sha ?m' ?t'"
    using assms(2) inv' by (simp_all add: smt_inv_def)
  have g: "good_nodes sha (set (tnodes sha t))" "good_nodes sha (set (tnodes sha ?t'))"
    using assms(4) by (auto intro: good_nodes_subset)
  have "get_smt_leaf sha (reader_of ?m') (thash sha ?t') kh h = Inr (lookup sha kh 0 ?t')" for kh
    using assms(3) by (intro get_smt_leaf_eq st g path_fits_depth) simp
  moreover have "get_smt_leaf sha (reader_of m) (thash sha t) kh h = Inr (lookup sha kh 0 t)" for kh
    using d by (intro get_smt_leaf_eq st g path_fits_depth) simp
  moreover have "lookup sha kh 0 ?t' = (if kh = sha key then Some (Leaf key (sha val)) else lookup sha kh 0 t)" for kh
    using lookup_ins [OF assms(1) st(2) follows_Nil, where k = key and kh = kh and v = "sha val"]
    by (simp add: new_tree_def)
  ultimately show ?thesis using run(1) inv' by simp
qed

theorem smt_update_correct_witness:
  "\<exists>root' batch. update_smt_for_key_batched toy_sha (reader_of sample_nodes)
       (thash toy_sha sample_tree) ''zz'' ''2'' 0 [] = Inr (root', batch)
     \<and> get_smt_leaf toy_sha (reader_of (apply_ops batch sample_nodes)) root' (toy_sha ''zz'') 0
         = Inr (Some (Leaf ''zz'' (toy_sha ''2'')))"
proof -
  have "tree_depth (new_tree toy_sha ''zz'' ''2'' sample_tree) \<le> 255"
    unfolding sample_tree_new by simp
  from smt_update_correct [OF toy_sha_256 sample_nodes_inv this sample_good, of 0]
  show ?thesis by fastforce
qed

subsection \<open>The incremental root\<close>

text \<open>
  C17: the incremental state root over a backend. On a backend that stores a non-empty tree,
  the loop of \<open>compute_incremental_smt_root\<close> over the updated keys (each with a value at the
  height) returns, whatever order the keys come in, the root of one and the same tree; that
  tree is stored afterwards and every updated key is found in it with its value's hash.
\<close>

theorem incremental_root_correct:
  assumes "hex_codec hexe hexd" "smt_store ops view writable" "sha_256 sha"
    "smt_inv sha (view s) t" "t \<noteq> E" "writable s"
    "readable hexe (view s) h kvs" "distinct (map (sha \<circ> fst) kvs)" "mset kvs' = mset kvs"
    "good_nodes sha (trace_nodes sha kvs t)" "good_nodes sha (trace_nodes sha kvs' t)"
    "tree_depth (ins_all sha kvs t) \<le> 255"
  shows "\<exists>root s1 s2.
       compute_incremental_smt_root sha hexd ops (thash sha t) (map fst kvs) h s = (Inr root, s1)
     \<and> compute_incremental_smt_root sha hexd ops (thash sha t) (map fst kvs') h s = (Inr root, s2)
     \<and> smt_inv sha (view s1) (ins_all sha kvs t) \<and> root = thash sha (ins_all sha kvs t)
     \<and> (\<forall>(key, val) \<in> set kvs. get_smt_leaf sha (so_read ops s1) root (sha key) h
          = Inr (Some (Leaf key (sha val))))"
proof -
  let ?t' = "ins_all sha kvs t"
  have gt: "good_tree sha t" using assms(4) by (simp add: good_tree_def smt_inv_def)
  have same: "ins_all sha kvs' t = ?t'" by (rule ins_all_order [OF assms(3) gt assms(8,9)])
  note run = smt_store.incremental_run [OF assms(2,1,3,4,5)]
  obtain s1 where s1: "compute_incremental_smt_root sha hexd ops (thash sha t) (map fst kvs) h s
      = (Inr (thash sha ?t'), s1)" "smt_inv sha (view s1) ?t'"
    using run [OF assms(10,12,7,6)] by blast
  obtain s2 where s2: "compute_incremental_smt_root sha hexd ops (thash sha t) (map fst kvs') h s
      = (Inr (thash sha ?t'), s2)"
    using run [of kvs' h] assms(6,7,11,12) readable_perm [OF assms(9)] same by force
  have st: "stored sha (view s1) ?t'" "placed sha [] ?t'" using s1(2) by (simp_all add: smt_inv_def)
  have "set (tnodes sha ?t') \<subseteq> trace_nodes sha kvs t"
    by (auto simp: trace_nodes_def intro!: bexI [of _ "length kvs"])
  then have g: "good_nodes sha (set (tnodes sha ?t'))" by (rule good_nodes_subset [OF assms(10)])
  have rd: "so_read ops s1 = reader_of (view s1)"
    using assms(2) by (simp add: smt_store_def kv_store_def)
  have "get_smt_leaf sha (so_read ops s1) (thash sha ?t') (sha key) h = Inr (Some (Leaf key (sha val)))"
    if "(key, val) \<in> set kvs" for key val
  proof -
    have "(key, sha val) \<in> leaves ?t'"
      using leaves_ins_all [OF assms(3) gt assms(8)] that by force
    then have "lookup sha (sha key) 0 ?t' = Some (Leaf key (sha val))"
      using lookup_leaf [OF st(2)] by force
    moreover have "path_fits (sha key) 0 ?t'" using assms(12) by (intro path_fits_depth) simp
    ultimately show ?thesis unfolding rd by (simp add: get_smt_leaf_eq [OF st(1) g])
  qed
  then show ?thesis using s1 s2 by blast
qed

definition sample_smt_store :: mem_store where
  "sample_smt_store = with_data
     [(node_key (thash toy_sha sample_tree), serialize_node (Leaf ''a'' (toy_sha ''1''))),
      (length_key ''zz'', dec 1), (update_key ''zz'' 0, entry_bytes encode_hex_fast 0 ''2'')]"

lemma sample_smt_view:
  "mem_view None sample_smt_store = [update_key ''zz'' 0 \<mapsto> entry_bytes encode_hex_fast 0 ''2'',
     length_key ''zz'' \<mapsto> dec 1, node_key (thash toy_sha sample_tree) \<mapsto> serialize_node (Leaf ''a'' (toy_sha ''1''))]"
  by (simp add: sample_smt_store_def mem_view_def mem_contents_def with_data_def to_labeled_key_def fun_eq_iff)

lemma zz_outside: "outside_nodes ''zz''"
  by (simp add: outside_nodes_def)

lemma sample_smt_readable: "readable encode_hex_fast (mem_view None sample_smt_store) 0 [(''zz'', ''2'')]"
proof -
  have "has_log encode_hex_fast (mem_view None sample_smt_store) ''zz'' [(0, ''2'')]"
    using outside_nodes_records [OF zz_outside]
    by (simp add: sample_smt_view has_log_def u32_max_def)
  moreover have "log_wf [(0, ''2'')]" "searchable [(0, ''2'')]" "value_at 0 [(0, ''2'')] = Some ''2''"
    by (simp_all add: log_wf_def searchable_def value_at_def upto_height_def)
  ultimately show ?thesis using zz_outside by (auto simp: readable_def)
qed

lemma sample_smt_inv: "smt_inv toy_sha (mem_view None sample_smt_store) sample_tree"
  using outside_nodes_records [OF zz_outside]
  by (simp add: smt_inv_def stored_def sample_smt_view sample_tree_def)

text \<open>The same tree with the logs of two keys, whose hashes part in different bits.\<close>

definition two_updates :: "(bytes \<times> bytes) list" where
  "two_updates = [(''zz'', ''2''), (''aC'', ''3'')]"

definition two_updates_store :: mem_store where
  "two_updates_store = with_data
     [(node_key (thash toy_sha sample_tree), serialize_node (Leaf ''a'' (toy_sha ''1''))),
      (length_key ''zz'', dec 1), (update_key ''zz'' 0, entry_bytes encode_hex_fast 0 ''2''),
      (length_key ''aC'', dec 1), (update_key ''aC'' 0, entry_bytes encode_hex_fast 0 ''3'')]"

lemma two_updates_view:
  "mem_view None two_updates_store = [update_key ''aC'' 0 \<mapsto> entry_bytes encode_hex_fast 0 ''3'', length_key ''aC'' \<mapsto> dec 1,
     update_key ''zz'' 0 \<mapsto> entry_bytes encode_hex_fast 0 ''2'', length_key ''zz'' \<mapsto> dec 1,
     node_key (thash toy_sha sample_tree) \<mapsto> serialize_node (Leaf ''a'' (toy_sha ''1''))]"
  by (simp add: two_updates_store_def mem_view_def mem_contents_def with_data_def to_labeled_key_def fun_eq_iff
      update_key_def length_key_def)

lemma two_updates_readable: "readable encode_hex_fast (mem_view None two_updates_store) 0 two_updates"
proof -
  have out: "outside_nodes ''aC''" "outside_nodes ''zz''" by (simp_all add: outside_nodes_def)
  have "has_log encode_hex_fast (mem_view None two_updates_store) ''zz'' [(0, ''2'')]"
      "has_log encode_hex_fast (mem_view None two_updates_store) ''aC'' [(0, ''3'')]"
    using outside_nodes_records [OF out(1)] outside_nodes_records [OF out(2)]
    by (simp_all add: two_updates_view has_log_def u32_max_def)
  moreover have "log_wf [(0, v)]" "searchable [(0, v)]" "value_at 0 [(0, v)] = Some v" for v
    by (simp_all add: log_wf_def searchable_def value_at_def upto_height_def)
  ultimately show ?thesis using out by (auto simp: readable_def two_updates_def)
qed

lemma two_updates_inv: "smt_inv toy_sha (mem_view None two_updates_store) sample_tree"
proof -
  have "outside_nodes ''aC''" "outside_nodes ''zz''" by (simp_all add: outside_nodes_def)
  note rec = outside_nodes_records [OF this(1)] outside_nodes_records [OF this(2)]
  show ?thesis using rec by (simp add: smt_inv_def stored_def two_updates_view sample_tree_def)
qed

lemma sample_tree_new_aC:
  "new_tree toy_sha ''aC'' ''3'' sample_tree = N (L ''a'' (toy_sha ''1'')) (L ''aC'' (toy_sha ''3''))"
  by (simp add: new_tree_def sample_tree_def separate_differ split_tree_def key_bit_def toy_sha_def)

lemma two_updates_trees:
  "new_tree toy_sha ''aC'' ''3'' (N (L ''a'' (toy_sha ''1'')) (L ''zz'' (toy_sha ''2'')))
     = N (L ''a'' (toy_sha ''1'')) (N (L ''aC'' (toy_sha ''3'')) (L ''zz'' (toy_sha ''2'')))"
  "new_tree toy_sha ''zz'' ''2'' (N (L ''a'' (toy_sha ''1'')) (L ''aC'' (toy_sha ''3'')))
     = N (L ''a'' (toy_sha ''1'')) (N (L ''aC'' (toy_sha ''3'')) (L ''zz'' (toy_sha ''2'')))"
  by (simp_all add: new_tree_def separate_differ split_tree_def key_bit_def toy_sha_def)

lemma two_updates_good:
  "good_nodes toy_sha (trace_nodes toy_sha two_updates sample_tree)"
  "good_nodes toy_sha (trace_nodes toy_sha (rev two_updates) sample_tree)"
  by (simp_all add: trace_nodes_def two_updates_def atMost_Suc sample_tree_new sample_tree_new_aC two_updates_trees
      numeral_2_eq_2)
     (simp_all add: sample_tree_def good_nodes_def hash_node_def toy_sha_eq toy_sha_EMPTY byte_sum_toy_sha
      u32_max_def inj_on_def)

theorem incremental_root_correct_witness:
  "\<exists>root s1 s2.
       compute_incremental_smt_root toy_sha hex_decode (mem_ops None) (thash toy_sha sample_tree)
         [''zz'', ''aC''] 0 two_updates_store = (Inr root, s1)
     \<and> compute_incremental_smt_root toy_sha hex_decode (mem_ops None) (thash toy_sha sample_tree)
         [''aC'', ''zz''] 0 two_updates_store = (Inr root, s2)
     \<and> get_smt_leaf toy_sha (so_read (mem_ops None) s1) root (toy_sha ''zz'') 0
         = Inr (Some (Leaf ''zz'' (toy_sha ''2'')))
     \<and> get_smt_leaf toy_sha (so_read (mem_ops None) s1) root (toy_sha ''aC'') 0
         = Inr (Some (Leaf ''aC'' (toy_sha ''3'')))"
proof -
  have d: "tree_depth (ins_all toy_sha two_updates sample_tree) \<le> 255"
    by (simp add: two_updates_def sample_tree_new two_updates_trees)
  have dist: "distinct (map (toy_sha \<circ> fst) two_updates)" by (simp add: two_updates_def toy_sha_eq)
  have h: "height two_updates_store < u32_max"
    by (simp add: two_updates_store_def with_data_def u32_max_def)
  have ne: "sample_tree \<noteq> E" by (simp add: sample_tree_def)
  have "map fst two_updates = [''zz'', ''aC'']" "map fst (rev two_updates) = [''aC'', ''zz'']"
      "set two_updates = {(''zz'', ''2''), (''aC'', ''3'')}" by (simp_all add: two_updates_def)
  with incremental_root_correct [OF hx.hex_codec_axioms mem_smt.smt_store_axioms toy_sha_256
      two_updates_inv ne h two_updates_readable dist mset_rev two_updates_good d]
  show ?thesis by auto
qed

subsection \<open>The root as a commitment\<close>

lemma thash_inject:
  assumes "good_nodes sha (set (tnodes sha t) \<union> set (tnodes sha t'))" "thash sha t = thash sha t'"
  shows "t = t'"
  using assms
proof (induction t arbitrary: t')
  case E
  have "good_nodes sha (set (tnodes sha t'))" using E(1) by (rule good_nodes_subset) simp
  from thash_EMPTY [OF this] E(2) show ?case by simp
next
  case (L k v)
  then have "t' \<noteq> E" by (auto simp: good_nodes_def)
  then obtain n where n: "top_node sha t' = Some n" "n \<in> set (tnodes sha t')" by (cases t') auto
  have "hash_node sha (Leaf k v) = hash_node sha n" using L(2) n(1) by (simp add: thash_top [of _ t'])
  then have "n = Leaf k v" using L(1) n(2) by (auto simp: good_nodes_def inj_on_def)
  with n(1) show ?case by (cases t') auto
next
  case (N l r)
  then have "t' \<noteq> E" by (auto simp: good_nodes_def)
  then obtain n where n: "top_node sha t' = Some n" "n \<in> set (tnodes sha t')" by (cases t') auto
  let ?n = "Internal (thash sha l) (thash sha r)"
  have "hash_node sha ?n = hash_node sha n" using N(4) n(1) by (simp add: thash_top [of _ t'])
  moreover have "inj_on (hash_node sha) (set (tnodes sha (N l r)) \<union> set (tnodes sha t'))"
    using N(3) by (simp add: good_nodes_def)
  ultimately have "n = ?n" using n(2) by (auto dest: inj_onD)
  with n(1) obtain l' r' where t': "t' = N l' r'" "thash sha l' = thash sha l" "thash sha r' = thash sha r"
    by (cases t') auto
  have "good_nodes sha (set (tnodes sha l) \<union> set (tnodes sha l'))"
      "good_nodes sha (set (tnodes sha r) \<union> set (tnodes sha r'))"
    using N(3) unfolding t'(1) by (auto elim: good_nodes_subset)
  then show ?case using N(1) [of l'] N(2) [of r'] t' by simp
qed

text \<open>
  What is asked of SHA-256 alone: on the byte strings it is given it has no collision and
  never returns the empty hash. That the nodes' hashes then do not collide is a fact about
  \<open>node_preimage\<close>.
\<close>

definition collision_free :: "hash_fn \<Rightarrow> bytes set \<Rightarrow> bool" where
  "collision_free sha X \<longleftrightarrow> inj_on sha X \<and> EMPTY_NODE_HASH \<notin> sha ` X"

lemma collision_free_nodes:
  assumes "collision_free sha (node_preimage ` U)" "\<forall>n \<in> U. sized n"
  shows "good_nodes sha U"
proof -
  have "inj_on node_preimage U" using assms(2) node_preimage_inject by (auto intro: inj_onI)
  then have "inj_on (sha \<circ> node_preimage) U" using assms(1) by (intro comp_inj_on) (simp_all add: collision_free_def)
  moreover have "hash_node sha = sha \<circ> node_preimage" by (simp add: fun_eq_iff hash_node_def)
  moreover have "hash_node sha n \<noteq> EMPTY_NODE_HASH" if "n \<in> U" for n
    using assms(1) that by (metis collision_free_def hash_node_def image_eqI)
  ultimately show ?thesis using assms(2) by (simp add: good_nodes_def)
qed

lemma lookup_found: "lookup sha kh d t = Some n \<Longrightarrow> \<exists>(k, v) \<in> leaves t. n = Leaf k v \<and> sha k = kh"
  by (induction sha kh d t rule: lookup.induct) (auto split: if_splits)

text \<open>
  C18: the root commits to the contents. If two databases store trees with the same root,
  and SHA-256 does not collide on the byte strings hashed for their nodes, then the trees
  have the same leaves; and a leaf lookup under that root, in either database, returns the
  leaf for the hash of a key of the tree and nothing for any other hash.
\<close>

theorem root_commits_to_contents:
  assumes "smt_inv sha m t" "smt_inv sha m' t'" "thash sha t = thash sha t'"
    "\<forall>n \<in> set (tnodes sha t) \<union> set (tnodes sha t'). sized n"
    "collision_free sha (node_preimage ` (set (tnodes sha t) \<union> set (tnodes sha t')))" "tree_depth t \<le> 255"
  shows "leaves t = leaves t'
   \<and> (\<forall>(key, vh) \<in> leaves t.
        get_smt_leaf sha (reader_of m) (thash sha t) (sha key) h = Inr (Some (Leaf key vh))
      \<and> get_smt_leaf sha (reader_of m') (thash sha t') (sha key) h' = Inr (Some (Leaf key vh)))
   \<and> (\<forall>kh. kh \<notin> sha ` fst ` leaves t \<longrightarrow>
        get_smt_leaf sha (reader_of m) (thash sha t) kh h = Inr None
      \<and> get_smt_leaf sha (reader_of m') (thash sha t') kh h' = Inr None)"
proof -
  have good: "good_nodes sha (set (tnodes sha t) \<union> set (tnodes sha t'))"
    by (rule collision_free_nodes [OF assms(5,4)])
  have t': "t' = t" using thash_inject [OF good assms(3)] by simp
  have g: "good_nodes sha (set (tnodes sha t))" using good by (rule good_nodes_subset) simp
  have st: "stored sha m t" "stored sha m' t" "placed sha [] t" using assms(1,2) t' by (simp_all add: smt_inv_def)
  have get: "get_smt_leaf sha (reader_of x) (thash sha t) kh i = Inr (lookup sha kh 0 t)"
    if "stored sha x t" for x kh i
    using assms(6) by (intro get_smt_leaf_eq that g path_fits_depth) simp
  have "lookup sha (sha key) 0 t = Some (Leaf key vh)" if "(key, vh) \<in> leaves t" for key vh
    using lookup_leaf [OF st(3) that] by simp
  moreover have "lookup sha kh 0 t = None" if "kh \<notin> sha ` fst ` leaves t" for kh
    using lookup_found [of sha kh 0 t] that by (cases "lookup sha kh 0 t") force+
  ultimately show ?thesis using get [OF st(1)] get [OF st(2)] by (auto simp: t')
qed

theorem root_commits_to_contents_witness:
  "get_smt_leaf toy_sha (reader_of sample_nodes) (thash toy_sha sample_tree) (toy_sha ''a'') 0
      = Inr (Some (Leaf ''a'' (toy_sha ''1'')))
   \<and> get_smt_leaf toy_sha (reader_of (mem_view None sample_smt_store)) (thash toy_sha sample_tree) (toy_sha ''zz'') 0
      = Inr None"
proof -
  have "\<forall>n \<in> set (tnodes toy_sha sample_tree) \<union> set (tnodes toy_sha sample_tree). sized n"
    by (simp add: sample_tree_def u32_max_def)
  moreover have "collision_free toy_sha (node_preimage ` (set (tnodes toy_sha sample_tree) \<union> set (tnodes toy_sha sample_tree)))"
    by (auto simp: collision_free_def sample_tree_def toy_sha_EMPTY dest: sym)
  moreover have "tree_depth sample_tree \<le> 255" by (simp add: sample_tree_def)
  ultimately show ?thesis
    using root_commits_to_contents [OF sample_nodes_inv sample_smt_inv refl, of 0 0]
    by (auto simp: sample_tree_def toy_sha_eq)
qed

subsection \<open>Lost leaves\<close>

text \<open>
  The first insertion is never written. \<open>update_smt_for_key\<close> on the empty tree returns
  the hash of the new leaf but leaves the storage as it is, so a lookup under the root it
  returned finds nothing, not even the key it was given.
\<close>

theorem first_insert_not_written:
  assumes "so_read ops s (node_key (hash_node sha (Leaf key (sha val)))) = Inr None"
  shows "update_smt_for_key sha ops EMPTY_NODE_HASH key val h s
           = (Inr (hash_node sha (Leaf key (sha val))), s)
     \<and> get_smt_leaf sha (so_read ops s) (hash_node sha (Leaf key (sha val))) kh h = Inr None"
proof -
  let ?r = "hash_node sha (Leaf key (sha val))"
  have node: "get_node (so_read ops s) ?r = Inr None" using assms by (simp add: get_node_def)
  have "get_smt_leaf_loop sha (so_read ops s) kh ?r 0 = Inr None"
    by (subst get_smt_leaf_loop.simps) (simp add: node)
  then show ?thesis
    by (simp add: get_smt_leaf_def update_smt_for_key_def Let_def hash_key_def hash_value_def)
qed

theorem first_insert_not_written_witness:
  "get_smt_leaf toy_sha (so_read (mem_ops None) mem_new)
     (hash_node toy_sha (Leaf ''a'' (toy_sha ''1''))) (toy_sha ''a'') 0 = Inr None"
  using first_insert_not_written [of "mem_ops None" mem_new toy_sha "''a''" "''1''" 0 "toy_sha ''a''"]
  by (simp add: mem_ops_def mem_get_def mem_new_def)

text \<open>
  What the incremental root of a fresh index is. On storage without nodes, the loop over
  the first block's updated keys returns the root of the tree that holds every one of them
  but the first, whose leaf was never written.
\<close>

theorem fresh_root_drops_first_key:
  assumes "hex_codec hexe hexd" "smt_store ops view writable" "sha_256 sha"
    "view s (node_key (hash_node sha (Leaf k1 (sha v1)))) = None"
    "good_nodes sha (insert (Leaf k1 (sha v1)) (trace_nodes sha ((k2, v2) # kvs) E))"
    "tree_depth (ins_all sha ((k2, v2) # kvs) E) \<le> 255"
    "readable hexe (view s) h ((k1, v1) # (k2, v2) # kvs)" "writable s"
  shows "fst (compute_incremental_smt_root sha hexd ops EMPTY_NODE_HASH (k1 # k2 # map fst kvs) h s)
     = Inr (thash sha (ins_all sha ((k2, v2) # kvs) E))"
  using smt_store.fresh_incremental_run [OF assms(2,1,3-8)] by auto

definition two_keys_store :: mem_store where
  "two_keys_store = with_data
     [(length_key ''a'', dec 1), (update_key ''a'' 0, entry_bytes encode_hex_fast 0 ''1''),
      (length_key ''zz'', dec 1), (update_key ''zz'' 0, entry_bytes encode_hex_fast 0 ''2'')]"

lemma two_keys_readable: "readable encode_hex_fast (mem_view None two_keys_store) 0 [(''a'', ''1''), (''zz'', ''2'')]"
proof -
  have "has_log encode_hex_fast (mem_view None two_keys_store) ''zz'' [(0, ''2'')]"
      "has_log encode_hex_fast (mem_view None two_keys_store) ''a'' [(0, ''1'')]"
    by (simp_all add: two_keys_store_def mem_view_def mem_contents_def with_data_def to_labeled_key_def
        has_log_def u32_max_def)
  moreover have "log_wf [(0, v)]" "searchable [(0, v)]" "value_at 0 [(0, v)] = Some v" for v
    by (simp_all add: log_wf_def searchable_def value_at_def upto_height_def)
  ultimately show ?thesis by (auto simp: readable_def outside_nodes_def)
qed

theorem fresh_root_drops_first_key_witness:
  "fst (compute_incremental_smt_root toy_sha hex_decode (mem_ops None) EMPTY_NODE_HASH [''a'', ''zz''] 0 two_keys_store)
     = Inr (hash_node toy_sha (Leaf ''zz'' (toy_sha ''2'')))"
proof -
  have "outside_nodes ''a''" "outside_nodes ''zz''" by (simp_all add: outside_nodes_def)
  then have "node_key h \<noteq> length_key k \<and> node_key h \<noteq> update_key k i" if "k \<in> {''a'', ''zz''}" for h k i
    using outside_nodes_records [of k] that by (metis empty_iff insert_iff)
  then have miss: "mem_view None two_keys_store (node_key h) = None" for h
    by (simp add: two_keys_store_def mem_view_def mem_contents_def with_data_def to_labeled_key_def)
  have "good_nodes toy_sha (insert (Leaf ''a'' (toy_sha ''1'')) (trace_nodes toy_sha ((''zz'', ''2'') # []) E))"
    by (rule good_nodes_subset [OF sample_good])
       (auto simp: trace_nodes_def atMost_Suc new_tree_def [of _ _ _ E] sample_tree_new)
  moreover have "tree_depth (ins_all toy_sha ((''zz'', ''2'') # []) E) \<le> 255" by (simp add: new_tree_def)
  moreover have "height two_keys_store < u32_max"
    by (simp add: two_keys_store_def with_data_def u32_max_def)
  ultimately show ?thesis
    using fresh_root_drops_first_key [OF hx.hex_codec_axioms mem_smt.smt_store_axioms toy_sha_256 miss _ _
        two_keys_readable] by (simp add: new_tree_def)
qed

text \<open>
  The batched root of a fresh index forgets every key but the last. \<open>compute_batched_smt_root\<close>
  reads the nodes of the growing tree back from storage, where the batch has not been
  written, so on storage without nodes its result is the hash of the last pair's leaf alone.
\<close>

theorem batched_root_forgets:
  assumes "\<forall>h. m (node_key h) = None" "kvs \<noteq> []"
  shows "\<exists>batch. compute_batched_smt_root sha (reader_of m) root kvs h []
     = Inr (hash_node sha (Leaf (fst (last kvs)) (sha (snd (last kvs)))), batch)"
  using compute_batched_missing [OF assms(1), of sha root kvs h "[]"] assms(2) by auto

theorem batched_root_forgets_witness:
  "\<exists>batch. compute_batched_smt_root toy_sha (reader_of Map.empty) EMPTY_NODE_HASH
       [(''a'', ''1''), (''zz'', ''2'')] 0 [] = Inr (hash_node toy_sha (Leaf ''zz'' (toy_sha ''2'')), batch)"
  using batched_root_forgets [of Map.empty "[(''a'', ''1''), (''zz'', ''2'')]" toy_sha EMPTY_NODE_HASH 0] by simp

end
