(* ===== verification/SmtBatched.thy ===== *)
theory SmtBatched
  imports SmtRoots
begin

text \<open>
  The copies of the tree operations in \<open>BatchedSMTHelper\<close> (\<open>smt.rs\<close>), which read nodes and
  key hashes through the two block-scoped caches: the hash-only computation and the
  batched update. The caches are transparent for the first, which computes the same root
  as \<open>SMTHelper\<close>. The second picks the side of a rebuilt node by the depth at which the
  traversal ended instead of the node's own.
\<close>

definition key_hash_st :: "hash_fn \<Rightarrow> bytes \<Rightarrow> (smt_caches, bytes) st" where
  "key_hash_st sha key c = (case get_key_hash sha key c of (h, c') \<Rightarrow> (Inr h, c'))"

definition cache_node :: "hash_fn \<Rightarrow> smt_node \<Rightarrow> smt_caches \<Rightarrow> smt_caches" where
  "cache_node sha node c = c\<lparr>node_cache := (node_cache c)(hash_node sha node \<mapsto> node)\<rparr>"

text \<open>The traversal both operations share; it also returns the depth it ended at.\<close>

function cached_find_path ::
    "hash_fn \<Rightarrow> reader \<Rightarrow> bytes \<Rightarrow> bytes \<Rightarrow> nat \<Rightarrow> path_node list
     \<Rightarrow> (smt_caches, path_node list \<times> nat) st" where
  "cached_find_path sha rd key_hash current_hash depth path_nodes c =
     sbind (get_node_cached rd current_hash) (\<lambda>n c.
       case n of
         None \<Rightarrow> (Inr (path_nodes, depth), c)
       | Some (Leaf existing_key vi) \<Rightarrow>
           sbind (key_hash_st sha existing_key) (\<lambda>existing_key_hash c.
             (Inr (path_nodes @ [(depth, Leaf existing_key vi, existing_key_hash = key_hash)], depth), c)) c
       | Some (Internal l r) \<Rightarrow>
           if depth + 1 \<ge> 256 then (Inl depth_error, c)
           else cached_find_path sha rd key_hash (if key_bit key_hash depth then r else l) (depth + 1)
                  (path_nodes @ [(depth, Internal l r, False)]) c) c"
  by pat_completeness auto
termination
  by (relation "measure (\<lambda>(sha, rd, key_hash, current_hash, depth, path_nodes, c). 256 - depth)") auto

declare cached_find_path.simps [simp del]

subsection \<open>Hashes only\<close>

definition compute_separating_internals_hash_only ::
    "hash_fn \<Rightarrow> nat \<Rightarrow> bytes \<Rightarrow> bytes \<Rightarrow> bytes \<Rightarrow> bytes \<Rightarrow> bytes result" where
  "compute_separating_internals_hash_only sha start_depth existing_key_hash existing_leaf_hash
       new_key_hash new_leaf_hash =
     (case find_divergence existing_key_hash new_key_hash start_depth of
        None \<Rightarrow> Inl separate_error
      | Some depth \<Rightarrow>
          Inr (fold (\<lambda>d current_hash. hash_node sha (parent_node new_key_hash d current_hash))
                 (rev [start_depth..<depth])
                 (hash_node sha (split_node existing_key_hash depth existing_leaf_hash new_leaf_hash))))"

definition root_only_step ::
    "hash_fn \<Rightarrow> bytes \<Rightarrow> path_node \<Rightarrow> bytes \<Rightarrow> (smt_caches, bytes) st" where
  "root_only_step sha key_hash item new_child_hash =
     (case item of (node_depth, node, is_replacement) \<Rightarrow>
        case node of
          Leaf existing_key vi \<Rightarrow>
            if is_replacement then sreturn new_child_hash
            else sbind (key_hash_st sha existing_key) (\<lambda>existing_key_hash c.
                   (compute_separating_internals_hash_only sha node_depth existing_key_hash
                      (hash_node sha (Leaf existing_key vi)) key_hash new_child_hash, c))
        | Internal l r \<Rightarrow>
            sreturn (hash_node sha (if \<not> key_bit key_hash node_depth then Internal new_child_hash r
                                    else Internal l new_child_hash)))"

definition compute_path_root_only ::
    "hash_fn \<Rightarrow> reader \<Rightarrow> bytes \<Rightarrow> bytes \<Rightarrow> bytes \<Rightarrow> (smt_caches, bytes) st" where
  "compute_path_root_only sha rd current_root key_hash new_leaf_hash =
     sbind (cached_find_path sha rd key_hash current_root 0 []) (\<lambda>(path_nodes, _).
       sfold (root_only_step sha key_hash) (rev path_nodes) new_leaf_hash)"

definition compute_root_hash_only ::
    "hash_fn \<Rightarrow> reader \<Rightarrow> bytes \<Rightarrow> bytes \<Rightarrow> bytes \<Rightarrow> (smt_caches, bytes) st" where
  "compute_root_hash_only sha rd current_root key val =
     sbind (key_hash_st sha key) (\<lambda>key_hash.
       let new_leaf_hash = hash_node sha (Leaf key (hash_value sha val)) in
       if current_root = EMPTY_NODE_HASH then sreturn new_leaf_hash
       else compute_path_root_only sha rd current_root key_hash new_leaf_hash)"

definition compute_minimal_smt_root ::
    "hash_fn \<Rightarrow> reader \<Rightarrow> bytes \<Rightarrow> (bytes \<times> bytes) list \<Rightarrow> (smt_caches, bytes) st" where
  "compute_minimal_smt_root sha rd current_root key_values =
     sfold (\<lambda>(key, val) working_root. compute_root_hash_only sha rd working_root key val)
       key_values current_root"

subsection \<open>The batched update\<close>

text \<open>The nodes it creates go to the batch and to the cache.\<close>

definition cached_batch_node :: "hash_fn \<Rightarrow> smt_node \<Rightarrow> batch \<Rightarrow> (smt_caches, batch) st" where
  "cached_batch_node sha node batch c = (Inr (batch_node sha node batch), cache_node sha node c)"

definition cached_separating_internals ::
    "hash_fn \<Rightarrow> nat \<Rightarrow> bytes \<Rightarrow> bytes \<Rightarrow> bytes \<Rightarrow> bytes \<Rightarrow> batch \<Rightarrow> (smt_caches, bytes \<times> batch) st" where
  "cached_separating_internals sha start_depth existing_key_hash existing_leaf_hash
       new_key_hash new_leaf_hash batch =
     (case find_divergence existing_key_hash new_key_hash start_depth of
        None \<Rightarrow> sfail separate_error
      | Some depth \<Rightarrow>
          let internal = split_node existing_key_hash depth existing_leaf_hash new_leaf_hash in
          sbind (cached_batch_node sha internal batch) (\<lambda>batch.
            sfold (\<lambda>d (current_hash, batch).
               let parent_internal = parent_node new_key_hash d current_hash in
               sbind (cached_batch_node sha parent_internal batch) (\<lambda>batch.
                 sreturn (hash_node sha parent_internal, batch)))
              (rev [start_depth..<depth]) (hash_node sha internal, batch)))"

text \<open>\<open>depth\<close> is the depth the traversal ended at: \<open>7 - (depth % 8)\<close> in the byte of the node.\<close>

definition cached_rebuild_step ::
    "hash_fn \<Rightarrow> bytes \<Rightarrow> nat \<Rightarrow> path_node \<Rightarrow> rebuild_state \<Rightarrow> (smt_caches, rebuild_state) st" where
  "cached_rebuild_step sha key_hash depth item st =
     (case (item, st) of ((node_depth, node, is_replacement), (new_child_hash, updates, batch)) \<Rightarrow>
        case node of
          Leaf existing_key vi \<Rightarrow>
            if is_replacement then sreturn (new_child_hash, updates @ [(node_depth, new_child_hash)], batch)
            else
              sbind (key_hash_st sha existing_key) (\<lambda>existing_key_hash.
              sbind (cached_separating_internals sha node_depth existing_key_hash
                       (hash_node sha (Leaf existing_key vi)) key_hash new_child_hash batch) (\<lambda>(h, batch).
              sreturn (h, updates @ [(node_depth, h)], batch)))
        | Internal l r \<Rightarrow>
            let new_internal = (if \<not> key_bit key_hash (8 * (node_depth div 8) + depth mod 8)
                                then Internal new_child_hash r else Internal l new_child_hash);
                h = hash_node sha new_internal
            in sbind (cached_batch_node sha new_internal batch) (\<lambda>batch.
                 sreturn (h, updates @ [(node_depth, h)], batch)))"

definition cached_path_updates ::
    "hash_fn \<Rightarrow> reader \<Rightarrow> bytes \<Rightarrow> bytes \<Rightarrow> bytes \<Rightarrow> batch \<Rightarrow> (smt_caches, (nat \<times> bytes) list \<times> batch) st" where
  "cached_path_updates sha rd current_root key_hash new_leaf_hash batch =
     sbind (cached_find_path sha rd key_hash current_root 0 []) (\<lambda>(path_nodes, depth).
     sbind (sfold (cached_rebuild_step sha key_hash depth) (rev path_nodes) (new_leaf_hash, [], batch))
       (\<lambda>(_, updates, batch). sreturn (updates, batch)))"

definition cached_update_smt_for_key ::
    "hash_fn \<Rightarrow> reader \<Rightarrow> bytes \<Rightarrow> bytes \<Rightarrow> bytes \<Rightarrow> batch \<Rightarrow> (smt_caches, bytes \<times> batch) st" where
  "cached_update_smt_for_key sha rd current_root key val batch =
     sbind (key_hash_st sha key) (\<lambda>key_hash.
       let new_leaf = Leaf key (hash_value sha val); new_leaf_hash = hash_node sha new_leaf in
       sbind (cached_batch_node sha new_leaf batch) (\<lambda>batch.
         if current_root = EMPTY_NODE_HASH then sreturn (new_leaf_hash, batch)
         else sbind (cached_path_updates sha rd current_root key_hash new_leaf_hash batch)
           (\<lambda>(path_updates, batch). sreturn (root_of_updates path_updates new_leaf_hash, batch))))"

definition cached_batched_smt_root ::
    "hash_fn \<Rightarrow> reader \<Rightarrow> bytes \<Rightarrow> (bytes \<times> bytes) list \<Rightarrow> batch \<Rightarrow> (smt_caches, bytes \<times> batch) st" where
  "cached_batched_smt_root sha rd current_root key_values batch =
     sfold (\<lambda>(key, val) (working_root, batch). cached_update_smt_for_key sha rd working_root key val batch)
       key_values (current_root, batch)"

subsection \<open>The caches are transparent\<close>

definition cache_sound :: "hash_fn \<Rightarrow> reader \<Rightarrow> smt_caches \<Rightarrow> bool" where
  "cache_sound sha rd c \<longleftrightarrow>
     (\<forall>h n. node_cache c h = Some n \<longrightarrow> get_node rd h = Inr (Some n))
   \<and> (\<forall>key h. key_hash_cache c key = Some h \<longrightarrow> h = sha key)"

lemma cache_sound_new [simp]: "cache_sound sha rd new_caches"
  by (simp add: cache_sound_def new_caches_def)

lemma cache_sound_clear [simp]: "cache_sound sha rd (clear_caches c)"
  by (simp add: cache_sound_def clear_caches_def)

text \<open>A computation on the caches that is a pure computation and keeps them sound.\<close>

definition transparent :: "hash_fn \<Rightarrow> reader \<Rightarrow> (smt_caches, 'a) st \<Rightarrow> 'a result \<Rightarrow> bool" where
  "transparent sha rd m r \<longleftrightarrow> (\<forall>c. cache_sound sha rd c \<longrightarrow> (\<exists>c'. m c = (r, c') \<and> cache_sound sha rd c'))"

lemma transparent_return [intro]: "transparent sha rd (sreturn x) (Inr x)"
  by (simp add: transparent_def)

lemma transparent_pure: "transparent sha rd (\<lambda>c. (r, c)) r"
  by (simp add: transparent_def)

lemma transparent_bind:
  assumes "transparent sha rd m r" "\<And>x. r = Inr x \<Longrightarrow> transparent sha rd (f x) (g x)"
  shows "transparent sha rd (sbind m f) (rbind r g)"
  unfolding transparent_def
proof (intro allI impI)
  fix c assume "cache_sound sha rd c"
  then obtain c1 where c1: "m c = (r, c1)" "cache_sound sha rd c1" using assms(1) by (auto simp: transparent_def)
  show "\<exists>c'. sbind m f c = (rbind r g, c') \<and> cache_sound sha rd c'"
  proof (cases r)
    case (Inl e)
    then show ?thesis using c1 by simp
  next
    case (Inr x)
    then show ?thesis using c1 assms(2) [OF Inr] by (simp add: transparent_def)
  qed
qed

lemma transparent_fold:
  assumes "\<And>x b. x \<in> set xs \<Longrightarrow> transparent sha rd (f x b) (g x b)"
  shows "transparent sha rd (sfold f xs b) (rfold g xs b)"
  using assms
proof (induction xs arbitrary: b)
  case (Cons x xs)
  then show ?case by (auto intro!: transparent_bind)
qed auto

lemma transparent_key_hash: "transparent sha rd (key_hash_st sha key) (Inr (sha key))"
  by (auto simp: transparent_def key_hash_st_def get_key_hash_def cache_sound_def hash_key_def Let_def
      split: option.splits)

lemma cache_sound_insert:
  "cache_sound sha rd c \<Longrightarrow> get_node rd h = Inr (Some n) \<Longrightarrow>
   cache_sound sha rd (c\<lparr>node_cache := (node_cache c)(h \<mapsto> n)\<rparr>)"
  by (simp add: cache_sound_def)

lemma transparent_get_node: "transparent sha rd (get_node_cached rd h) (get_node rd h)"
proof -
  have "\<exists>c'. get_node_cached rd h c = (get_node rd h, c') \<and> cache_sound sha rd c'"
    if sound: "cache_sound sha rd c" for c
  proof (cases "h = EMPTY_NODE_HASH")
    case True
    then show ?thesis using sound by (simp add: get_node_cached_def get_node_def)
  next
    case ne: False
    show ?thesis
    proof (cases "node_cache c h")
      case (Some n)
      then have "get_node rd h = Inr (Some n)" using sound by (simp add: cache_sound_def)
      with Some ne sound show ?thesis by (simp add: get_node_cached_def)
    next
      case none: None
      show ?thesis
      proof (cases "storage_err (rd (node_key h))")
        case (Inl e)
        then show ?thesis using none ne sound by (simp add: get_node_cached_def get_node_def)
      next
        case (Inr r)
        show ?thesis
        proof (cases r)
          case None
          then show ?thesis using none ne sound Inr by (simp add: get_node_cached_def get_node_def)
        next
          case (Some d)
          show ?thesis
          proof (cases "deserialize_node d")
            case (Inl e)
            then show ?thesis using none ne sound Inr Some \<open>storage_err _ = _\<close>
              by (simp add: get_node_cached_def get_node_def)
          next
            case (Inr n)
            have g: "get_node rd h = Inr (Some n)"
              using ne Inr Some \<open>storage_err _ = _\<close> by (simp add: get_node_def)
            then show ?thesis
              using none ne Inr Some \<open>storage_err _ = _\<close> cache_sound_insert [OF sound g]
              by (simp add: get_node_cached_def)
          qed
        qed
      qed
    qed
  qed
  then show ?thesis by (simp add: transparent_def)
qed

lemma transparent_eq:
  "transparent sha rd m r \<Longrightarrow> m' = m \<Longrightarrow> r' = r \<Longrightarrow> transparent sha rd m' r'"
  by simp

text \<open>The depth a traversal ends at.\<close>

definition end_depth :: "path_node list \<Rightarrow> nat" where
  "end_depth ps = (if ps = [] then 0 else
     case last ps of (d, Leaf _ _, _) \<Rightarrow> d | (d, Internal _ _, _) \<Rightarrow> d + 1)"

lemma transparent_find_path:
  "depth = end_depth path \<Longrightarrow>
   transparent sha rd (cached_find_path sha rd kh cur depth path)
     (rbind (find_path sha rd kh cur depth path) (\<lambda>ps. Inr (ps, end_depth ps)))"
proof (induction "256 - depth" arbitrary: cur depth path rule: less_induct)
  case less
  let ?f = "\<lambda>n c. case n of
         None \<Rightarrow> (Inr (path, depth), c)
       | Some (Leaf existing_key vi) \<Rightarrow>
           sbind (key_hash_st sha existing_key) (\<lambda>existing_key_hash c.
             (Inr (path @ [(depth, Leaf existing_key vi, existing_key_hash = kh)], depth), c)) c
       | Some (Internal l r) \<Rightarrow>
           if depth + 1 \<ge> 256 then (Inl depth_error, c)
           else cached_find_path sha rd kh (if key_bit kh depth then r else l) (depth + 1)
                  (path @ [(depth, Internal l r, False)]) c"
  let ?g = "\<lambda>n. rbind (case n of
         None \<Rightarrow> Inr path
       | Some (Leaf existing_key vi) \<Rightarrow>
           Inr (path @ [(depth, Leaf existing_key vi, hash_key sha existing_key = kh)])
       | Some (Internal l r) \<Rightarrow>
           if depth + 1 \<ge> 256 then Inl depth_error
           else find_path sha rd kh (if key_bit kh depth then r else l) (depth + 1)
                  (path @ [(depth, Internal l r, False)])) (\<lambda>ps. Inr (ps, end_depth ps))"
  have step: "transparent sha rd (?f n) (?g n)" for n
  proof (cases n)
    case None
    then show ?thesis by (simp add: transparent_pure less(2))
  next
    case (Some node)
    show ?thesis
    proof (cases node)
      case (Leaf k v)
      have "transparent sha rd (sbind (key_hash_st sha k) (\<lambda>e c. (Inr (path @ [(depth, Leaf k v, e = kh)], depth), c)))
          (rbind (Inr (sha k)) (\<lambda>e. Inr (path @ [(depth, Leaf k v, e = kh)], depth)))"
        by (intro transparent_bind transparent_key_hash transparent_pure)
      then show ?thesis using Some Leaf by (simp add: end_depth_def hash_key_def)
    next
      case (Internal l r)
      show ?thesis
      proof (cases "depth + 1 \<ge> 256")
        case True
        then show ?thesis using Some Internal by (simp add: transparent_pure)
      next
        case False
        then have "transparent sha rd
            (cached_find_path sha rd kh (if key_bit kh depth then r else l) (depth + 1) (path @ [(depth, Internal l r, False)]))
            (rbind (find_path sha rd kh (if key_bit kh depth then r else l) (depth + 1) (path @ [(depth, Internal l r, False)]))
               (\<lambda>ps. Inr (ps, end_depth ps)))"
          by (intro less(1)) (simp_all add: end_depth_def)
        then show ?thesis using Some Internal False by simp
      qed
    qed
  qed
  show ?case
  proof (rule transparent_eq [OF transparent_bind [OF transparent_get_node step]])
    show "cached_find_path sha rd kh cur depth path = sbind (get_node_cached rd cur) ?f"
      by (rule ext) (subst cached_find_path.simps, rule refl)
    show "rbind (find_path sha rd kh cur depth path) (\<lambda>ps. Inr (ps, end_depth ps)) = rbind (get_node rd cur) ?g"
      by (subst find_path.simps) (simp only: rbind_assoc)
  qed
qed

lemma separating_hash_only:
  "compute_separating_internals_hash_only sha d ek el nk nl
     = rbind (create_separating_internals_batched sha d ek el nk nl b) (\<lambda>(h, _). Inr h)"
proof (cases "find_divergence ek nk d")
  case None
  then show ?thesis
    by (simp add: compute_separating_internals_hash_only_def create_separating_internals_batched_def)
next
  case (Some e)
  have "fst (fold (\<lambda>d (current_hash, batch).
         let parent_internal = parent_node nk d current_hash
         in (hash_node sha parent_internal, batch_node sha parent_internal batch)) ds hb)
     = fold (\<lambda>d current_hash. hash_node sha (parent_node nk d current_hash)) ds (fst hb)" for ds hb
    by (induction ds arbitrary: hb) (simp_all add: case_prod_unfold Let_def)
  then show ?thesis
    by (simp add: compute_separating_internals_hash_only_def create_separating_internals_batched_def Some
        Let_def case_prod_unfold)
qed

text \<open>The hash-only loop computes the first component of the rebuilding loop.\<close>

lemma transparent_root_only:
  "transparent sha rd (sfold (root_only_step sha kh) items h)
     (rbind (rfold (rebuild_step sha (create_separating_internals_batched sha) kh) items (h, us, b))
        (\<lambda>(h, _, _). Inr h))"
proof (induction items arbitrary: h us b)
  case Nil
  show ?case by (simp add: transparent_def)
next
  case (Cons item items)
  obtain d node rep where item: "item = (d, node, rep)" by (cases item)
  let ?rest = "\<lambda>st. rbind (rfold (rebuild_step sha (create_separating_internals_batched sha) kh) items st)
      (\<lambda>(h, _, _). Inr h)"
  have "\<exists>r. transparent sha rd (root_only_step sha kh item h) (rbind r (\<lambda>(h, _, _). Inr h))
      \<and> rebuild_step sha (create_separating_internals_batched sha) kh item (h, us, b) = r"
  proof (cases node)
    case (Internal l r)
    then show ?thesis by (auto simp: item root_only_step_def rebuild_step_def Let_def)
  next
    case (Leaf k v)
    have "transparent sha rd
        (sbind (key_hash_st sha k) (\<lambda>e c.
           (compute_separating_internals_hash_only sha d e (hash_node sha (Leaf k v)) kh h, c)))
        (rbind (Inr (sha k)) (\<lambda>e. compute_separating_internals_hash_only sha d e (hash_node sha (Leaf k v)) kh h))"
      by (intro transparent_bind transparent_key_hash transparent_pure)
    moreover have "rbind (rebuild_step sha (create_separating_internals_batched sha) kh (d, Leaf k v, False) (h, us, b))
        (\<lambda>(h, _, _). Inr h) = compute_separating_internals_hash_only sha d (sha k) (hash_node sha (Leaf k v)) kh h"
      by (simp add: rebuild_step_def separating_hash_only [of sha d "sha k" _ kh h b] hash_key_def rbind_assoc
          case_prod_unfold)
    ultimately show ?thesis using Leaf by (cases rep) (auto simp: item root_only_step_def rebuild_step_def)
  qed
  then have step: "transparent sha rd (root_only_step sha kh item h)
      (rbind (rebuild_step sha (create_separating_internals_batched sha) kh item (h, us, b)) (\<lambda>(h, _, _). Inr h))"
    by blast
  have IH: "transparent sha rd (sfold (root_only_step sha kh) items (fst st)) (?rest st)" for st :: rebuild_state
  proof -
    obtain h us b where "st = (h, us, b)" by (cases st)
    with Cons [of h us b] show ?thesis by (simp only: fst_conv)
  qed
  show ?case
  proof (cases "rebuild_step sha (create_separating_internals_batched sha) kh item (h, us, b)")
    case (Inl e)
    then show ?thesis
      using transparent_bind [OF step, of "sfold (root_only_step sha kh) items" "\<lambda>_. Inl e"] by simp
  next
    case (Inr st)
    then have "transparent sha rd (sbind (root_only_step sha kh item h) (sfold (root_only_step sha kh) items))
        (rbind (Inr (fst st)) (\<lambda>_. ?rest st))"
      using step IH [of st] by (intro transparent_bind) (auto simp: case_prod_unfold)
    then show ?thesis by (simp only: rfold.simps sfold.simps Inr rbind.simps)
  qed
qed

lemma root_of_updates_rebuild:
  assumes "rfold (rebuild_step sha sep kh) items (h, us, b) = Inr (h', us', b')"
    "root_of_updates us leaf = h"
  shows "root_of_updates us' leaf = h'"
  using assms
proof (induction items arbitrary: h us b)
  case (Cons item items)
  from Cons(2) obtain h1 us1 b1 where step: "rebuild_step sha sep kh item (h, us, b) = Inr (h1, us1, b1)"
      "rfold (rebuild_step sha sep kh) items (h1, us1, b1) = Inr (h', us', b')"
    by (auto simp: rbind_eq_Inr)
  have "root_of_updates us1 leaf = h1"
    using step(1) by (auto simp: rebuild_step_def root_of_updates_def Let_def rbind_eq_Inr
        split: prod.splits smt_node.splits if_splits)
  from Cons(1) [OF step(2) this] show ?case .
qed simp

text \<open>The root component of the batched update of \<open>SMTHelper\<close>.\<close>

lemma transparent_root_hash_only:
  "transparent sha rd (compute_root_hash_only sha rd root key val)
     (rbind (update_smt_for_key_batched sha rd root key val h b) (\<lambda>(r, _). Inr r))"
proof (cases "root = EMPTY_NODE_HASH")
  case True
  have "transparent sha rd (sbind (key_hash_st sha key) (\<lambda>_. sreturn (hash_node sha (Leaf key (sha val)))))
      (rbind (Inr (sha key)) (\<lambda>_. Inr (hash_node sha (Leaf key (sha val)))))"
    by (intro transparent_bind transparent_key_hash transparent_return)
  with True show ?thesis
    by (simp add: compute_root_hash_only_def update_smt_for_key_batched_def Let_def hash_value_def)
next
  case False
  let ?lh = "hash_node sha (Leaf key (sha val))" and ?b = "batch_node sha (Leaf key (sha val)) b"
  let ?rf = "\<lambda>ps. rfold (rebuild_step sha (create_separating_internals_batched sha) (sha key)) (rev ps) (?lh, [], ?b)"
  have path: "transparent sha rd (cached_find_path sha rd kh root 0 [])
      (rbind (find_path sha rd kh root 0 []) (\<lambda>ps. Inr (ps, end_depth ps)))" for kh
    by (rule transparent_find_path) (simp add: end_depth_def)
  have "transparent sha rd (compute_root_hash_only sha rd root key val)
      (rbind (Inr (sha key)) (\<lambda>kh. rbind (rbind (find_path sha rd kh root 0 []) (\<lambda>ps. Inr (ps, end_depth ps)))
         (\<lambda>(ps, _). rbind (rfold (rebuild_step sha (create_separating_internals_batched sha) kh) (rev ps) (?lh, [], ?b))
            (\<lambda>(h, _, _). Inr h))))"
    unfolding compute_root_hash_only_def compute_path_root_only_def hash_value_def Let_def
    using False
    by (intro transparent_bind [OF transparent_key_hash])
       (auto intro!: transparent_bind [OF path] transparent_root_only)
  moreover have "rbind (?rf ps) (\<lambda>(_, us, b). Inr (root_of_updates us ?lh)) = rbind (?rf ps) (\<lambda>(h, _, _). Inr h)" for ps
    using root_of_updates_rebuild [of sha _ "sha key" "rev ps" ?lh "[]" ?b _ _ _ ?lh]
    by (cases "?rf ps") (auto simp: root_of_updates_def)
  ultimately show ?thesis
    using False
    by (simp add: update_smt_for_key_batched_def compute_path_updates_batched_def Let_def rbind_assoc hash_key_def
        hash_value_def case_prod_unfold)
qed

lemma transparent_minimal_root:
  "transparent sha rd (compute_minimal_smt_root sha rd root kvs)
     (rbind (compute_batched_smt_root sha rd root kvs h b) (\<lambda>(r, _). Inr r))"
proof (induction kvs arbitrary: root b)
  case Nil
  show ?case by (simp add: compute_minimal_smt_root_def compute_batched_smt_root_def transparent_def)
next
  case (Cons kv kvs)
  obtain key val where kv: "kv = (key, val)" by (cases kv)
  note step = transparent_root_hash_only [of sha rd root key val h b]
  have unfold: "compute_minimal_smt_root sha rd root ((key, val) # kvs) =
      sbind (compute_root_hash_only sha rd root key val) (\<lambda>r. compute_minimal_smt_root sha rd r kvs)"
    by (simp add: compute_minimal_smt_root_def)
  show ?case
  proof (cases "update_smt_for_key_batched sha rd root key val h b")
    case (Inl e)
    then show ?thesis
      using transparent_bind [OF step, of "\<lambda>r. compute_minimal_smt_root sha rd r kvs" "\<lambda>_. Inl e"]
      by (simp add: unfold compute_batched_smt_root_def kv)
  next
    case (Inr rb)
    obtain r b' where rb: "rb = (r, b')" by (cases rb)
    have "transparent sha rd (sbind (compute_root_hash_only sha rd root key val)
          (\<lambda>r. compute_minimal_smt_root sha rd r kvs))
        (rbind (Inr r) (\<lambda>r. rbind (compute_batched_smt_root sha rd r kvs h b') (\<lambda>(r, _). Inr r)))"
      using step Cons Inr rb by (intro transparent_bind) simp_all
    then show ?thesis by (simp add: unfold compute_batched_smt_root_def kv Inr rb)
  qed
qed

text \<open>
  C20: the cached, hash-only root is the batched root. On every storage, failing ones
  included, \<open>compute_minimal_smt_root\<close> of the batched helper returns the root, or the error,
  of \<open>compute_batched_smt_root\<close> of the plain helper, whatever its caches hold as long as they
  agree with the storage, and leaves them so; the caches a block starts with agree.
\<close>

theorem minimal_root_equiv:
  assumes "cache_sound sha rd c"
  shows "\<exists>c'. compute_minimal_smt_root sha rd root kvs c
       = (rbind (compute_batched_smt_root sha rd root kvs h []) (\<lambda>(r, _). Inr r), c')
     \<and> cache_sound sha rd c' \<and> cache_sound sha rd (clear_caches c')"
  using transparent_minimal_root [of sha rd root kvs h "[]"] assms by (simp add: transparent_def)

theorem minimal_root_equiv_witness:
  "fst (compute_minimal_smt_root toy_sha (reader_of sample_nodes) (thash toy_sha sample_tree)
     [(''zz'', ''2'')] new_caches) = Inr (thash toy_sha (new_tree toy_sha ''zz'' ''2'' sample_tree))"
proof -
  obtain ns where "update_smt_for_key_batched toy_sha (reader_of sample_nodes) (thash toy_sha sample_tree) ''zz'' ''2'' 0 []
      = Inr (thash toy_sha (new_tree toy_sha ''zz'' ''2'' sample_tree),
          [] @ node_puts toy_sha (Leaf ''zz'' (toy_sha ''2'') # ns))"
    by (rule update_batched_run [OF toy_sha_256 sample_nodes_inv sample_good, where h = 0 and b = "[]"])
      (simp add: sample_tree_def, blast)
  then show ?thesis
    using minimal_root_equiv [OF cache_sound_new, where sha = toy_sha and rd = "reader_of sample_nodes"
        and root = "thash toy_sha sample_tree" and kvs = "[(''zz'', ''2'')]" and h = 0]
    by (auto simp: compute_batched_smt_root_def)
qed

subsection \<open>The wrong side\<close>

lemma cached_separating_result:
  "fst (cached_separating_internals sha d ek el nk nl b c) = create_separating_internals_batched sha d ek el nk nl b"
proof (cases "find_divergence ek nk d")
  case None
  then show ?thesis
    by (simp add: cached_separating_internals_def create_separating_internals_batched_def)
next
  case (Some e)
  let ?f = "\<lambda>d (current_hash, batch).
         let parent_internal = parent_node nk d current_hash
         in (hash_node sha parent_internal, batch_node sha parent_internal batch)"
  have "\<exists>c'. sfold (\<lambda>d (current_hash, batch).
               let parent_internal = parent_node nk d current_hash in
               sbind (cached_batch_node sha parent_internal batch) (\<lambda>batch.
                 sreturn (hash_node sha parent_internal, batch))) ds (h, b) c
      = (Inr (fold ?f ds (h, b)), c')" for ds h b c
    by (induction ds arbitrary: h b c) (simp_all add: Let_def sbind_def cached_batch_node_def)
  then obtain c' where "sfold (\<lambda>d (current_hash, batch).
               let parent_internal = parent_node nk d current_hash in
               sbind (cached_batch_node sha parent_internal batch) (\<lambda>batch.
                 sreturn (hash_node sha parent_internal, batch))) (rev [d..<e])
        (hash_node sha (split_node ek e el nl), batch_node sha (split_node ek e el nl) b)
        (cache_node sha (split_node ek e el nl) c)
      = (Inr (fold ?f (rev [d..<e]) (hash_node sha (split_node ek e el nl), batch_node sha (split_node ek e el nl) b)), c')"
    by blast
  then show ?thesis
    by (simp add: cached_separating_internals_def create_separating_internals_batched_def Some Let_def
        sbind_def cached_batch_node_def)
qed

lemma get_node_cached_miss:
  assumes "node_cache c h = None" "h \<noteq> EMPTY_NODE_HASH" "get_node rd h = Inr (Some n)"
  shows "get_node_cached rd h c = (Inr (Some n), c\<lparr>node_cache := (node_cache c)(h \<mapsto> n)\<rparr>)"
proof -
  obtain d where "storage_err (rd (node_key h)) = Inr (Some d)" "deserialize_node d = Inr n"
    using assms(2,3) by (auto simp: get_node_def rbind_eq_Inr split: option.splits)
  with assms(1,2) show ?thesis by (simp add: get_node_cached_def)
qed

lemma key_hash_st_run:
  assumes "\<forall>key h. key_hash_cache c key = Some h \<longrightarrow> h = sha key"
  shows "\<exists>c'. key_hash_st sha key c = (Inr (sha key), c') \<and> node_cache c' = node_cache c
     \<and> (\<forall>key h. key_hash_cache c' key = Some h \<longrightarrow> h = sha key)"
  using assms by (auto simp: key_hash_st_def get_key_hash_def hash_key_def Let_def split: option.splits)

lemma cached_path_two:
  assumes root: "get_node rd root = Inr (Some (Internal (hash_node sha (Leaf a va)) hb))"
    and leaf: "get_node rd (hash_node sha (Leaf a va)) = Inr (Some (Leaf a va))"
    and c: "node_cache c root = None" "node_cache c (hash_node sha (Leaf a va)) = None"
       "\<forall>key h. key_hash_cache c key = Some h \<longrightarrow> h = sha key"
    and ne: "root \<noteq> EMPTY_NODE_HASH" "hash_node sha (Leaf a va) \<noteq> EMPTY_NODE_HASH"
       "hash_node sha (Leaf a va) \<noteq> root"
    and bit: "\<not> key_bit kh 0"
  shows "\<exists>c'. cached_find_path sha rd kh root 0 [] c = (Inr ([(0, Internal (hash_node sha (Leaf a va)) hb, False),
       (1, Leaf a va, sha a = kh)], 1), c') \<and> (\<forall>key h. key_hash_cache c' key = Some h \<longrightarrow> h = sha key)"
proof -
  let ?ha = "hash_node sha (Leaf a va)"
  let ?c1 = "c\<lparr>node_cache := (node_cache c)(root \<mapsto> Internal ?ha hb)\<rparr>"
  let ?c2 = "?c1\<lparr>node_cache := (node_cache ?c1)(?ha \<mapsto> Leaf a va)\<rparr>"
  note r1 = get_node_cached_miss [OF c(1) ne(1) root]
  have "node_cache ?c1 ?ha = None" using c(2) ne(3) by simp
  note r2 = get_node_cached_miss [OF this ne(2) leaf]
  have "\<forall>key h. key_hash_cache ?c2 key = Some h \<longrightarrow> h = sha key" using c(3) by simp
  then obtain c' where c': "key_hash_st sha a ?c2 = (Inr (sha a), c')"
      "\<forall>key h. key_hash_cache c' key = Some h \<longrightarrow> h = sha key"
    using key_hash_st_run by blast
  have "cached_find_path sha rd kh ?ha 1 [(0, Internal ?ha hb, False)] ?c1
      = (Inr ([(0, Internal ?ha hb, False), (1, Leaf a va, sha a = kh)], 1), c')"
    using c'(1) r2 by (subst cached_find_path.simps) (simp add: sbind_def)
  then have "cached_find_path sha rd kh root 0 [] c
      = (Inr ([(0, Internal ?ha hb, False), (1, Leaf a va, sha a = kh)], 1), c')"
    using r1 bit by (subst cached_find_path.simps) (simp add: sbind_def)
  with c'(2) show ?thesis by blast
qed

lemma cached_update_two:
  assumes sha: "sha_256 sha" and inv: "smt_inv sha m (N (L a va) (L b vb))"
    and good: "good_nodes sha (insert (Leaf k (sha val)) (set (tnodes sha (N (L a va) (L b vb)))))"
    and bits: "\<not> key_bit (sha k) 0" "key_bit (sha k) 1" and ne: "sha a \<noteq> sha k"
  shows "\<exists>batch. fst (cached_update_smt_for_key sha (reader_of m) (thash sha (N (L a va) (L b vb))) k val [] new_caches)
     = Inr (thash sha (N (L a va) (separate (sha a) (L a va) (sha k) (L k (sha val)) 1)), batch)"
proof -
  let ?t = "N (L a va) (L b vb)" and ?rd = "reader_of m" and ?leaf = "Leaf k (sha val)"
  let ?ha = "hash_node sha (Leaf a va)" and ?hb = "hash_node sha (Leaf b vb)"
  let ?s = "separate (sha a) (L a va) (sha k) (L k (sha val)) 1"
  have st: "stored sha m ?t" "stored sha m (L a va)" and pl: "placed sha [] ?t"
    using inv stored_N [of sha m "L a va" "L b vb"] by (simp_all add: smt_inv_def)
  have g: "good_nodes sha (set (tnodes sha ?t))" "good_nodes sha (set (tnodes sha (L a va)))"
    using good by (auto intro: good_nodes_subset)
  have "Leaf k (sha val) \<noteq> Leaf a va" using ne by auto
  then have hashes: "hash_node sha ?leaf \<noteq> ?ha" "?ha \<noteq> thash sha ?t" "hash_node sha ?leaf \<noteq> thash sha ?t"
    using good by (auto simp: good_nodes_def)
  have root: "get_node ?rd (thash sha ?t) = Inr (Some (Internal ?ha ?hb))"
    using get_node_top [OF st(1) g(1)] by simp
  have leafa: "get_node ?rd ?ha = Inr (Some (Leaf a va))"
    using get_node_top [OF st(2) g(2)] by simp
  have nonempty: "thash sha ?t \<noteq> EMPTY_NODE_HASH" "?ha \<noteq> EMPTY_NODE_HASH"
    using thash_EMPTY [OF g(1)] thash_EMPTY [OF g(2)] by simp_all
  obtain c1 where c1: "key_hash_st sha k new_caches = (Inr (sha k), c1)" "node_cache c1 = Map.empty"
      "\<forall>key h. key_hash_cache c1 key = Some h \<longrightarrow> h = sha key"
    using key_hash_st_run [of new_caches sha k] by (auto simp: new_caches_def)
  let ?c2 = "cache_node sha ?leaf c1"
  have c2: "node_cache ?c2 (thash sha ?t) = None" "node_cache ?c2 ?ha = None"
      "\<forall>key h. key_hash_cache ?c2 key = Some h \<longrightarrow> h = sha key"
    using c1(2,3) hashes by (simp_all add: cache_node_def)
  obtain c3 where c3: "cached_find_path sha ?rd (sha k) (thash sha ?t) 0 [] ?c2
      = (Inr ([(0, Internal ?ha ?hb, False), (1, Leaf a va, False)], 1), c3)"
      "\<forall>key h. key_hash_cache c3 key = Some h \<longrightarrow> h = sha key"
    using cached_path_two [OF root leafa c2 nonempty hashes(2) bits(1)] ne by auto
  obtain c4 where c4: "key_hash_st sha a c3 = (Inr (sha a), c4)"
    using key_hash_st_run [OF c3(2)] by blast
  have "follows (sha a) [False]" using pl by simp
  then have "find_divergence (sha a) (sha k) 1 \<noteq> None"
    using follows_divergence [OF sha, of a "[False]" k] bits(1) ne by (simp add: follows_def)
  from create_separating_eq [OF this, of sha "L a va" "L k (sha val)" "node_puts sha [?leaf]"]
  obtain ns where "fst (cached_separating_internals sha 1 (sha a) ?ha (sha k) (hash_node sha ?leaf)
       (node_puts sha [?leaf]) c4) = Inr (thash sha ?s, node_puts sha [?leaf] @ node_puts sha ns)"
    by (auto simp: cached_separating_result)
  then obtain c5 where c5: "cached_separating_internals sha 1 (sha a) ?ha (sha k) (hash_node sha ?leaf)
       (node_puts sha [?leaf]) c4 = (Inr (thash sha ?s, node_puts sha [?leaf] @ node_puts sha ns), c5)"
    by (metis prod.collapse)
  have leaf_put: "batch_node sha ?leaf [] = node_puts sha [?leaf]" by (simp add: batch_node_def node_puts_def)
  have "\<exists>batch c'. cached_path_updates sha ?rd (thash sha ?t) (sha k) (hash_node sha ?leaf) (node_puts sha [?leaf]) ?c2
      = (Inr ([(1, thash sha ?s), (0, hash_node sha (Internal ?ha (thash sha ?s)))], batch), c')"
    unfolding cached_path_updates_def
      sbind_Inr [where m = "cached_find_path sha ?rd (sha k) (thash sha ?t) 0 []" and s = ?c2, OF c3(1)]
    using bits(2) c4 c5 by (simp add: cached_rebuild_step_def sbind_def cached_batch_node_def Let_def)
  then obtain batch c' where upd: "cached_path_updates sha ?rd (thash sha ?t) (sha k) (hash_node sha ?leaf)
      (node_puts sha [?leaf]) ?c2
      = (Inr ([(1, thash sha ?s), (0, hash_node sha (Internal ?ha (thash sha ?s)))], batch), c')" by blast
  show ?thesis
    using nonempty(1) upd
    by (simp add: cached_update_smt_for_key_def c1(1) sbind_def Let_def hash_value_def cached_batch_node_def
        leaf_put root_of_updates_def)
qed

text \<open>
  C21: the cached update rebuilds the wrong side. It picks the side of a rebuilt node by the
  bit at the depth the traversal ended at. In a tree of two leaves under the root, a key
  whose hash starts with the bits 0, 1 goes left, to the leaf \<open>a\<close>; the new subtree then
  replaces the root's right child: the returned root is that of a tree in which neither the
  inserted key nor the untouched leaf \<open>b\<close> can be found.
\<close>

theorem cached_update_wrong_side:
  assumes "sha_256 sha" "smt_inv sha m (N (L a va) (L b vb))"
    "good_nodes sha (insert (Leaf k (sha val)) (set (tnodes sha (N (L a va) (L b vb)))))"
    "\<not> key_bit (sha k) 0" "key_bit (sha k) 1" "sha a \<noteq> sha k"
  shows "\<exists>t' batch.
     fst (cached_update_smt_for_key sha (reader_of m) (thash sha (N (L a va) (L b vb))) k val [] new_caches)
       = Inr (thash sha t', batch)
     \<and> lookup sha (sha k) 0 t' = None \<and> lookup sha (sha b) 0 t' = None"
proof -
  let ?t' = "N (L a va) (separate (sha a) (L a va) (sha k) (L k (sha val)) 1)"
  have pl: "follows (sha a) [False]" "key_bit (sha b) 0" "\<not> key_bit (sha a) 0"
    using assms(2) by (simp_all add: smt_inv_def follows_def)
  then have d: "find_divergence (sha a) (sha k) 1 \<noteq> None"
    using follows_divergence [OF assms(1), of a "[False]" k] assms(4,6) by (simp add: follows_def)
  have "sha b \<noteq> sha a" "sha b \<noteq> sha k" using pl assms(4) by auto
  then have "lookup sha (sha b) 1 (separate (sha a) (L a va) (sha k) (L k (sha val)) 1) = None"
    by (simp only: lookup_separate [where sha = sha and k' = a and k = k and d = 1, OF d] if_False)
  then have "lookup sha (sha b) 0 ?t' = None" using pl(2) by simp
  moreover have "lookup sha (sha k) 0 ?t' = None" using assms(4,6) by simp
  ultimately show ?thesis using cached_update_two [OF assms] by blast
qed

definition two_leaf_tree :: stree where
  "two_leaf_tree = N (L ''!'' (toy_sha ''1'')) (L ''zz'' (toy_sha ''2''))"

definition two_leaf_nodes :: kvmap where
  "two_leaf_nodes = apply_ops (node_puts toy_sha (tnodes toy_sha two_leaf_tree)) Map.empty"

lemma two_leaf_good:
  "good_nodes toy_sha (insert (Leaf ''a'' (toy_sha ''3'')) (set (tnodes toy_sha two_leaf_tree)))"
  by (simp add: two_leaf_tree_def good_nodes_def hash_node_def toy_sha_eq toy_sha_EMPTY byte_sum_toy_sha
      u32_max_def inj_on_def)

lemma two_leaf_inv: "smt_inv toy_sha two_leaf_nodes two_leaf_tree"
proof -
  have "inj_on (hash_node toy_sha) (set (tnodes toy_sha two_leaf_tree))"
    using two_leaf_good by (auto simp: good_nodes_def intro: inj_on_subset)
  then have "stored toy_sha two_leaf_nodes two_leaf_tree"
    unfolding stored_def two_leaf_nodes_def by (intro ballI node_puts_hit) (simp_all only: insert_absorb simp_thms)
  then show ?thesis
    by (simp add: smt_inv_def two_leaf_tree_def follows_def key_bit_def toy_sha_def)
qed

theorem cached_update_wrong_side_witness:
  "\<exists>t' batch. fst (cached_update_smt_for_key toy_sha (reader_of two_leaf_nodes) (thash toy_sha two_leaf_tree)
       ''a'' ''3'' [] new_caches) = Inr (thash toy_sha t', batch)
     \<and> lookup toy_sha (toy_sha ''a'') 0 t' = None \<and> lookup toy_sha (toy_sha ''zz'') 0 t' = None"
  unfolding two_leaf_tree_def
  by (rule cached_update_wrong_side [OF toy_sha_256 two_leaf_inv [unfolded two_leaf_tree_def]
        two_leaf_good [unfolded two_leaf_tree_def]])
     (simp_all add: key_bit_def toy_sha_def)

end
