(* ===== verification/SyncTypes.thy ===== *)
theory SyncTypes
  imports Bytes
begin

text \<open>
  The vocabulary of the sync layer (\<open>crates/metashrew-sync\<close>): the errors of \<open>error.rs\<close>, the
  types of \<open>types.rs\<close>, the adapter traits of \<open>traits.rs\<close> as records of operations on a world
  \<open>'w\<close> that holds the node, the storage and the runtime, the default methods of
  \<open>StorageAdapter\<close>, and the retry policy of \<open>sync.rs\<close>. A node may answer differently at every
  call: an operation returns the world after it.
\<close>

datatype sync_error =
    BitcoinNode string | Storage string | Runtime string | Reorg string
  | BlockProcessing nat string | ViewFunction string | Config string | Network string
  | Serialization string | Unavailable string | ResourceExhausted string | Generic string

text \<open>The \<open>Display\<close> instance.\<close>

fun show_error :: "sync_error \<Rightarrow> string" where
  "show_error (BitcoinNode m) = ''Bitcoin node error: '' @ m"
| "show_error (Storage m) = ''Storage error: '' @ m"
| "show_error (Runtime m) = ''Runtime error: '' @ m"
| "show_error (Reorg m) = ''Chain reorganization error: '' @ m"
| "show_error (BlockProcessing h m) = ''Block processing error at height '' @ dec h @ '': '' @ m"
| "show_error (ViewFunction m) = ''View function error: '' @ m"
| "show_error (Config m) = ''Configuration error: '' @ m"
| "show_error (Network m) = ''Network error: '' @ m"
| "show_error (Serialization m) = ''Serialization error: '' @ m"
| "show_error (Unavailable m) = ''View runtime unavailable: '' @ m"
| "show_error (ResourceExhausted m) = ''View runtime resource exhausted: '' @ m"
| "show_error (Generic m) = ''Generic error: '' @ m"

type_synonym ('w, 'a) io = "('w, sync_error, 'a) est"

text \<open>\<open>str::contains\<close>\<close>

definition contains :: "string \<Rightarrow> string \<Rightarrow> bool" where
  "contains s pat \<longleftrightarrow> sublist pat s"

text \<open>\<open>unwrap_or\<close> on the result of an operation.\<close>

definition unwrap_or :: "'a \<Rightarrow> ('w, 'a) io \<Rightarrow> 'w \<Rightarrow> 'a \<times> 'w" where
  "unwrap_or d m w = (case m w of (Inl _, w') \<Rightarrow> (d, w') | (Inr x, w') \<Rightarrow> (x, w'))"

text \<open>An operation of the world that cannot fail.\<close>

definition io_of :: "('w \<Rightarrow> 'a \<times> 'w) \<Rightarrow> ('w, 'a) io" where
  "io_of m w = (case m w of (x, w') \<Rightarrow> (Inr x, w'))"

definition attempt_io :: "('w, 'a) io \<Rightarrow> ('w, sync_error + 'a) io" where
  "attempt_io m w = (case m w of (r, w') \<Rightarrow> (Inr r, w'))"

subsection \<open>Types\<close>

datatype block_result = Success nat | Failure nat string

record sync_config =
  start_block :: nat
  exit_at :: "nat option"
  pipeline_size :: "nat option"
  max_reorg_depth :: nat
  reorg_check_threshold :: nat
  enable_startup_heal :: bool

definition default_config :: sync_config where
  "default_config = \<lparr>start_block = 0, exit_at = None, pipeline_size = None, max_reorg_depth = 100,
     reorg_check_threshold = 6, enable_startup_heal = True\<rparr>"

record view_call =
  function_name :: string
  input_data :: bytes
  call_height :: nat

record preview_call = view_call +
  preview_block :: bytes

record block_info =
  info_height :: nat
  info_hash :: bytes
  info_data :: bytes

record atomic_block_result =
  state_root :: bytes
  batch_data :: bytes
  result_height :: nat
  result_hash :: bytes

subsection \<open>The adapters\<close>

record 'w node_adapter =
  n_tip_height :: "('w, nat) io"
  n_block_hash :: "nat \<Rightarrow> ('w, bytes) io"
  n_block_data :: "nat \<Rightarrow> ('w, bytes) io"
  n_block_info :: "nat \<Rightarrow> ('w, block_info) io"
  n_is_connected :: "'w \<Rightarrow> bool \<times> 'w"

record 'w storage_adapter =
  s_indexed_height :: "('w, nat) io"
  s_set_indexed_height :: "nat \<Rightarrow> ('w, unit) io"
  s_store_block_hash :: "nat \<Rightarrow> bytes \<Rightarrow> ('w, unit) io"
  s_block_hash :: "nat \<Rightarrow> ('w, bytes option) io"
  s_store_state_root :: "nat \<Rightarrow> bytes \<Rightarrow> ('w, unit) io"
  s_state_root :: "nat \<Rightarrow> ('w, bytes option) io"
  s_rollback :: "nat \<Rightarrow> ('w, unit) io"
  s_is_available :: "'w \<Rightarrow> bool \<times> 'w"
  s_runtime_tip :: "('w, nat) io"
  s_max_block_hash :: "nat \<Rightarrow> ('w, nat) io"
  s_heal :: "nat \<Rightarrow> ('w, unit) io"
  s_commit :: "nat \<Rightarrow> bytes \<Rightarrow> bytes \<Rightarrow> bytes \<Rightarrow> ('w, unit) io"

record 'w runtime_adapter =
  r_process_atomic :: "nat \<Rightarrow> bytes \<Rightarrow> bytes \<Rightarrow> ('w, atomic_block_result) io"
  r_execute_view :: "view_call \<Rightarrow> ('w, bytes) io"
  r_execute_preview :: "preview_call \<Rightarrow> ('w, bytes) io"
  r_refresh_memory :: "('w, unit) io"
  r_is_ready :: "'w \<Rightarrow> bool \<times> 'w"

subsection \<open>The default methods of \<open>StorageAdapter\<close>\<close>

definition default_runtime_tip :: "('w, nat) io \<Rightarrow> ('w, nat) io" where
  "default_runtime_tip indexed = indexed"

text \<open>The walk \<open>while h > stop_at\<close>, then the explicit check of the last height.\<close>

fun default_scan :: "(nat \<Rightarrow> ('w, bytes option) io) \<Rightarrow> nat \<Rightarrow> nat \<Rightarrow> ('w, nat) io" where
  "default_scan block_hash floor 0 =
     sbind (block_hash 0) (\<lambda>r. sreturn (0 :: nat))"
| "default_scan block_hash floor (Suc h) =
     sbind (block_hash (Suc h)) (\<lambda>r.
       if r \<noteq> None then sreturn (Suc h)
       else if Suc h > floor then default_scan block_hash floor h
       else sreturn 0)"

definition default_max_block_hash ::
    "('w, nat) io \<Rightarrow> (nat \<Rightarrow> ('w, bytes option) io) \<Rightarrow> nat \<Rightarrow> ('w, nat) io" where
  "default_max_block_hash indexed block_hash floor =
     sbind indexed (\<lambda>top. if top = 0 then sreturn 0 else default_scan block_hash floor top)"

definition default_heal_refused :: "nat \<Rightarrow> nat \<Rightarrow> string" where
  "default_heal_refused current target =
     ''heal_pointers_atomic refused to advance tip: current='' @ dec current
     @ '' target='' @ dec target @ '' (heal only rolls back, never forward)''"

definition default_heal :: "('w, nat) io \<Rightarrow> (nat \<Rightarrow> ('w, unit) io) \<Rightarrow> nat \<Rightarrow> ('w, unit) io" where
  "default_heal indexed rollback target_height =
     sbind indexed (\<lambda>current.
       if current > target_height then rollback target_height
       else if current < target_height then sfail (Storage (default_heal_refused current target_height))
       else sreturn ())"

definition default_out_of_order :: "nat \<Rightarrow> nat \<Rightarrow> string" where
  "default_out_of_order h current =
     ''out-of-order commit rejected: attempted height '' @ dec h @ '' but current tip is ''
     @ dec current @ '' (commit_atomic only accepts height == tip + 1)''"

text \<open>The default commit; it ignores the batch. The second read happens only at tip 0.\<close>

definition default_commit ::
    "('w, nat) io \<Rightarrow> (nat \<Rightarrow> ('w, bytes option) io) \<Rightarrow> (nat \<Rightarrow> bytes \<Rightarrow> ('w, unit) io)
     \<Rightarrow> (nat \<Rightarrow> bytes \<Rightarrow> ('w, unit) io) \<Rightarrow> (nat \<Rightarrow> ('w, unit) io)
     \<Rightarrow> nat \<Rightarrow> bytes \<Rightarrow> bytes \<Rightarrow> bytes \<Rightarrow> ('w, unit) io" where
  "default_commit indexed block_hash store_hash store_root set_indexed h bh root batch =
     sbind indexed (\<lambda>current.
     sbind (if current = 0 then sbind (block_hash 0) (\<lambda>r. sreturn (r = None)) else sreturn False) (\<lambda>allow_first.
       if \<not> allow_first \<and> h \<noteq> sat_add32 current 1
       then sfail (Storage (default_out_of_order h current))
       else
         sbind (store_hash h bh) (\<lambda>_.
         sbind (store_root h root) (\<lambda>_.
         set_indexed h))))"

subsection \<open>The retry policy\<close>

definition ATOMIC_RETRY_WARN_THRESHOLD :: nat where "ATOMIC_RETRY_WARN_THRESHOLD = 5"
definition ATOMIC_RETRY_ERROR_THRESHOLD :: nat where "ATOMIC_RETRY_ERROR_THRESHOLD = 30"
definition ATOMIC_RETRY_ERROR_SPAM_EVERY :: nat where "ATOMIC_RETRY_ERROR_SPAM_EVERY = 10"
definition ATOMIC_RETRY_BACKOFF_CAP_MS :: nat where "ATOMIC_RETRY_BACKOFF_CAP_MS = 30000"
definition MAX_ATOMIC_COMMIT_ATTEMPTS :: nat where "MAX_ATOMIC_COMMIT_ATTEMPTS = 30"

lemmas retry_constants = ATOMIC_RETRY_WARN_THRESHOLD_def ATOMIC_RETRY_ERROR_THRESHOLD_def
  ATOMIC_RETRY_ERROR_SPAM_EVERY_def ATOMIC_RETRY_BACKOFF_CAP_MS_def MAX_ATOMIC_COMMIT_ATTEMPTS_def

definition atomic_retry_backoff_ms :: "nat \<Rightarrow> nat" where
  "atomic_retry_backoff_ms attempt =
     (if attempt \<le> 1 then 0
      else let shift = min (attempt - 2) 9 in
        min (min (100 * 2 ^ shift) u64_max) ATOMIC_RETRY_BACKOFF_CAP_MS)"

text \<open>
  The severity \<open>log_atomic_retry_failure\<close> picks, and whether the message carries the
  out-of-order hint; the message texts are not modelled.
\<close>

datatype severity = Warn | Error

definition log_atomic_retry_failure :: "nat \<Rightarrow> string \<Rightarrow> (severity \<times> bool) option" where
  "log_atomic_retry_failure attempt err =
     (let out_of_order = contains err ''out-of-order commit rejected'' in
      if attempt \<le> ATOMIC_RETRY_WARN_THRESHOLD then Some (Warn, False)
      else if attempt \<le> ATOMIC_RETRY_ERROR_THRESHOLD then Some (Error, out_of_order)
      else if (attempt - ATOMIC_RETRY_ERROR_THRESHOLD) mod ATOMIC_RETRY_ERROR_SPAM_EVERY = 0
      then Some (Error, out_of_order)
      else None)"

lemma backoff_capped:
  assumes "11 \<le> i"
  shows "atomic_retry_backoff_ms i = 30000"
proof -
  have "min (i - 2) 9 = 9" using assms by simp
  with assms show ?thesis by (simp add: atomic_retry_backoff_ms_def Let_def retry_constants u64_max_def)
qed

lemma backoff_early:
  "map atomic_retry_backoff_ms [0..<12] = [0, 0, 100, 200, 400, 800, 1600, 3200, 6400, 12800, 25600, 30000]"
  by (simp add: atomic_retry_backoff_ms_def Let_def retry_constants u64_max_def min_def upt_rec)

lemma backoff_nth: "i < 12 \<Longrightarrow> atomic_retry_backoff_ms i =
    [0, 0, 100, 200, 400, 800, 1600, 3200, 6400, 12800, 25600, 30000] ! i"
  unfolding backoff_early [symmetric] by simp

lemma backoff_mono: "atomic_retry_backoff_ms i \<le> atomic_retry_backoff_ms (i + 1)"
proof (cases "i < 11")
  case True
  then have "i = 0 \<or> i = 1 \<or> i = 2 \<or> i = 3 \<or> i = 4 \<or> i = 5 \<or> i = 6 \<or> i = 7 \<or> i = 8 \<or> i = 9 \<or> i = 10"
    by presburger
  then show ?thesis using backoff_nth [of i] backoff_nth [of "i + 1"] by auto
next
  case False
  then show ?thesis by (simp add: backoff_capped)
qed

lemma backoff_bound: "atomic_retry_backoff_ms i \<le> 30000"
  by (simp add: atomic_retry_backoff_ms_def Let_def retry_constants)

lemma backoff_total: "(\<Sum>i \<in> {1..MAX_ATOMIC_COMMIT_ATTEMPTS}. atomic_retry_backoff_ms i) = 651100"
proof -
  have "{1..MAX_ATOMIC_COMMIT_ATTEMPTS} = {1..<12} \<union> {12..<31}"
    by (auto simp: MAX_ATOMIC_COMMIT_ATTEMPTS_def)
  moreover have "(\<Sum>i \<in> {1..<12}. atomic_retry_backoff_ms i) = 81100"
  proof -
    have "[1..<12] = drop 1 [0..<12]" by simp
    then have "map atomic_retry_backoff_ms [1..<12] = drop 1 (map atomic_retry_backoff_ms [0..<12])"
      by (metis drop_map)
    then have "sum_list (map atomic_retry_backoff_ms [1..<12]) = 81100" unfolding backoff_early by simp
    then show ?thesis by (simp only: interv_sum_list_conv_sum_set_nat set_upt)
  qed
  moreover have "(\<Sum>i \<in> {12..<31}. atomic_retry_backoff_ms i) = (\<Sum>i \<in> {12..<(31::nat)}. 30000)"
    by (rule sum.cong) (simp_all add: backoff_capped)
  ultimately show ?thesis by (simp only: sum.union_disjoint [of "{1..<12}" "{12..<31}"]) (subst sum.union_disjoint, auto)
qed

lemma error_logged:
  assumes "5 < i"
  shows "\<exists>j. i \<le> j \<and> j < i + 10 \<and> log_atomic_retry_failure j err
     = Some (Error, contains err ''out-of-order commit rejected'')"
proof (cases "i \<le> 30")
  case True
  with assms show ?thesis by (intro exI [of _ i]) (simp add: log_atomic_retry_failure_def retry_constants Let_def)
next
  case False
  define j where "j = 30 + 10 * ((i - 30 + 9) div 10)"
  have "i \<le> j" "j < i + 10" "30 < j" "(j - 30) mod 10 = 0" using False by (simp_all add: j_def)
  then show ?thesis
    by (intro exI [of _ j]) (simp add: log_atomic_retry_failure_def retry_constants Let_def)
qed

text \<open>
  The retry schedule. The delay before an attempt is 0 for the first, starts doubling
  from 100 ms, never decreases and never exceeds 30 s; the 30 attempts of a block apply
  wait 651.1 s in total; and past the fifth attempt an error-severity line is written at
  least every tenth attempt however long the stall lasts.
\<close>

theorem retry_schedule:
  "atomic_retry_backoff_ms 1 = 0 \<and> atomic_retry_backoff_ms 2 = 100
   \<and> (\<forall>i. atomic_retry_backoff_ms i \<le> atomic_retry_backoff_ms (i + 1) \<and> atomic_retry_backoff_ms i \<le> 30000)
   \<and> (\<Sum>i \<in> {1..MAX_ATOMIC_COMMIT_ATTEMPTS}. atomic_retry_backoff_ms i) = 651100
   \<and> (\<forall>i err. \<exists>j. i + 6 \<le> j \<and> j < i + 16 \<and> log_atomic_retry_failure j err
        = Some (Error, contains err ''out-of-order commit rejected''))"
  using backoff_nth [of 1] backoff_nth [of 2] backoff_mono backoff_bound backoff_total
    error_logged [of "_ + 6"] by (auto simp: add.assoc)

end
