(* ===== verification/SyncEngine.thy ===== *)
theory SyncEngine
  imports SyncTypes
begin

text \<open>
  The sync engine of \<open>crates/metashrew-sync/src/sync.rs\<close>, except the concurrent pipeline: the
  start-up heal, the reorganisation handler, block validation, the bounded retry loop of
  the block apply and the unbounded one of the pipeline's clone, the next-block decision,
  start and stop, and the JSON-RPC methods. The adapters are arguments; sleeping changes
  no state and is not modelled, nor are the last-block time and the rate derived from it.
\<close>

definition io_or :: "'a \<Rightarrow> ('w, 'a) io \<Rightarrow> ('w, 'a) io" where
  "io_or d m = io_of (unwrap_or d m)"

subsection \<open>Reorganisations\<close>

text \<open>
  The search for the common ancestor: \<open>None\<close> when the node fails, otherwise the height it
  stopped at and whether a mismatch was seen.
\<close>

fun reorg_scan ::
    "'w node_adapter \<Rightarrow> 'w storage_adapter \<Rightarrow> nat \<Rightarrow> nat \<Rightarrow> bool \<Rightarrow> ('w, (nat \<times> bool) option) io" where
  "reorg_scan N S low 0 reorg_detected = sreturn (Some (0, reorg_detected))"
| "reorg_scan N S low (Suc h) reorg_detected =
     (if Suc h \<ge> low then
        sbind (attempt_io (s_block_hash S (Suc h))) (\<lambda>stored.
          case stored of
            Inr (Some local_hash) \<Rightarrow>
              sbind (attempt_io (n_block_hash N (Suc h))) (\<lambda>remote.
                case remote of
                  Inl _ \<Rightarrow> sreturn None
                | Inr remote_hash \<Rightarrow>
                    if local_hash = remote_hash then sreturn (Some (Suc h, reorg_detected))
                    else reorg_scan N S low h True)
          | _ \<Rightarrow> reorg_scan N S low h reorg_detected)
      else sreturn (Some (Suc h, reorg_detected)))"

definition handle_reorg ::
    "'w node_adapter \<Rightarrow> 'w storage_adapter \<Rightarrow> 'w runtime_adapter \<Rightarrow> sync_config \<Rightarrow> nat \<Rightarrow> ('w, nat) io" where
  "handle_reorg N S R cfg current_height =
     (if current_height = 0 then sreturn 0
      else
        sbind (reorg_scan N S (current_height - max_reorg_depth cfg) (current_height - 1) False) (\<lambda>r.
          case r of
            None \<Rightarrow> sreturn current_height
          | Some (rollback_height, reorg_detected) \<Rightarrow>
              if reorg_detected then
                sbind (s_rollback S rollback_height) (\<lambda>_.
                sbind (r_refresh_memory R) (\<lambda>_.
                sreturn (rollback_height + 1)))
              else sreturn current_height))"

subsection \<open>The start-up heal\<close>

datatype startup_heal_outcome = AlreadyConsistent nat | Healed nat nat | Disabled

function heal_walk ::
    "'w node_adapter \<Rightarrow> 'w storage_adapter \<Rightarrow> nat \<Rightarrow> nat \<Rightarrow> nat \<Rightarrow> ('w, nat) io" where
  "heal_walk N S floor candidate h =
     sbind (io_or None (s_block_hash S h)) (\<lambda>stored.
     sbind (case stored of
              Some stored_hash \<Rightarrow>
                sbind (attempt_io (n_block_hash N h)) (\<lambda>remote.
                  sreturn (case remote of
                    Inr remote_hash \<Rightarrow> if remote_hash = stored_hash then Some h else None
                  | Inl _ \<Rightarrow> Some (min candidate h)))
            | None \<Rightarrow> sreturn None) (\<lambda>stop.
       case stop of
         Some safe_height \<Rightarrow> sreturn safe_height
       | None \<Rightarrow>
           if h = 0 \<or> h \<le> floor then sreturn h
           else heal_walk N S floor candidate (h - 1)))"
  by pat_completeness auto
termination
  by (relation "measure (\<lambda>(N, S, floor, candidate, h). h)") auto

declare heal_walk.simps [simp del]

text \<open>Step 5: write, unless the safe height is already where every pointer stands.\<close>

definition heal_finish ::
    "'w storage_adapter \<Rightarrow> nat \<Rightarrow> nat \<Rightarrow> nat \<Rightarrow> nat \<Rightarrow> ('w, nat \<times> startup_heal_outcome) io" where
  "heal_finish S indexed_height runtime_tip max_blockhash_h safe_height =
     (if safe_height < indexed_height \<or> safe_height < runtime_tip \<or> safe_height < max_blockhash_h then
        sbind (s_heal S safe_height) (\<lambda>_.
          sreturn (safe_height, Healed (max (max indexed_height runtime_tip) max_blockhash_h) safe_height))
      else sreturn (safe_height, AlreadyConsistent safe_height))"

text \<open>The check of an agreed tip: \<open>True\<close> when it is clean or cannot be checked.\<close>

definition heal_confirm :: "'w node_adapter \<Rightarrow> 'w storage_adapter \<Rightarrow> nat \<Rightarrow> ('w, bool) io" where
  "heal_confirm N S candidate =
     sbind (io_or None (s_block_hash S candidate)) (\<lambda>stored.
       case stored of
         Some stored_hash \<Rightarrow>
           sbind (attempt_io (n_block_hash N candidate)) (\<lambda>remote.
             sreturn (case remote of
               Inr remote_hash \<Rightarrow> remote_hash = stored_hash
             | Inl _ \<Rightarrow> True))
       | None \<Rightarrow> sreturn False)"

definition heal_pointer_divergence_at_startup ::
    "'w node_adapter \<Rightarrow> 'w storage_adapter \<Rightarrow> sync_config \<Rightarrow> ('w, nat \<times> startup_heal_outcome) io" where
  "heal_pointer_divergence_at_startup N S cfg =
     (if \<not> enable_startup_heal cfg then
        sbind (io_or 0 (s_indexed_height S)) (\<lambda>h. sreturn (h, Disabled))
      else
        sbind (io_or 0 (s_indexed_height S)) (\<lambda>indexed_height.
        sbind (io_or indexed_height (s_runtime_tip S)) (\<lambda>runtime_tip.
        sbind (io_or indexed_height (s_max_block_hash S (indexed_height - 256))) (\<lambda>max_blockhash_h.
        let all_agree = (indexed_height = runtime_tip \<and> runtime_tip = max_blockhash_h);
            candidate = min (min indexed_height runtime_tip) max_blockhash_h in
        if all_agree \<and> indexed_height = 0 then sreturn (indexed_height, AlreadyConsistent indexed_height)
        else
          sbind (io_of (n_is_connected N)) (\<lambda>bitcoind_reachable.
          sbind (if all_agree \<and> bitcoind_reachable then heal_confirm N S candidate else sreturn False) (\<lambda>clean.
            if clean then sreturn (candidate, AlreadyConsistent candidate)
            else
              sbind (if bitcoind_reachable
                     then heal_walk N S (candidate - max_reorg_depth cfg) candidate candidate
                     else sreturn candidate)
                (heal_finish S indexed_height runtime_tip max_blockhash_h)))))))"

subsection \<open>The engine's own state\<close>

record 'w engine =
  world :: 'w
  is_running :: bool
  current_height :: nat
  blocks_processed :: nat
  processing_heights :: "nat set"

definition new_engine :: "'w \<Rightarrow> 'w engine" where
  "new_engine w = \<lparr>world = w, is_running = False, current_height = 0, blocks_processed = 0,
     processing_heights = {}\<rparr>"

definition on_world :: "('w, 'a) io \<Rightarrow> ('w engine, 'a) io" where
  "on_world m e = (case m (world e) of (r, w) \<Rightarrow> (r, e\<lparr>world := w\<rparr>))"

definition set_current :: "nat \<Rightarrow> ('w engine, unit) io" where
  "set_current h e = (Inr (), e\<lparr>current_height := h\<rparr>)"

definition get_current_height :: "('w engine, nat) io" where
  "get_current_height e = (Inr (current_height e), e)"

definition start_height :: "sync_config \<Rightarrow> nat \<Rightarrow> nat result" where
  "start_height cfg indexed_height =
     (if start_block cfg > 0 \<and> start_block cfg > indexed_height then Inr (start_block cfg)
      else if indexed_height > 0 then
        (if indexed_height < u32_max then Inr (indexed_height + 1)
         else Inl ''attempt to add with overflow'')
      else Inr (start_block cfg))"

text \<open>
  \<open>init\<close>; a failed heal, an overflow and the \<open>unwrap\<close> of the placeholder root are panics,
  here errors.
\<close>

definition sync_init ::
    "'w node_adapter \<Rightarrow> 'w storage_adapter \<Rightarrow> sync_config \<Rightarrow> ('w engine, unit) io" where
  "sync_init N S cfg =
     sbind (on_world (heal_pointer_divergence_at_startup N S cfg)) (\<lambda>_.
     sbind (on_world (io_or 0 (s_indexed_height S))) (\<lambda>indexed_height.
       case start_height cfg indexed_height of
         Inl panic \<Rightarrow> sfail (Generic panic)
       | Inr start \<Rightarrow>
           sbind (if indexed_height = 0 \<and> start_block cfg > 0 then
                    sbind (on_world (attempt_io (s_state_root S (start_block cfg - 1)))) (\<lambda>root.
                      if root = Inr None
                      then on_world (s_store_state_root S (start_block cfg - 1) (replicate 32 (char_of (0 :: nat))))
                      else sreturn ())
                  else sreturn ())
             (\<lambda>_. set_current start)))"

subsection \<open>Validation\<close>

record validation_request =
  req_height :: nat
  req_header :: bytes
  req_claimed_hash :: bytes
  req_prev_hash :: "bytes option"

text \<open>
  \<open>decode_header\<close> is the decoder of the \<open>bitcoin\<close> crate, which gives the 80 bytes of the
  header and its \<open>prev_blockhash\<close>; \<open>sha\<close> is SHA-256; the validator is the closure installed
  by \<open>set_validator\<close>.
\<close>

definition validate_block_connects ::
    "(bytes \<Rightarrow> bytes) \<Rightarrow> (bytes \<Rightarrow> string + bytes \<times> bytes) \<Rightarrow> (validation_request \<Rightarrow> bool) option
     \<Rightarrow> 'w storage_adapter \<Rightarrow> nat \<Rightarrow> bytes \<Rightarrow> bytes \<Rightarrow> ('w, bool) io" where
  "validate_block_connects sha decode_header validator S h block_data provided_hash =
     (case validator of
        Some validate \<Rightarrow>
          if length provided_hash \<noteq> 32 then sreturn False
          else
            sbind (if h = 0 then sreturn None
                   else sbind (s_block_hash S (h - 1)) (\<lambda>stored.
                     sreturn (case stored of
                       Some v \<Rightarrow> if length v = 32 then Some v else None
                     | None \<Rightarrow> None)))
              (\<lambda>prev_hash. sreturn (validate
                 \<lparr>req_height = h, req_header = (if length block_data \<ge> 80 then take 80 block_data else block_data),
                  req_claimed_hash = provided_hash, req_prev_hash = prev_hash\<rparr>))
      | None \<Rightarrow>
          (case decode_header block_data of
             Inl e \<Rightarrow> sfail (BlockProcessing h (''Failed to deserialize block: '' @ e))
           | Inr (header_bytes, prev_blockhash) \<Rightarrow>
               let computed_hash = rev (sha (sha header_bytes)) in
               if computed_hash \<noteq> provided_hash then sreturn False
               else if h = 0 then sreturn True
               else
                 sbind (s_block_hash S (h - 1)) (\<lambda>stored_prev_hash.
                   sreturn (case stored_prev_hash of
                     Some stored_hash \<Rightarrow> stored_hash = rev prev_blockhash
                   | None \<Rightarrow> True))))"

subsection \<open>Applying a block\<close>

definition not_connected_message :: string where
  "not_connected_message =
     ''Block does not connect to previous block - possible reorg or chain inconsistency''"

definition budget_message :: "nat \<Rightarrow> string \<Rightarrow> string" where
  "budget_message h msg =
     ''process_block: commit_atomic at height '' @ dec h @ '' exceeded max-retry budget (''
     @ dec MAX_ATOMIC_COMMIT_ATTEMPTS @ '' attempts): last error: '' @ msg"

text \<open>One attempt: \<open>Inr None\<close> when committed, \<open>Inr (Some e)\<close> to retry, an error to give up.\<close>

definition apply_attempt ::
    "'w storage_adapter \<Rightarrow> 'w runtime_adapter \<Rightarrow> nat \<Rightarrow> bytes \<Rightarrow> bytes \<Rightarrow> ('w, string option) io" where
  "apply_attempt S R h block_data block_hash =
     sbind (attempt_io (r_process_atomic R h block_data block_hash)) (\<lambda>r.
       case r of
         Inr result \<Rightarrow>
           sbind (attempt_io (s_commit S h (result_hash result) (state_root result) (batch_data result))) (\<lambda>c.
             case c of
               Inr _ \<Rightarrow> sreturn None
             | Inl commit_err \<Rightarrow>
                 let msg = show_error commit_err in
                 if contains msg ''out-of-order commit rejected''
                 then sfail (Storage (''commit_atomic: '' @ msg))
                 else sreturn (Some (''commit_atomic: '' @ msg)))
       | Inl atomic_err \<Rightarrow> sreturn (Some (''process_block_atomic: '' @ show_error atomic_err)))"

function apply_loop ::
    "'w storage_adapter \<Rightarrow> 'w runtime_adapter \<Rightarrow> nat \<Rightarrow> bytes \<Rightarrow> bytes \<Rightarrow> nat \<Rightarrow> string option \<Rightarrow> ('w, unit) io" where
  "apply_loop S R h block_data block_hash attempt last_err =
     (if sat_add32 attempt 1 > MAX_ATOMIC_COMMIT_ATTEMPTS then
        sfail (Storage (budget_message h
          (case last_err of Some msg \<Rightarrow> msg | None \<Rightarrow> ''no error captured'')))
      else
        sbind (apply_attempt S R h block_data block_hash) (\<lambda>r.
          case r of
            None \<Rightarrow> sreturn ()
          | Some err \<Rightarrow>
              sbind (attempt_io (r_refresh_memory R)) (\<lambda>_.
                apply_loop S R h block_data block_hash (sat_add32 attempt 1) (Some err))))"
  by pat_completeness auto
termination
  by (relation "measure (\<lambda>(S, R, h, block_data, block_hash, attempt, last_err). 31 - attempt)")
     (auto simp: sat_add32_def MAX_ATOMIC_COMMIT_ATTEMPTS_def u32_max_def)

declare apply_loop.simps [simp del]

definition process_block ::
    "(bytes \<Rightarrow> bytes) \<Rightarrow> (bytes \<Rightarrow> string + bytes \<times> bytes) \<Rightarrow> (validation_request \<Rightarrow> bool) option
     \<Rightarrow> 'w storage_adapter \<Rightarrow> 'w runtime_adapter \<Rightarrow> nat \<Rightarrow> bytes \<Rightarrow> bytes \<Rightarrow> ('w engine, unit) io" where
  "process_block sha decode_header validator S R h block_data block_hash =
     sbind (on_world (validate_block_connects sha decode_header validator S h block_data block_hash)) (\<lambda>connects.
       if \<not> connects then sfail (BlockProcessing h not_connected_message)
       else
         sbind (on_world (apply_loop S R h block_data block_hash 0 None)) (\<lambda>_ e.
           (Inr (), e\<lparr>blocks_processed := add32 (blocks_processed e) 1\<rparr>)))"

definition process_single_block ::
    "(bytes \<Rightarrow> bytes) \<Rightarrow> (bytes \<Rightarrow> string + bytes \<times> bytes) \<Rightarrow> (validation_request \<Rightarrow> bool) option
     \<Rightarrow> 'w node_adapter \<Rightarrow> 'w storage_adapter \<Rightarrow> 'w runtime_adapter \<Rightarrow> nat \<Rightarrow> ('w engine, unit) io" where
  "process_single_block sha decode_header validator N S R h =
     sbind (on_world (n_block_data N h)) (\<lambda>block_data.
     sbind (on_world (n_block_hash N h)) (\<lambda>block_hash.
       process_block sha decode_header validator S R h block_data block_hash))"

text \<open>
  The pipeline's \<open>ProcessingClone::process_block\<close>: no validation, no bound on the attempts,
  no special case for an out-of-order rejection. \<open>None\<close> is a loop that never returns.
\<close>

partial_function (option) clone_process_block ::
    "'w storage_adapter \<Rightarrow> 'w runtime_adapter \<Rightarrow> nat \<Rightarrow> bytes \<Rightarrow> bytes \<Rightarrow> 'w
     \<Rightarrow> ((sync_error + unit) \<times> 'w) option" where
  "clone_process_block S R h block_data block_hash w =
     (case r_process_atomic R h block_data block_hash w of
        (Inr result, w1) \<Rightarrow>
          (case s_commit S h (result_hash result) (state_root result) (batch_data result) w1 of
             (Inr _, w2) \<Rightarrow> Some (Inr (), w2)
           | (Inl _, w2) \<Rightarrow>
               clone_process_block S R h block_data block_hash (snd (r_refresh_memory R w2)))
      | (Inl _, w1) \<Rightarrow> clone_process_block S R h block_data block_hash (snd (r_refresh_memory R w1)))"

subsection \<open>The next block\<close>

definition get_next_block_data_with_floor ::
    "'w node_adapter \<Rightarrow> 'w storage_adapter \<Rightarrow> 'w runtime_adapter \<Rightarrow> sync_config \<Rightarrow> nat option
     \<Rightarrow> ('w engine, (nat \<times> bytes \<times> bytes) option) io" where
  "get_next_block_data_with_floor N S R cfg min_target_height =
     sbind get_current_height (\<lambda>current.
     sbind (on_world (n_tip_height N)) (\<lambda>remote_tip.
     sbind (if remote_tip - current \<le> reorg_check_threshold cfg then
              sbind (on_world (handle_reorg N S R cfg current)) (\<lambda>new_height.
              sbind (set_current new_height) (\<lambda>_. sreturn new_height))
            else sreturn current) (\<lambda>current.
       let fetch_height = (case min_target_height of
             Some m \<Rightarrow> if m > current then m else current
           | None \<Rightarrow> current) in
       if (case exit_at cfg of Some x \<Rightarrow> fetch_height \<ge> x | None \<Rightarrow> False) then sreturn None
       else if fetch_height > remote_tip then sreturn None
       else
         sbind (on_world (n_block_info N fetch_height)) (\<lambda>info.
           sreturn (Some (fetch_height, info_data info, info_hash info))))))"

definition get_next_block_data ::
    "'w node_adapter \<Rightarrow> 'w storage_adapter \<Rightarrow> 'w runtime_adapter \<Rightarrow> sync_config
     \<Rightarrow> ('w engine, (nat \<times> bytes \<times> bytes) option) io" where
  "get_next_block_data N S R cfg = get_next_block_data_with_floor N S R cfg None"

subsection \<open>Start, stop, status\<close>

definition set_running :: "bool \<Rightarrow> ('w engine, unit) io" where
  "set_running b e = (Inr (), e\<lparr>is_running := b\<rparr>)"

definition start ::
    "'w node_adapter \<Rightarrow> 'w storage_adapter \<Rightarrow> 'w runtime_adapter \<Rightarrow> ('w engine, unit) io \<Rightarrow> ('w engine, unit) io" where
  "start N S R run_pipeline e =
     (if is_running e then (Inl (Config ''Sync engine is already running''), e)
      else
        sbind (set_running True) (\<lambda>_.
        sbind (on_world (io_of (n_is_connected N))) (\<lambda>connected.
        if \<not> connected then sfail (BitcoinNode ''Node is not connected'')
        else sbind (on_world (io_of (s_is_available S))) (\<lambda>available.
        if \<not> available then sfail (Storage ''Storage is not available'')
        else sbind (on_world (io_of (r_is_ready R))) (\<lambda>ready.
        if \<not> ready then sfail (Runtime ''Runtime is not ready'')
        else run_pipeline)))) e)"

definition stop :: "('w engine, unit) io" where
  "stop = set_running False"

record sync_status =
  status_is_running :: bool
  status_current_height :: nat
  status_tip_height :: nat
  status_blocks_behind :: nat

definition get_status :: "'w node_adapter \<Rightarrow> ('w engine, sync_status) io" where
  "get_status N =
     sbind get_current_height (\<lambda>current.
     sbind (on_world (n_tip_height N)) (\<lambda>tip e.
       (Inr \<lparr>status_is_running = is_running e, status_current_height = current, status_tip_height = tip,
             status_blocks_behind = tip - current\<rparr>, e)))"

subsection \<open>JSON-RPC\<close>

text \<open>
  The texts that the hex decoder and the number parser add to an error are not kept.
  \<open>trim_start_matches("0x")\<close> removes every leading occurrence.
\<close>

fun trim_0x :: "string \<Rightarrow> string" where
  "trim_0x (CHR ''0'' # CHR ''x'' # s) = trim_0x s"
| "trim_0x s = s"

definition decode_hex_arg :: "(bytes \<Rightarrow> bytes option) \<Rightarrow> string \<Rightarrow> string \<Rightarrow> ('w engine, bytes) io" where
  "decode_hex_arg hexd what arg =
     (case hexd (trim_0x arg) of
        Some d \<Rightarrow> sreturn d
      | None \<Rightarrow> sfail (Serialization (''Invalid hex '' @ what)))"

definition height_arg :: "string \<Rightarrow> ('w engine, nat) io" where
  "height_arg arg =
     (if arg = ''latest'' then sbind get_current_height (\<lambda>c. sreturn (c - 1))
      else case parse_u32 arg of
        Some h \<Rightarrow> sreturn h
      | None \<Rightarrow> sfail (Serialization ''Invalid height''))"

definition metashrew_view ::
    "(bytes \<Rightarrow> bytes) \<Rightarrow> (bytes \<Rightarrow> bytes option) \<Rightarrow> 'w runtime_adapter \<Rightarrow> string \<Rightarrow> string \<Rightarrow> string
     \<Rightarrow> ('w engine, string) io" where
  "metashrew_view hexe hexd R fn input_hex height =
     sbind (decode_hex_arg hexd ''input'' input_hex) (\<lambda>input.
     sbind (height_arg height) (\<lambda>h.
     sbind (on_world (r_execute_view R \<lparr>function_name = fn, input_data = input, call_height = h\<rparr>)) (\<lambda>result.
     sreturn (''0x'' @ hexe result))))"

definition metashrew_preview ::
    "(bytes \<Rightarrow> bytes) \<Rightarrow> (bytes \<Rightarrow> bytes option) \<Rightarrow> 'w runtime_adapter \<Rightarrow> string \<Rightarrow> string \<Rightarrow> string \<Rightarrow> string
     \<Rightarrow> ('w engine, string) io" where
  "metashrew_preview hexe hexd R block_hex fn input_hex height =
     sbind (decode_hex_arg hexd ''block data'' block_hex) (\<lambda>block.
     sbind (decode_hex_arg hexd ''input'' input_hex) (\<lambda>input.
     sbind (height_arg height) (\<lambda>h.
     sbind (on_world (r_execute_preview R
         \<lparr>function_name = fn, input_data = input, call_height = h, preview_block = block\<rparr>)) (\<lambda>result.
     sreturn (''0x'' @ hexe result)))))"

definition metashrew_height :: "'w storage_adapter \<Rightarrow> ('w engine, nat) io" where
  "metashrew_height S = on_world (s_indexed_height S)"

definition metashrew_getblockhash ::
    "(bytes \<Rightarrow> bytes) \<Rightarrow> 'w storage_adapter \<Rightarrow> nat \<Rightarrow> ('w engine, string) io" where
  "metashrew_getblockhash hexe S h =
     sbind (on_world (s_block_hash S h)) (\<lambda>r.
       case r of
         Some hash \<Rightarrow> sreturn (''0x'' @ hexe hash)
       | None \<Rightarrow> sfail (Storage (''Block hash not found for height '' @ dec h)))"

definition metashrew_stateroot ::
    "(bytes \<Rightarrow> bytes) \<Rightarrow> 'w storage_adapter \<Rightarrow> string \<Rightarrow> ('w engine, string) io" where
  "metashrew_stateroot hexe S height =
     sbind (height_arg height) (\<lambda>h.
     sbind (on_world (s_state_root S h)) (\<lambda>r.
       case r of
         Some root \<Rightarrow> sreturn (''0x'' @ hexe root)
       | None \<Rightarrow> sfail (Storage (''State root not found for height '' @ dec h))))"

end
