(* ===== verification/SyncBackends.thy ===== *)
theory SyncBackends
  imports RocksChain MemStore SyncEngine
begin

text \<open>
  The two storage backends as the \<open>StorageAdapter\<close> of the sync layer, and the contract the
  engine's reads rest on. The world is a pair: the storage adapter's state, and the rest
  (node, runtime), which no storage operation touches. Every error of the two adapters is
  a \<open>SyncError::Storage\<close>.
\<close>

subsection \<open>The adapters\<close>

definition stored_read :: "('d \<Rightarrow> 'a result) \<Rightarrow> ('d \<times> 'x, 'a) io" where
  "stored_read f w = (case f (fst w) of Inl e \<Rightarrow> (Inl (Storage e), w) | Inr x \<Rightarrow> (Inr x, w))"

definition stored_op :: "('d, 'a) st \<Rightarrow> ('d \<times> 'x, 'a) io" where
  "stored_op m w = (case m (fst w) of
     (Inl e, d) \<Rightarrow> (Inl (Storage e), (d, snd w))
   | (Inr x, d) \<Rightarrow> (Inr x, (d, snd w)))"

definition rs_adapter ::
    "bytes option \<Rightarrow> 'd rocks \<Rightarrow> (bytes \<Rightarrow> batch) \<Rightarrow> ('d \<times> 'x) storage_adapter" where
  "rs_adapter lbl R from_data = \<lparr>
     s_indexed_height = stored_read (rs_get_indexed_height R),
     s_set_indexed_height = (\<lambda>h. stored_op (rs_set_indexed_height R h)),
     s_store_block_hash = (\<lambda>h v. stored_op (rs_store_block_hash R h v)),
     s_block_hash = (\<lambda>h. stored_read (\<lambda>d. rs_get_block_hash R d h)),
     s_store_state_root = (\<lambda>h v. stored_op (rs_store_state_root lbl R h v)),
     s_state_root = (\<lambda>h. stored_read (\<lambda>d. rs_get_state_root lbl R d h)),
     s_rollback = (\<lambda>h. stored_op (rs_rollback_to_height R h)),
     s_is_available = (\<lambda>w. (rs_is_available R (fst w), w)),
     s_runtime_tip = stored_read (rs_get_runtime_tip_height R),
     s_max_block_hash = (\<lambda>floor. stored_read (\<lambda>d. rs_find_max_stored_block_hash_height R d floor)),
     s_heal = (\<lambda>h. stored_op (rs_heal_pointers_atomic R h)),
     s_commit = (\<lambda>h bh root batch. stored_op (commit_atomic R from_data h bh root batch))\<rparr>"

text \<open>The in-memory adapter overrides none of the default methods.\<close>

definition mem_indexed_height :: "bytes option \<Rightarrow> (mem_store \<times> 'x, nat) io" where
  "mem_indexed_height lbl = stored_read (mem_get_indexed_height lbl)"

definition mem_block_hash :: "bytes option \<Rightarrow> nat \<Rightarrow> (mem_store \<times> 'x, bytes option) io" where
  "mem_block_hash lbl h = stored_read (\<lambda>s. mem_get_block_hash lbl s h)"

definition mem_adapter :: "bytes option \<Rightarrow> (mem_store \<times> 'x) storage_adapter" where
  "mem_adapter lbl = \<lparr>
     s_indexed_height = mem_indexed_height lbl,
     s_set_indexed_height = (\<lambda>h. stored_op (mem_set_indexed_height lbl h)),
     s_store_block_hash = (\<lambda>h v. stored_op (mem_store_block_hash lbl h v)),
     s_block_hash = mem_block_hash lbl,
     s_store_state_root = (\<lambda>h v. stored_op (mem_store_state_root lbl h v)),
     s_state_root = (\<lambda>h. stored_read (\<lambda>s. mem_get_state_root lbl s h)),
     s_rollback = (\<lambda>h. stored_op (mem_rollback_to_height lbl h)),
     s_is_available = (\<lambda>w. (True, w)),
     s_runtime_tip = default_runtime_tip (mem_indexed_height lbl),
     s_max_block_hash = default_max_block_hash (mem_indexed_height lbl) (mem_block_hash lbl),
     s_heal = default_heal (mem_indexed_height lbl) (\<lambda>h. stored_op (mem_rollback_to_height lbl h)),
     s_commit = default_commit (mem_indexed_height lbl) (mem_block_hash lbl)
        (\<lambda>h v. stored_op (mem_store_block_hash lbl h v))
        (\<lambda>h v. stored_op (mem_store_state_root lbl h v))
        (\<lambda>h. stored_op (mem_set_indexed_height lbl h))\<rparr>"

lemmas adapter_defs = rs_adapter_def mem_adapter_def mem_indexed_height_def mem_block_hash_def
  stored_read_def stored_op_def

subsection \<open>Reads that leave the world alone\<close>

text \<open>
  What the reorganisation handler and the start-up heal read: the storage's hash records
  \<open>local\<close> and the node's answers \<open>remote\<close> (\<open>None\<close>: the call fails), neither call changing
  the world.
\<close>

locale hash_reads =
  fixes N :: "'w node_adapter" and S :: "'w storage_adapter"
    and local :: "'w \<Rightarrow> nat \<Rightarrow> bytes option" and remote :: "'w \<Rightarrow> nat \<Rightarrow> bytes option"
  assumes local_read: "s_block_hash S h w = (Inr (local w h), w)"
    and remote_read: "\<exists>e. n_block_hash N h w = (case remote w h of Some x \<Rightarrow> Inr x | None \<Rightarrow> Inl e, w)"
begin

lemma attempt_local [simp]: "attempt_io (s_block_hash S h) w = (Inr (Inr (local w h)), w)"
  by (simp add: attempt_io_def local_read)

lemma io_or_local [simp]: "io_or None (s_block_hash S h) w = (Inr (local w h), w)"
  by (simp add: io_or_def io_of_def unwrap_or_def local_read)

lemma attempt_remote_Some [simp]: "remote w h = Some x \<Longrightarrow> attempt_io (n_block_hash N h) w = (Inr (Inr x), w)"
  using remote_read [of h w] by (auto simp: attempt_io_def)

lemma attempt_remote_None:
  "remote w h = None \<Longrightarrow> \<exists>e. attempt_io (n_block_hash N h) w = (Inr (Inl e), w)"
  using remote_read [of h w] by (auto simp: attempt_io_def)

text \<open>The heights where the two chains are seen to differ, and where they agree.\<close>

definition differs :: "'w \<Rightarrow> nat \<Rightarrow> bool" where
  "differs w h \<longleftrightarrow> (\<exists>x y. local w h = Some x \<and> remote w h = Some y \<and> x \<noteq> y)"

definition agrees :: "'w \<Rightarrow> nat \<Rightarrow> bool" where
  "agrees w h \<longleftrightarrow> (\<exists>x. local w h = Some x \<and> remote w h = Some x)"

text \<open>
  The scan never changes the world. Where it stops is 0, below the floor, or a height of
  agreement; it passed a height only if the chains differ there or it has no local record.
\<close>

fun scan_post :: "'w \<Rightarrow> nat \<Rightarrow> nat \<Rightarrow> bool \<Rightarrow> (nat \<times> bool) option \<Rightarrow> bool" where
  "scan_post w low h seen None \<longleftrightarrow> (\<exists>k \<le> h. low \<le> k \<and> 0 < k \<and> local w k \<noteq> None \<and> remote w k = None)"
| "scan_post w low h seen (Some (a, seen')) \<longleftrightarrow>
     a \<le> h \<and> (a = 0 \<or> a < low \<or> agrees w a)
   \<and> (\<forall>k. a < k \<longrightarrow> k \<le> h \<longrightarrow> low \<le> k \<and> (local w k = None \<or> differs w k))
   \<and> (seen' \<longleftrightarrow> seen \<or> (\<exists>k. a < k \<and> k \<le> h \<and> differs w k))"

lemma scan_post_skip:
  assumes "scan_post w low h seen r" "local w (Suc h) = None" "low \<le> Suc h"
  shows "scan_post w low (Suc h) seen r"
proof (cases r)
  case (Some p)
  then show ?thesis
    using assms by (cases p) (auto simp: le_Suc_eq differs_def)
qed (use assms in \<open>auto simp: le_Suc_eq\<close>)

lemma scan_post_differs:
  assumes "scan_post w low h True r" "differs w (Suc h)" "low \<le> Suc h"
  shows "scan_post w low (Suc h) seen r"
proof (cases r)
  case (Some p)
  obtain a b where p: "p = (a, b)" by fastforce
  with assms Some have "a < Suc h" "b" by auto
  then have "\<exists>k. a < k \<and> k \<le> Suc h \<and> differs w k" using assms(2) by blast
  with assms Some p \<open>b\<close> show ?thesis by (auto simp: le_Suc_eq)
qed (use assms in \<open>auto simp: le_Suc_eq\<close>)

lemma reorg_scan_result:
  "\<exists>r. reorg_scan N S low h seen w = (Inr r, w) \<and> scan_post w low h seen r"
proof (induction h arbitrary: seen)
  case (Suc h)
  let ?scan = "reorg_scan N S low (Suc h) seen w"
  show ?case
  proof (cases "low \<le> Suc h")
    case low: True
    show ?thesis
    proof (cases "local w (Suc h)")
      case None
      with low have "?scan = reorg_scan N S low h seen w" by simp
      with Suc.IH [of seen] scan_post_skip [OF _ None low] show ?thesis by auto
    next
      case x: (Some x)
      show ?thesis
      proof (cases "remote w (Suc h)")
        case None
        then obtain e where "attempt_io (n_block_hash N (Suc h)) w = (Inr (Inl e), w)"
          using attempt_remote_None by blast
        with x low None show ?thesis by (intro exI [of _ None]) auto
      next
        case y: (Some y)
        show ?thesis
        proof (cases "x = y")
          case True
          with x y low show ?thesis by (intro exI [of _ "Some (Suc h, seen)"]) (auto simp: agrees_def)
        next
          case False
          with x y have "differs w (Suc h)" by (simp add: differs_def)
          moreover from False x y low have "?scan = reorg_scan N S low h True w" by simp
          ultimately show ?thesis using Suc.IH [of True] scan_post_differs [OF _ _ low] by auto
        qed
      qed
    qed
  qed (auto intro!: exI [of _ "Some (Suc h, seen)"])
qed (auto intro!: exI [of _ "Some (0, seen)"])

text \<open>The handler, in terms of what the two chains are.\<close>

lemma handle_reorg_keeps:
  assumes "0 < h" "agrees w (h - 1) \<or> max_reorg_depth cfg = 0"
  shows "handle_reorg N S R cfg h w = (Inr h, w)"
proof -
  have "reorg_scan N S (h - max_reorg_depth cfg) (h - 1) False w = (Inr (Some (h - 1, False)), w)"
    using assms by (cases "h - 1") (auto simp: agrees_def)
  with assms(1) show ?thesis by (simp add: handle_reorg_def)
qed

lemma reorg_scan_down:
  assumes "\<And>k. a < k \<Longrightarrow> k \<le> h \<Longrightarrow> differs w k" "a \<le> h" "low \<le> a + 1" "a = 0 \<or> a < low \<or> agrees w a"
  shows "reorg_scan N S low h seen w = (Inr (Some (a, seen \<or> a < h)), w)"
  using assms(1,2)
proof (induction h arbitrary: seen)
  case (Suc h)
  show ?case
  proof (cases "a = Suc h")
    case True
    with assms(4) show ?thesis by (auto simp: agrees_def)
  next
    case False
    then have d: "differs w (Suc h)" "a \<le> h" using Suc.prems by auto
    then obtain x y where "local w (Suc h) = Some x" "remote w (Suc h) = Some y" "x \<noteq> y"
      by (auto simp: differs_def)
    with assms(3) d(2) have "reorg_scan N S low (Suc h) seen w = reorg_scan N S low h True w" by simp
    with Suc d(2) show ?thesis by simp
  qed
qed simp

lemma handle_reorg_rolls_back:
  assumes "\<And>k. a < k \<Longrightarrow> k < h \<Longrightarrow> differs w k" "a + 1 < h"
    and "h - max_reorg_depth cfg \<le> a + 1" "a = 0 \<or> a < h - max_reorg_depth cfg \<or> agrees w a"
  shows "handle_reorg N S R cfg h w =
    sbind (s_rollback S a) (\<lambda>_. sbind (r_refresh_memory R) (\<lambda>_. sreturn (a + 1))) w"
proof -
  have "reorg_scan N S (h - max_reorg_depth cfg) (h - 1) False w = (Inr (Some (a, True)), w)"
    using reorg_scan_down [of a "h - 1" w "h - max_reorg_depth cfg" False] assms by auto
  with assms(2) show ?thesis by (simp add: handle_reorg_def)
qed

end

end
