(* ===== verification/SyncReorg.thy ===== *)
theory SyncReorg
  imports SyncBackends
begin

text \<open>
  Chain reorganisations from the engine down to the database: \<open>handle_reorg\<close> on the
  durable storage adapter, for a node that answers from a fixed chain while the handler
  runs. The interface \<open>hash_reads\<close> is met by both backends.
\<close>

text \<open>The node answers the hash queries from \<open>remote\<close> and no call changes the world.\<close>

definition node_answers :: "('d \<times> 'x) node_adapter \<Rightarrow> ('x \<Rightarrow> nat \<Rightarrow> bytes option) \<Rightarrow> bool" where
  "node_answers nd remote \<longleftrightarrow>
     (\<forall>h w. \<exists>e. n_block_hash nd h w = (case remote (snd w) h of Some x \<Rightarrow> Inr x | None \<Rightarrow> Inl e, w))"

text \<open>Refreshing the WASM memory succeeds and does not touch the storage.\<close>

definition refreshes :: "('d \<times> 'x) runtime_adapter \<Rightarrow> bool" where
  "refreshes Rt \<longleftrightarrow> (\<forall>d x. \<exists>x'. r_refresh_memory Rt (d, x) = (Inr (), (d, x')))"

definition recorded_hash :: "('d \<Rightarrow> kvmap) \<Rightarrow> 'd \<times> 'x \<Rightarrow> nat \<Rightarrow> bytes option" where
  "recorded_hash contents w h = contents (fst w) (blockhash_key h)"

lemma rs_hash_reads:
  fixes nd :: "('d \<times> 'x) node_adapter"
  assumes "rocks_ok R contents" "node_answers nd remote"
  shows "hash_reads nd (rs_adapter lbl R from_data) (recorded_hash contents) (\<lambda>w. remote (snd w))"
proof
  fix h and w :: "'d \<times> 'x"
  show "s_block_hash (rs_adapter lbl R from_data) h w = (Inr (recorded_hash contents w h), w)"
    using rocks_okD(1) [OF assms(1)]
    by (simp add: rs_adapter_def stored_read_def rs_get_block_hash_def recorded_hash_def)
  show "\<exists>e. n_block_hash nd h w = (case remote (snd w) h of Some x \<Rightarrow> Inr x | None \<Rightarrow> Inl e, w)"
    using assms(2) by (simp add: node_answers_def del: split_paired_All)
qed

lemma mem_hash_reads:
  assumes "node_answers nd remote"
  shows "hash_reads nd (mem_adapter lbl)
    (\<lambda>w h. map_of (db (fst w)) (to_labeled_key lbl (block_hash_record h))) (\<lambda>w. remote (snd w))"
  using assms by unfold_locales
    (simp_all add: mem_adapter_def mem_block_hash_def stored_read_def mem_get_block_hash_def mem_get_def
      node_answers_def del: split_paired_All)

text \<open>A node that serves a fixed list of hashes and data, and a runtime that does nothing else.\<close>

definition chain_node :: "('x \<Rightarrow> (bytes \<times> bytes) list) \<Rightarrow> ('d \<times> 'x) node_adapter" where
  "chain_node blocks = \<lparr>
     n_tip_height = (\<lambda>w. (Inr (length (blocks (snd w)) - 1), w)),
     n_block_hash = (\<lambda>h w. (if h < length (blocks (snd w)) then Inr (fst (blocks (snd w) ! h))
                            else Inl (BitcoinNode ''no such block''), w)),
     n_block_data = (\<lambda>h w. (if h < length (blocks (snd w)) then Inr (snd (blocks (snd w) ! h))
                            else Inl (BitcoinNode ''no such block''), w)),
     n_block_info = (\<lambda>h w. (if h < length (blocks (snd w))
                            then Inr \<lparr>info_height = h, info_hash = fst (blocks (snd w) ! h),
                                      info_data = snd (blocks (snd w) ! h)\<rparr>
                            else Inl (BitcoinNode ''no such block''), w)),
     n_is_connected = (\<lambda>w. (True, w))\<rparr>"

definition chain_hash :: "('x \<Rightarrow> (bytes \<times> bytes) list) \<Rightarrow> 'x \<Rightarrow> nat \<Rightarrow> bytes option" where
  "chain_hash blocks x h = (if h < length (blocks x) then Some (fst (blocks x ! h)) else None)"

lemma chain_node_answers: "node_answers (chain_node blocks) (chain_hash blocks)"
  by (simp add: node_answers_def chain_node_def chain_hash_def)

interpretation rs_reads: hash_reads "chain_node blocks" "rs_adapter lbl list_rocks from_data"
    "recorded_hash map_of" "\<lambda>w. chain_hash blocks (snd w)" for blocks lbl from_data
  by (rule rs_hash_reads [OF list_rocks_ok chain_node_answers])

interpretation mem_reads: hash_reads "chain_node blocks" "mem_adapter lbl"
    "\<lambda>w h. map_of (db (fst w)) (to_labeled_key lbl (block_hash_record h))"
    "\<lambda>w. chain_hash blocks (snd w)" for blocks lbl
  by (rule mem_hash_reads [OF chain_node_answers])

subsection \<open>The handler on the durable backend\<close>

lemma rs_rollback_effect:
  assumes "rocks_ok R contents" "hex_codec hexe hexd" "durable_inv hexe (contents d) blocks" "chain_ok blocks"
    and "a + 1 < length blocks" "refreshes Rt"
  obtains d' x' where
    "sbind (s_rollback (rs_adapter lbl R from_data) a) (\<lambda>_. sbind (r_refresh_memory Rt) (\<lambda>_. sreturn (a + 1))) (d, x)
       = (Inr (a + 1), (d', x'))"
    "durable_inv hexe (contents d') (take (a + 1) blocks)"
proof -
  obtain d' where d': "rs_rollback_to_height R a d = (Inr (), d')"
      "durable_inv hexe (contents d') (take (a + 1) blocks)"
    using rollback_run [OF assms(1-5)] by blast
  obtain x' where "r_refresh_memory Rt (d', x) = (Inr (), (d', x'))"
    using assms(6) by (auto simp: refreshes_def)
  with d' that show ?thesis by (simp add: rs_adapter_def stored_op_def sbind_def)
qed

text \<open>The node's hash is known and not the one recorded.\<close>

definition forked_at :: "hashed_block list \<Rightarrow> (nat \<Rightarrow> bytes option) \<Rightarrow> nat \<Rightarrow> bool" where
  "forked_at as remote k \<longleftrightarrow> (\<exists>y. remote k = Some y \<and> y \<noteq> snd (as ! k))"

lemma reorg_run:
  assumes ok: "rocks_ok R contents" and fmt: "batch_format to_data from_data" and hex: "hex_codec hexe hexd"
    and node: "node_answers nd remote" and rt: "refreshes Rt"
    and start: "contents d = Map.empty" and fits: "chain_ok (map fst as)" and len: "a + 1 < length as"
    and fork: "\<And>k. a < k \<Longrightarrow> k < length as \<Longrightarrow> forked_at as (remote x) k"
    and depth: "length as - max_reorg_depth cfg \<le> a + 1"
    and stop: "a = 0 \<or> a < length as - max_reorg_depth cfg \<or> remote x a = Some (snd (as ! a))"
  obtains d1 d2 x' where
    "apply_blocks hexe R to_data from_data 0 as d = (Inr (), d1)"
    "handle_reorg nd (rs_adapter lbl R from_data) Rt cfg (length as) (d1, x) = (Inr (a + 1), (d2, x'))"
    "durable_inv hexe (contents d2) (take (a + 1) (map fst as))"
proof -
  let ?S = "rs_adapter lbl R from_data"
  have reads: "hash_reads nd ?S (recorded_hash contents) (\<lambda>w. remote (snd w))"
    by (rule rs_hash_reads [OF ok node])
  obtain d1 where d1: "apply_blocks hexe R to_data from_data 0 as d = (Inr (), d1)"
      "durable_inv hexe (contents d1) (map fst as)" "hashes_recorded (contents d1) (map snd as)"
    by (rule apply_blocks_hashes [OF ok fmt start fits])
  have local: "recorded_hash contents (d1, x) k = Some (snd (as ! k))" if "k < length as" for k
    using d1(3) that by (simp add: recorded_hash_def hashes_recorded_def)
  have diff: "hash_reads.differs (recorded_hash contents) (\<lambda>w. remote (snd w)) (d1, x) k"
    if "a < k" "k < length as" for k
    using fork [OF that] local that by (auto simp: hash_reads.differs_def [OF reads] forked_at_def)
  have "a = 0 \<or> a < length as - max_reorg_depth cfg
     \<or> hash_reads.agrees (recorded_hash contents) (\<lambda>w. remote (snd w)) (d1, x) a"
    using stop local len by (auto simp: hash_reads.agrees_def [OF reads])
  from hash_reads.handle_reorg_rolls_back [OF reads diff len depth this, of Rt]
  have "handle_reorg nd ?S Rt cfg (length as) (d1, x)
      = sbind (s_rollback ?S a) (\<lambda>_. sbind (r_refresh_memory Rt) (\<lambda>_. sreturn (a + 1))) (d1, x)" .
  moreover obtain d2 x' where
      "sbind (s_rollback ?S a) (\<lambda>_. sbind (r_refresh_memory Rt) (\<lambda>_. sreturn (a + 1))) (d1, x)
         = (Inr (a + 1), (d2, x'))"
      "durable_inv hexe (contents d2) (take (a + 1) (map fst as))"
    by (rule rs_rollback_effect [OF ok hex d1(2) fits _ rt, of a lbl from_data x]) (use len in auto)
  ultimately show ?thesis using that d1(1) by simp
qed

text \<open>Indexing on from the fork, and what the handler then finds at the new top.\<close>

lemma index_branch:
  assumes ok: "rocks_ok R contents" and fmt: "batch_format to_data from_data" and hex: "hex_codec hexe hexd"
    and node: "node_answers nd remote"
    and inv: "durable_inv hexe (contents d) (take (a + 1) blocks)" and len: "a + 1 < length blocks"
    and fits: "chain_ok (take (a + 1) blocks @ map fst bs)"
  shows "\<exists>d'. apply_blocks hexe R to_data from_data (a + 1) bs d = (Inr (), d')
     \<and> (\<forall>key q. get_at_height (rocks_get R d') hexd key q = Inr (last_write (take (a + 1) blocks @ map fst bs) key q))
     \<and> (\<forall>x. bs \<noteq> [] \<longrightarrow> remote x (a + length bs) = Some (snd (last bs)) \<longrightarrow>
           handle_reorg nd (rs_adapter lbl R from_data) Rt cfg (a + 1 + length bs) (d', x)
             = (Inr (a + 1 + length bs), (d', x)))"
proof -
  let ?C = "take (a + 1) blocks"
  have C: "length ?C = a + 1" using len by simp
  obtain d' where d': "apply_blocks hexe R to_data from_data (a + 1) bs d = (Inr (), d')"
      "durable_inv hexe (contents d') (?C @ map fst bs)"
      "\<And>i. i < length bs \<Longrightarrow> contents d' (blockhash_key (a + 1 + i)) = Some (snd (bs ! i))"
    using apply_blocks_records [OF ok fmt inv fits] unfolding C by auto
  have "handle_reorg nd (rs_adapter lbl R from_data) Rt cfg (a + 1 + length bs) (d', x)
      = (Inr (a + 1 + length bs), (d', x))"
    if bs: "bs \<noteq> []" and top: "remote x (a + length bs) = Some (snd (last bs))" for x
  proof -
    have reads: "hash_reads nd (rs_adapter lbl R from_data) (recorded_hash contents) (\<lambda>w. remote (snd w))"
      by (rule rs_hash_reads [OF ok node])
    have "contents d' (blockhash_key (a + length bs)) = Some (snd (last bs))"
      using d'(3) [of "length bs - 1"] bs by (cases bs) (auto simp: last_conv_nth)
    with top have "hash_reads.agrees (recorded_hash contents) (\<lambda>w. remote (snd w)) (d', x) (a + 1 + length bs - 1)"
      by (simp add: hash_reads.agrees_def [OF reads] recorded_hash_def)
    then show ?thesis by (intro hash_reads.handle_reorg_keeps [OF reads]) simp_all
  qed
  with d'(1) durable_query [OF ok hex d'(2) fits] show ?thesis by blast
qed

subsection \<open>Properties\<close>

text \<open>
  C22: the engine follows a reorganisation. On the durable backend, when the node's chain
  leaves the indexed one after height \<open>a\<close> (within \<open>max_reorg_depth\<close> of the tip, or with
  genesis the only common block), \<open>handle_reorg\<close> finds \<open>a\<close>, rolls the database back and
  resumes at \<open>a + 1\<close>; indexing the node's blocks from there makes every query answer as
  the node's chain does; and once the top hash agrees the handler changes nothing.
\<close>

theorem engine_follows_reorg:
  assumes ok: "rocks_ok R contents" and fmt: "batch_format to_data from_data" and hex: "hex_codec hexe hexd"
    and node: "node_answers nd remote" and rt: "refreshes Rt"
    and start: "contents d = Map.empty" and fits: "chain_ok (map fst as)" and len: "a + 1 < length as"
    and fork: "\<And>k. a < k \<Longrightarrow> k < length as \<Longrightarrow> forked_at as (remote x) k"
    and common: "a = 0 \<or> remote x a = Some (snd (as ! a))"
    and depth: "length as \<le> max_reorg_depth cfg + a + 1"
  shows "\<exists>d1 d2 x'.
     apply_blocks hexe R to_data from_data 0 as d = (Inr (), d1)
   \<and> handle_reorg nd (rs_adapter lbl R from_data) Rt cfg (length as) (d1, x) = (Inr (a + 1), (d2, x'))
   \<and> (\<forall>bs. chain_ok (take (a + 1) (map fst as) @ map fst bs) \<longrightarrow>
        (\<exists>d3. apply_blocks hexe R to_data from_data (a + 1) bs d2 = (Inr (), d3)
          \<and> (\<forall>key q. get_at_height (rocks_get R d3) hexd key q
               = Inr (last_write (take (a + 1) (map fst as) @ map fst bs) key q))
          \<and> (\<forall>x. bs \<noteq> [] \<longrightarrow> remote x (a + length bs) = Some (snd (last bs)) \<longrightarrow>
               handle_reorg nd (rs_adapter lbl R from_data) Rt cfg (a + 1 + length bs) (d3, x)
                 = (Inr (a + 1 + length bs), (d3, x)))))"
proof -
  obtain d1 d2 x' where
      "apply_blocks hexe R to_data from_data 0 as d = (Inr (), d1)"
      "handle_reorg nd (rs_adapter lbl R from_data) Rt cfg (length as) (d1, x) = (Inr (a + 1), (d2, x'))"
      and inv: "durable_inv hexe (contents d2) (take (a + 1) (map fst as))"
    by (rule reorg_run [OF ok fmt hex node rt start fits len fork, where cfg = cfg]) (use depth common in auto)
  moreover from len have "a + 1 < length (map fst as)" by simp
  note index_branch [OF ok fmt hex node inv this, of _ lbl Rt cfg]
  ultimately show ?thesis by blast
qed

lemma sample_branches:
  "chain_ok [[(''a'', ''1'')], [(''a'', ''2'')], []]" "chain_ok [[(''a'', ''1'')], [(''b'', ''3'')]]"
  "chain_ok [[(''a'', ''1'')], [(''a'', ''2'')], [(''b'', ''3'')]]"
  by (simp_all add: chain_ok_def user_block_def reserved_base_def manifest_base_def blockhash_base_def
      total_pairs_def u32_max_def)

text \<open>An idle runtime, and a chain of three indexed blocks that the node has left.\<close>

definition idle_runtime :: "'w runtime_adapter" where
  "idle_runtime = \<lparr>r_process_atomic = (\<lambda>h data hash. sreturn \<lparr>state_root = [], batch_data = [],
       result_height = h, result_hash = hash\<rparr>),
     r_execute_view = (\<lambda>c. sreturn []), r_execute_preview = (\<lambda>c. sreturn []),
     r_refresh_memory = sreturn (), r_is_ready = (\<lambda>w. (True, w))\<rparr>"

lemma idle_refreshes: "refreshes idle_runtime"
  by (simp add: refreshes_def idle_runtime_def)

definition old_branch :: "hashed_block list" where
  "old_branch = [([(''a'', ''1'')], ''h0''), ([(''a'', ''2'')], ''h1''), ([], ''h2'')]"

lemma old_branch_ok: "chain_ok (map fst old_branch)" "length old_branch = 3"
  using sample_branches(1) by (simp_all add: old_branch_def)

theorem engine_follows_reorg_witness:
  "\<exists>d1 d2 d3.
     handle_reorg (chain_node (\<lambda>_. [(''h0'', []), (''g1'', []), (''g2'', [])])) (rs_adapter None list_rocks sample_from)
       idle_runtime default_config 3 (d1, ()) = (Inr 1, (d2, ()))
   \<and> apply_blocks encode_hex_fast list_rocks sample_data sample_from 1 [([(''b'', ''3'')], ''g1'')] d2 = (Inr (), d3)
   \<and> get_at_height (rocks_get list_rocks d3) hex_decode ''a'' 7 = Inr (Some ''1'')"
proof -
  let ?c = "\<lambda>_ :: unit. [(''h0'', []), (''g1'', []), (''g2'', [])]"
  have "forked_at old_branch (chain_hash ?c ()) k" if "0 < k" "k < length old_branch" for k
    using that by (cases k) (auto simp: forked_at_def chain_hash_def old_branch_def less_Suc_eq)
  note run = engine_follows_reorg [where contents = map_of and remote = "chain_hash ?c" and x = "()" and d = "[]"
      and as = old_branch and nd = "chain_node ?c" and Rt = idle_runtime and a = 0 and cfg = default_config
      and lbl = None, OF list_facts hx.hex_codec_axioms chain_node_answers idle_refreshes _ old_branch_ok(1) _ this]
  have run: "\<exists>d1 d2 x'. apply_blocks encode_hex_fast list_rocks sample_data sample_from 0 old_branch [] = (Inr (), d1)
     \<and> handle_reorg (chain_node ?c) (rs_adapter None list_rocks sample_from) idle_runtime default_config
        (length old_branch) (d1, ()) = (Inr (0 + 1), (d2, x'))
     \<and> (\<forall>bs. chain_ok (take (0 + 1) (map fst old_branch) @ map fst bs) \<longrightarrow>
        (\<exists>d3. apply_blocks encode_hex_fast list_rocks sample_data sample_from (0 + 1) bs d2 = (Inr (), d3)
          \<and> (\<forall>key q. get_at_height (rocks_get list_rocks d3) hex_decode key q
               = Inr (last_write (take (0 + 1) (map fst old_branch) @ map fst bs) key q))
          \<and> (\<forall>x. bs \<noteq> [] \<longrightarrow> chain_hash ?c x (0 + length bs) = Some (snd (last bs)) \<longrightarrow>
               handle_reorg (chain_node ?c) (rs_adapter None list_rocks sample_from) idle_runtime default_config
                 (0 + 1 + length bs) (d3, x) = (Inr (0 + 1 + length bs), (d3, x)))))"
    by (rule run) (simp_all add: old_branch_ok(2) default_config_def)
  let ?bs = "[([(''b'', ''3'')], ''g1'')]"
  have t: "take (0 + 1) (map fst old_branch) = [[(''a'', ''1'')]]" by (simp add: old_branch_def)
  have ok: "chain_ok (take (0 + 1) (map fst old_branch) @ map fst ?bs)"
    unfolding t using sample_branches(2) by simp
  from run ok obtain d1 d2 d3 and x' :: unit where
      h: "handle_reorg (chain_node ?c) (rs_adapter None list_rocks sample_from) idle_runtime default_config
        (length old_branch) (d1, ()) = (Inr (0 + 1), (d2, x'))"
      and d3: "apply_blocks encode_hex_fast list_rocks sample_data sample_from (0 + 1) ?bs d2 = (Inr (), d3)"
      "get_at_height (rocks_get list_rocks d3) hex_decode ''a'' 7
         = Inr (last_write (take (0 + 1) (map fst old_branch) @ map fst ?bs) ''a'' 7)"
    by metis
  have "last_write (take (0 + 1) (map fst old_branch) @ map fst ?bs) ''a'' 7 = Some ''1''"
    unfolding t by (simp add: last_write_def block_values_def)
  with h d3 show ?thesis unfolding old_branch_ok(2) add_0 unit_eq [of x'] by auto
qed

text \<open>
  C23: a reorganisation deeper than \<open>max_reorg_depth\<close> leaves orphaned blocks in the index.
  The node's chain differs from the indexed one above a height \<open>c\<close>, their common ancestor, and
  \<open>c\<close> is below the height \<open>a\<close> that is \<open>max_reorg_depth\<close> blocks under the tip. The handler then
  rolls back to \<open>a\<close> and resumes at \<open>a + 1\<close>, without having compared the hash of \<open>a\<close>; indexing on
  from the node makes the top hashes agree, a call of the handler at that top finds nothing to
  do, and queries answer from the old chain up to \<open>a\<close>, the orphaned blocks from \<open>c + 1\<close> to \<open>a\<close>
  included.
\<close>

theorem deep_reorg_keeps_orphans:
  assumes ok: "rocks_ok R contents" and fmt: "batch_format to_data from_data" and hex: "hex_codec hexe hexd"
    and node: "node_answers nd remote" and rt: "refreshes Rt"
    and start: "contents d = Map.empty" and fits: "chain_ok (map fst as)"
    and fork: "\<And>k. c < k \<Longrightarrow> k < length as \<Longrightarrow> forked_at as (remote x) k" and deep: "c < a"
    and depth: "0 < max_reorg_depth cfg" "length as = a + 1 + max_reorg_depth cfg"
    and bs: "bs \<noteq> []" "remote x (a + length bs) = Some (snd (last bs))"
       "chain_ok (take (a + 1) (map fst as) @ map fst bs)"
  shows "\<exists>d1 d2 d3 x'.
     apply_blocks hexe R to_data from_data 0 as d = (Inr (), d1)
   \<and> handle_reorg nd (rs_adapter lbl R from_data) Rt cfg (length as) (d1, x) = (Inr (a + 1), (d2, x'))
   \<and> apply_blocks hexe R to_data from_data (a + 1) bs d2 = (Inr (), d3)
   \<and> handle_reorg nd (rs_adapter lbl R from_data) Rt cfg (a + 1 + length bs) (d3, x) = (Inr (a + 1 + length bs), (d3, x))
   \<and> (\<forall>key q. get_at_height (rocks_get R d3) hexd key q
        = Inr (last_write (take (a + 1) (map fst as) @ map fst bs) key q))"
proof -
  have len: "a + 1 < length as" using depth by simp
  obtain d1 d2 x' where
      "apply_blocks hexe R to_data from_data 0 as d = (Inr (), d1)"
      "handle_reorg nd (rs_adapter lbl R from_data) Rt cfg (length as) (d1, x) = (Inr (a + 1), (d2, x'))"
      and inv: "durable_inv hexe (contents d2) (take (a + 1) (map fst as))"
    by (rule reorg_run [OF ok fmt hex node rt start fits len fork, where cfg = cfg]) (use depth deep in auto)
  moreover from len have "a + 1 < length (map fst as)" by simp
  note index_branch [OF ok fmt hex node inv this bs(3), of lbl Rt cfg]
  ultimately show ?thesis using bs(1,2) by blast
qed

theorem deep_reorg_keeps_orphans_witness:
  "\<exists>d1 d2 d3.
     handle_reorg (chain_node (\<lambda>_. [(''h0'', []), (''g1'', []), (''g2'', [])])) (rs_adapter None list_rocks sample_from)
       idle_runtime (default_config\<lparr>max_reorg_depth := 1\<rparr>) 3 (d1, ()) = (Inr 2, (d2, ()))
   \<and> apply_blocks encode_hex_fast list_rocks sample_data sample_from 2 [([(''b'', ''3'')], ''g2'')] d2 = (Inr (), d3)
   \<and> get_at_height (rocks_get list_rocks d3) hex_decode ''a'' 7 = Inr (Some ''2'')"
proof -
  let ?c = "\<lambda>_ :: unit. [(''h0'', []), (''g1'', []), (''g2'', [])]"
  let ?bs = "[([(''b'', ''3'')], ''g2'')]"
  have "forked_at old_branch (chain_hash ?c ()) k" if "0 < k" "k < length old_branch" for k
    using that by (auto simp: forked_at_def chain_hash_def old_branch_def less_Suc_eq numeral_3_eq_3)
  note run = deep_reorg_keeps_orphans [where contents = map_of and remote = "chain_hash ?c" and x = "()" and d = "[]"
      and as = old_branch and nd = "chain_node ?c" and Rt = idle_runtime and a = 1 and c = 0 and bs = ?bs
      and cfg = "default_config\<lparr>max_reorg_depth := 1\<rparr>" and lbl = None,
      OF list_facts hx.hex_codec_axioms chain_node_answers idle_refreshes _ old_branch_ok(1) this]
  have t: "take (1 + 1) (map fst old_branch) = [[(''a'', ''1'')], [(''a'', ''2'')]]" by (simp add: old_branch_def)
  have "last_write (take (1 + 1) (map fst old_branch) @ map fst ?bs) ''a'' 7 = Some ''2''"
    unfolding t by (simp add: last_write_def block_values_def)
  moreover have "chain_ok (take (1 + 1) (map fst old_branch) @ map fst ?bs)"
    unfolding t using sample_branches(3) by simp
  ultimately obtain d1 d2 d3 and x' :: unit where
      "handle_reorg (chain_node ?c) (rs_adapter None list_rocks sample_from) idle_runtime
        (default_config\<lparr>max_reorg_depth := 1\<rparr>) (length old_branch) (d1, ()) = (Inr (1 + 1), (d2, x'))"
      "apply_blocks encode_hex_fast list_rocks sample_data sample_from (1 + 1) ?bs d2 = (Inr (), d3)"
      "get_at_height (rocks_get list_rocks d3) hex_decode ''a'' 7 = Inr (Some ''2'')"
    using run by (auto simp: old_branch_ok(2) chain_hash_def)
  then show ?thesis unfolding old_branch_ok(2) one_add_one unit_eq [of x'] by blast
qed

end
