(* ===== verification/SyncApply.thy ===== *)
theory SyncApply
  imports SyncReorg
begin

text \<open>
  Applying a block: the bounded loop of \<open>process_block\<close> and the unbounded one of the
  pipeline, on the durable backend. The runtime is a parameter that leaves the database
  to the storage adapter; \<open>indexes\<close> says what its result is, the batch built from the
  pairs the WASM module emits.
\<close>

subsection \<open>The contract of the runtime\<close>

text \<open>Executing a block and refreshing the memory do not write the database.\<close>

definition quiet_runtime :: "('d \<Rightarrow> kvmap) \<Rightarrow> ('d \<times> 'x) runtime_adapter \<Rightarrow> bool" where
  "quiet_runtime contents Rt \<longleftrightarrow>
     (\<forall>h data hash w. contents (fst (snd (r_process_atomic Rt h data hash w))) = contents (fst w))
   \<and> (\<forall>w. contents (fst (snd (r_refresh_memory Rt w))) = contents (fst w))"

text \<open>A runtime around an indexer: \<open>index\<close> gives the pairs of a block.\<close>

definition indexes ::
    "(bytes \<Rightarrow> bytes) \<Rightarrow> 'd rocks \<Rightarrow> (batch \<Rightarrow> bytes) \<Rightarrow> (nat \<Rightarrow> bytes \<Rightarrow> block_kvs) \<Rightarrow> ('d \<times> 'x) runtime_adapter \<Rightarrow> bool" where
  "indexes hexe R to_data index Rt \<longleftrightarrow>
     (\<forall>h data hash d x root ops.
        fst (build_state_root_batch_unwritten hexe (rocks_get R d) h (index h data) hash new_caches) = Inr (root, ops) \<longrightarrow>
        (\<exists>x'. r_process_atomic Rt h data hash (d, x) =
           (Inr \<lparr>state_root = root, batch_data = to_data ops, result_height = h, result_hash = hash\<rparr>, (d, x'))))"

text \<open>\<open>process_block_atomic\<close> of such a runtime; the witnesses run it.\<close>

definition indexing_runtime ::
    "(bytes \<Rightarrow> bytes) \<Rightarrow> 'd rocks \<Rightarrow> (batch \<Rightarrow> bytes) \<Rightarrow> (nat \<Rightarrow> bytes \<Rightarrow> block_kvs) \<Rightarrow> ('d \<times> 'x) runtime_adapter" where
  "indexing_runtime hexe R to_data index = \<lparr>
     r_process_atomic = (\<lambda>h data hash w.
       (case fst (build_state_root_batch_unwritten hexe (rocks_get R (fst w)) h (index h data) hash new_caches) of
          Inl e \<Rightarrow> Inl (Runtime e)
        | Inr (root, ops) \<Rightarrow>
            Inr \<lparr>state_root = root, batch_data = to_data ops, result_height = h, result_hash = hash\<rparr>, w)),
     r_execute_view = (\<lambda>c. sreturn []), r_execute_preview = (\<lambda>c. sreturn []),
     r_refresh_memory = sreturn (), r_is_ready = (\<lambda>w. (True, w))\<rparr>"

lemma quiet_run:
  assumes "quiet_runtime contents Rt" "r_process_atomic Rt h data hash w = (r, w1)"
  shows "contents (fst w1) = contents (fst w)"
proof -
  have "contents (fst (snd (r_process_atomic Rt h data hash w))) = contents (fst w)"
    using assms(1) by (simp add: quiet_runtime_def del: split_paired_All)
  with assms(2) show ?thesis by simp
qed

lemma indexing_runtime_quiet: "quiet_runtime contents (indexing_runtime hexe R to_data index)"
  by (simp add: quiet_runtime_def indexing_runtime_def)

lemma indexing_runtime_indexes: "indexes hexe R to_data index (indexing_runtime hexe R to_data index)"
  by (simp add: indexes_def indexing_runtime_def)

subsection \<open>One attempt\<close>

definition committed :: "('d \<Rightarrow> kvmap) \<Rightarrow> (bytes \<Rightarrow> batch) \<Rightarrow> nat \<Rightarrow> atomic_block_result \<Rightarrow> 'd \<Rightarrow> 'd \<Rightarrow> bool" where
  "committed contents from_data h res d d' \<longleftrightarrow>
     (fresh_db (contents d) \<or> h = sat_add32 (indexed_height (contents d)) 1)
   \<and> contents d' = (apply_ops (if batch_data res = [] then [] else from_data (batch_data res)) (contents d))
        (blockhash_key h \<mapsto> result_hash res, root_key h \<mapsto> state_root res, INDEXED_HEIGHT_KEY \<mapsto> le_bytes 4 h)"

lemma commit_outcome:
  assumes "rocks_atomic R contents"
  shows "case s_commit (rs_adapter lbl R from_data) h (result_hash res) (state_root res) (batch_data res) w of
     (Inl _, w') \<Rightarrow> contents (fst w') = contents (fst w)
   | (Inr _, w') \<Rightarrow> committed contents from_data h res (fst w) (fst w')"
proof -
  obtain r d' where rd: "commit_atomic R from_data h (result_hash res) (state_root res) (batch_data res) (fst w) = (r, d')"
    by fastforce
  show ?thesis
    using commit_atomic_cases [OF assms, where from_data = from_data and h = h and bh = "result_hash res"
        and root = "state_root res" and data = "batch_data res" and d = "fst w"]
    unfolding rd
    by (cases r) (simp_all add: rs_adapter_def stored_op_def rd committed_def commit_metadata_effect)
qed

lemma apply_attempt_outcome:
  assumes "rocks_atomic R contents" "quiet_runtime contents Rt"
  shows "case apply_attempt (rs_adapter lbl R from_data) Rt h data hash w of
     (Inr None, w') \<Rightarrow> \<exists>res w1. r_process_atomic Rt h data hash w = (Inr res, w1)
        \<and> contents (fst w1) = contents (fst w) \<and> committed contents from_data h res (fst w1) (fst w')
   | (_, w') \<Rightarrow> contents (fst w') = contents (fst w)"
proof -
  obtain r w1 where r: "r_process_atomic Rt h data hash w = (r, w1)" by (rule prod.exhaust)
  have w1: "contents (fst w1) = contents (fst w)"
    by (rule quiet_run [OF assms(2) r])
  show ?thesis
  proof (cases r)
    case (Inl e)
    with r w1 show ?thesis by (simp add: apply_attempt_def attempt_io_def sbind_def)
  next
    case (Inr res)
    let ?c = "s_commit (rs_adapter lbl R from_data) h (result_hash res) (state_root res) (batch_data res) w1"
    obtain c w2 where c: "?c = (c, w2)" by (rule prod.exhaust)
    show ?thesis
      using commit_outcome [OF assms(1), where lbl = lbl and from_data = from_data and h = h and res = res and w = w1]
        r w1 c Inr
      by (cases c) (auto simp: apply_attempt_def attempt_io_def sbind_def Let_def)
  qed
qed

subsection \<open>The bounded loop\<close>

lemma sat_add32_one: "sat_add32 n 1 > MAX_ATOMIC_COMMIT_ATTEMPTS \<longleftrightarrow> n \<ge> 30"
  by (auto simp: sat_add32_def MAX_ATOMIC_COMMIT_ATTEMPTS_def u32_max_def)

lemma apply_loop_step:
  "apply_loop S Rt h data hash n last_err w =
     (if n \<ge> 30 then (Inl (Storage (budget_message h
        (case last_err of Some msg \<Rightarrow> msg | None \<Rightarrow> ''no error captured''))), w)
      else case apply_attempt S Rt h data hash w of
        (Inl e, w1) \<Rightarrow> (Inl e, w1)
      | (Inr None, w1) \<Rightarrow> (Inr (), w1)
      | (Inr (Some err), w1) \<Rightarrow>
          apply_loop S Rt h data hash (n + 1) (Some err) (snd (r_refresh_memory Rt w1)))"
proof (cases "n \<ge> 30")
  case True
  then have "sat_add32 n 1 > MAX_ATOMIC_COMMIT_ATTEMPTS" by (simp only: sat_add32_one)
  with True show ?thesis by (subst apply_loop.simps) simp
next
  case False
  then have "\<not> sat_add32 n 1 > MAX_ATOMIC_COMMIT_ATTEMPTS" by (simp only: sat_add32_one not_False_eq_True)
  moreover from False have "sat_add32 n 1 = n + 1" by (simp add: sat_add32_def u32_max_def)
  ultimately show ?thesis using False
    by (subst apply_loop.simps)
       (auto simp: sbind_def attempt_io_def split: prod.splits sum.splits option.splits)
qed

text \<open>Induction over the attempts left.\<close>

lemma attempts_induct [case_names spent attempt]:
  assumes "\<And>n. n \<ge> 30 \<Longrightarrow> P n" "\<And>n. n < 30 \<Longrightarrow> P (n + 1) \<Longrightarrow> P n"
  shows "P (n :: nat)"
proof (induction "30 - n" arbitrary: n)
  case 0
  with assms(1) show ?case by simp
next
  case (Suc k)
  then have "n < 30" "k = 30 - (n + 1)" by simp_all
  with Suc.hyps(1) assms(2) show ?case by blast
qed

lemma apply_loop_outcome:
  assumes "rocks_atomic R contents" "quiet_runtime contents Rt"
  shows "case apply_loop (rs_adapter lbl R from_data) Rt h data hash n last_err w of
     (Inl _, w') \<Rightarrow> contents (fst w') = contents (fst w)
   | (Inr _, w') \<Rightarrow> \<exists>res w0 w1. r_process_atomic Rt h data hash w0 = (Inr res, w1)
        \<and> contents (fst w0) = contents (fst w) \<and> contents (fst w1) = contents (fst w)
        \<and> committed contents from_data h res (fst w1) (fst w')"
proof (induction n arbitrary: last_err w rule: attempts_induct)
  case (spent n)
  then show ?case by (simp add: apply_loop_step)
next
  case (attempt n)
  let ?S = "rs_adapter lbl R from_data"
  obtain r w1 where r: "apply_attempt ?S Rt h data hash w = (r, w1)" by (rule prod.exhaust)
  note out = apply_attempt_outcome [OF assms, where lbl = lbl and from_data = from_data and h = h
      and data = data and hash = hash and w = w]
  show ?case
  proof (cases r)
    case (Inl e)
    with attempt(1) r out show ?thesis by (simp add: apply_loop_step [of _ _ _ _ _ n])
  next
    case (Inr o1)
    show ?thesis
    proof (cases o1)
      case None
      with r out Inr obtain res w1' where "r_process_atomic Rt h data hash w = (Inr res, w1')"
          "contents (fst w1') = contents (fst w)" "committed contents from_data h res (fst w1') (fst w1)"
        by (auto simp del: split_paired_Ex)
      with attempt(1) r Inr None show ?thesis
        by (simp add: apply_loop_step [of _ _ _ _ _ n] del: split_paired_Ex) blast
    next
      case (Some err)
      let ?w2 = "snd (r_refresh_memory Rt w1)"
      have "contents (fst w1) = contents (fst w)" using out r Inr Some by simp
      then have same: "contents (fst ?w2) = contents (fst w)"
        using assms(2) by (simp add: quiet_runtime_def del: split_paired_All)
      from attempt(1) attempt(2) [of ?w2 "Some err", unfolded same] r Inr Some show ?thesis
        by (simp add: apply_loop_step [of _ _ _ _ _ n] del: split_paired_Ex)
    qed
  qed
qed

subsection \<open>Validation on the durable backend\<close>

lemma validate_run:
  assumes "rocks_ok R contents"
  shows "validate_block_connects sha decode None (rs_adapter lbl R from_data) h data hash w =
    (case decode data of
       Inl e \<Rightarrow> Inl (BlockProcessing h (''Failed to deserialize block: '' @ e))
     | Inr (header, prev) \<Rightarrow>
         Inr (rev (sha (sha header)) = hash
            \<and> (h = 0 \<or> (case contents (fst w) (blockhash_key (h - 1)) of
                          Some rec \<Rightarrow> rec = rev prev | None \<Rightarrow> True))), w)"
  using rocks_okD(1) [OF assms]
  by (auto simp: validate_block_connects_def rs_adapter_def stored_read_def rs_get_block_hash_def
      sbind_def Let_def split: sum.splits prod.splits option.splits)

lemma out_of_order_shown:
  "contains (show_error (Storage (out_of_order h t))) ''out-of-order commit rejected''"
proof -
  have "show_error (Storage (out_of_order h t)) = ''Storage error: '' @ ''out-of-order commit rejected''
      @ ('': attempted height '' @ dec h @ '' but current tip is '' @ dec t
         @ '' (commit_atomic only accepts height == tip + 1)'')"
    by (simp add: out_of_order_def)
  then show ?thesis unfolding contains_def sublist_def by blast
qed

lemma attempt_rejected:
  assumes "r_process_atomic Rt h data hash w = (Inr res, w1)"
    and "s_commit S h (result_hash res) (state_root res) (batch_data res) w1 = (Inl err, w2)"
    and "contains (show_error err) ''out-of-order commit rejected''"
  shows "apply_attempt S Rt h data hash w = (Inl (Storage (''commit_atomic: '' @ show_error err)), w2)"
  using assms by (simp add: apply_attempt_def attempt_io_def sbind_def Let_def)

lemma validate_reads_only:
  assumes "rocks_ok R contents"
  shows "\<exists>r. validate_block_connects sha decode v (rs_adapter lbl R from_data) h data hash w = (r, w)"
proof -
  have bh: "s_block_hash (rs_adapter lbl R from_data) k w = (Inr (contents (fst w) (blockhash_key k)), w)" for k
    using rocks_okD(1) [OF assms] by (simp add: rs_adapter_def stored_read_def rs_get_block_hash_def)
  show ?thesis
    unfolding validate_block_connects_def sbind_def bh Let_def
    by (cases v; cases "decode data"; cases "h = 0") (auto simp: bh)
qed

lemma apply_loop_commits:
  assumes ok: "rocks_ok R contents" and fmt: "batch_format to_data from_data" and idx: "indexes hexe R to_data index Rt"
    and inv: "durable_inv hexe (contents d) blocks" and fits: "chain_ok (blocks @ [index (length blocks) data])"
  obtains d' x' where
    "apply_loop (rs_adapter lbl R from_data) Rt (length blocks) data hash 0 None (d, x) = (Inr (), (d', x'))"
    "clone_process_block (rs_adapter lbl R from_data) Rt (length blocks) data hash (d, x) = Some (Inr (), (d', x'))"
    "durable_inv hexe (contents d') (blocks @ [index (length blocks) data])"
    "contents d' (blockhash_key (length blocks)) = Some hash"
    "runtime_tip (contents d') = length blocks"
    "\<And>i. i \<noteq> length blocks \<Longrightarrow> contents d' (blockhash_key i) = contents d (blockhash_key i)"
proof -
  let ?h = "length blocks"
  obtain d' where d': "apply_block hexe R to_data from_data ?h (index ?h data, hash) d = (Inr (), d')"
      "durable_inv hexe (contents d') (blocks @ [index ?h data])"
      "contents d' (blockhash_key ?h) = Some hash" "runtime_tip (contents d') = ?h"
      "\<And>i. i \<noteq> ?h \<Longrightarrow> contents d' (blockhash_key i) = contents d (blockhash_key i)"
    using apply_block_run [OF ok fmt inv, of "(index ?h data, hash)"] fits by (metis fst_conv snd_conv)
  then obtain root ops where
      build: "fst (build_state_root_batch_unwritten hexe (rocks_get R d) ?h (index ?h data) hash new_caches) = Inr (root, ops)"
      and commit: "commit_atomic R from_data ?h hash root (to_data ops) d = (Inr (), d')"
    by (auto simp: apply_block_def split: sum.splits)
  obtain x' where run: "r_process_atomic Rt ?h data hash (d, x) =
      (Inr \<lparr>state_root = root, batch_data = to_data ops, result_height = ?h, result_hash = hash\<rparr>, (d, x'))"
    using idx build unfolding indexes_def by blast
  have "apply_attempt (rs_adapter lbl R from_data) Rt ?h data hash (d, x) = (Inr None, (d', x'))"
    using run commit by (simp add: apply_attempt_def attempt_io_def sbind_def rs_adapter_def stored_op_def)
  then have "apply_loop (rs_adapter lbl R from_data) Rt ?h data hash 0 None (d, x) = (Inr (), (d', x'))"
    by (simp add: apply_loop_step)
  moreover have "clone_process_block (rs_adapter lbl R from_data) Rt ?h data hash (d, x) = Some (Inr (), (d', x'))"
    using run commit by (subst clone_process_block.simps) (simp add: rs_adapter_def stored_op_def)
  ultimately show ?thesis using that d' by blast
qed

text \<open>The commit of a height that is not the next one, before and after retries.\<close>

definition rejects_height :: "kvmap \<Rightarrow> nat \<Rightarrow> bool" where
  "rejects_height m h \<longleftrightarrow> \<not> fresh_db m \<and> h \<noteq> sat_add32 (indexed_height m) 1"

lemma commit_rejected:
  assumes "rocks_ok R contents" "rejects_height (contents (fst w)) h"
  shows "s_commit (rs_adapter lbl R from_data) h bh root data w
    = (Inl (Storage (out_of_order h (indexed_height (contents (fst w))))), w)"
  using commit_atomic_rejects [OF assms(1), of "fst w" h] assms(2)
  by (simp add: rs_adapter_def stored_op_def rejects_height_def)

lemma clone_diverges:
  assumes ok: "rocks_ok R contents" and quiet: "quiet_runtime contents Rt"
    and "clone_process_block S Rt' h data hash w = Some y" "S = rs_adapter lbl R from_data" "Rt' = Rt"
    and "rejects_height (contents (fst w)) h"
  shows False
  using assms(3-6)
proof (induction rule: clone_process_block.raw_induct [rotated, consumes 1, case_names step])
  case (step clone S Rt' h data hash w y)
  note IH = step(1) [OF _ step.prems(1,2)] and eqs = step.prems(1,2) and rejects = step.prems(3)
  obtain r w1 where r: "r_process_atomic Rt h data hash w = (r, w1)" by (rule prod.exhaust)
  have w1: "contents (fst w1) = contents (fst w)"
    by (rule quiet_run [OF quiet r])
  have again: "contents (fst (snd (r_refresh_memory Rt w1))) = contents (fst w)"
    using quiet w1 by (simp add: quiet_runtime_def del: split_paired_All)
  show ?case
  proof (cases r)
    case (Inl e)
    with step(2) r have "clone S Rt' h data hash (snd (r_refresh_memory Rt w1)) = Some y" by (simp add: eqs)
    then show ?thesis by (rule IH) (simp add: again rejects)
  next
    case (Inr res)
    have "s_commit S h (result_hash res) (state_root res) (batch_data res) w1
        = (Inl (Storage (out_of_order h (indexed_height (contents (fst w1))))), w1)"
      unfolding eqs by (rule commit_rejected [OF ok]) (simp add: w1 rejects)
    with step(2) r Inr have "clone S Rt' h data hash (snd (r_refresh_memory Rt w1)) = Some y" by (simp add: eqs)
    then show ?thesis by (rule IH) (simp add: again rejects)
  qed
qed

lemma clone_never_fails:
  assumes "clone_process_block S Rt h data hash w = Some y"
  shows "fst y = Inr ()"
  using assms
  by (induction rule: clone_process_block.raw_induct [rotated, consumes 1, case_names step])
     (auto split: prod.splits sum.splits)

text \<open>A count that every execution raises by one and nothing else changes.\<close>

definition counts_executions :: "('w \<Rightarrow> nat) \<Rightarrow> 'w storage_adapter \<Rightarrow> 'w runtime_adapter \<Rightarrow> bool" where
  "counts_executions cnt S Rt \<longleftrightarrow>
     (\<forall>h data hash w. cnt (snd (r_process_atomic Rt h data hash w)) = cnt w + 1)
   \<and> (\<forall>w. cnt (snd (r_refresh_memory Rt w)) = cnt w)
   \<and> (\<forall>h bh root data w. cnt (snd (s_commit S h bh root data w)) = cnt w)
   \<and> (\<forall>h w. cnt (snd (s_block_hash S h w)) = cnt w)"

lemma countsD:
  assumes "counts_executions cnt S Rt"
  shows "r_process_atomic Rt h data hash w = (r, w') \<Longrightarrow> cnt w' = cnt w + 1"
    and "r_refresh_memory Rt w = (u, w') \<Longrightarrow> cnt w' = cnt w"
    and "s_commit S h bh root data w = (u, w') \<Longrightarrow> cnt w' = cnt w"
    and "s_block_hash S h w = (b, w') \<Longrightarrow> cnt w' = cnt w"
  using assms by (simp_all only: counts_executions_def) (metis snd_conv)+

lemma attempt_count:
  "counts_executions cnt S Rt \<Longrightarrow> cnt (snd (apply_attempt S Rt h data hash w)) = cnt w + 1"
  by (auto simp: apply_attempt_def attempt_io_def sbind_def Let_def
      split: prod.splits sum.splits) (metis countsD(1,3) Suc_eq_plus1)+

lemma loop_count:
  assumes "counts_executions cnt S Rt" "n \<le> 30"
  shows "cnt (snd (apply_loop S Rt h data hash n last_err w)) \<le> cnt w + (30 - n)"
  using assms(2)
proof (induction n arbitrary: last_err w rule: attempts_induct)
  case (spent n)
  then show ?case by (simp add: apply_loop_step)
next
  case (attempt n)
  obtain r w1 where r: "apply_attempt S Rt h data hash w = (r, w1)" by (rule prod.exhaust)
  then have w1: "cnt w1 = cnt w + 1" using attempt_count [OF assms(1), of h data hash w] by simp
  show ?case
  proof (cases "\<exists>err. r = Inr (Some err)")
    case True
    then obtain err where err: "r = Inr (Some err)" ..
    let ?w2 = "snd (r_refresh_memory Rt w1)"
    have "cnt ?w2 = cnt w + 1" using w1 assms(1) by (simp add: counts_executions_def)
    with attempt(2) [of "Some err" ?w2] attempt(1) r err show ?thesis
      by (simp add: apply_loop_step [of _ _ _ _ _ n])
  next
    case False
    with attempt(1) r w1 show ?thesis
      by (auto simp: apply_loop_step [of _ _ _ _ _ n] split: sum.splits option.splits)
  qed
qed

lemma loop_budget:
  assumes cnt: "counts_executions cnt S Rt" and fails: "\<And>w. \<exists>err. fst (apply_attempt S Rt h data hash w) = Inr (Some err)"
    and "n \<le> 30"
  shows "\<exists>msg w'. apply_loop S Rt h data hash n last_err w = (Inl (Storage (budget_message h msg)), w')
     \<and> cnt w' = cnt w + (30 - n)"
  using assms(3)
proof (induction n arbitrary: last_err w rule: attempts_induct)
  case (spent n)
  then show ?case by (simp add: apply_loop_step) blast
next
  case (attempt n)
  obtain err w1 where r: "apply_attempt S Rt h data hash w = (Inr (Some err), w1)"
    using fails [of w] by (metis prod.collapse)
  let ?w2 = "snd (r_refresh_memory Rt w1)"
  have "cnt ?w2 = cnt w + 1"
    using attempt_count [OF cnt, of h data hash w] cnt r by (simp add: counts_executions_def)
  with attempt(2) [of "Some err" ?w2] attempt(1) r show ?case
    by (auto simp: apply_loop_step [of _ _ _ _ _ n])
qed

lemma validate_count:
  assumes "counts_executions cnt S Rt"
  shows "cnt (snd (validate_block_connects sha decode v S h data hash w)) = cnt w"
  using assms
  by (auto simp: validate_block_connects_def sbind_def Let_def dest: countsD
      split: prod.splits sum.splits option.splits)

subsection \<open>A sample deployment\<close>

text \<open>An indexer that stores the block under one key, on an empty database.\<close>

definition sample_index :: "nat \<Rightarrow> bytes \<Rightarrow> block_kvs" where
  "sample_index h data = [(''a'', data)]"

definition sample_runtime :: "(list_db \<times> unit) runtime_adapter" where
  "sample_runtime = indexing_runtime encode_hex_fast list_rocks sample_data sample_index"

definition sample_storage :: "(list_db \<times> unit) storage_adapter" where
  "sample_storage = rs_adapter None list_rocks sample_from"

definition sample_engine :: "(list_db \<times> unit) engine" where
  "sample_engine = new_engine ([], ())"

definition sample_process :: "nat \<Rightarrow> bytes \<Rightarrow> bytes \<Rightarrow> (list_db \<times> unit) engine \<Rightarrow> (sync_error + unit) \<times> (list_db \<times> unit) engine" where
  "sample_process = process_block id (\<lambda>data. Inr (data, [])) None sample_storage sample_runtime"

lemma sample_block_ok: "chain_ok [sample_index 0 ''B'']"
  by (simp add: chain_ok_def user_block_def reserved_base_def manifest_base_def blockhash_base_def
      total_pairs_def u32_max_def sample_index_def)

lemmas sample_facts = list_facts indexing_runtime_indexes [of encode_hex_fast list_rocks sample_data sample_index]

lemma sample_loop:
  obtains d' where "apply_loop sample_storage sample_runtime 0 ''B'' ''B'' 0 None ([], ()) = (Inr (), (d', ()))"
    "durable_inv encode_hex_fast (map_of d') [sample_index 0 ''B'']" "runtime_tip (map_of d') = 0"
    "map_of d' (blockhash_key 0) = Some ''B''"
proof -
  have "chain_ok ([] @ [sample_index (length ([] :: block_kvs list)) ''B''])" using sample_block_ok by simp
  from apply_loop_commits [OF sample_facts list_empty_inv this, where lbl = None and hash = "''B''" and x = "()"]
  obtain d' and x' :: unit where
      "apply_loop sample_storage sample_runtime 0 ''B'' ''B'' 0 None ([], ()) = (Inr (), (d', x'))"
      "durable_inv encode_hex_fast (map_of d') [sample_index 0 ''B'']" "runtime_tip (map_of d') = 0"
      "map_of d' (blockhash_key 0) = Some ''B''"
    unfolding sample_storage_def sample_runtime_def by (metis append_Nil list.size(3))
  with that show ?thesis by simp
qed

lemma sample_run:
  obtains d' where "sample_process 0 ''B'' ''B'' sample_engine
      = (Inr (), sample_engine\<lparr>world := (d', ()), blocks_processed := 1\<rparr>)"
    "durable_inv encode_hex_fast (map_of d') [sample_index 0 ''B'']" "\<not> fresh_db (map_of d')"
proof -
  obtain d' where d': "apply_loop sample_storage sample_runtime 0 ''B'' ''B'' 0 None ([], ()) = (Inr (), (d', ()))"
      "durable_inv encode_hex_fast (map_of d') [sample_index 0 ''B'']" "map_of d' (blockhash_key 0) = Some ''B''"
    by (rule sample_loop)
  have "validate_block_connects id (\<lambda>data. Inr (data, [])) None sample_storage 0 ''B'' ''B'' ([], ()) = (Inr True, ([], ()))"
    unfolding sample_storage_def by (simp add: validate_run [OF list_rocks_ok])
  with d'(1) have "sample_process 0 ''B'' ''B'' sample_engine
      = (Inr (), sample_engine\<lparr>world := (d', ()), blocks_processed := 1\<rparr>)"
    by (simp add: sample_process_def process_block_def sbind_def on_world_def sample_engine_def new_engine_def u32_max_def)
  moreover have "\<not> fresh_db (map_of d')" using d'(3) by (simp add: fresh_db_def)
  ultimately show ?thesis using that d'(2) by blast
qed

text \<open>A runtime whose every execution traps, counting them, over a storage without records.\<close>

definition trapping_runtime :: "nat runtime_adapter" where
  "trapping_runtime = \<lparr>r_process_atomic = (\<lambda>h data hash n. (Inl (Runtime ''trap''), n + 1)),
     r_execute_view = (\<lambda>c. sreturn []), r_execute_preview = (\<lambda>c. sreturn []),
     r_refresh_memory = sreturn (), r_is_ready = (\<lambda>w. (True, w))\<rparr>"

definition blank_storage :: "'w storage_adapter" where
  "blank_storage = \<lparr>s_indexed_height = sreturn 0, s_set_indexed_height = (\<lambda>h. sreturn ()),
     s_store_block_hash = (\<lambda>h v. sreturn ()), s_block_hash = (\<lambda>h. sreturn None),
     s_store_state_root = (\<lambda>h v. sreturn ()), s_state_root = (\<lambda>h. sreturn None),
     s_rollback = (\<lambda>h. sreturn ()), s_is_available = (\<lambda>w. (True, w)), s_runtime_tip = sreturn 0,
     s_max_block_hash = (\<lambda>h. sreturn 0), s_heal = (\<lambda>h. sreturn ()),
     s_commit = (\<lambda>h bh root data. sreturn ())\<rparr>"

subsection \<open>Properties\<close>

text \<open>
  C24: a block apply is all or nothing across its retries. On a database that may fail,
  whatever the runtime answers in up to 30 attempts, \<open>process_block\<close> returns an error
  with every record as before and the counter unchanged, or it returns Ok, the validation
  accepted the block, exactly one runtime result is committed, at the next height, with
  the tip on it, and the counter is one higher.
\<close>

theorem process_block_all_or_nothing:
  assumes "rocks_ok R contents" "quiet_runtime contents Rt" "h \<le> u32_max"
  shows "case process_block sha decode None (rs_adapter lbl R from_data) Rt h data hash e of
     (Inl _, e') \<Rightarrow> contents (fst (world e')) = contents (fst (world e)) \<and> blocks_processed e' = blocks_processed e
   | (Inr _, e') \<Rightarrow>
       fst (validate_block_connects sha decode None (rs_adapter lbl R from_data) h data hash (world e)) = Inr True
     \<and> (\<exists>res w0 w1. r_process_atomic Rt h data hash w0 = (Inr res, w1)
          \<and> contents (fst w0) = contents (fst (world e)) \<and> contents (fst w1) = contents (fst (world e))
          \<and> committed contents from_data h res (fst w1) (fst (world e')))
     \<and> indexed_height (contents (fst (world e'))) = h
     \<and> blocks_processed e' = add32 (blocks_processed e) 1"
proof -
  let ?S = "rs_adapter lbl R from_data"
  obtain v w where v: "validate_block_connects sha decode None ?S h data hash (world e) = (v, w)"
    by (rule prod.exhaust)
  have w: "w = world e" using v by (simp add: validate_run [OF assms(1)])
  show ?thesis
  proof (cases "v = Inr True")
    case False
    with v w show ?thesis
      by (cases v) (auto simp: process_block_def sbind_def on_world_def)
  next
    case True
    obtain r w' where r: "apply_loop ?S Rt h data hash 0 None (world e) = (r, w')" by (rule prod.exhaust)
    note out = apply_loop_outcome [OF rocks_ok_atomic [OF assms(1)] assms(2), where lbl = lbl
        and from_data = from_data and h = h and data = data and hash = hash and n = 0
        and last_err = None and w = "world e"]
    have "indexed_height (contents (fst w')) = h" if "committed contents from_data h res d (fst w')" for res d
      using that assms(3) by (simp add: committed_def)
    with True v w r out show ?thesis
      by (cases r) (simp_all add: process_block_def sbind_def on_world_def del: split_paired_Ex, blast)
  qed
qed

theorem process_block_all_or_nothing_witness:
  "\<exists>e'. sample_process 0 ''B'' ''B'' sample_engine = (Inr (), e')
     \<and> indexed_height (map_of (fst (world e'))) = 0 \<and> blocks_processed e' = 1"
proof -
  obtain d' where run: "sample_process 0 ''B'' ''B'' sample_engine
      = (Inr (), sample_engine\<lparr>world := (d', ()), blocks_processed := 1\<rparr>)"
    by (rule sample_run)
  have "quiet_runtime map_of sample_runtime" unfolding sample_runtime_def by (rule indexing_runtime_quiet)
  from process_block_all_or_nothing [OF list_rocks_ok this, where h = 0 and sha = id and lbl = None
      and decode = "\<lambda>data. Inr (data, [])" and from_data = sample_from and data = "''B''" and hash = "''B''"
      and e = sample_engine] run
  show ?thesis by (simp add: sample_process_def sample_storage_def)
qed

text \<open>
  C25: applying a block terminates within the retry budget. Whatever the adapters answer,
  \<open>process_block\<close> returns after at most 30 executions of the block; if every execution
  fails or is not committed for a retryable reason, it returns the budget error after
  exactly 30.
\<close>

theorem process_block_budget:
  assumes "counts_executions cnt S Rt"
  shows "cnt (world (snd (process_block sha decode v S Rt h data hash e))) \<le> cnt (world e) + 30
   \<and> ((\<forall>w. \<exists>err. fst (apply_attempt S Rt h data hash w) = Inr (Some err)) \<longrightarrow>
      fst (validate_block_connects sha decode v S h data hash (world e)) = Inr True \<longrightarrow>
      (\<exists>msg e'. process_block sha decode v S Rt h data hash e = (Inl (Storage (budget_message h msg)), e')
         \<and> cnt (world e') = cnt (world e) + 30))"
proof -
  obtain r w where v: "validate_block_connects sha decode v S h data hash (world e) = (r, w)"
    by (rule prod.exhaust)
  have w: "cnt w = cnt (world e)"
    using validate_count [OF assms, of sha decode v h data hash "world e"] v by simp
  have "cnt (snd (apply_loop S Rt h data hash 0 None w)) \<le> cnt w + 30"
    using loop_count [OF assms, of 0 h data hash None w] by simp
  then have "cnt (world (snd (process_block sha decode v S Rt h data hash e))) \<le> cnt (world e) + 30"
    using v w by (auto simp: process_block_def sbind_def on_world_def split: prod.splits sum.splits)
  moreover
  have "\<exists>msg e'. process_block sha decode v S Rt h data hash e = (Inl (Storage (budget_message h msg)), e')
      \<and> cnt (world e') = cnt (world e) + 30"
    if f: "\<forall>w. \<exists>err. fst (apply_attempt S Rt h data hash w) = Inr (Some err)" and "r = Inr True"
  proof -
    obtain msg w' where "apply_loop S Rt h data hash 0 None w = (Inl (Storage (budget_message h msg)), w')"
        "cnt w' = cnt w + 30"
      using loop_budget [OF assms, of h data hash 0 None w] f by auto
    with v w \<open>r = Inr True\<close> show ?thesis by (auto simp: process_block_def sbind_def on_world_def)
  qed
  ultimately show ?thesis using v by simp
qed

theorem process_block_budget_witness:
  "\<exists>msg e'. process_block id (\<lambda>data. Inr (data, [])) None blank_storage trapping_runtime 7 ''B'' ''B'' (new_engine 0)
     = (Inl (Storage (budget_message 7 msg)), e') \<and> world e' = 30"
proof -
  have "counts_executions id blank_storage trapping_runtime"
    by (simp add: counts_executions_def blank_storage_def trapping_runtime_def)
  note run = process_block_budget [OF this, where sha = id and decode = "\<lambda>data. Inr (data, [])" and v = None
      and h = 7 and data = "''B''" and hash = "''B''" and e = "new_engine 0"]
  have "\<forall>w. \<exists>err. fst (apply_attempt blank_storage trapping_runtime 7 ''B'' ''B'' w) = Inr (Some err)"
    by (simp add: apply_attempt_def attempt_io_def sbind_def trapping_runtime_def)
  moreover have "fst (validate_block_connects id (\<lambda>data. Inr (data, [])) None blank_storage 7 ''B'' ''B'' (world (new_engine 0)))
      = Inr True"
    by (simp add: validate_block_connects_def sbind_def Let_def blank_storage_def)
  ultimately show ?thesis using run by (auto simp: new_engine_def)
qed

text \<open>
  C26: an out-of-order block. The pipeline's \<open>process_block\<close> never returns an error, so the
  pipeline's result loop never sees one. On the durable backend, for a height that is not
  the one after the tip, it does not return at all, whatever the runtime does, where the
  engine's \<open>process_block\<close> of a valid block reports the rejection on the first attempt.
\<close>

theorem pipeline_apply_never_gives_up:
  assumes "rocks_ok R contents" "quiet_runtime contents Rt"
  shows "(\<forall>y. clone_process_block (rs_adapter lbl R from_data) Rt h data hash (world e) = Some y \<longrightarrow> fst y = Inr ())
   \<and> (rejects_height (contents (fst (world e))) h \<longrightarrow>
        clone_process_block (rs_adapter lbl R from_data) Rt h data hash (world e) = None
      \<and> (fst (validate_block_connects sha decode v (rs_adapter lbl R from_data) h data hash (world e)) = Inr True \<longrightarrow>
         fst (r_process_atomic Rt h data hash (world e)) = Inr res \<longrightarrow>
         fst (process_block sha decode v (rs_adapter lbl R from_data) Rt h data hash e)
           = Inl (Storage (''commit_atomic: ''
               @ show_error (Storage (out_of_order h (indexed_height (contents (fst (world e))))))))))"
proof -
  let ?S = "rs_adapter lbl R from_data" and ?w = "world e"
  let ?msg = "show_error (Storage (out_of_order h (indexed_height (contents (fst ?w)))))"
  have never: "clone_process_block ?S Rt h data hash ?w = None" if "rejects_height (contents (fst ?w)) h"
    using clone_diverges [OF assms _ refl refl that] by (cases "clone_process_block ?S Rt h data hash ?w") auto
  have err: "fst (process_block sha decode v ?S Rt h data hash e) = Inl (Storage (''commit_atomic: '' @ ?msg))"
    if rej: "rejects_height (contents (fst ?w)) h"
      and val: "fst (validate_block_connects sha decode v ?S h data hash ?w) = Inr True"
      and run: "fst (r_process_atomic Rt h data hash ?w) = Inr res"
  proof -
    have w: "validate_block_connects sha decode v ?S h data hash ?w = (Inr True, ?w)"
      using val validate_reads_only [OF assms(1)] by (metis fst_conv)
    obtain w1 where w1: "r_process_atomic Rt h data hash ?w = (Inr res, w1)"
      using run by (metis prod.collapse)
    from assms(2) this have c1: "contents (fst w1) = contents (fst ?w)" by (rule quiet_run)
    have "s_commit ?S h (result_hash res) (state_root res) (batch_data res) w1
        = (Inl (Storage (out_of_order h (indexed_height (contents (fst w1))))), w1)"
      by (rule commit_rejected [OF assms(1)]) (simp only: c1 rej)
    moreover have "contains ?msg ''out-of-order commit rejected''"
      by (rule out_of_order_shown)
    ultimately have "apply_attempt ?S Rt h data hash ?w = (Inl (Storage (''commit_atomic: '' @ ?msg)), w1)"
      unfolding c1 [symmetric] by (rule attempt_rejected [OF w1])
    then have "apply_loop ?S Rt h data hash 0 None ?w = (Inl (Storage (''commit_atomic: '' @ ?msg)), w1)"
      by (simp add: apply_loop_step)
    with w show ?thesis by (simp add: process_block_def sbind_def on_world_def)
  qed
  show ?thesis by (intro conjI allI impI never err) (assumption | erule clone_never_fails)+
qed

theorem pipeline_apply_never_gives_up_witness:
  "\<exists>e. fst (sample_process 0 ''B'' ''B'' sample_engine) = Inr ()
     \<and> snd (sample_process 0 ''B'' ''B'' sample_engine) = e
     \<and> clone_process_block sample_storage sample_runtime 0 ''B'' ''B'' (world e) = None"
proof -
  obtain d' where run: "sample_process 0 ''B'' ''B'' sample_engine
      = (Inr (), sample_engine\<lparr>world := (d', ()), blocks_processed := 1\<rparr>)" and fresh: "\<not> fresh_db (map_of d')"
    by (rule sample_run)
  let ?e = "sample_engine\<lparr>world := (d', ()), blocks_processed := 1\<rparr>"
  have "quiet_runtime map_of sample_runtime" unfolding sample_runtime_def by (rule indexing_runtime_quiet)
  note never = pipeline_apply_never_gives_up [OF list_rocks_ok this, where lbl = None and from_data = sample_from
      and h = 0 and data = "''B''" and hash = "''B''" and e = ?e]
  have "rejects_height (map_of (fst (world ?e))) 0"
    using fresh by (simp add: rejects_height_def sat_add32_def u32_max_def)
  with never have "clone_process_block sample_storage sample_runtime 0 ''B'' ''B'' (world ?e) = None"
    unfolding sample_storage_def by blast
  with run show ?thesis by simp
qed

text \<open>
  C27: processing a block extends the chain. On an indexed chain with its hash records, a
  block whose header hashes to the given hash and links to the recorded tip is committed:
  the chain is one block longer, its hash recorded, both height pointers on it, and every
  query answers from the longer chain. A block with another hash, or that links elsewhere,
  is refused and nothing changes.
\<close>

theorem process_block_extends_chain:
  assumes ok: "rocks_ok R contents" and fmt: "batch_format to_data from_data" and hex: "hex_codec hexe hexd"
    and idx: "indexes hexe R to_data index Rt"
    and inv: "durable_inv hexe (contents d) blocks" "hashes_recorded (contents d) hs" "length hs = length blocks"
    and fits: "chain_ok (blocks @ [index (length blocks) data])"
    and head: "decode data = Inr (header, prev)" and e: "world e = (d, x)"
  shows "if rev (sha (sha header)) = hash \<and> (blocks = [] \<or> last hs = rev prev)
    then \<exists>d' x'. process_block sha decode None (rs_adapter lbl R from_data) Rt (length blocks) data hash e
         = (Inr (), e\<lparr>world := (d', x'), blocks_processed := add32 (blocks_processed e) 1\<rparr>)
      \<and> durable_inv hexe (contents d') (blocks @ [index (length blocks) data])
      \<and> hashes_recorded (contents d') (hs @ [hash]) \<and> runtime_tip (contents d') = length blocks
      \<and> (\<forall>key q. get_at_height (rocks_get R d') hexd key q
            = Inr (last_write (blocks @ [index (length blocks) data]) key q))
    else process_block sha decode None (rs_adapter lbl R from_data) Rt (length blocks) data hash e
       = (Inl (BlockProcessing (length blocks) not_connected_message), e)"
proof -
  let ?S = "rs_adapter lbl R from_data" and ?h = "length blocks"
  let ?links = "rev (sha (sha header)) = hash \<and> (blocks = [] \<or> last hs = rev prev)"
  have last: "contents d (blockhash_key (?h - 1)) = Some (last hs)" if "blocks \<noteq> []"
  proof -
    from that inv(3) have "hs \<noteq> []" by auto
    moreover from this have "length hs - 1 < length hs" by simp
    ultimately show ?thesis using inv(2,3) by (simp add: hashes_recorded_def last_conv_nth del: One_nat_def)
  qed
  have v: "validate_block_connects sha decode None ?S ?h data hash (d, x) = (Inr ?links, (d, x))"
    using last by (cases "blocks = []") (simp_all add: validate_run [OF ok] head del: One_nat_def)
  show ?thesis
  proof (cases ?links)
    case True
    obtain d' x' where run: "apply_loop ?S Rt ?h data hash 0 None (d, x) = (Inr (), (d', x'))"
        and d': "durable_inv hexe (contents d') (blocks @ [index ?h data])"
          "contents d' (blockhash_key ?h) = Some hash" "runtime_tip (contents d') = ?h"
          "\<And>i. i \<noteq> ?h \<Longrightarrow> contents d' (blockhash_key i) = contents d (blockhash_key i)"
      by (rule apply_loop_commits [OF ok fmt idx inv(1) fits]) (rule that)
    have "hashes_recorded (contents d') (hs @ [hash])"
      using inv(2,3) d'(2,4) by (auto simp: hashes_recorded_def nth_append less_Suc_eq)
    moreover have "process_block sha decode None ?S Rt ?h data hash e
        = (Inr (), e\<lparr>world := (d', x'), blocks_processed := add32 (blocks_processed e) 1\<rparr>)"
      using True v run e by (simp add: process_block_def sbind_def on_world_def)
    ultimately show ?thesis using True d' durable_query [OF ok hex d'(1) fits] by auto
  next
    case False
    then have "process_block sha decode None ?S Rt ?h data hash e
        = (Inl (BlockProcessing ?h not_connected_message), e\<lparr>world := (d, x)\<rparr>)"
      using v e by (auto simp: process_block_def sbind_def on_world_def simp del: de_Morgan_conj)
    moreover have "e\<lparr>world := (d, x)\<rparr> = e" using e by simp
    ultimately show ?thesis using False by auto
  qed
qed

theorem process_block_extends_chain_witness:
  "\<exists>d'. sample_process 0 ''B'' ''B'' sample_engine
       = (Inr (), sample_engine\<lparr>world := (d', ()), blocks_processed := 1\<rparr>)
     \<and> get_at_height (rocks_get list_rocks d') hex_decode ''a'' 3 = Inr (Some ''B'')"
proof -
  have fits: "chain_ok ([] @ [sample_index (length ([] :: block_kvs list)) ''B''])" using sample_block_ok by simp
  have e: "world sample_engine = ([], ())" by (simp add: sample_engine_def new_engine_def)
  have hs: "hashes_recorded (map_of ([] :: list_db)) []" by (simp add: hashes_recorded_def)
  have idx: "indexes encode_hex_fast list_rocks sample_data sample_index sample_runtime"
    unfolding sample_runtime_def by (rule indexing_runtime_indexes)
  note run = process_block_extends_chain [where sha = id and hash = "''B''" and lbl = None and Rt = sample_runtime
      and decode = "\<lambda>data. Inr (data, [])" and header = "''B''" and prev = "[]" and hs = "[]" and e = sample_engine
      and blocks = "[]" and index = sample_index and data = "''B''" and contents = map_of and d = "[]" and x = "()",
      OF list_facts hx.hex_codec_axioms idx list_empty_inv hs _ fits _ e]
  have "last_write [sample_index 0 ''B''] ''a'' 3 = Some ''B''"
    by (simp add: last_write_def block_values_def sample_index_def)
  with run show ?thesis
    by (auto simp: sample_process_def sample_storage_def sample_engine_def new_engine_def u32_max_def)
qed

end
