(* ===== verification/SyncStartup.thy ===== *)
theory SyncStartup
  imports SyncApply
begin

text \<open>
  Starting up on the durable backend: the repair of the height pointers
  (\<open>heal_pointer_divergence_at_startup\<close>), the height \<open>init\<close> resumes at, and the running
  flag of \<open>start\<close>.
\<close>

context hash_reads
begin

text \<open>The walk stops at a height of agreement, at a failing node, at the floor or at genesis.\<close>

lemma heal_walk_result:
  "\<exists>a \<le> h. heal_walk N S floor candidate h w = (Inr (min candidate a), w)
     \<and> (agrees w a \<or> remote w a = None \<or> a \<le> floor \<or> a = 0)
     \<and> (\<forall>k. a < k \<longrightarrow> k \<le> h \<longrightarrow> \<not> agrees w k)" if "h \<le> candidate"
  using that
proof (induction h)
  case 0
  have "heal_walk N S floor candidate 0 w = (Inr 0, w)"
  proof (cases "local w 0")
    case (Some x)
    then show ?thesis
      by (cases "remote w 0") (use attempt_remote_None [of w 0] in \<open>auto simp: heal_walk.simps [of _ _ _ _ 0] sbind_def\<close>)
  qed (simp add: heal_walk.simps [of _ _ _ _ 0] sbind_def)
  then show ?case by auto
next
  case (Suc h)
  let ?walk = "heal_walk N S floor candidate (Suc h) w"
  have stop: ?case if "?walk = (Inr (Suc h), w)" "agrees w (Suc h) \<or> remote w (Suc h) = None \<or> Suc h \<le> floor"
    using that Suc.prems by (intro exI [of _ "Suc h"]) (auto simp: min_def)
  have down: ?case if na: "\<not> agrees w (Suc h)" and
      eq: "?walk = (if Suc h \<le> floor then (Inr (Suc h), w) else heal_walk N S floor candidate h w)"
  proof (cases "Suc h \<le> floor")
    case True
    with eq stop show ?thesis by simp
  next
    case False
    from Suc obtain a where a: "a \<le> h" "heal_walk N S floor candidate h w = (Inr (min candidate a), w)"
        "agrees w a \<or> remote w a = None \<or> a \<le> floor \<or> a = 0" "\<And>k. a < k \<Longrightarrow> k \<le> h \<Longrightarrow> \<not> agrees w k"
      by auto
    with False eq na show ?thesis
      by (intro exI [of _ a]) (auto simp: le_Suc_eq)
  qed
  show ?case
  proof (cases "local w (Suc h)")
    case None
    then have "\<not> agrees w (Suc h)" by (simp add: agrees_def)
    with None show ?thesis by (intro down) (simp_all add: heal_walk.simps [of _ _ _ _ "Suc h"] sbind_def)
  next
    case x: (Some x)
    show ?thesis
    proof (cases "remote w (Suc h)")
      case None
      with attempt_remote_None [of w "Suc h"] x Suc.prems show ?thesis
        by (intro stop) (auto simp: heal_walk.simps [of _ _ _ _ "Suc h"] sbind_def min_def)
    next
      case y: (Some y)
      show ?thesis
      proof (cases "x = y")
        case True
        with x y show ?thesis
          by (intro stop) (simp_all add: heal_walk.simps [of _ _ _ _ "Suc h"] sbind_def agrees_def)
      next
        case False
        with x y show ?thesis
          by (intro down) (simp_all add: heal_walk.simps [of _ _ _ _ "Suc h"] sbind_def agrees_def)
      qed
    qed
  qed
qed

lemma heal_walk_from:
  obtains a where "a \<le> c" "heal_walk N S floor c c w = (Inr a, w)"
    "agrees w a \<or> remote w a = None \<or> a \<le> floor \<or> a = 0"
proof -
  obtain a where a: "a \<le> c" "heal_walk N S floor c c w = (Inr (min c a), w)"
      "agrees w a \<or> remote w a = None \<or> a \<le> floor \<or> a = 0"
    using heal_walk_result [of c c floor w] by blast
  from a(1) have "min c a = a" by (rule min_absorb2)
  with a that show ?thesis by metis
qed

lemma heal_confirm_result:
  "\<exists>b. heal_confirm N S c w = (Inr b, w) \<and> (b \<longleftrightarrow> agrees w c \<or> (local w c \<noteq> None \<and> remote w c = None))"
proof (cases "local w c")
  case x: (Some x)
  show ?thesis
  proof (cases "remote w c")
    case None
    with attempt_remote_None [of w c] x show ?thesis by (auto simp: heal_confirm_def sbind_def)
  next
    case (Some y)
    with x show ?thesis by (auto simp: heal_confirm_def sbind_def agrees_def)
  qed
qed (auto simp: heal_confirm_def sbind_def agrees_def)

end

subsection \<open>The repair on the durable backend\<close>

lemma scan_top:
  "rocks_ok R contents \<Longrightarrow> contents d (blockhash_key h) \<noteq> None \<Longrightarrow> scan_block_hashes R d floor h = Inr h"
  by (subst scan_block_hashes.simps) (auto simp: rocks_okD(1))

lemma pointer_reads:
  assumes ok: "rocks_ok R contents" and inv: "durable_inv hexe (contents d) blocks" and ne: "blocks \<noteq> []"
    and hs: "hashes_recorded (contents d) hs" "length hs = length blocks"
  shows "rs_get_indexed_height R d = Inr (length blocks - 1)"
    and "rs_get_runtime_tip_height R d = Inr (runtime_tip (contents d))"
    and "rs_find_max_stored_block_hash_height R d floor = Inr (length blocks - 1)"
proof -
  show i: "rs_get_indexed_height R d = Inr (length blocks - 1)"
    using rs_get_indexed_height_ok [of R d "contents d"] rocks_okD(1) [OF ok] inv ne
    by (simp add: durable_inv_def)
  show "rs_get_runtime_tip_height R d = Inr (runtime_tip (contents d))"
    using rs_get_runtime_tip_ok [of R d "contents d"] rocks_okD(1) [OF ok] by simp
  have "length blocks - 1 < length hs" using hs(2) ne by (cases blocks) auto
  then have "contents d (blockhash_key (length blocks - 1)) \<noteq> None"
    using hs(1) unfolding hashes_recorded_def by blast
  from scan_top [OF ok this] i
  show "rs_find_max_stored_block_hash_height R d floor = Inr (length blocks - 1)"
    by (simp add: rs_find_max_stored_block_hash_height_def del: One_nat_def)
qed

text \<open>Step 5 leaves the chain up to the safe height, and both pointers on it.\<close>

lemma heal_finish_run:
  assumes ok: "rocks_ok R contents" and hex: "hex_codec hexe hexd"
    and inv: "durable_inv hexe (contents d) blocks" and fits: "chain_ok blocks"
    and safe: "safe < length blocks" "safe \<le> runtime_tip (contents d)"
  shows "\<exists>o1 d'. heal_finish (rs_adapter lbl R from_data) (length blocks - 1) (runtime_tip (contents d))
        (length blocks - 1) safe (d, x) = (Inr (safe, o1), (d', x))
     \<and> durable_inv hexe (contents d') (take (safe + 1) blocks) \<and> runtime_tip (contents d') = safe"
proof (cases "safe < length blocks - 1 \<or> safe < runtime_tip (contents d)")
  case True
  obtain d' where "rs_heal_pointers_atomic R safe d = (Inr (), d')"
      "durable_inv hexe (contents d') (take (safe + 1) blocks)" "runtime_tip (contents d') = safe"
    using heal_run [OF ok hex inv fits safe(1)] by blast
  with True show ?thesis
    by (auto simp: heal_finish_def rs_adapter_def stored_op_def sbind_def simp del: One_nat_def)
next
  case False
  then have eq: "safe = length blocks - 1" "runtime_tip (contents d) = safe" using safe by auto
  then have "take (safe + 1) blocks = blocks" by simp
  with False eq inv show ?thesis by (auto simp: heal_finish_def simp del: One_nat_def)
qed

text \<open>What the node says of the height the repair settles on.\<close>

definition confirmed :: "('x \<Rightarrow> nat \<Rightarrow> bytes option) \<Rightarrow> bytes list \<Rightarrow> sync_config \<Rightarrow> nat \<Rightarrow> nat \<Rightarrow> 'x \<Rightarrow> bool" where
  "confirmed remote hs cfg candidate safe x \<longleftrightarrow>
     remote x safe = Some (hs ! safe) \<or> remote x safe = None \<or> safe + max_reorg_depth cfg \<le> candidate \<or> safe = 0"

lemma startup_run:
  assumes ok: "rocks_ok R contents" and hex: "hex_codec hexe hexd" and node: "node_answers nd remote"
    and conn: "\<And>w. n_is_connected nd w = (connected, w)" and cfg: "enable_startup_heal cfg"
    and inv: "durable_inv hexe (contents d) blocks" and fits: "chain_ok blocks" and ne: "blocks \<noteq> []"
    and hs: "hashes_recorded (contents d) hs" "length hs = length blocks"
  obtains safe o1 d' where
    "heal_pointer_divergence_at_startup nd (rs_adapter lbl R from_data) cfg (d, x) = (Inr (safe, o1), (d', x))"
    "safe < length blocks" "safe \<le> runtime_tip (contents d)"
    "durable_inv hexe (contents d') (take (safe + 1) blocks)" "runtime_tip (contents d') = safe"
    "connected \<Longrightarrow> confirmed remote hs cfg (min (length blocks - 1) (runtime_tip (contents d))) safe x"
proof -
  let ?S = "rs_adapter lbl R from_data" and ?L = "length blocks - 1" and ?t = "runtime_tip (contents d)"
  let ?c = "min ?L ?t"
  note reads = rs_hash_reads [OF ok node, of lbl from_data]
  note ptr = pointer_reads [OF ok inv ne hs]
  have reads3: "io_or e (s_indexed_height ?S) (d, x) = (Inr ?L, (d, x))"
      "io_or e (s_runtime_tip ?S) (d, x) = (Inr ?t, (d, x))"
      "io_or e (s_max_block_hash ?S floor) (d, x) = (Inr ?L, (d, x))" for e floor
    using ptr by (simp_all add: io_or_def io_of_def unwrap_or_def rs_adapter_def stored_read_def)
  have Lb: "?L < length blocks" using ne by (cases blocks) auto
  have all: "take (?L + 1) blocks = blocks" by simp
  have local: "recorded_hash contents (d, x) k = Some (hs ! k)" if "k < length blocks" for k
    using hs that by (simp add: recorded_hash_def hashes_recorded_def)
  have agree: "hash_reads.agrees (recorded_hash contents) (\<lambda>w. remote (snd w)) (d, x) k \<longleftrightarrow> remote x k = Some (hs ! k)"
    if "k < length blocks" for k
    using local [OF that] by (auto simp: hash_reads.agrees_def [OF reads])
  have io: "io_of (n_is_connected nd) (d, x) = (Inr connected, (d, x))" by (simp add: io_of_def conn)
  have head: "heal_pointer_divergence_at_startup nd ?S cfg (d, x) =
     (if (?L = ?t \<and> ?t = ?L) \<and> ?L = 0 then sreturn (?L, AlreadyConsistent ?L)
      else sbind (io_of (n_is_connected nd)) (\<lambda>reachable.
        sbind (if (?L = ?t \<and> ?t = ?L) \<and> reachable then heal_confirm nd ?S (min (min ?L ?t) ?L) else sreturn False) (\<lambda>clean.
        if clean then sreturn (min (min ?L ?t) ?L, AlreadyConsistent (min (min ?L ?t) ?L))
        else sbind (if reachable then heal_walk nd ?S (min (min ?L ?t) ?L - max_reorg_depth cfg) (min (min ?L ?t) ?L) (min (min ?L ?t) ?L)
                    else sreturn (min (min ?L ?t) ?L))
               (heal_finish ?S ?L ?t ?L)))) (d, x)"
    unfolding heal_pointer_divergence_at_startup_def
    by (simp only: cfg not_True_eq_False if_False Let_def
        sbind_Inr [where m = "io_or e (s_indexed_height ?S)" and s = "(d, x)" for e, OF reads3(1)]
        sbind_Inr [where m = "io_or e (s_runtime_tip ?S)" and s = "(d, x)" for e, OF reads3(2)]
        sbind_Inr [where m = "io_or e (s_max_block_hash ?S fl)" and s = "(d, x)" for e fl, OF reads3(3)])
  have mm: "min (min ?L ?t) ?L = ?c" by simp
  note * = that
  show ?thesis
  proof (cases "?L = ?t \<and> ?L = 0")
    case True
    then have t0: "(?L = ?t \<and> ?t = ?L) \<and> ?L = 0" by argo
    have "heal_pointer_divergence_at_startup nd ?S cfg (d, x) = (Inr (?L, AlreadyConsistent ?L), (d, x))"
      unfolding head by (subst if_P [OF t0]) (rule sreturn_app)
    with that True Lb all inv show ?thesis by (simp add: confirmed_def del: One_nat_def)
  next
    case False
    then have nt: "\<not> ((?L = ?t \<and> ?t = ?L) \<and> ?L = 0)" by blast
    have step_eq: "heal_pointer_divergence_at_startup nd ?S cfg (d, x) =
       sbind (if (?L = ?t \<and> ?t = ?L) \<and> connected then heal_confirm nd ?S ?c else sreturn False) (\<lambda>clean.
        if clean then sreturn (?c, AlreadyConsistent ?c)
        else sbind (if connected then heal_walk nd ?S (?c - max_reorg_depth cfg) ?c ?c else sreturn ?c)
               (heal_finish ?S ?L ?t ?L)) (d, x)"
      unfolding head mm by (simp only: nt if_False
        sbind_Inr [where m = "io_of (n_is_connected nd)" and s = "(d, x)", OF io])
    have finish: ?thesis if "heal_pointer_divergence_at_startup nd ?S cfg (d, x) = heal_finish ?S ?L ?t ?L safe (d, x)"
        "safe \<le> ?c" "connected \<Longrightarrow> confirmed remote hs cfg ?c safe x" for safe
    proof -
      have "safe < length blocks" "safe \<le> ?t" using that(2) Lb by simp_all
      from heal_finish_run [OF ok hex inv fits this, of lbl from_data x] that(1,3) \<open>safe < length blocks\<close> \<open>safe \<le> ?t\<close>
      obtain o1 d' where "heal_finish ?S ?L ?t ?L safe (d, x) = (Inr (safe, o1), (d', x))"
          "durable_inv hexe (contents d') (take (safe + 1) blocks)" "runtime_tip (contents d') = safe"
        by blast
      then show ?thesis using * that(1,3) \<open>safe < length blocks\<close> \<open>safe \<le> ?t\<close> by metis
    qed
    show ?thesis
    proof (cases connected)
      case False
      then show ?thesis by (intro finish [of ?c]) (simp_all add: step_eq sbind_def)
    next
      case True
      have walk: ?thesis if "heal_pointer_divergence_at_startup nd ?S cfg (d, x)
          = sbind (heal_walk nd ?S (?c - max_reorg_depth cfg) ?c ?c) (heal_finish ?S ?L ?t ?L) (d, x)"
      proof -
        obtain a where a: "a \<le> ?c" "heal_walk nd ?S (?c - max_reorg_depth cfg) ?c ?c (d, x) = (Inr a, (d, x))"
            "hash_reads.agrees (recorded_hash contents) (\<lambda>w. remote (snd w)) (d, x) a
             \<or> remote x a = None \<or> a \<le> ?c - max_reorg_depth cfg \<or> a = 0"
          by (rule hash_reads.heal_walk_from [OF reads, of ?c "?c - max_reorg_depth cfg" "(d, x)"])
             (simp only: snd_conv)
        moreover have "a < length blocks" using a(1) Lb by simp
        ultimately have "confirmed remote hs cfg ?c a x" using agree [of a] by (auto simp: confirmed_def)
        with a show ?thesis by (intro finish [of a]) (simp_all add: that sbind_def)
      qed
      show ?thesis
      proof (cases "?L = ?t")
        case False
        then have "\<not> ((?L = ?t \<and> ?t = ?L) \<and> connected)" by blast
        then show ?thesis
          by (intro walk) (unfold step_eq, simp only: if_False sbind_def True if_True sreturn_app prod.case sum.case)
      next
        case eq: True
        then have both: "(?L = ?t \<and> ?t = ?L) \<and> connected" using True by simp
        note step2 = step_eq [unfolded if_P [OF both] if_P [OF True]]
        obtain b where b: "heal_confirm nd ?S ?c (d, x) = (Inr b, (d, x))"
            "b \<longleftrightarrow> hash_reads.agrees (recorded_hash contents) (\<lambda>w. remote (snd w)) (d, x) ?c
               \<or> recorded_hash contents (d, x) ?c \<noteq> None \<and> remote x ?c = None"
          using hash_reads.heal_confirm_result [OF reads, of ?c "(d, x)"] by auto
        show ?thesis
        proof (cases b)
          case False
          then show ?thesis
            by (intro walk) (unfold step2, simp only: sbind_def b(1) if_False prod.case sum.case)
        next
          case True
          then have "heal_pointer_divergence_at_startup nd ?S cfg (d, x) = (Inr (?c, AlreadyConsistent ?c), (d, x))"
            unfolding step2 by (simp only: if_True sbind_def b(1) sreturn_app prod.case sum.case)
          moreover have "?c < length blocks" "?c = ?L" using eq Lb by simp_all
          moreover have "confirmed remote hs cfg ?c ?c x"
            using True b(2) agree [of ?c] \<open>?c < length blocks\<close> by (auto simp: confirmed_def)
          ultimately show ?thesis using * eq all inv by (metis order_refl)
        qed
      qed
    qed
  qed
qed

subsection \<open>\<open>init\<close> and \<open>start\<close>\<close>

lemma init_run:
  assumes heal: "heal_pointer_divergence_at_startup nd S cfg (world e) = (Inr (safe, o1), w)"
    and idx: "s_indexed_height S w = (Inr safe, w)" and cfg: "start_block cfg = 0" and b: "safe < u32_max"
  shows "sync_init nd S cfg e = (Inr (), e\<lparr>world := w, current_height := (if safe = 0 then 0 else safe + 1)\<rparr>)"
proof -
  have "on_world (heal_pointer_divergence_at_startup nd S cfg) e = (Inr (safe, o1), e\<lparr>world := w\<rparr>)"
    by (simp add: on_world_def heal)
  moreover have "on_world (io_or 0 (s_indexed_height S)) (e\<lparr>world := w\<rparr>) = (Inr safe, e\<lparr>world := w\<rparr>)"
    by (simp add: on_world_def io_or_def io_of_def unwrap_or_def idx)
  ultimately show ?thesis
    using b by (simp add: sync_init_def sbind_def start_height_def cfg set_current_def)
qed

text \<open>
  \<open>start\<close> sets the running flag before its checks and does not clear it when one fails, so
  that every later \<open>start\<close> is refused.
\<close>

lemma failed_start_stays_running:
  assumes "\<not> is_running e" "n_is_connected nd (world e) = (False, w)"
  shows "start nd S Rt pipeline e = (Inl (BitcoinNode ''Node is not connected''), e\<lparr>is_running := True, world := w\<rparr>)"
    and "start nd' S' Rt' pipeline' (e\<lparr>is_running := True, world := w\<rparr>)
      = (Inl (Config ''Sync engine is already running''), e\<lparr>is_running := True, world := w\<rparr>)"
  using assms by (simp_all add: start_def sbind_def set_running_def on_world_def io_of_def)

subsection \<open>Properties\<close>

text \<open>
  C31: the start-up repair is safe. On an indexed chain whose runtime tip may have drifted,
  \<open>init\<close> succeeds and settles on a height no pointer was below; the database is the chain up
  to it with both pointers on it, and the engine resumes right after (or at 0 when it is
  0). With a reachable node that height is confirmed: the node's hash agrees there, or it
  failed to answer, or the walk spent \<open>max_reorg_depth\<close> or met genesis.
\<close>

theorem init_repairs_pointers:
  assumes ok: "rocks_ok R contents" and hex: "hex_codec hexe hexd" and node: "node_answers nd remote"
    and conn: "\<And>w. n_is_connected nd w = (connected, w)"
    and cfg: "enable_startup_heal cfg" "start_block cfg = 0"
    and inv: "durable_inv hexe (contents d) blocks" and fits: "chain_ok blocks" and ne: "blocks \<noteq> []"
    and b: "length blocks \<le> u32_max"
    and hs: "hashes_recorded (contents d) hs" "length hs = length blocks" and e: "world e = (d, x)"
  shows "\<exists>safe d'. sync_init nd (rs_adapter lbl R from_data) cfg e
       = (Inr (), e\<lparr>world := (d', x), current_height := (if safe = 0 then 0 else safe + 1)\<rparr>)
     \<and> safe < length blocks \<and> safe \<le> runtime_tip (contents d)
     \<and> rs_get_indexed_height R d' = Inr safe \<and> rs_get_runtime_tip_height R d' = Inr safe
     \<and> (\<forall>key q. get_at_height (rocks_get R d') hexd key q = Inr (last_write (take (safe + 1) blocks) key q))
     \<and> (connected \<longrightarrow> confirmed remote hs cfg (min (length blocks - 1) (runtime_tip (contents d))) safe x)"
proof -
  obtain safe o1 d' where heal:
      "heal_pointer_divergence_at_startup nd (rs_adapter lbl R from_data) cfg (d, x) = (Inr (safe, o1), (d', x))"
      "safe < length blocks" "safe \<le> runtime_tip (contents d)"
      "durable_inv hexe (contents d') (take (safe + 1) blocks)" "runtime_tip (contents d') = safe"
      "connected \<Longrightarrow> confirmed remote hs cfg (min (length blocks - 1) (runtime_tip (contents d))) safe x"
    by (rule startup_run [OF ok hex node conn cfg(1) inv fits ne hs]) (rule that)
  have ptr: "rs_get_indexed_height R d' = Inr safe" "rs_get_runtime_tip_height R d' = Inr safe"
    using rs_get_indexed_height_ok [of R d' "contents d'"] rs_get_runtime_tip_ok [of R d' "contents d'"]
      rocks_okD(1) [OF ok] heal(2,4,5) by (auto simp: durable_inv_def split: if_splits)
  then have "s_indexed_height (rs_adapter lbl R from_data) (d', x) = (Inr safe, (d', x))"
    by (simp add: rs_adapter_def stored_read_def)
  from init_run [OF _ this cfg(2)] heal(1,2) b e
  have "sync_init nd (rs_adapter lbl R from_data) cfg e
       = (Inr (), e\<lparr>world := (d', x), current_height := (if safe = 0 then 0 else safe + 1)\<rparr>)" by simp
  with heal ptr durable_query [OF ok hex heal(4) chain_ok_take [OF fits]] show ?thesis by blast
qed

theorem init_repairs_pointers_witness:
  "\<exists>d safe d'. apply_blocks encode_hex_fast list_rocks sample_data sample_from 0 old_branch [] = (Inr (), d)
     \<and> sync_init (chain_node (\<lambda>_. [(''h0'', []), (''h1'', []), (''g2'', [])])) (rs_adapter None list_rocks sample_from)
         default_config (new_engine (d, ()))
       = (Inr (), (new_engine (d', ()))\<lparr>current_height := (if safe = 0 then 0 else safe + 1)\<rparr>)
     \<and> safe < 3 \<and> rs_get_runtime_tip_height list_rocks d' = Inr safe"
proof -
  let ?c = "\<lambda>_ :: unit. [(''h0'', []), (''h1'', []), (''g2'', [])]"
  obtain d where d: "apply_blocks encode_hex_fast list_rocks sample_data sample_from 0 old_branch [] = (Inr (), d)"
      "durable_inv encode_hex_fast (map_of d) (map fst old_branch)" "hashes_recorded (map_of d) (map snd old_branch)"
    using apply_blocks_hashes [OF list_facts, of "[]" old_branch encode_hex_fast] old_branch_ok(1) by auto
  have conn: "\<And>w :: list_db \<times> unit. n_is_connected (chain_node ?c) w = (True, w)" by (simp add: chain_node_def)
  have facts: "enable_startup_heal default_config" "start_block default_config = 0" "map fst old_branch \<noteq> []"
      "length (map fst old_branch) \<le> u32_max" "length (map snd old_branch) = length (map fst old_branch)"
      "world (new_engine (d, ())) = (d, ())"
    by (simp_all add: default_config_def old_branch_def u32_max_def new_engine_def)
  note run = init_repairs_pointers [where nd = "chain_node ?c" and remote = "chain_hash ?c" and contents = map_of
      and lbl = None and from_data = sample_from and e = "new_engine (d, ())" and x = "()" and d = d,
      OF list_rocks_ok hx.hex_codec_axioms chain_node_answers conn facts(1,2) d(2) old_branch_ok(1) facts(3,4) d(3) facts(5,6)]
  from run obtain safe d' where
      "sync_init (chain_node ?c) (rs_adapter None list_rocks sample_from) default_config (new_engine (d, ()))
         = (Inr (), (new_engine (d, ()))\<lparr>world := (d', ()), current_height := (if safe = 0 then 0 else safe + 1)\<rparr>)"
      "safe < length (map fst old_branch)" "rs_get_runtime_tip_height list_rocks d' = Inr safe"
    by blast
  then show ?thesis using d(1) by (auto simp: new_engine_def old_branch_ok(2))
qed

text \<open>
  C32: a restart with only genesis indexed never gets past it. The height pointer cannot tell
  an empty database from one with block 0: \<open>init\<close> changes nothing and resumes at height 0,
  where the commit is out of order for ever, so the pipeline's \<open>process_block\<close> never returns.
\<close>

theorem genesis_restart_wedges:
  assumes ok: "rocks_ok R contents" and fmt: "batch_format to_data from_data" and hex: "hex_codec hexe hexd"
    and node: "node_answers nd remote" and conn: "\<And>w. n_is_connected nd w = (connected, w)"
    and quiet: "quiet_runtime contents Rt"
    and cfg: "enable_startup_heal cfg" "start_block cfg = 0"
    and start: "contents d0 = Map.empty" and fits: "chain_ok [fst blk]"
    and run: "apply_blocks hexe R to_data from_data 0 [blk] d0 = (Inr (), d)" and e: "world e = (d, x)"
  shows "sync_init nd (rs_adapter lbl R from_data) cfg e = (Inr (), e\<lparr>current_height := 0\<rparr>)
     \<and> clone_process_block (rs_adapter lbl R from_data) Rt 0 data hash (d, x) = None"
proof -
  obtain d1 where d1: "apply_blocks hexe R to_data from_data 0 [blk] d0 = (Inr (), d1)"
      "durable_inv hexe (contents d1) (map fst [blk])" "hashes_recorded (contents d1) (map snd [blk])"
      "[blk] \<noteq> [] \<Longrightarrow> runtime_tip (contents d1) = length [blk] - 1"
    using apply_blocks_hashes [OF ok fmt start, of "[blk]" hexe] fits by auto
  with run have d: "durable_inv hexe (contents d) [fst blk]" "hashes_recorded (contents d) [snd blk]"
      "runtime_tip (contents d) = 0" by simp_all
  note ptr = pointer_reads [OF ok d(1) _ d(2)]
  have "heal_pointer_divergence_at_startup nd (rs_adapter lbl R from_data) cfg (d, x)
      = (Inr (0, AlreadyConsistent 0), (d, x))"
    using ptr cfg(1) d(3) by (simp add: heal_pointer_divergence_at_startup_def sbind_def io_or_def io_of_def
        unwrap_or_def rs_adapter_def stored_read_def Let_def)
  moreover have "s_indexed_height (rs_adapter lbl R from_data) (d, x) = (Inr 0, (d, x))"
    using ptr by (simp add: rs_adapter_def stored_read_def)
  ultimately have "sync_init nd (rs_adapter lbl R from_data) cfg e = (Inr (), e\<lparr>world := (d, x), current_height := 0\<rparr>)"
    using init_run [of nd "rs_adapter lbl R from_data" cfg e 0 "AlreadyConsistent 0" "(d, x)"] cfg(2) e
    by (simp add: u32_max_def)
  moreover have "e\<lparr>world := (d, x), current_height := 0\<rparr> = e\<lparr>current_height := 0\<rparr>" using e by simp
  moreover have "rejects_height (contents (fst (d, x))) 0"
    using d(2) by (simp add: rejects_height_def fresh_db_def hashes_recorded_def sat_add32_def u32_max_def)
  then have "clone_process_block (rs_adapter lbl R from_data) Rt 0 data hash (d, x) = None"
    using clone_diverges [OF ok quiet _ refl refl]
    by (cases "clone_process_block (rs_adapter lbl R from_data) Rt 0 data hash (d, x)") auto
  ultimately show ?thesis by simp
qed

theorem genesis_restart_wedges_witness:
  "\<exists>d. apply_blocks encode_hex_fast list_rocks sample_data sample_from 0 [(sample_index 0 ''B'', ''b'')] [] = (Inr (), d)
     \<and> sync_init (chain_node (\<lambda>_. [(''b'', ''B''), (''c'', ''C'')])) sample_storage default_config (new_engine (d, ()))
       = (Inr (), new_engine (d, ()))
     \<and> clone_process_block sample_storage sample_runtime 0 ''B'' ''b'' (d, ()) = None"
proof -
  let ?c = "\<lambda>_ :: unit. [(''b'', ''B''), (''c'', ''C'')]" and ?blk = "(sample_index 0 ''B'', ''b'')"
  have fits: "chain_ok [fst ?blk]" using sample_block_ok by simp
  obtain d where d: "apply_blocks encode_hex_fast list_rocks sample_data sample_from 0 [?blk] [] = (Inr (), d)"
    using apply_blocks_hashes [OF list_facts, of "[]" "[?blk]" encode_hex_fast] fits by auto
  have conn: "\<And>w :: list_db \<times> unit. n_is_connected (chain_node ?c) w = (True, w)" by (simp add: chain_node_def)
  have quiet: "quiet_runtime map_of sample_runtime" unfolding sample_runtime_def by (rule indexing_runtime_quiet)
  have facts: "enable_startup_heal default_config" "start_block default_config = 0"
      "map_of ([] :: list_db) = Map.empty" "world (new_engine (d, ())) = (d, ())"
    by (simp_all add: default_config_def new_engine_def)
  from genesis_restart_wedges [where nd = "chain_node ?c" and remote = "chain_hash ?c" and contents = map_of
      and lbl = None and e = "new_engine (d, ())" and x = "()" and Rt = sample_runtime and data = "''B''" and hash = "''b''",
      OF list_facts hx.hex_codec_axioms chain_node_answers conn quiet facts(1-3) fits d facts(4)] d
  show ?thesis by (auto simp: sample_storage_def new_engine_def)
qed

end
