(* ===== verification/SyncPipeline.thy ===== *)
theory SyncPipeline
  imports SyncEngine
begin

text \<open>
  The concurrent pipeline of \<open>MetashrewSync::run_pipeline\<close>: the fetcher task, the processor
  task and the result loop, over the shared engine state, a bounded channel of blocks and a
  bounded channel of results. Each task is a program counter and a step function that gives
  \<open>None\<close> when the task is blocked or has ended; the pipeline is the relation that lets any
  task move. A step is one access to shared state or one adapter call, so that the tasks
  interleave where the code can yield; \<open>handle_reorg\<close> is one step, and sleeping is not one.
\<close>

datatype fetcher_pc =
    FTop | FLoad | FTip nat | FReorg nat nat | FCheck nat | FFetch nat
  | FInsert nat bytes bytes | FSend nat bytes bytes | FDone

datatype processor_pc =
    PRecv | PExec nat bytes bytes | PCommit nat bytes bytes atomic_block_result
  | PRefresh nat bytes bytes | PReport block_result | PDone

datatype main_pc =
    MRecv | MStore nat | MRemove nat | MFailed nat string | MExit nat | MJoin
  | MReturn "sync_error + unit" | MPanic

record 'w pipeline =
  pl_engine :: "'w engine"
  pl_fetcher :: fetcher_pc
  pl_blocks :: "(nat \<times> bytes \<times> bytes) list"
  pl_processor :: processor_pc
  pl_results :: "block_result list"
  pl_main :: main_pc

text \<open>The channel size; \<open>cpus\<close> is \<open>num_cpus::get()\<close>. A channel of size 0 is a panic.\<close>

definition pipeline_width :: "sync_config \<Rightarrow> nat \<Rightarrow> nat" where
  "pipeline_width cfg cpus =
     (case pipeline_size cfg of Some n \<Rightarrow> n | None \<Rightarrow> min (max 5 (cpus div 2)) 16)"

definition new_pipeline :: "sync_config \<Rightarrow> nat \<Rightarrow> 'w engine \<Rightarrow> 'w pipeline option" where
  "new_pipeline cfg cpus e =
     (if pipeline_width cfg cpus = 0 then None
      else Some \<lparr>pl_engine = e, pl_fetcher = FTop, pl_blocks = [], pl_processor = PRecv,
                 pl_results = [], pl_main = MRecv\<rparr>)"

subsection \<open>The fetcher\<close>

text \<open>The decisions after the reorganisation check.\<close>

definition fetch_decision :: "sync_config \<Rightarrow> nat \<Rightarrow> nat \<Rightarrow> fetcher_pc" where
  "fetch_decision cfg h remote_tip =
     (if (case exit_at cfg of Some x \<Rightarrow> h \<ge> x | None \<Rightarrow> False) then FDone
      else if h > remote_tip then FTop
      else FCheck h)"

definition fetch_reorg ::
    "'w node_adapter \<Rightarrow> 'w storage_adapter \<Rightarrow> 'w runtime_adapter \<Rightarrow> sync_config \<Rightarrow> nat \<Rightarrow> nat
     \<Rightarrow> 'w engine \<Rightarrow> 'w engine \<times> fetcher_pc" where
  "fetch_reorg nd S R cfg h remote_tip e =
     (if remote_tip - h \<le> reorg_check_threshold cfg then
        (case on_world (handle_reorg nd S R cfg h) e of
           (Inr new_height, e') \<Rightarrow>
             (if new_height \<noteq> h then e'\<lparr>current_height := new_height\<rparr> else e',
              fetch_decision cfg new_height remote_tip)
         | (Inl _, e') \<Rightarrow> (e', FTop))
      else (e, fetch_decision cfg h remote_tip))"

definition fetcher_step ::
    "'w node_adapter \<Rightarrow> 'w storage_adapter \<Rightarrow> 'w runtime_adapter \<Rightarrow> sync_config \<Rightarrow> nat
     \<Rightarrow> 'w pipeline \<Rightarrow> 'w pipeline option" where
  "fetcher_step nd S R cfg width s =
     (let e = pl_engine s in
      case pl_fetcher s of
        FTop \<Rightarrow> Some (s\<lparr>pl_fetcher := if is_running e then FLoad else FDone\<rparr>)
      | FLoad \<Rightarrow> Some (s\<lparr>pl_fetcher := FTip (current_height e)\<rparr>)
      | FTip h \<Rightarrow>
          (case on_world (n_tip_height nd) e of
             (Inr remote_tip, e') \<Rightarrow> Some (s\<lparr>pl_engine := e', pl_fetcher := FReorg h remote_tip\<rparr>)
           | (Inl _, e') \<Rightarrow> Some (s\<lparr>pl_engine := e', pl_fetcher := FTop\<rparr>))
      | FReorg h remote_tip \<Rightarrow>
          (case fetch_reorg nd S R cfg h remote_tip e of
             (e', pc) \<Rightarrow> Some (s\<lparr>pl_engine := e', pl_fetcher := pc\<rparr>))
      | FCheck h \<Rightarrow>
          Some (s\<lparr>pl_fetcher := if h \<in> processing_heights e then FTop else FFetch h\<rparr>)
      | FFetch h \<Rightarrow>
          (case on_world (n_block_info nd h) e of
             (Inr info, e') \<Rightarrow>
               Some (s\<lparr>pl_engine := e', pl_fetcher := FInsert h (info_data info) (info_hash info)\<rparr>)
           | (Inl _, e') \<Rightarrow> Some (s\<lparr>pl_engine := e', pl_fetcher := FTop\<rparr>))
      | FInsert h block_data block_hash \<Rightarrow>
          Some (s\<lparr>pl_engine := e\<lparr>processing_heights := insert h (processing_heights e)\<rparr>,
                  pl_fetcher := FSend h block_data block_hash\<rparr>)
      | FSend h block_data block_hash \<Rightarrow>
          if pl_processor s = PDone then Some (s\<lparr>pl_fetcher := FDone\<rparr>)
          else if length (pl_blocks s) < width
          then Some (s\<lparr>pl_blocks := pl_blocks s @ [(h, block_data, block_hash)], pl_fetcher := FTop\<rparr>)
          else None
      | FDone \<Rightarrow> None)"

subsection \<open>The processor\<close>

text \<open>The result loop has dropped its sender of blocks, or its receiver of results.\<close>

fun sender_dropped :: "main_pc \<Rightarrow> bool" where
  "sender_dropped MJoin = True"
| "sender_dropped (MReturn r) = True"
| "sender_dropped MPanic = True"
| "sender_dropped pc = False"

fun receiver_dropped :: "main_pc \<Rightarrow> bool" where
  "receiver_dropped (MReturn r) = True"
| "receiver_dropped MPanic = True"
| "receiver_dropped pc = False"

text \<open>\<open>PExec\<close>, \<open>PCommit\<close> and \<open>PRefresh\<close> are the loop of \<open>ProcessingClone::process_block\<close>.\<close>

definition processor_step ::
    "'w storage_adapter \<Rightarrow> 'w runtime_adapter \<Rightarrow> nat \<Rightarrow> 'w pipeline \<Rightarrow> 'w pipeline option" where
  "processor_step S R width s =
     (let e = pl_engine s in
      case pl_processor s of
        PRecv \<Rightarrow>
          (case pl_blocks s of
             (h, block_data, block_hash) # blks \<Rightarrow>
               Some (s\<lparr>pl_blocks := blks, pl_processor := PExec h block_data block_hash\<rparr>)
           | [] \<Rightarrow>
               if pl_fetcher s = FDone \<and> sender_dropped (pl_main s) then Some (s\<lparr>pl_processor := PDone\<rparr>)
               else None)
      | PExec h block_data block_hash \<Rightarrow>
          (case on_world (r_process_atomic R h block_data block_hash) e of
             (Inr res, e') \<Rightarrow> Some (s\<lparr>pl_engine := e', pl_processor := PCommit h block_data block_hash res\<rparr>)
           | (Inl _, e') \<Rightarrow> Some (s\<lparr>pl_engine := e', pl_processor := PRefresh h block_data block_hash\<rparr>))
      | PCommit h block_data block_hash res \<Rightarrow>
          (case on_world (s_commit S h (result_hash res) (state_root res) (batch_data res)) e of
             (Inr _, e') \<Rightarrow> Some (s\<lparr>pl_engine := e', pl_processor := PReport (Success h)\<rparr>)
           | (Inl _, e') \<Rightarrow> Some (s\<lparr>pl_engine := e', pl_processor := PRefresh h block_data block_hash\<rparr>))
      | PRefresh h block_data block_hash \<Rightarrow>
          Some (s\<lparr>pl_engine := snd (on_world (r_refresh_memory R) e), pl_processor := PExec h block_data block_hash\<rparr>)
      | PReport result \<Rightarrow>
          if receiver_dropped (pl_main s) then Some (s\<lparr>pl_processor := PDone\<rparr>)
          else if length (pl_results s) < width
          then Some (s\<lparr>pl_results := pl_results s @ [result], pl_processor := PRecv\<rparr>)
          else None
      | PDone \<Rightarrow> None)"

subsection \<open>The result loop\<close>

definition discontinuity :: "string \<Rightarrow> bool" where
  "discontinuity error \<longleftrightarrow>
     contains error ''does not connect to previous block'' \<or> contains error ''CHAIN DISCONTINUITY''
   \<or> contains error ''out-of-order commit rejected''"

definition handle_failure ::
    "'w node_adapter \<Rightarrow> 'w storage_adapter \<Rightarrow> 'w runtime_adapter \<Rightarrow> sync_config \<Rightarrow> nat \<Rightarrow> string
     \<Rightarrow> 'w engine \<Rightarrow> 'w engine \<times> main_pc" where
  "handle_failure nd S R cfg failed_height error e0 =
     (let e = e0\<lparr>processing_heights := processing_heights e0 - {failed_height}\<rparr> in
      if discontinuity error then
        (case on_world (handle_reorg nd S R cfg failed_height) e of
           (Inr rollback_height, e') \<Rightarrow> (e'\<lparr>current_height := rollback_height\<rparr>, MExit rollback_height)
         | (Inl _, e') \<Rightarrow> (e', MExit failed_height))
      else if contains error ''indexer exited unexpectedly'' then
        (e\<lparr>is_running := False\<rparr>, MReturn (Inl (BlockProcessing failed_height error)))
      else (e, MExit failed_height))"

definition main_step ::
    "'w node_adapter \<Rightarrow> 'w storage_adapter \<Rightarrow> 'w runtime_adapter \<Rightarrow> sync_config \<Rightarrow> 'w pipeline \<Rightarrow> 'w pipeline option" where
  "main_step nd S R cfg s =
     (let e = pl_engine s in
      case pl_main s of
        MRecv \<Rightarrow>
          (case pl_results s of
             Success h # rs \<Rightarrow> Some (s\<lparr>pl_results := rs, pl_main := MStore h\<rparr>)
           | Failure h error # rs \<Rightarrow> Some (s\<lparr>pl_results := rs, pl_main := MFailed h error\<rparr>)
           | [] \<Rightarrow> None)
      | MStore h \<Rightarrow>
          if h < u32_max then Some (s\<lparr>pl_engine := e\<lparr>current_height := h + 1\<rparr>, pl_main := MRemove h\<rparr>)
          else Some (s\<lparr>pl_main := MPanic\<rparr>)
      | MRemove h \<Rightarrow>
          Some (s\<lparr>pl_engine := e\<lparr>processing_heights := processing_heights e - {h}\<rparr>, pl_main := MExit (h + 1)\<rparr>)
      | MFailed h error \<Rightarrow>
          (case handle_failure nd S R cfg h error e of
             (e', pc) \<Rightarrow> Some (s\<lparr>pl_engine := e', pl_main := pc\<rparr>))
      | MExit h \<Rightarrow>
          Some (s\<lparr>pl_main :=
            if (case exit_at cfg of Some x \<Rightarrow> h \<ge> x | None \<Rightarrow> False) \<or> \<not> is_running e then MJoin else MRecv\<rparr>)
      | MJoin \<Rightarrow>
          if pl_fetcher s = FDone \<and> pl_processor s = PDone then Some (s\<lparr>pl_main := MReturn (Inr ())\<rparr>)
          else None
      | MReturn r \<Rightarrow> None
      | MPanic \<Rightarrow> None)"

subsection \<open>The pipeline\<close>

inductive pipeline_step ::
    "'w node_adapter \<Rightarrow> 'w storage_adapter \<Rightarrow> 'w runtime_adapter \<Rightarrow> sync_config \<Rightarrow> nat
     \<Rightarrow> 'w pipeline \<Rightarrow> 'w pipeline \<Rightarrow> bool"
  for nd S R cfg width where
  fetcher_moves: "fetcher_step nd S R cfg width s = Some s' \<Longrightarrow> pipeline_step nd S R cfg width s s'"
| processor_moves: "processor_step S R width s = Some s' \<Longrightarrow> pipeline_step nd S R cfg width s s'"
| main_moves: "main_step nd S R cfg s = Some s' \<Longrightarrow> pipeline_step nd S R cfg width s s'"

inductive_simps pipeline_step_iff: "pipeline_step nd S R cfg width s s'"

text \<open>The states a run can reach.\<close>

definition reaches ::
    "'w node_adapter \<Rightarrow> 'w storage_adapter \<Rightarrow> 'w runtime_adapter \<Rightarrow> sync_config \<Rightarrow> nat
     \<Rightarrow> 'w pipeline \<Rightarrow> 'w pipeline \<Rightarrow> bool" where
  "reaches nd S R cfg width = (pipeline_step nd S R cfg width)\<^sup>*\<^sup>*"

lemma reaches_invariant [consumes 1, case_names start step]:
  assumes "reaches nd S R cfg width s s'" "I s"
    and "\<And>t t'. pipeline_step nd S R cfg width t t' \<Longrightarrow> I t \<Longrightarrow> I t'"
  shows "I s'"
  using assms unfolding reaches_def by (induction rule: rtranclp_induct) auto

end
