(* ===== verification/PipelineProofs.thy ===== *)
theory PipelineProofs
  imports SyncApply SyncPipeline
begin

text \<open>
  The pipeline on the durable backend, for a node whose chain \<open>bs\<close> (data and hash of each
  block) stands still and a runtime around an indexer. The invariant relates every task's
  local heights to the number \<open>n\<close> of blocks in the database.
\<close>

definition node_serves :: "('d \<times> 'x) node_adapter \<Rightarrow> (bytes \<times> bytes) list \<Rightarrow> bool" where
  "node_serves nd bs \<longleftrightarrow> bs \<noteq> []
   \<and> node_answers nd (\<lambda>x h. if h < length bs then Some (snd (bs ! h)) else None)
   \<and> (\<forall>w. n_tip_height nd w = (Inr (length bs - 1), w))
   \<and> (\<forall>h w. h < length bs \<longrightarrow> n_block_info nd h w
        = (Inr \<lparr>info_height = h, info_hash = snd (bs ! h), info_data = fst (bs ! h)\<rparr>, w))
   \<and> (\<forall>h w. length bs \<le> h \<longrightarrow> (\<exists>e. n_block_info nd h w = (Inl e, w)))"

definition node_kvs :: "(nat \<Rightarrow> bytes \<Rightarrow> block_kvs) \<Rightarrow> (bytes \<times> bytes) list \<Rightarrow> nat \<Rightarrow> block_kvs list" where
  "node_kvs index bs n = map (\<lambda>h. index h (fst (bs ! h))) [0..<n]"

text \<open>The database holds the first \<open>n\<close> blocks of the node's chain.\<close>

definition db_at ::
    "(bytes \<Rightarrow> bytes) \<Rightarrow> (nat \<Rightarrow> bytes \<Rightarrow> block_kvs) \<Rightarrow> (bytes \<times> bytes) list \<Rightarrow> nat \<Rightarrow> kvmap \<Rightarrow> bool" where
  "db_at hexe index bs n m \<longleftrightarrow> n \<le> length bs \<and> durable_inv hexe m (node_kvs index bs n)
   \<and> hashes_recorded m (map snd (take n bs))"

definition block_at :: "(bytes \<times> bytes) list \<Rightarrow> nat \<Rightarrow> nat \<Rightarrow> bytes \<Rightarrow> bytes \<Rightarrow> bool" where
  "block_at bs n h data hash \<longleftrightarrow> h \<le> n \<and> h < length bs \<and> bs ! h = (data, hash)"

fun fetcher_ok :: "(bytes \<times> bytes) list \<Rightarrow> nat \<Rightarrow> fetcher_pc \<Rightarrow> bool" where
  "fetcher_ok bs n (FTip h) \<longleftrightarrow> h \<le> n"
| "fetcher_ok bs n (FReorg h tip) \<longleftrightarrow> h \<le> n \<and> tip = length bs - 1"
| "fetcher_ok bs n (FCheck h) \<longleftrightarrow> h \<le> n \<and> h < length bs"
| "fetcher_ok bs n (FFetch h) \<longleftrightarrow> h \<le> n \<and> h < length bs"
| "fetcher_ok bs n (FInsert h data hash) \<longleftrightarrow> block_at bs n h data hash"
| "fetcher_ok bs n (FSend h data hash) \<longleftrightarrow> block_at bs n h data hash"
| "fetcher_ok bs n pc \<longleftrightarrow> True"

definition built ::
    "(bytes \<Rightarrow> bytes) \<Rightarrow> (batch \<Rightarrow> bytes) \<Rightarrow> (nat \<Rightarrow> bytes \<Rightarrow> block_kvs) \<Rightarrow> kvmap \<Rightarrow> nat \<Rightarrow> bytes \<Rightarrow> bytes
     \<Rightarrow> atomic_block_result \<Rightarrow> bool" where
  "built hexe to_data index m h data hash res \<longleftrightarrow>
     (\<exists>root ops. fst (build_state_root_batch_unwritten hexe (reader_of m) h (index h data) hash new_caches) = Inr (root, ops)
        \<and> res = \<lparr>state_root = root, batch_data = to_data ops, result_height = h, result_hash = hash\<rparr>)"

definition reported :: "nat \<Rightarrow> block_result \<Rightarrow> bool" where
  "reported n r \<longleftrightarrow> (\<exists>h < n. r = Success h)"

fun main_ok :: "nat \<Rightarrow> main_pc \<Rightarrow> bool" where
  "main_ok n (MStore h) \<longleftrightarrow> h < n"
| "main_ok n (MRemove h) \<longleftrightarrow> h < n"
| "main_ok n (MFailed h e) \<longleftrightarrow> False"
| "main_ok n (MReturn r) \<longleftrightarrow> r = Inr ()"
| "main_ok n MPanic \<longleftrightarrow> False"
| "main_ok n pc \<longleftrightarrow> True"

fun processor_ok ::
    "(nat \<Rightarrow> nat \<Rightarrow> bytes \<Rightarrow> bytes \<Rightarrow> atomic_block_result \<Rightarrow> bool) \<Rightarrow> (bytes \<times> bytes) list \<Rightarrow> nat \<Rightarrow> processor_pc \<Rightarrow> bool" where
  "processor_ok B bs n (PExec h data hash) \<longleftrightarrow> block_at bs n h data hash"
| "processor_ok B bs n (PCommit h data hash res) \<longleftrightarrow> block_at bs n h data hash \<and> B n h data hash res"
| "processor_ok B bs n (PRefresh h data hash) \<longleftrightarrow> block_at bs n h data hash"
| "processor_ok B bs n (PReport r) \<longleftrightarrow> reported n r"
| "processor_ok B bs n pc \<longleftrightarrow> True"

text \<open>The height has reached \<open>exit_at\<close>.\<close>

definition past_exit :: "sync_config \<Rightarrow> nat \<Rightarrow> bool" where
  "past_exit cfg h \<longleftrightarrow> (\<exists>x. exit_at cfg = Some x \<and> x \<le> h)"

lemma block_at_mono: "block_at bs n h data hash \<Longrightarrow> n \<le> n' \<Longrightarrow> block_at bs n' h data hash"
  by (simp add: block_at_def)

lemma fetcher_ok_mono: "fetcher_ok bs n pc \<Longrightarrow> n \<le> n' \<Longrightarrow> fetcher_ok bs n' pc"
  by (cases pc) (auto intro: block_at_mono)

lemma main_ok_mono: "main_ok n pc \<Longrightarrow> n \<le> n' \<Longrightarrow> main_ok n' pc"
  by (cases pc) auto

lemma reported_mono: "reported n r \<Longrightarrow> n \<le> n' \<Longrightarrow> reported n' r"
  by (auto simp: reported_def)

lemma node_kvs_Suc: "node_kvs index bs (Suc n) = node_kvs index bs n @ [index n (fst (bs ! n))]"
  by (simp add: node_kvs_def)

lemma length_node_kvs [simp]: "length (node_kvs index bs n) = n"
  by (simp add: node_kvs_def)

lemma take_node_kvs: "m \<le> n \<Longrightarrow> take m (node_kvs index bs n) = node_kvs index bs m"
  by (simp add: node_kvs_def take_map take_upt)

lemma db_at_hash: "db_at hexe index bs n m \<Longrightarrow> i < n \<Longrightarrow> m (blockhash_key i) = Some (snd (bs ! i))"
  by (simp add: db_at_def hashes_recorded_def)

subsection \<open>The environment\<close>

text \<open>What the pipeline relies on: the database, the batch encoding, the node and the runtime.\<close>

locale pipeline_env =
  fixes R :: "'d rocks" and contents :: "'d \<Rightarrow> kvmap" and to_data :: "batch \<Rightarrow> bytes"
    and from_data :: "bytes \<Rightarrow> batch" and hexe :: "bytes \<Rightarrow> bytes"
    and index :: "nat \<Rightarrow> bytes \<Rightarrow> block_kvs" and nd :: "('d \<times> 'x) node_adapter"
    and Rt :: "('d \<times> 'x) runtime_adapter" and bs :: "(bytes \<times> bytes) list"
  assumes ok: "rocks_ok R contents" and fmt: "batch_format to_data from_data"
    and node: "node_serves nd bs" and quiet: "quiet_runtime contents Rt"
    and idx: "indexes hexe R to_data index Rt"
    and fits: "chain_ok (node_kvs index bs (length bs))" and len: "length bs \<le> u32_max"
begin

lemma get_reader: "rocks_get R d = reader_of (contents d)"
  by (simp add: fun_eq_iff rocks_okD(1) [OF ok] reader_of_def)

lemma node_facts:
  "bs \<noteq> []" "n_tip_height nd w = (Inr (length bs - 1), w)"
  "h < length bs \<Longrightarrow> n_block_info nd h w
     = (Inr \<lparr>info_height = h, info_hash = snd (bs ! h), info_data = fst (bs ! h)\<rparr>, w)"
  using node by (simp_all add: node_serves_def del: split_paired_All)

lemma fits_take: "n \<le> length bs \<Longrightarrow> chain_ok (node_kvs index bs n)"
  using chain_ok_take [OF fits, of n] by (simp add: take_node_kvs)

text \<open>The commit of the next block, and of any other.\<close>

lemma commit_next:
  assumes db: "db_at hexe index bs n (contents d)" and blk: "n < length bs" "bs ! n = (data, hash)"
    and res: "built hexe to_data index (contents d) n data hash res"
  obtains d' where
    "s_commit (rs_adapter lbl R from_data) n (result_hash res) (state_root res) (batch_data res) (d, x) = (Inr (), (d', x))"
    "db_at hexe index bs (Suc n) (contents d')"
proof -
  have inv: "durable_inv hexe (contents d) (node_kvs index bs n)" using db by (simp add: db_at_def)
  have c: "chain_ok (node_kvs index bs n @ [fst (index n data, hash)])"
    using fits_take [of "Suc n"] blk by (simp add: node_kvs_Suc)
  obtain d' where d': "apply_block hexe R to_data from_data n (index n data, hash) d = (Inr (), d')"
      "durable_inv hexe (contents d') (node_kvs index bs n @ [index n data])"
      "contents d' (blockhash_key n) = Some hash"
      "\<And>i. i \<noteq> n \<Longrightarrow> contents d' (blockhash_key i) = contents d (blockhash_key i)"
    using apply_block_run [OF ok fmt inv c] by (metis fst_conv snd_conv length_node_kvs)
  obtain root ops where
      "fst (build_state_root_batch_unwritten hexe (reader_of (contents d)) n (index n data) hash new_caches) = Inr (root, ops)"
      and r: "res = \<lparr>state_root = root, batch_data = to_data ops, result_height = n, result_hash = hash\<rparr>"
    using res by (auto simp: built_def)
  with d'(1) have "commit_atomic R from_data n hash root (to_data ops) d = (Inr (), d')"
    by (simp add: apply_block_def get_reader)
  moreover have "hashes_recorded (contents d') (map snd (take (Suc n) bs))"
    using db blk d'(3,4) by (auto simp: db_at_def hashes_recorded_def less_Suc_eq take_Suc_conv_app_nth nth_append)
  then have "db_at hexe index bs (Suc n) (contents d')"
    using d'(2) blk by (simp add: db_at_def node_kvs_Suc)
  ultimately show ?thesis using that r by (simp add: rs_adapter_def stored_op_def)
qed

lemma commit_other:
  assumes db: "db_at hexe index bs n (contents (fst w))" and "h < n"
  shows "\<exists>e. s_commit (rs_adapter lbl R from_data) h bh root data w = (Inl e, w)"
proof -
  have "contents (fst w) (blockhash_key 0) \<noteq> None"
    using db_at_hash [OF db, of 0] assms(2) by simp
  moreover have "indexed_height (contents (fst w)) = n - 1"
    using db assms(2) by (auto simp: db_at_def durable_inv_def simp flip: length_0_conv)
  ultimately have "rejects_height (contents (fst w)) h"
    using db assms(2) len by (auto simp: rejects_height_def fresh_db_def sat_add32_def db_at_def)
  from commit_rejected [OF ok this] show ?thesis by blast
qed

text \<open>No reorganisation is seen at a height the database has reached.\<close>

lemma no_reorg:
  assumes db: "db_at hexe index bs n (contents (fst w))" and "h \<le> n"
  shows "handle_reorg nd (rs_adapter lbl R from_data) Rt cfg h w = (Inr h, w)"
proof (cases "h = 0")
  case False
  have "node_answers nd (\<lambda>x h. if h < length bs then Some (snd (bs ! h)) else None)"
    using node by (simp add: node_serves_def)
  note reads = rs_hash_reads [OF ok this, of lbl from_data]
  have "h - 1 < n" "n \<le> length bs" using assms False by (auto simp: db_at_def)
  then have "hash_reads.agrees (recorded_hash contents) (\<lambda>w h. if h < length bs then Some (snd (bs ! h)) else None) w (h - 1)"
    using db_at_hash [OF db, of "h - 1"] by (simp add: hash_reads.agrees_def [OF reads] recorded_hash_def)
  then show ?thesis using False by (intro hash_reads.handle_reorg_keeps [OF reads]) simp_all
qed (simp add: handle_reorg_def)

lemma exec_next:
  assumes db: "db_at hexe index bs n (contents d)" and blk: "n < length bs" "bs ! n = (data, hash)"
  shows "\<exists>res x'. r_process_atomic Rt n data hash (d, x) = (Inr res, (d, x'))
    \<and> built hexe to_data index (contents d) n data hash res"
proof -
  have inv: "durable_inv hexe (contents d) (node_kvs index bs n)" using db by (simp add: db_at_def)
  have c: "chain_ok (node_kvs index bs n @ [fst (index n data, hash)])"
    using fits_take [of "Suc n"] blk by (simp add: node_kvs_Suc)
  obtain d' where "apply_block hexe R to_data from_data n (index n data, hash) d = (Inr (), d')"
    using apply_block_run [OF ok fmt inv c] by (metis length_node_kvs)
  then obtain root ops where
      "fst (build_state_root_batch_unwritten hexe (rocks_get R d) n (index n data) hash new_caches) = Inr (root, ops)"
    by (auto simp: apply_block_def split: sum.splits)
  with idx get_reader show ?thesis unfolding indexes_def built_def by metis
qed

lemma exec_result:
  assumes db: "db_at hexe index bs n (contents (fst w))" and blk: "block_at bs n h data hash"
    and run: "r_process_atomic Rt h data hash w = (r, w')"
  shows "contents (fst w') = contents (fst w)"
    and "r = Inr res \<Longrightarrow> h = n \<Longrightarrow> built hexe to_data index (contents (fst w')) h data hash res"
proof -
  show same: "contents (fst w') = contents (fst w)" by (rule quiet_run [OF quiet run])
  assume "r = Inr res" "h = n"
  with exec_next [OF db, of data hash "snd w"] blk run same
  show "built hexe to_data index (contents (fst w')) h data hash res"
    by (auto simp: block_at_def)
qed

subsection \<open>The invariant\<close>

definition good :: "nat \<Rightarrow> nat \<Rightarrow> ('d \<times> 'x) pipeline \<Rightarrow> bool" where
  "good width n s \<longleftrightarrow>
     (let m = contents (fst (world (pl_engine s))) in
      db_at hexe index bs n m
    \<and> processor_ok (\<lambda>n h data hash res. h = n \<longrightarrow> built hexe to_data index m h data hash res) bs n (pl_processor s))
   \<and> current_height (pl_engine s) \<le> n
   \<and> fetcher_ok bs n (pl_fetcher s)
   \<and> (\<forall>(h, data, hash) \<in> set (pl_blocks s). block_at bs n h data hash)
   \<and> (\<forall>r \<in> set (pl_results s). reported n r)
   \<and> main_ok n (pl_main s)
   \<and> length (pl_blocks s) \<le> width \<and> length (pl_results s) \<le> width"

abbreviation the_storage :: "('d \<times> 'x) storage_adapter" where
  "the_storage \<equiv> rs_adapter None R from_data"

lemma fetch_reorg_quiet:
  assumes "db_at hexe index bs n (contents (fst (world e)))" "h \<le> n"
  shows "fetch_reorg nd the_storage Rt cfg h tip e = (e, fetch_decision cfg h tip)"
  using no_reorg [OF assms] by (simp add: fetch_reorg_def on_world_def)

lemma fetch_decision_ok: "h \<le> n \<Longrightarrow> fetcher_ok bs n (fetch_decision cfg h (length bs - 1))"
  using node_facts(1) by (auto simp: fetch_decision_def Suc_le_eq simp flip: length_greater_0_conv)

lemma fetcher_good:
  assumes g: "good width n s" and step: "fetcher_step nd the_storage Rt cfg width s = Some s'"
  shows "good width n s' \<and> pl_processor s' = pl_processor s \<and> pl_main s' = pl_main s"
proof -
  have db: "db_at hexe index bs n (contents (fst (world (pl_engine s))))"
    and f: "fetcher_ok bs n (pl_fetcher s)"
    using g by (simp_all add: good_def Let_def)
  show ?thesis
  proof (cases "pl_fetcher s")
    case (FFetch h)
    then have h: "h \<le> n" "h < length bs" using f by simp_all
    with FFetch step g show ?thesis
      by (auto simp: node_facts(3) fetcher_step_def good_def Let_def on_world_def block_at_def)
  next
    case (FReorg h t)
    with f fetch_reorg_quiet [OF db] fetch_decision_ok [of h n cfg] step g show ?thesis
      by (auto simp: fetcher_step_def good_def Let_def)
  next
    case (FTip h)
    with step g show ?thesis by (auto simp: fetcher_step_def good_def Let_def on_world_def node_facts(2))
  qed (use g step in \<open>auto simp: fetcher_step_def good_def Let_def split: if_splits\<close>)
qed

lemma goodD:
  assumes "good width n s"
  shows "db_at hexe index bs n (contents (fst (world (pl_engine s))))"
    and "processor_ok (\<lambda>n h data hash res. h = n \<longrightarrow>
           built hexe to_data index (contents (fst (world (pl_engine s)))) h data hash res) bs n (pl_processor s)"
  using assms by (simp_all add: good_def Let_def)

text \<open>A change of the world that keeps the contents, and a new state of the processor.\<close>

lemma good_world:
  assumes "good width n s" "contents (fst w) = contents (fst (world (pl_engine s)))"
    and "processor_ok (\<lambda>n h data hash res. h = n \<longrightarrow> built hexe to_data index (contents (fst w)) h data hash res) bs n pc"
  shows "good width n (s\<lparr>pl_engine := (pl_engine s)\<lparr>world := w\<rparr>, pl_processor := pc\<rparr>)"
  using assms by (simp add: good_def Let_def)

lemma good_commit:
  assumes g: "good width n s" and db: "db_at hexe index bs (Suc n) (contents (fst w))"
  shows "good width (Suc n) (s\<lparr>pl_engine := (pl_engine s)\<lparr>world := w\<rparr>, pl_processor := PReport (Success n)\<rparr>)"
proof -
  have "block_at bs (Suc n) h data hash" if "(h, data, hash) \<in> set (pl_blocks s)" for h data hash
    using g that block_at_mono [of bs n h data hash "Suc n"] by (auto simp: good_def)
  moreover have "reported (Suc n) r" if "r \<in> set (pl_results s)" for r
    using g that reported_mono [of n r "Suc n"] by (auto simp: good_def)
  moreover have "reported (Suc n) (Success n)" by (simp add: reported_def)
  ultimately show ?thesis
    using g db fetcher_ok_mono [of bs n "pl_fetcher s" "Suc n"] main_ok_mono [of n "pl_main s" "Suc n"]
    by (auto simp: good_def Let_def)
qed

lemma processor_good:
  assumes g: "good width n s" and step: "processor_step the_storage Rt width s = Some s'"
  shows "(\<exists>h data hash res. pl_processor s = PCommit h data hash res \<and> h = n \<and> good width (Suc n) s')
     \<or> good width n s'"
proof (cases "pl_processor s")
  case (PExec h data hash)
  obtain r w where r: "r_process_atomic Rt h data hash (world (pl_engine s)) = (r, w)" by (rule prod.exhaust)
  have blk: "block_at bs n h data hash" using goodD(2) [OF g] PExec by simp
  note facts = exec_result [OF goodD(1) [OF g] blk r]
  show ?thesis
  proof (cases r)
    case (Inl e)
    with r step PExec have "s' = s\<lparr>pl_engine := (pl_engine s)\<lparr>world := w\<rparr>, pl_processor := PRefresh h data hash\<rparr>"
      by (simp add: processor_step_def on_world_def)
    with good_world [OF g facts(1), of "PRefresh h data hash"] blk show ?thesis by simp
  next
    case (Inr res)
    with r step PExec have "s' = s\<lparr>pl_engine := (pl_engine s)\<lparr>world := w\<rparr>, pl_processor := PCommit h data hash res\<rparr>"
      by (simp add: processor_step_def on_world_def)
    with good_world [OF g facts(1), of "PCommit h data hash res"] facts(2) Inr blk show ?thesis by simp
  qed
next
  case (PCommit h data hash res)
  have blk: "block_at bs n h data hash"
    and res: "h = n \<Longrightarrow> built hexe to_data index (contents (fst (world (pl_engine s)))) h data hash res"
    using goodD(2) [OF g] PCommit by simp_all
  obtain d x where w: "world (pl_engine s) = (d, x)" by (rule prod.exhaust)
  show ?thesis
  proof (cases "h = n")
    case True
    have db: "db_at hexe index bs n (contents d)" using goodD(1) [OF g] w by simp
    have b: "n < length bs" "bs ! n = (data, hash)" "built hexe to_data index (contents d) n data hash res"
      using blk res True w by (simp_all add: block_at_def)
    obtain d' where
        c: "s_commit the_storage n (result_hash res) (state_root res) (batch_data res) (d, x) = (Inr (), (d', x))"
        "db_at hexe index bs (Suc n) (contents d')"
      by (rule commit_next [OF db b]) (rule that)
    with step PCommit w True
    have "s' = s\<lparr>pl_engine := (pl_engine s)\<lparr>world := (d', x)\<rparr>, pl_processor := PReport (Success n)\<rparr>"
      by (simp add: processor_step_def on_world_def)
    with good_commit [OF g, of "(d', x)"] c(2) PCommit True show ?thesis by simp
  next
    case False
    then have "h < n" using blk by (simp add: block_at_def)
    from commit_other [OF goodD(1) [OF g] this] obtain e where
        "s_commit the_storage h (result_hash res) (state_root res) (batch_data res) (world (pl_engine s))
           = (Inl e, world (pl_engine s))" by blast
    with step PCommit
    have "s' = s\<lparr>pl_engine := (pl_engine s)\<lparr>world := world (pl_engine s)\<rparr>, pl_processor := PRefresh h data hash\<rparr>"
      by (simp add: processor_step_def on_world_def)
    with good_world [OF g refl, of "PRefresh h data hash"] blk show ?thesis by simp
  qed
next
  case (PRefresh h data hash)
  let ?w = "snd (r_refresh_memory Rt (world (pl_engine s)))"
  have c: "contents (fst ?w) = contents (fst (world (pl_engine s)))"
    using quiet by (simp add: quiet_runtime_def del: split_paired_All)
  have "block_at bs n h data hash" using goodD(2) [OF g] PRefresh by simp
  moreover have "s' = s\<lparr>pl_engine := (pl_engine s)\<lparr>world := ?w\<rparr>, pl_processor := PExec h data hash\<rparr>"
    using step PRefresh
    by (cases "r_refresh_memory Rt (world (pl_engine s))") (simp add: processor_step_def on_world_def Let_def)
  ultimately show ?thesis using good_world [OF g c, of "PExec h data hash"] by simp
next
  case PRecv
  with g step show ?thesis
    by (auto simp: processor_step_def good_def Let_def split: list.splits if_splits)
next
  case (PReport r)
  with g step show ?thesis
    by (auto simp: processor_step_def good_def Let_def split: if_splits)
qed (use step in \<open>simp add: processor_step_def\<close>)

lemma main_good:
  assumes g: "good width n s" and step: "main_step nd the_storage Rt cfg s = Some s'"
  shows "good width n s' \<and> pl_processor s' = pl_processor s \<and> world (pl_engine s') = world (pl_engine s)"
proof (cases "pl_main s")
  case MRecv
  with g step show ?thesis
    by (auto simp: main_step_def good_def Let_def reported_def split: list.splits block_result.splits)
next
  case (MStore h)
  moreover have "n \<le> length bs" using goodD(1) [OF g] by (simp add: db_at_def)
  ultimately show ?thesis
    using g step len by (auto simp: main_step_def good_def Let_def split: if_splits)
qed (use g step in \<open>auto simp: main_step_def good_def Let_def split: if_splits\<close>)

subsection \<open>Reachable states\<close>

lemma step_good:
  assumes "good width n s" "pipeline_step nd the_storage Rt cfg width s s'"
  shows "good width n s' \<or> good width (Suc n) s'"
  using assms(2)
proof (cases rule: pipeline_step.cases)
  case fetcher_moves
  with fetcher_good [OF assms(1)] show ?thesis by blast
next
  case processor_moves
  with processor_good [OF assms(1)] show ?thesis by blast
next
  case main_moves
  with main_good [OF assms(1)] show ?thesis by blast
qed

lemma reaches_good:
  assumes "reaches nd the_storage Rt cfg width s s'" "good width n s"
  shows "\<exists>n' \<ge> n. good width n' s'"
  using assms(1)
proof (induction rule: reaches_invariant)
  case (step t t')
  then show ?case using step_good [of width _ t cfg t'] by (meson le_SucI)
qed (use assms(2) in blast)

text \<open>The processor holds a block that is in the database already.\<close>

definition stuck :: "nat \<Rightarrow> ('d \<times> 'x) pipeline \<Rightarrow> bool" where
  "stuck n s \<longleftrightarrow> (\<exists>h < n. \<exists>data hash. pl_processor s = PExec h data hash \<or> pl_processor s = PRefresh h data hash
     \<or> (\<exists>res. pl_processor s = PCommit h data hash res))"

lemma stuck_processor:
  assumes g: "good width n s" and st: "stuck n s" and step: "processor_step the_storage Rt width s = Some s'"
  shows "good width n s' \<and> stuck n s'"
proof -
  obtain h data hash where h: "h < n" and pc: "pl_processor s = PExec h data hash \<or> pl_processor s = PRefresh h data hash
     \<or> (\<exists>res. pl_processor s = PCommit h data hash res)"
    using st by (auto simp: stuck_def)
  have "good width n s'" using processor_good [OF g step] pc h by auto
  moreover from pc have "stuck n s'"
  proof (elim disjE exE)
    assume "pl_processor s = PExec h data hash"
    with step h show ?thesis
      by (auto simp: processor_step_def stuck_def Let_def split: prod.splits sum.splits)
  next
    assume "pl_processor s = PRefresh h data hash"
    with step h show ?thesis by (auto simp: processor_step_def stuck_def Let_def)
  next
    fix res
    assume pc: "pl_processor s = PCommit h data hash res"
    obtain e where
        "s_commit the_storage h (result_hash res) (state_root res) (batch_data res) (world (pl_engine s))
           = (Inl e, world (pl_engine s))"
      using commit_other [OF goodD(1) [OF g] h] by blast
    with step pc h show ?thesis by (auto simp: processor_step_def stuck_def Let_def on_world_def)
  qed
  ultimately show ?thesis ..
qed

lemma stuck_step:
  assumes "good width n s \<and> stuck n s" "pipeline_step nd the_storage Rt cfg width s s'"
  shows "good width n s' \<and> stuck n s'"
  using assms(2)
proof (cases rule: pipeline_step.cases)
  case fetcher_moves
  with fetcher_good [of width n s cfg s'] assms(1) show ?thesis by (simp add: stuck_def)
next
  case processor_moves
  with stuck_processor assms(1) show ?thesis by blast
next
  case main_moves
  with main_good [of width n s cfg s'] assms(1) show ?thesis by (simp add: stuck_def)
qed

lemma stuck_forever:
  assumes "reaches nd the_storage Rt cfg width s s'" "good width n s" "stuck n s"
  shows "good width n s' \<and> stuck n s'"
  using assms(1) by (induction rule: reaches_invariant) (use assms(2,3) stuck_step in \<open>blast+\<close>)

text \<open>The pipeline waits for a result that no task will ever send.\<close>

definition idle :: "sync_config \<Rightarrow> nat \<Rightarrow> ('d \<times> 'x) pipeline \<Rightarrow> bool" where
  "idle cfg n s \<longleftrightarrow> pl_blocks s = [] \<and> pl_results s = [] \<and> pl_processor s = PRecv \<and> pl_main s = MRecv
   \<and> (let e = pl_engine s; h = current_height e in
      (\<not> is_running e \<or> past_exit cfg h) \<and> h \<le> n \<and> db_at hexe index bs n (contents (fst (world e)))
      \<and> (pl_fetcher s \<in> {FTop, FDone}
         \<or> is_running e \<and> (pl_fetcher s = FLoad \<or> pl_fetcher s = FTip h \<or> (\<exists>t. pl_fetcher s = FReorg h t))))"

lemma idle_step:
  assumes i: "idle cfg n s" and step: "pipeline_step nd the_storage Rt cfg width s s'"
  shows "idle cfg n s'"
  using step
proof (cases rule: pipeline_step.cases)
  case fetcher_moves
  let ?e = "pl_engine s"
  have db: "db_at hexe index bs n (contents (fst (world ?e)))" "current_height ?e \<le> n"
    using i by (simp_all add: idle_def Let_def)
  show ?thesis
  proof (cases "pl_fetcher s")
    case (FReorg h t)
    then have "h = current_height ?e" "past_exit cfg h" using i by (auto simp: idle_def Let_def)
    with FReorg fetcher_moves i fetch_reorg_quiet [OF db] show ?thesis
      by (auto simp: fetcher_step_def idle_def Let_def fetch_decision_def past_exit_def)
  next
    case (FTip h)
    with fetcher_moves i show ?thesis
      by (auto simp: fetcher_step_def idle_def Let_def on_world_def node_facts(2))
  qed (use fetcher_moves i in \<open>auto simp: fetcher_step_def idle_def Let_def split: if_splits\<close>)
next
  case processor_moves
  with i show ?thesis by (auto simp: processor_step_def idle_def Let_def split: if_splits)
next
  case main_moves
  with i show ?thesis by (simp add: main_step_def idle_def Let_def)
qed

lemma idle_forever:
  assumes "reaches nd the_storage Rt cfg width s s'" "idle cfg n s"
  shows "idle cfg n s'"
  using assms(1) by (induction rule: reaches_invariant) (use assms(2) idle_step in \<open>blast+\<close>)

end

end
