(* ===== verification/PipelineProps.thy ===== *)
theory PipelineProps
  imports PipelineProofs
begin

text \<open>
  Runs of the pipeline under a given schedule, and its properties: what every reachable
  state of the database is, the schedule on which the pipeline stops making progress, and
  the pipelines that never return.
\<close>

datatype task = Fetcher | Processor | Results

fun move ::
    "'w node_adapter \<Rightarrow> 'w storage_adapter \<Rightarrow> 'w runtime_adapter \<Rightarrow> sync_config \<Rightarrow> nat
     \<Rightarrow> task \<Rightarrow> 'w pipeline \<Rightarrow> 'w pipeline option" where
  "move nd S R cfg width Fetcher s = fetcher_step nd S R cfg width s"
| "move nd S R cfg width Processor s = processor_step S R width s"
| "move nd S R cfg width Results s = main_step nd S R cfg s"

fun run_schedule ::
    "'w node_adapter \<Rightarrow> 'w storage_adapter \<Rightarrow> 'w runtime_adapter \<Rightarrow> sync_config \<Rightarrow> nat
     \<Rightarrow> task list \<Rightarrow> 'w pipeline \<Rightarrow> 'w pipeline option" where
  "run_schedule nd S R cfg width [] s = Some s"
| "run_schedule nd S R cfg width (t # ts) s =
     (case move nd S R cfg width t s of Some s' \<Rightarrow> run_schedule nd S R cfg width ts s' | None \<Rightarrow> None)"

lemma move_step: "move nd S R cfg width t s = Some s' \<Longrightarrow> pipeline_step nd S R cfg width s s'"
  by (cases t) (auto simp: pipeline_step_iff)

lemma run_reaches: "run_schedule nd S R cfg width ts s = Some s' \<Longrightarrow> reaches nd S R cfg width s s'"
  unfolding reaches_def
proof (induction ts arbitrary: s)
  case (Cons t ts)
  then obtain u where u: "move nd S R cfg width t s = Some u" "run_schedule nd S R cfg width ts u = Some s'"
    by (auto split: option.splits)
  with Cons.IH [of u] move_step [of nd S R cfg width t s u] show ?case
    by (meson converse_rtranclp_into_rtranclp)
qed simp

lemma run_append:
  "run_schedule nd S R cfg width (ts @ us) s =
     (case run_schedule nd S R cfg width ts s of Some s' \<Rightarrow> run_schedule nd S R cfg width us s' | None \<Rightarrow> None)"
  by (induction ts arbitrary: s) (auto split: option.splits)

lemma reaches_trans:
  "reaches nd S R cfg width s t \<Longrightarrow> reaches nd S R cfg width t u \<Longrightarrow> reaches nd S R cfg width s u"
  unfolding reaches_def by (rule rtranclp_trans)

text \<open>
  The losing schedule: the fetcher loads the height before the result of that very block is
  handled, and checks the set of heights in flight after.
\<close>

definition losing_schedule :: "task list" where
  "losing_schedule = replicate 4 Fetcher @ replicate 4 Fetcher @ replicate 4 Fetcher
     @ replicate 4 Processor @ replicate 4 Results @ replicate 4 Fetcher @ [Processor]"

context pipeline_env
begin

text \<open>The fetcher from the top of its loop to the check, and from the check to the top.\<close>

lemma fetch_to_check:
  assumes db: "db_at hexe index bs n (contents (fst (world (pl_engine s))))"
    and h: "current_height (pl_engine s) = h" "h \<le> n" "h < length bs"
    and run: "is_running (pl_engine s)" "pl_fetcher s = FTop" "exit_at cfg = None"
  shows "run_schedule nd the_storage Rt cfg width (replicate 4 Fetcher) s = Some (s\<lparr>pl_fetcher := FCheck h\<rparr>)"
  using run h fetch_reorg_quiet [OF db h(2)]
  by (simp add: numeral_eq_Suc fetcher_step_def Let_def on_world_def node_facts(2) fetch_decision_def)

lemma check_to_sent:
  assumes "pl_fetcher s = FCheck h" "h < length bs" "bs ! h = (data, hash)"
    and "h \<notin> processing_heights (pl_engine s)" "pl_processor s \<noteq> PDone" "length (pl_blocks s) < width"
  shows "run_schedule nd the_storage Rt cfg width (replicate 4 Fetcher) s =
    Some (s\<lparr>pl_engine := (pl_engine s)\<lparr>processing_heights := insert h (processing_heights (pl_engine s))\<rparr>,
            pl_blocks := pl_blocks s @ [(h, data, hash)], pl_fetcher := FTop\<rparr>)"
  using assms by (simp add: numeral_eq_Suc fetcher_step_def Let_def on_world_def node_facts(3))

text \<open>The processor from an empty hand to a reported block.\<close>

lemma process_next:
  assumes db: "db_at hexe index bs n (contents d)" and blk: "n < length bs" "bs ! n = (data, hash)"
    and s: "world (pl_engine s) = (d, x)" "pl_processor s = PRecv" "pl_blocks s = (n, data, hash) # blks"
      "\<not> receiver_dropped (pl_main s)" "length (pl_results s) < width"
  obtains d' x' where
    "run_schedule nd the_storage Rt cfg width (replicate 4 Processor) s =
       Some (s\<lparr>pl_engine := (pl_engine s)\<lparr>world := (d', x')\<rparr>, pl_blocks := blks,
               pl_results := pl_results s @ [Success n]\<rparr>)"
    "db_at hexe index bs (Suc n) (contents d')"
proof -
  obtain res x' where exec: "r_process_atomic Rt n data hash (d, x) = (Inr res, (d, x'))"
      "built hexe to_data index (contents d) n data hash res"
    using exec_next [OF db blk] by blast
  obtain d' where
      "s_commit the_storage n (result_hash res) (state_root res) (batch_data res) (d, x') = (Inr (), (d', x'))"
      and db': "db_at hexe index bs (Suc n) (contents d')"
    by (rule commit_next [OF db blk exec(2)]) (rule that)
  with exec(1) s have "run_schedule nd the_storage Rt cfg width (replicate 4 Processor) s =
       Some (s\<lparr>pl_engine := (pl_engine s)\<lparr>world := (d', x')\<rparr>, pl_blocks := blks,
               pl_results := pl_results s @ [Success n], pl_processor := PRecv\<rparr>)"
    by (simp add: numeral_eq_Suc processor_step_def Let_def on_world_def)
  moreover have "s\<lparr>pl_engine := (pl_engine s)\<lparr>world := (d', x')\<rparr>, pl_blocks := blks,
               pl_results := pl_results s @ [Success n], pl_processor := PRecv\<rparr>
     = s\<lparr>pl_engine := (pl_engine s)\<lparr>world := (d', x')\<rparr>, pl_blocks := blks, pl_results := pl_results s @ [Success n]\<rparr>"
    using s(2) by simp
  ultimately show ?thesis using that db' by simp
qed

lemma results_next:
  assumes "pl_main s = MRecv" "pl_results s = Success n # rs" "n < u32_max"
    and "is_running (pl_engine s)" "exit_at cfg = None"
  shows "run_schedule nd the_storage Rt cfg width (replicate 4 Results) s =
    Some (s\<lparr>pl_engine := (pl_engine s)\<lparr>current_height := n + 1,
              processing_heights := processing_heights (pl_engine s) - {n}\<rparr>, pl_results := rs\<rparr>)"
  using assms by (simp add: numeral_eq_Suc main_step_def Let_def)

lemma losing_run:
  assumes db: "db_at hexe index bs n (contents d)" and more: "n < length bs"
    and e: "world e = (d, x)" "current_height e = n" "is_running e" "processing_heights e = {}"
    and cfg: "exit_at cfg = None" "0 < width"
    and s: "s = \<lparr>pl_engine = e, pl_fetcher = FTop, pl_blocks = [], pl_processor = PRecv,
                pl_results = [], pl_main = MRecv\<rparr>"
  shows "\<exists>s'. run_schedule nd the_storage Rt cfg width losing_schedule s = Some s'
     \<and> good width (Suc n) s' \<and> stuck (Suc n) s'"
proof -
  obtain data hash where blk: "bs ! n = (data, hash)" by (rule prod.exhaust)
  let ?run = "run_schedule nd the_storage Rt cfg width"
  let ?e1 = "e\<lparr>processing_heights := {n}\<rparr>"
  let ?s1 = "s\<lparr>pl_engine := ?e1, pl_blocks := [(n, data, hash)], pl_fetcher := FTop\<rparr>"
  have 1: "?run (replicate 4 Fetcher) s = Some (s\<lparr>pl_fetcher := FCheck n\<rparr>)"
    by (rule fetch_to_check [OF _ _ order_refl more]) (use db e cfg s in simp_all)
  have 2: "?run (replicate 4 Fetcher) (s\<lparr>pl_fetcher := FCheck n\<rparr>) = Some ?s1"
    using check_to_sent [of "s\<lparr>pl_fetcher := FCheck n\<rparr>" n data hash width cfg] more blk e cfg by (simp add: s)
  have 3: "?run (replicate 4 Fetcher) ?s1 = Some (?s1\<lparr>pl_fetcher := FCheck n\<rparr>)"
    by (rule fetch_to_check [OF _ _ order_refl more]) (use db e cfg s in simp_all)
  obtain d' x' where 4: "?run (replicate 4 Processor) (?s1\<lparr>pl_fetcher := FCheck n\<rparr>)
        = Some ((?s1\<lparr>pl_fetcher := FCheck n\<rparr>)\<lparr>pl_engine := ?e1\<lparr>world := (d', x')\<rparr>, pl_blocks := [],
              pl_results := [Success n]\<rparr>)"
      and db': "db_at hexe index bs (Suc n) (contents d')"
    using process_next [OF db more blk, of "?s1\<lparr>pl_fetcher := FCheck n\<rparr>" x "[]" width cfg] e cfg s by auto
  let ?s4 = "(?s1\<lparr>pl_fetcher := FCheck n\<rparr>)\<lparr>pl_engine := ?e1\<lparr>world := (d', x')\<rparr>, pl_blocks := [],
              pl_results := [Success n]\<rparr>"
  let ?e5 = "e\<lparr>world := (d', x'), current_height := n + 1, processing_heights := {}\<rparr>"
  let ?s5 = "s\<lparr>pl_engine := ?e5, pl_fetcher := FCheck n\<rparr>"
  have 5: "?run (replicate 4 Results) ?s4 = Some ?s5"
    using results_next [of ?s4 n "[]" cfg width] e cfg s more len by simp
  have 6: "?run (replicate 4 Fetcher) ?s5
      = Some (s\<lparr>pl_engine := ?e5\<lparr>processing_heights := {n}\<rparr>, pl_blocks := [(n, data, hash)], pl_fetcher := FTop\<rparr>)"
    using check_to_sent [of ?s5 n data hash width cfg] more blk cfg s by simp
  let ?s7 = "s\<lparr>pl_engine := ?e5\<lparr>processing_heights := {n}\<rparr>, pl_fetcher := FTop, pl_processor := PExec n data hash\<rparr>"
  have 7: "?run [Processor] (s\<lparr>pl_engine := ?e5\<lparr>processing_heights := {n}\<rparr>, pl_blocks := [(n, data, hash)],
      pl_fetcher := FTop\<rparr>) = Some ?s7"
    by (simp add: processor_step_def s)
  have "?run losing_schedule s = Some ?s7"
    unfolding losing_schedule_def by (simp only: run_append 1 2 3 4 5 6 7 option.case)
  moreover have "good width (Suc n) ?s7" using db' blk more s by (simp add: good_def block_at_def)
  moreover have "stuck (Suc n) ?s7" by (simp add: stuck_def)
  ultimately show ?thesis by blast
qed

end

subsection \<open>A sample pipeline\<close>

definition sample_blocks :: "(bytes \<times> bytes) list" where
  "sample_blocks = [(''B'', ''b''), (''C'', ''c'')]"

definition sample_node :: "(list_db \<times> unit) node_adapter" where
  "sample_node = chain_node (\<lambda>_. map prod.swap sample_blocks)"

lemma sample_node_serves: "node_serves sample_node sample_blocks"
proof -
  have "sample_blocks \<noteq> []" by (simp add: sample_blocks_def)
  then show ?thesis by (simp add: node_serves_def sample_node_def node_answers_def chain_node_def)
qed

lemma sample_blocks_fit: "chain_ok (node_kvs sample_index sample_blocks (length sample_blocks))"
  "length sample_blocks \<le> u32_max"
  by (simp_all add: node_kvs_def sample_blocks_def chain_ok_def user_block_def reserved_base_def manifest_base_def
      blockhash_base_def total_pairs_def u32_max_def sample_index_def)

lemma sample_runtime_facts:
  "quiet_runtime map_of sample_runtime" "indexes encode_hex_fast list_rocks sample_data sample_index sample_runtime"
  unfolding sample_runtime_def by (rule indexing_runtime_quiet indexing_runtime_indexes)+

interpretation sample_env: pipeline_env list_rocks map_of sample_data sample_from encode_hex_fast sample_index
    sample_node sample_runtime sample_blocks
  by unfold_locales
    (fact list_rocks_ok sample_format sample_node_serves sample_runtime_facts sample_blocks_fit)+

definition sample_start :: "(list_db \<times> unit) engine" where
  "sample_start = sample_engine\<lparr>is_running := True\<rparr>"

lemma sample_start_facts:
  "db_at encode_hex_fast sample_index sample_blocks 0 (map_of (fst (world sample_start)))"
  "current_height sample_start = 0" "is_running sample_start" "processing_heights sample_start = {}"
  "world sample_start = ([], ())"
  using list_empty_inv
  by (simp_all add: sample_start_def sample_engine_def new_engine_def db_at_def node_kvs_def hashes_recorded_def)

definition sample_pipeline :: "(list_db \<times> unit) pipeline" where
  "sample_pipeline = \<lparr>pl_engine = sample_start, pl_fetcher = FTop, pl_blocks = [], pl_processor = PRecv,
     pl_results = [], pl_main = MRecv\<rparr>"

lemma sample_pipeline_new:
  "new_pipeline default_config 4 sample_start = Some sample_pipeline" "exit_at default_config = None"
  by (simp_all add: new_pipeline_def pipeline_width_def default_config_def sample_pipeline_def)

definition sample_schedule_run :: "sync_config \<Rightarrow> task list \<Rightarrow> (list_db \<times> unit) pipeline option" where
  "sample_schedule_run cfg ts = run_schedule sample_node (rs_adapter None list_rocks sample_from) sample_runtime
     cfg (pipeline_width cfg 4) ts sample_pipeline"

lemma sample_losing_run: "\<exists>t. sample_schedule_run default_config losing_schedule = Some t"
  using sample_env.losing_run [of 0 "[]" sample_start "()" default_config "pipeline_width default_config 4" sample_pipeline]
    sample_start_facts sample_pipeline_new
  by (auto simp: sample_schedule_run_def sample_pipeline_def sample_blocks_def pipeline_width_def default_config_def)

subsection \<open>Properties\<close>

text \<open>
  C28: what the pipeline leaves in the database. On the durable backend, with a node whose
  chain stands still, in every state the concurrent pipeline can reach, whatever the
  interleaving of its three tasks, the database is exactly the index of a prefix of the
  node's chain, no shorter than at the start (so no block is skipped, doubled or out of
  order); the engine's height does not pass it, the channels hold at most their width, and
  the run has not failed.
\<close>

theorem pipeline_indexes_node_chain:
  assumes "rocks_ok R contents" "batch_format to_data from_data" "hex_codec hexe hexd"
    and "node_serves nd bs" "quiet_runtime contents Rt" "indexes hexe R to_data index Rt"
    and "chain_ok (node_kvs index bs (length bs))" "length bs \<le> u32_max"
    and "db_at hexe index bs n (contents (fst (world e)))" "current_height e = n"
    and "new_pipeline cfg cpus e = Some s" "reaches nd (rs_adapter None R from_data) Rt cfg (pipeline_width cfg cpus) s s'"
  shows "\<exists>n' \<ge> n. n' \<le> length bs
     \<and> (\<forall>key q. get_at_height (rocks_get R (fst (world (pl_engine s')))) hexd key q
          = Inr (last_write (node_kvs index bs n') key q))
     \<and> hashes_recorded (contents (fst (world (pl_engine s')))) (map snd (take n' bs))
     \<and> current_height (pl_engine s') \<le> n'
     \<and> length (pl_blocks s') \<le> pipeline_width cfg cpus \<and> length (pl_results s') \<le> pipeline_width cfg cpus
     \<and> (case pl_main s' of MReturn r \<Rightarrow> r = Inr () | MPanic \<Rightarrow> False | _ \<Rightarrow> True)"
proof -
  have env: "pipeline_env R contents to_data from_data hexe index nd Rt bs"
    by unfold_locales (fact assms)+
  let ?w = "pipeline_width cfg cpus"
  have s: "s = \<lparr>pl_engine = e, pl_fetcher = FTop, pl_blocks = [], pl_processor = PRecv,
      pl_results = [], pl_main = MRecv\<rparr>"
    using assms(11) by (simp add: new_pipeline_def split: if_splits)
  have "pipeline_env.good contents to_data hexe index bs ?w n s"
    using assms(9,10) by (simp add: pipeline_env.good_def [OF env] s)
  then obtain n' where n': "n \<le> n'" and g: "pipeline_env.good contents to_data hexe index bs ?w n' s'"
    using pipeline_env.reaches_good [OF env assms(12)] by blast
  note db = pipeline_env.goodD(1) [OF env g]
  have "chain_ok (node_kvs index bs n')"
    by (rule pipeline_env.fits_take [OF env]) (use db in \<open>simp add: db_at_def\<close>)
  with db have "get_at_height (rocks_get R (fst (world (pl_engine s')))) hexd key q
      = Inr (last_write (node_kvs index bs n') key q)" for key q
    by (intro durable_query [OF assms(1,3)]) (simp_all add: db_at_def)
  moreover have "case pl_main s' of MReturn r \<Rightarrow> r = Inr () | MPanic \<Rightarrow> False | _ \<Rightarrow> True"
    using g by (cases "pl_main s'") (simp_all add: pipeline_env.good_def [OF env])
  ultimately show ?thesis
    using n' db g by (intro exI [of _ n']) (simp add: db_at_def pipeline_env.good_def [OF env])
qed

theorem pipeline_indexes_node_chain_witness:
  "\<exists>t n'. sample_schedule_run default_config losing_schedule = Some t \<and> current_height (pl_engine t) \<le> n'
     \<and> (\<forall>key q. get_at_height (rocks_get list_rocks (fst (world (pl_engine t)))) hex_decode key q
          = Inr (last_write (node_kvs sample_index sample_blocks n') key q))"
proof -
  obtain t where t: "sample_schedule_run default_config losing_schedule = Some t" using sample_losing_run ..
  then have r: "reaches sample_node (rs_adapter None list_rocks sample_from) sample_runtime default_config
      (pipeline_width default_config 4) sample_pipeline t"
    unfolding sample_schedule_run_def by (rule run_reaches)
  from pipeline_indexes_node_chain [OF list_facts hx.hex_codec_axioms sample_node_serves sample_runtime_facts
      sample_blocks_fit sample_start_facts(1,2) sample_pipeline_new(1) r] t
  show ?thesis by blast
qed

text \<open>
  C29: the pipeline can stop making progress. From every start with a block to index there is
  an interleaving (the fetcher loads the height before the block's result is handled and
  looks at the heights in flight after) that commits that block, sends it to the processor
  again, and is then stuck: whatever happens next, the processor retries the block it has
  already indexed, and the database never gains another, however long the node's chain is.
\<close>

theorem pipeline_can_wedge:
  assumes "rocks_ok R contents" "batch_format to_data from_data"
    and "node_serves nd bs" "quiet_runtime contents Rt" "indexes hexe R to_data index Rt"
    and "chain_ok (node_kvs index bs (length bs))" "length bs \<le> u32_max"
    and "db_at hexe index bs n (contents (fst (world e)))" "current_height e = n" "n < length bs"
    and "is_running e" "processing_heights e = {}" "exit_at cfg = None"
    and "new_pipeline cfg cpus e = Some s"
  shows "\<exists>t. run_schedule nd (rs_adapter None R from_data) Rt cfg (pipeline_width cfg cpus) losing_schedule s = Some t
     \<and> (\<forall>t'. reaches nd (rs_adapter None R from_data) Rt cfg (pipeline_width cfg cpus) t t' \<longrightarrow>
          db_at hexe index bs (Suc n) (contents (fst (world (pl_engine t'))))
        \<and> (\<exists>h \<le> n. \<exists>data hash. pl_processor t' = PExec h data hash \<or> pl_processor t' = PRefresh h data hash
             \<or> (\<exists>res. pl_processor t' = PCommit h data hash res)))"
proof -
  have env: "pipeline_env R contents to_data from_data hexe index nd Rt bs"
    by unfold_locales (fact assms)+
  let ?w = "pipeline_width cfg cpus"
  obtain d x where w: "world e = (d, x)" by (rule prod.exhaust)
  have s: "s = \<lparr>pl_engine = e, pl_fetcher = FTop, pl_blocks = [], pl_processor = PRecv,
      pl_results = [], pl_main = MRecv\<rparr>" and pos: "0 < ?w"
    using assms(14) by (simp_all add: new_pipeline_def split: if_splits)
  have "db_at hexe index bs n (contents d)" using assms(8) w by simp
  from pipeline_env.losing_run [OF env this assms(10) w assms(9,11,12,13) pos s] obtain t where
      t: "run_schedule nd (rs_adapter None R from_data) Rt cfg ?w losing_schedule s = Some t"
      "pipeline_env.good contents to_data hexe index bs ?w (Suc n) t" "pipeline_env.stuck (Suc n) t"
    by blast
  have "db_at hexe index bs (Suc n) (contents (fst (world (pl_engine t'))))
        \<and> (\<exists>h \<le> n. \<exists>data hash. pl_processor t' = PExec h data hash \<or> pl_processor t' = PRefresh h data hash
             \<or> (\<exists>res. pl_processor t' = PCommit h data hash res))"
    if "reaches nd (rs_adapter None R from_data) Rt cfg ?w t t'" for t'
  proof -
    have g: "pipeline_env.good contents to_data hexe index bs ?w (Suc n) t'" and st: "pipeline_env.stuck (Suc n) t'"
      using pipeline_env.stuck_forever [OF env that t(2,3)] by simp_all
    from st pipeline_env.goodD(1) [OF env g] show ?thesis
      by (simp add: pipeline_env.stuck_def [OF env] less_Suc_eq_le)
  qed
  with t(1) show ?thesis by blast
qed

theorem pipeline_can_wedge_witness:
  "\<exists>t. sample_schedule_run default_config losing_schedule = Some t
     \<and> (\<forall>t'. reaches sample_node (rs_adapter None list_rocks sample_from) sample_runtime default_config
            (pipeline_width default_config 4) t t' \<longrightarrow>
          db_at encode_hex_fast sample_index sample_blocks 1 (map_of (fst (world (pl_engine t')))))
     \<and> length sample_blocks = 2"
proof -
  have "0 < length sample_blocks" "length sample_blocks = 2" by (simp_all add: sample_blocks_def)
  with pipeline_can_wedge [OF list_facts sample_node_serves sample_runtime_facts sample_blocks_fit
      sample_start_facts(1,2) _ sample_start_facts(3,4) sample_pipeline_new(2,1)]
  show ?thesis unfolding sample_schedule_run_def One_nat_def by blast
qed

text \<open>
  A pipeline that has nothing to do never returns. Started at or past \<open>exit_at\<close>, or not
  running, the fetcher ends at once but the result loop, which keeps its own sender of
  results, waits for a result for ever: no reachable state is past the first receive.
\<close>

theorem pipeline_waits_forever:
  assumes "rocks_ok R contents" "batch_format to_data from_data"
    and "node_serves nd bs" "quiet_runtime contents Rt" "indexes hexe R to_data index Rt"
    and "chain_ok (node_kvs index bs (length bs))" "length bs \<le> u32_max"
    and "db_at hexe index bs n (contents (fst (world e)))" "current_height e \<le> n"
    and "\<not> is_running e \<or> past_exit cfg (current_height e)"
    and "new_pipeline cfg cpus e = Some s" "reaches nd (rs_adapter None R from_data) Rt cfg (pipeline_width cfg cpus) s s'"
  shows "pl_main s' = MRecv \<and> pl_results s' = [] \<and> main_step nd (rs_adapter None R from_data) Rt cfg s' = None"
proof -
  have env: "pipeline_env R contents to_data from_data hexe index nd Rt bs"
    by unfold_locales (fact assms)+
  have "s = \<lparr>pl_engine = e, pl_fetcher = FTop, pl_blocks = [], pl_processor = PRecv,
      pl_results = [], pl_main = MRecv\<rparr>"
    using assms(11) by (simp add: new_pipeline_def split: if_splits)
  with assms(8-10) have "pipeline_env.idle contents hexe index bs cfg n s"
    by (simp add: pipeline_env.idle_def [OF env] Let_def)
  from pipeline_env.idle_forever [OF env assms(12) this] show ?thesis
    by (simp add: pipeline_env.idle_def [OF env] main_step_def)
qed

theorem pipeline_waits_forever_witness:
  "\<exists>t. sample_schedule_run (default_config\<lparr>exit_at := Some 0\<rparr>) (replicate 4 Fetcher) = Some t
     \<and> pl_fetcher t = FDone \<and> pl_main t = MRecv
     \<and> main_step sample_node (rs_adapter None list_rocks sample_from) sample_runtime (default_config\<lparr>exit_at := Some 0\<rparr>) t = None"
proof -
  let ?cfg = "default_config\<lparr>exit_at := Some 0\<rparr>"
  have new: "new_pipeline ?cfg 4 sample_start = Some sample_pipeline"
    by (simp add: new_pipeline_def pipeline_width_def default_config_def sample_pipeline_def)
  have past: "\<not> is_running sample_start \<or> past_exit ?cfg (current_height sample_start)"
    by (simp add: past_exit_def)
  obtain t where t: "sample_schedule_run ?cfg (replicate 4 Fetcher) = Some t" "pl_fetcher t = FDone"
    using sample_start_facts sample_env.fetch_reorg_quiet [OF sample_start_facts(1), of 0 ?cfg]
    by (auto simp: sample_schedule_run_def numeral_eq_Suc fetcher_step_def Let_def on_world_def
        sample_env.node_facts(2) fetch_decision_def sample_pipeline_def)
  then have r: "reaches sample_node (rs_adapter None list_rocks sample_from) sample_runtime ?cfg
      (pipeline_width ?cfg 4) sample_pipeline t"
    unfolding sample_schedule_run_def by (intro run_reaches)
  have "current_height sample_start \<le> 0" by (simp add: sample_start_facts)
  from pipeline_waits_forever [OF list_facts sample_node_serves sample_runtime_facts sample_blocks_fit
      sample_start_facts(1) this past new r] t
  show ?thesis by blast
qed

end
