(* ===== verification/MonoPipeline.thy ===== *)
theory MonoPipeline
  imports SyncPipeline
begin

text \<open>
  The indexing tasks of the binary, \<open>rockshrew-mono/src/lib.rs\<close> (\<open>run\<close>), over the engine it
  drives, \<open>metashrew-sync/src/snapshot_sync.rs\<close>: the fetcher with its watermark of what it
  has sent, the processor with the engine's block apply, and the task that reads the results.
  As in the other pipeline, a task is a program counter and a step function, and a step is
  one access to shared state or one adapter call. The prefetched requests of a batch are made
  in order; the bodies run concurrently in the code, but are handed on in that order.
\<close>

section \<open>What to fetch\<close>

definition LAST_SENT_UNSET :: int where
  "LAST_SENT_UNSET = - 1"

definition u32_of_i64 :: "int \<Rightarrow> nat" where
  "u32_of_i64 i = nat (i mod 4294967296)"

definition compute_next_fetch_range :: "nat \<Rightarrow> int \<Rightarrow> nat \<Rightarrow> nat \<Rightarrow> (nat \<times> nat) option" where
  "compute_next_fetch_range processor_tip last_sent prefetch_size remote_tip =
     (let after_last_sent = (if last_sent < 0 then processor_tip else sat_add32 (u32_of_i64 last_sent) 1);
          fetch_start = max after_last_sent processor_tip
      in if remote_tip < fetch_start then None
         else
           let fetch_end = min (sat_add32 fetch_start (prefetch_size mod 4294967296)) (sat_add32 remote_tip 1)
           in if fetch_start \<ge> fetch_end then None else Some (fetch_start, fetch_end))"

definition near_tip_min_send_height :: "int \<Rightarrow> nat" where
  "near_tip_min_send_height last_sent = (if last_sent < 0 then 0 else sat_add32 (u32_of_i64 last_sent) 1)"

definition near_tip_should_drop :: "int \<Rightarrow> nat \<Rightarrow> bool" where
  "near_tip_should_drop last_sent candidate_height \<longleftrightarrow> candidate_height < near_tip_min_send_height last_sent"

definition near_tip_fetch_start :: "int \<Rightarrow> nat \<Rightarrow> nat" where
  "near_tip_fetch_start last_sent processor_tip =
     (if last_sent < 0 then processor_tip else max (sat_add32 (u32_of_i64 last_sent) 1) processor_tip)"

definition DEFAULT_PREFETCH_SIZE :: nat where
  "DEFAULT_PREFETCH_SIZE = 64"

definition mono_prefetch_size :: "nat option \<Rightarrow> nat \<Rightarrow> nat" where
  "mono_prefetch_size requested threshold =
     max (min (case requested of Some n \<Rightarrow> n | None \<Rightarrow> DEFAULT_PREFETCH_SIZE) threshold) 1"

section \<open>The tasks\<close>

text \<open>
  The fetcher: \<open>GTop\<close> to \<open>GDecide\<close> are the head of its loop; \<open>GNext\<close> to \<open>GDrop\<close> the near-tip
  path through \<open>get_next_block_data_with_floor\<close>, with the watermark read before it;
  \<open>GBatch\<close> to \<open>GBatchBump\<close> the batch, with the end of its range.
\<close>

datatype mono_fetcher =
    GTop | GTip | GRemote nat | GDecide nat nat
  | GNext int | GNextTip int nat | GNextReorg int nat nat | GNextStore int nat nat | GNextPick int nat nat
  | GNextFetch int nat | GDrop int nat bytes bytes | GSend nat bytes bytes | GBump nat
  | GBatch nat nat | GBatchSend nat nat bytes bytes | GBatchBump nat nat
  | GDone

text \<open>The processor: the loop of the engine's \<open>process_block\<close> from \<open>QAttempt\<close> to \<open>QStore\<close>.\<close>

datatype mono_processor =
    QRecv | QValidate nat bytes bytes | QAttempt nat bytes bytes nat "string option"
  | QExec nat bytes bytes nat | QCommit nat bytes bytes nat atomic_block_result
  | QRefresh nat bytes bytes nat string | QStore nat | QReport block_result | QDone

datatype mono_indexer = IRecv | IFailed nat string | IReset | IExit | IDone

record 'w mono =
  mo_engine :: "'w engine"
  mo_last_sent :: int
  mo_fetcher :: mono_fetcher
  mo_blocks :: "(nat \<times> bytes \<times> bytes) list"
  mo_processor :: mono_processor
  mo_results :: "block_result list"
  mo_indexer :: mono_indexer
  mo_count :: nat

definition new_mono :: "'w engine \<Rightarrow> 'w mono" where
  "new_mono e = \<lparr>mo_engine = e, mo_last_sent = LAST_SENT_UNSET, mo_fetcher = GTop, mo_blocks = [],
     mo_processor = QRecv, mo_results = [], mo_indexer = IRecv, mo_count = 0\<rparr>"

subsection \<open>The fetcher\<close>

definition pick_height :: "int \<Rightarrow> nat \<Rightarrow> nat" where
  "pick_height snapshot current =
     (let m = near_tip_min_send_height snapshot in if m > current then m else current)"

text \<open>
  The calls of \<open>get_next_block_data_with_floor\<close>: the reorganisation check near the tip,
  then the block at the floor or at the engine's height.
\<close>

definition next_block_step ::
    "'w node_adapter \<Rightarrow> 'w storage_adapter \<Rightarrow> 'w runtime_adapter \<Rightarrow> sync_config \<Rightarrow> 'w mono \<Rightarrow> 'w mono option" where
  "next_block_step nd S R cfg s =
     (let e = mo_engine s in
      case mo_fetcher s of
        GNext snapshot \<Rightarrow> Some (s\<lparr>mo_fetcher := GNextTip snapshot (current_height e)\<rparr>)
      | GNextTip snapshot current \<Rightarrow>
          (case on_world (n_tip_height nd) e of
             (Inr remote_tip, e') \<Rightarrow>
               Some (s\<lparr>mo_engine := e', mo_fetcher :=
                 if remote_tip - current \<le> reorg_check_threshold cfg then GNextReorg snapshot current remote_tip
                 else GNextPick snapshot current remote_tip\<rparr>)
           | (Inl _, e') \<Rightarrow> Some (s\<lparr>mo_engine := e', mo_fetcher := GTop\<rparr>))
      | GNextReorg snapshot current remote_tip \<Rightarrow>
          (case on_world (handle_reorg nd S R cfg current) e of
             (Inr new_height, e') \<Rightarrow> Some (s\<lparr>mo_engine := e', mo_fetcher := GNextStore snapshot new_height remote_tip\<rparr>)
           | (Inl _, e') \<Rightarrow> Some (s\<lparr>mo_engine := e', mo_fetcher := GTop\<rparr>))
      | GNextStore snapshot new_height remote_tip \<Rightarrow>
          Some (s\<lparr>mo_engine := e\<lparr>current_height := new_height\<rparr>, mo_fetcher := GNextPick snapshot new_height remote_tip\<rparr>)
      | GNextPick snapshot current remote_tip \<Rightarrow>
          let fetch_height = pick_height snapshot current in
          Some (s\<lparr>mo_fetcher :=
            if (case exit_at cfg of Some x \<Rightarrow> fetch_height \<ge> x | None \<Rightarrow> False) \<or> fetch_height > remote_tip then GTop
            else GNextFetch snapshot fetch_height\<rparr>)
      | GNextFetch snapshot h \<Rightarrow>
          (case on_world (n_block_info nd h) e of
             (Inr info, e') \<Rightarrow> Some (s\<lparr>mo_engine := e', mo_fetcher := GDrop snapshot h (info_data info) (info_hash info)\<rparr>)
           | (Inl _, e') \<Rightarrow> Some (s\<lparr>mo_engine := e', mo_fetcher := GTop\<rparr>))
      | _ \<Rightarrow> None)"

definition mono_fetcher_step ::
    "'w node_adapter \<Rightarrow> 'w storage_adapter \<Rightarrow> 'w runtime_adapter \<Rightarrow> sync_config \<Rightarrow> nat \<Rightarrow> 'w mono \<Rightarrow> 'w mono option" where
  "mono_fetcher_step nd S R cfg width s =
     (let e = mo_engine s in
      case mo_fetcher s of
        GTop \<Rightarrow>
          (case exit_at cfg of
             None \<Rightarrow> Some (s\<lparr>mo_fetcher := GTip\<rparr>)
           | Some x \<Rightarrow>
               (case on_world (s_indexed_height S) e of
                  (Inr h, e') \<Rightarrow> Some (s\<lparr>mo_engine := e', mo_fetcher := if h \<ge> x then GDone else GTip\<rparr>)
                | (Inl _, e') \<Rightarrow> Some (s\<lparr>mo_engine := e', mo_fetcher := GTop\<rparr>)))
      | GTip \<Rightarrow> Some (s\<lparr>mo_fetcher := GRemote (current_height e)\<rparr>)
      | GRemote processor_tip \<Rightarrow>
          (case on_world (n_tip_height nd) e of
             (Inr remote_tip, e') \<Rightarrow> Some (s\<lparr>mo_engine := e', mo_fetcher := GDecide processor_tip remote_tip\<rparr>)
           | (Inl _, e') \<Rightarrow> Some (s\<lparr>mo_engine := e', mo_fetcher := GTop\<rparr>))
      | GDecide processor_tip remote_tip \<Rightarrow>
          let snapshot = mo_last_sent s in
          if remote_tip - near_tip_fetch_start snapshot processor_tip \<le> reorg_check_threshold cfg
          then Some (s\<lparr>mo_fetcher := GNext snapshot\<rparr>)
          else
            (case compute_next_fetch_range processor_tip snapshot width remote_tip of
               Some (fetch_start, fetch_end) \<Rightarrow> Some (s\<lparr>mo_fetcher := GBatch fetch_start fetch_end\<rparr>)
             | None \<Rightarrow> Some (s\<lparr>mo_fetcher := GTop\<rparr>))
      | GDrop snapshot h block_data block_hash \<Rightarrow>
          Some (s\<lparr>mo_fetcher := if near_tip_should_drop snapshot h then GTop else GSend h block_data block_hash\<rparr>)
      | GSend h block_data block_hash \<Rightarrow>
          if mo_processor s = QDone then Some (s\<lparr>mo_fetcher := GDone\<rparr>)
          else if length (mo_blocks s) < width
          then Some (s\<lparr>mo_blocks := mo_blocks s @ [(h, block_data, block_hash)], mo_fetcher := GBump h\<rparr>)
          else None
      | GBump h \<Rightarrow> Some (s\<lparr>mo_last_sent := max (mo_last_sent s) (int h), mo_fetcher := GTop\<rparr>)
      | GBatch h fetch_end \<Rightarrow>
          if h < fetch_end then
            (case on_world (n_block_info nd h) e of
               (Inr info, e') \<Rightarrow>
                 Some (s\<lparr>mo_engine := e', mo_fetcher := GBatchSend h fetch_end (info_data info) (info_hash info)\<rparr>)
             | (Inl _, e') \<Rightarrow> Some (s\<lparr>mo_engine := e', mo_fetcher := GTop\<rparr>))
          else Some (s\<lparr>mo_fetcher := GTop\<rparr>)
      | GBatchSend h fetch_end block_data block_hash \<Rightarrow>
          if mo_processor s = QDone then Some (s\<lparr>mo_fetcher := GTop\<rparr>)
          else if length (mo_blocks s) < width
          then Some (s\<lparr>mo_blocks := mo_blocks s @ [(h, block_data, block_hash)], mo_fetcher := GBatchBump h fetch_end\<rparr>)
          else None
      | GBatchBump h fetch_end \<Rightarrow>
          Some (s\<lparr>mo_last_sent := max (mo_last_sent s) (int h), mo_fetcher := GBatch (h + 1) fetch_end\<rparr>)
      | GDone \<Rightarrow> None
      | _ \<Rightarrow> next_block_step nd S R cfg s)"

subsection \<open>The processor\<close>

definition mono_budget_message :: "nat \<Rightarrow> string \<Rightarrow> string" where
  "mono_budget_message h msg =
     ''snapshot-path: commit_atomic at height '' @ dec h @ '' exceeded max-retry budget (''
     @ dec MAX_ATOMIC_COMMIT_ATTEMPTS @ '' attempts): last error: '' @ msg"

definition mono_processor_step ::
    "(bytes \<Rightarrow> bytes) \<Rightarrow> (bytes \<Rightarrow> string + bytes \<times> bytes) \<Rightarrow> (validation_request \<Rightarrow> bool) option
     \<Rightarrow> 'w storage_adapter \<Rightarrow> 'w runtime_adapter \<Rightarrow> nat \<Rightarrow> 'w mono \<Rightarrow> 'w mono option" where
  "mono_processor_step sha decode_header validator S R width s =
     (let e = mo_engine s in
      case mo_processor s of
        QRecv \<Rightarrow>
          (case mo_blocks s of
             (h, block_data, block_hash) # blks \<Rightarrow>
               Some (s\<lparr>mo_blocks := blks, mo_processor := QValidate h block_data block_hash\<rparr>)
           | [] \<Rightarrow> None)
      | QValidate h block_data block_hash \<Rightarrow>
          (case on_world (validate_block_connects sha decode_header validator S h block_data block_hash) e of
             (Inr connects, e') \<Rightarrow>
               Some (s\<lparr>mo_engine := e', mo_processor :=
                 if connects then QAttempt h block_data block_hash 0 None
                 else QReport (Failure h (show_error (BlockProcessing h not_connected_message)))\<rparr>)
           | (Inl err, e') \<Rightarrow>
               Some (s\<lparr>mo_engine := e', mo_processor := QReport (Failure h (show_error err))\<rparr>))
      | QAttempt h block_data block_hash attempts last_err \<Rightarrow>
          let attempt = sat_add32 attempts 1 in
          Some (s\<lparr>mo_processor :=
            if h < current_height e then QReport (Success h)
            else if attempt > MAX_ATOMIC_COMMIT_ATTEMPTS then
              QReport (Failure h (show_error (Storage (mono_budget_message h
                (case last_err of Some msg \<Rightarrow> msg | None \<Rightarrow> ''no error captured'')))))
            else QExec h block_data block_hash attempt\<rparr>)
      | QExec h block_data block_hash attempt \<Rightarrow>
          (case on_world (r_process_atomic R h block_data block_hash) e of
             (Inr res, e') \<Rightarrow> Some (s\<lparr>mo_engine := e', mo_processor := QCommit h block_data block_hash attempt res\<rparr>)
           | (Inl err, e') \<Rightarrow>
               Some (s\<lparr>mo_engine := e', mo_processor :=
                 QRefresh h block_data block_hash attempt (''process_block_atomic: '' @ show_error err)\<rparr>))
      | QCommit h block_data block_hash attempt res \<Rightarrow>
          (case on_world (s_commit S h (result_hash res) (state_root res) (batch_data res)) e of
             (Inr _, e') \<Rightarrow> Some (s\<lparr>mo_engine := e', mo_processor := QStore h\<rparr>)
           | (Inl err, e') \<Rightarrow>
               let msg = show_error err in
               Some (s\<lparr>mo_engine := e', mo_processor :=
                 if contains msg ''out-of-order commit rejected''
                 then QReport (Failure h (show_error (Storage (''commit_atomic: '' @ msg))))
                 else QRefresh h block_data block_hash attempt (''commit_atomic: '' @ msg)\<rparr>))
      | QRefresh h block_data block_hash attempt err \<Rightarrow>
          Some (s\<lparr>mo_engine := snd (on_world (r_refresh_memory R) e),
                  mo_processor := QAttempt h block_data block_hash attempt (Some err)\<rparr>)
      | QStore h \<Rightarrow>
          Some (s\<lparr>mo_engine := e\<lparr>current_height := add32 h 1, blocks_processed := add32 (blocks_processed e) 1\<rparr>,
                  mo_processor := QReport (Success h)\<rparr>)
      | QReport result \<Rightarrow>
          if mo_indexer s = IDone then Some (s\<lparr>mo_processor := QDone\<rparr>)
          else if length (mo_results s) < width
          then Some (s\<lparr>mo_results := mo_results s @ [result], mo_processor := QRecv\<rparr>)
          else None
      | QDone \<Rightarrow> None)"

subsection \<open>The results\<close>

definition mono_discontinuity :: "string \<Rightarrow> bool" where
  "mono_discontinuity error_str \<longleftrightarrow>
     contains error_str ''does not connect to previous block'' \<or> contains error_str ''CHAIN DISCONTINUITY''"

definition mono_indexer_step ::
    "'w node_adapter \<Rightarrow> 'w storage_adapter \<Rightarrow> 'w runtime_adapter \<Rightarrow> sync_config \<Rightarrow> 'w mono \<Rightarrow> 'w mono option" where
  "mono_indexer_step nd S R cfg s =
     (case mo_indexer s of
        IRecv \<Rightarrow>
          (case mo_results s of
             Success h # rs \<Rightarrow> Some (s\<lparr>mo_results := rs, mo_count := mo_count s + 1, mo_indexer := IExit\<rparr>)
           | Failure h err # rs \<Rightarrow> Some (s\<lparr>mo_results := rs, mo_indexer := IFailed h err\<rparr>)
           | [] \<Rightarrow> None)
      | IFailed h err \<Rightarrow>
          if mono_discontinuity err then
            (case on_world (handle_reorg nd S R cfg h) (mo_engine s) of
               (Inr rollback_height, e') \<Rightarrow> Some (s\<lparr>mo_engine := e', mo_indexer := IReset\<rparr>)
             | (Inl _, e') \<Rightarrow> Some (s\<lparr>mo_engine := e', mo_indexer := IExit\<rparr>))
          else Some (s\<lparr>mo_indexer := IExit\<rparr>)
      | IReset \<Rightarrow> Some (s\<lparr>mo_last_sent := LAST_SENT_UNSET, mo_indexer := IExit\<rparr>)
      | IExit \<Rightarrow>
          Some (s\<lparr>mo_indexer :=
            if (case exit_at cfg of Some x \<Rightarrow> mo_count s mod 4294967296 \<ge> x | None \<Rightarrow> False) then IDone else IRecv\<rparr>)
      | IDone \<Rightarrow> None)"

inductive mono_step ::
    "(bytes \<Rightarrow> bytes) \<Rightarrow> (bytes \<Rightarrow> string + bytes \<times> bytes) \<Rightarrow> (validation_request \<Rightarrow> bool) option
     \<Rightarrow> 'w node_adapter \<Rightarrow> 'w storage_adapter \<Rightarrow> 'w runtime_adapter \<Rightarrow> sync_config \<Rightarrow> nat \<Rightarrow> 'w mono \<Rightarrow> 'w mono \<Rightarrow> bool"
  for sha decode_header validator nd S R cfg width where
  mono_fetches: "mono_fetcher_step nd S R cfg width s = Some s'
     \<Longrightarrow> mono_step sha decode_header validator nd S R cfg width s s'"
| mono_processes: "mono_processor_step sha decode_header validator S R width s = Some s'
     \<Longrightarrow> mono_step sha decode_header validator nd S R cfg width s s'"
| mono_indexes: "mono_indexer_step nd S R cfg s = Some s'
     \<Longrightarrow> mono_step sha decode_header validator nd S R cfg width s s'"

inductive_simps mono_step_iff: "mono_step sha decode_header validator nd S R cfg width s s'"

definition mono_reaches ::
    "(bytes \<Rightarrow> bytes) \<Rightarrow> (bytes \<Rightarrow> string + bytes \<times> bytes) \<Rightarrow> (validation_request \<Rightarrow> bool) option
     \<Rightarrow> 'w node_adapter \<Rightarrow> 'w storage_adapter \<Rightarrow> 'w runtime_adapter \<Rightarrow> sync_config \<Rightarrow> nat \<Rightarrow> 'w mono \<Rightarrow> 'w mono \<Rightarrow> bool" where
  "mono_reaches sha decode_header validator nd S R cfg width =
     (mono_step sha decode_header validator nd S R cfg width)\<^sup>*\<^sup>*"

lemma mono_reaches_invariant [consumes 1, case_names start step]:
  assumes "mono_reaches sha decode_header validator nd S R cfg width s s'" "I s"
    and "\<And>t t'. mono_step sha decode_header validator nd S R cfg width t t' \<Longrightarrow> I t \<Longrightarrow> I t'"
  shows "I s'"
  using assms unfolding mono_reaches_def by (induction rule: rtranclp_induct) auto

section \<open>The fetch range\<close>

lemma u32_of_sent [simp]: "0 \<le> sent \<Longrightarrow> sent < int u32_max \<Longrightarrow> sat_add32 (u32_of_i64 sent) (Suc 0) = Suc (nat sent)"
  by (simp add: u32_of_i64_def sat_add32_def u32_max_def nat_less_iff)

lemma fetch_range:
  assumes "compute_next_fetch_range tip sent width remote = Some (a, b)" "sent < int u32_max" "tip \<le> u32_max"
    "remote < u32_max" "width \<le> u32_max"
  shows "a = (if sent < 0 then tip else max (nat sent + 1) tip) \<and> a < b \<and> b \<le> remote + 1 \<and> b \<le> a + width"
proof -
  define st where "st = (if sent < 0 then tip else max (nat sent + 1) tip)"
  have w: "width mod 4294967296 = width" using assms(5) by (simp add: u32_max_def)
  have start: "max (if sent < 0 then tip else sat_add32 (u32_of_i64 sent) 1) tip = st"
    using assms(2) by (simp add: st_def)
  have r: "sat_add32 remote 1 = remote + 1" using assms(4) by (simp add: sat_add32_def)
  have "a = st \<and> b = min (sat_add32 st width) (remote + 1) \<and> st < b"
    using assms(1) unfolding compute_next_fetch_range_def Let_def start w r by (auto split: if_splits)
  moreover have "sat_add32 st width \<le> st + width" by (simp add: sat_add32_def)
  ultimately show ?thesis unfolding st_def [symmetric] by linarith
qed

lemma min_send_height:
  "sent < int u32_max \<Longrightarrow> near_tip_min_send_height sent = (if sent < 0 then 0 else nat sent + 1)"
  by (simp add: near_tip_min_send_height_def)

end
