(* ===== verification/MonoProofs.thy ===== *)
theory MonoProofs
  imports PipelineProofs MonoPipeline
begin

text \<open>
  The indexing tasks of the binary on the durable backend, under the environment of
  \<open>PipelineProofs\<close>: the chain \<open>bs\<close> of the node stands still. The invariant relates the
  fetcher's watermark, the blocks in flight, the database and the results: \<open>n\<close> blocks are in
  the database, \<open>m\<close> have been sent.
\<close>

section \<open>The invariant\<close>

text \<open>The blocks of the chain pass the built-in check against their predecessors.\<close>

definition headers_link :: "(bytes \<Rightarrow> bytes) \<Rightarrow> (bytes \<Rightarrow> string + bytes \<times> bytes) \<Rightarrow> (bytes \<times> bytes) list \<Rightarrow> bool" where
  "headers_link sha decode_header bs \<longleftrightarrow>
     (\<forall>h < length bs. \<exists>header prev. decode_header (fst (bs ! h)) = Inr (header, prev)
        \<and> rev (sha (sha header)) = snd (bs ! h) \<and> (h > 0 \<longrightarrow> rev prev = snd (bs ! (h - 1))))"

text \<open>The block in the processor's hand, and the result it has still to report.\<close>

fun held :: "mono_processor \<Rightarrow> (nat \<times> bytes \<times> bytes) list" where
  "held (QValidate h data hash) = [(h, data, hash)]"
| "held (QAttempt h data hash k err) = [(h, data, hash)]"
| "held (QExec h data hash k) = [(h, data, hash)]"
| "held (QCommit h data hash k res) = [(h, data, hash)]"
| "held (QRefresh h data hash k err) = [(h, data, hash)]"
| "held pc = []"

fun unreported :: "mono_processor \<Rightarrow> block_result list" where
  "unreported (QStore h) = [Success h]"
| "unreported (QReport r) = [r]"
| "unreported pc = []"

text \<open>The processor has not failed: it is at its first attempt.\<close>

fun first_attempt :: "(nat \<Rightarrow> bytes \<Rightarrow> bytes \<Rightarrow> atomic_block_result \<Rightarrow> bool) \<Rightarrow> mono_processor \<Rightarrow> bool" where
  "first_attempt B (QAttempt h data hash k err) \<longleftrightarrow> k = 0"
| "first_attempt B (QCommit h data hash k res) \<longleftrightarrow> B h data hash res"
| "first_attempt B (QRefresh h data hash k err) \<longleftrightarrow> False"
| "first_attempt B pc \<longleftrightarrow> True"

definition tip_ok :: "nat \<Rightarrow> nat \<Rightarrow> int \<Rightarrow> nat \<Rightarrow> bool" where
  "tip_ok n m sent t \<longleftrightarrow> t \<le> n \<and> (sent < 0 \<longrightarrow> t = m)"

definition block_of :: "(bytes \<times> bytes) list \<Rightarrow> nat \<Rightarrow> bytes \<Rightarrow> bytes \<Rightarrow> bool" where
  "block_of bs h data hash \<longleftrightarrow> h < length bs \<and> bs ! h = (data, hash)"

fun next_ok :: "(bytes \<times> bytes) list \<Rightarrow> nat \<Rightarrow> nat \<Rightarrow> int \<Rightarrow> mono_fetcher \<Rightarrow> bool" where
  "next_ok bs n m sent (GRemote t) \<longleftrightarrow> tip_ok n m sent t"
| "next_ok bs n m sent (GDecide t r) \<longleftrightarrow> tip_ok n m sent t \<and> r = length bs - 1"
| "next_ok bs n m sent (GNext sn) \<longleftrightarrow> sn = sent"
| "next_ok bs n m sent (GNextTip sn c) \<longleftrightarrow> sn = sent \<and> tip_ok n m sent c"
| "next_ok bs n m sent (GNextReorg sn c r) \<longleftrightarrow> sn = sent \<and> tip_ok n m sent c \<and> r = length bs - 1"
| "next_ok bs n m sent (GNextStore sn c r) \<longleftrightarrow> sn = sent \<and> tip_ok n m sent c \<and> r = length bs - 1"
| "next_ok bs n m sent (GNextPick sn c r) \<longleftrightarrow> sn = sent \<and> tip_ok n m sent c \<and> r = length bs - 1"
| "next_ok bs n m sent (GNextFetch sn h) \<longleftrightarrow> sn = sent \<and> h = m \<and> h < length bs"
| "next_ok bs n m sent (GDrop sn h data hash) \<longleftrightarrow> sn = sent \<and> h = m \<and> block_of bs h data hash"
| "next_ok bs n m sent (GSend h data hash) \<longleftrightarrow> h = m \<and> block_of bs h data hash"
| "next_ok bs n m sent (GBump h) \<longleftrightarrow> Suc h = m \<and> sent \<le> int h"
| "next_ok bs n m sent (GBatch h fetch_end) \<longleftrightarrow> h = m \<and> fetch_end \<le> length bs"
| "next_ok bs n m sent (GBatchSend h fetch_end data hash) \<longleftrightarrow> h = m \<and> block_of bs h data hash \<and> fetch_end \<le> length bs"
| "next_ok bs n m sent (GBatchBump h fetch_end) \<longleftrightarrow> Suc h = m \<and> sent \<le> int h \<and> fetch_end \<le> length bs"
| "next_ok bs n m sent pc \<longleftrightarrow> True"

fun bumping :: "mono_fetcher \<Rightarrow> bool" where
  "bumping (GBump h) = True"
| "bumping (GBatchBump h fetch_end) = True"
| "bumping pc = False"

lemma tip_ok_mono: "tip_ok n m sent t \<Longrightarrow> n \<le> n' \<Longrightarrow> tip_ok n' m sent t"
  by (auto simp: tip_ok_def)

lemma next_ok_mono: "next_ok bs n m sent pc \<Longrightarrow> n \<le> n' \<Longrightarrow> next_ok bs n' m sent pc"
  by (cases pc) (auto intro: tip_ok_mono)

lemma map_upt_Cons:
  "map f [n..<m] = x # xs \<longleftrightarrow> n < m \<and> x = f n \<and> xs = map f [Suc n..<m]"
  by (cases "n < m") (auto simp: upt_conv_Cons)

text \<open>The watermark: nothing was sent yet, or all up to it.\<close>

definition watermark :: "nat \<Rightarrow> nat \<Rightarrow> 'w mono \<Rightarrow> bool" where
  "watermark n m s \<longleftrightarrow>
     (if bumping (mo_fetcher s) then True
      else if mo_last_sent s < 0
      then n = m \<and> current_height (mo_engine s) = m \<and> mo_blocks s = [] \<and> mo_processor s = QRecv
      else mo_last_sent s = int m - 1)"

text \<open>The results not yet counted: a success for every block, in order, from \<open>c\<close> on.\<close>

definition results_ok :: "nat \<Rightarrow> nat \<Rightarrow> block_result list \<Rightarrow> mono_processor \<Rightarrow> bool" where
  "results_ok n c rs pc \<longleftrightarrow>
     (\<exists>k. c \<le> k \<and> k \<le> n \<and> (pc \<noteq> QDone \<longrightarrow> k = n) \<and> rs @ unreported pc = map Success [c..<k])"

lemma results_ok_cong:
  "unreported pc = unreported pc' \<Longrightarrow> pc \<noteq> QDone \<Longrightarrow> pc' \<noteq> QDone \<Longrightarrow> results_ok n c rs pc = results_ok n c rs pc'"
  by (simp add: results_ok_def)

lemma map_upt_snoc: "xs @ [x] = map f [a..<b] \<Longrightarrow> a < b \<and> x = f (b - 1) \<and> xs = map f [a..<b - 1]"
  by (cases b) (auto split: if_splits)

lemma results_ok_last:
  assumes "results_ok n c rs pc" "unreported pc = [r]"
  shows "0 < n" "r = Success (n - 1)" "c \<le> n - 1" "rs = map Success [c..<n - 1]"
proof -
  have "pc \<noteq> QDone" using assms(2) by auto
  with assms have "rs @ [r] = map Success [c..<n]" by (auto simp: results_ok_def)
  from map_upt_snoc [OF this] show "0 < n" "r = Success (n - 1)" "c \<le> n - 1" "rs = map Success [c..<n - 1]" by auto
qed

lemma results_ok_commit:
  "results_ok n c rs pc \<Longrightarrow> unreported pc = [] \<Longrightarrow> pc \<noteq> QDone \<Longrightarrow> results_ok (Suc n) c rs (QStore n)"
  by (auto simp: results_ok_def)

lemma results_ok_reported: "results_ok n c rs (QReport r) \<Longrightarrow> results_ok n c (rs @ [r]) QRecv"
  by (auto simp: results_ok_def)

lemma results_ok_dropped: "results_ok n c rs (QReport r) \<Longrightarrow> results_ok n c rs QDone"
  using results_ok_last [of n c rs "QReport r" r] by (auto simp: results_ok_def intro: exI [of _ "n - 1"])

lemma results_ok_taken:
  assumes "results_ok n c (r # rs) pc"
  shows "r = Success c" "results_ok n (Suc c) rs pc"
proof -
  obtain k where k: "c \<le> k" "k \<le> n" "pc \<noteq> QDone \<longrightarrow> k = n" "map Success [c..<k] = r # rs @ unreported pc"
    using assms unfolding results_ok_def append_Cons by metis
  have c: "c < k" "r = Success c" "rs @ unreported pc = map Success [Suc c..<k]"
    using k(4) unfolding map_upt_Cons by simp_all
  then have "Suc c \<le> k" by simp
  with k(2,3) c(3) show "results_ok n (Suc c) rs pc" unfolding results_ok_def by blast
  show "r = Success c" by (rule c(2))
qed

context pipeline_env
begin

definition mono_good :: "nat \<Rightarrow> nat \<Rightarrow> nat \<Rightarrow> nat \<Rightarrow> ('d \<times> 'x) mono \<Rightarrow> bool" where
  "mono_good width n0 n m s \<longleftrightarrow>
     n0 \<le> n \<and> n \<le> m \<and> m \<le> length bs
   \<and> db_at hexe index bs n (contents (fst (world (mo_engine s))))
   \<and> first_attempt (built hexe to_data index (contents (fst (world (mo_engine s))))) (mo_processor s)
   \<and> held (mo_processor s) @ mo_blocks s = map (\<lambda>h. (h, bs ! h)) [n..<m]
   \<and> current_height (mo_engine s) \<le> n
   \<and> next_ok bs n m (mo_last_sent s) (mo_fetcher s) \<and> watermark n m s
   \<and> results_ok n (n0 + mo_count s) (mo_results s) (mo_processor s)
   \<and> mo_indexer s \<in> {IRecv, IExit, IDone}
   \<and> length (mo_blocks s) \<le> width \<and> length (mo_results s) \<le> width"

abbreviation the_built :: "('d \<times> 'x) mono \<Rightarrow> nat \<Rightarrow> bytes \<Rightarrow> bytes \<Rightarrow> atomic_block_result \<Rightarrow> bool" where
  "the_built s \<equiv> built hexe to_data index (contents (fst (world (mo_engine s))))"

lemma mono_goodD:
  assumes "mono_good width n0 n m s"
  shows "n0 \<le> n" "n \<le> m" "m \<le> length bs" "db_at hexe index bs n (contents (fst (world (mo_engine s))))"
    "first_attempt (the_built s) (mo_processor s)" "current_height (mo_engine s) \<le> n"
    "held (mo_processor s) @ mo_blocks s = map (\<lambda>h. (h, bs ! h)) [n..<m]"
    "next_ok bs n m (mo_last_sent s) (mo_fetcher s)" "watermark n m s"
    "mo_indexer s \<in> {IRecv, IExit, IDone}"
  using assms by (simp_all add: mono_good_def)

text \<open>A step of the fetcher that sends nothing.\<close>

lemma mono_fetcher_at:
  assumes "mono_good width n0 n m s" "next_ok bs n m (mo_last_sent s) pc" "\<not> bumping (mo_fetcher s)" "\<not> bumping pc"
  shows "mono_good width n0 n m (s\<lparr>mo_fetcher := pc\<rparr>)"
  using assms by (auto simp: mono_good_def watermark_def)

lemma mono_fetcher_sent:
  assumes g: "mono_good width n0 n m s" and blk: "block_of bs m data hash"
    and room: "length (mo_blocks s) < width" and up: "mo_processor s \<noteq> QDone" and "\<not> bumping (mo_fetcher s)"
    and pc: "next_ok bs n (Suc m) (mo_last_sent s) pc" "bumping pc"
  shows "mono_good width n0 n (Suc m) (s\<lparr>mo_blocks := mo_blocks s @ [(m, data, hash)], mo_fetcher := pc\<rparr>)"
proof -
  have "held (mo_processor s) @ mo_blocks s @ [(m, data, hash)] = map (\<lambda>h. (h, bs ! h)) [n..<Suc m]"
    using mono_goodD(7) [OF g] mono_goodD(2) [OF g] blk by (simp add: block_of_def)
  with g blk room pc show ?thesis by (auto simp: mono_good_def watermark_def block_of_def)
qed

lemma mono_fetcher_bumped:
  assumes g: "mono_good width n0 n m s" and pc: "mo_fetcher s = GBump h \<or> mo_fetcher s = GBatchBump h fetch_end"
    and new: "pc = GTop \<or> pc = GBatch m fetch_end \<and> fetch_end \<le> length bs"
  shows "mono_good width n0 n m (s\<lparr>mo_last_sent := max (mo_last_sent s) (int h), mo_fetcher := pc\<rparr>)"
proof -
  have "Suc h = m" "mo_last_sent s \<le> int h" using mono_goodD(8) [OF g] pc by auto
  with g new show ?thesis by (auto simp: mono_good_def watermark_def)
qed

text \<open>What the fetcher computes from the watermark and an older height of the processor.\<close>

lemma len_u32: "length bs < u32_max + 1" "m \<le> length bs \<Longrightarrow> sent = int m - 1 \<Longrightarrow> sent < int u32_max"
  using len by simp_all

lemma fetch_starts:
  assumes g: "mono_good width n0 n m s" and t: "tip_ok n m (mo_last_sent s) t" and "\<not> bumping (mo_fetcher s)"
  shows "near_tip_fetch_start (mo_last_sent s) t = m" "pick_height (mo_last_sent s) t = m"
    "(if mo_last_sent s < 0 then t else max (nat (mo_last_sent s) + 1) t) = m"
proof -
  have m: "n \<le> m" "m \<le> length bs" and w: "watermark n m s" using mono_goodD [OF g] by blast+
  have pos: "mo_last_sent s = int m - 1" "nat (mo_last_sent s) + 1 = m" "sat_add32 (u32_of_i64 (mo_last_sent s)) 1 = m"
    "t \<le> m" if "\<not> mo_last_sent s < 0"
  proof -
    show s: "mo_last_sent s = int m - 1" using w that assms(3) by (simp add: watermark_def)
    then show "nat (mo_last_sent s) + 1 = m" using that by simp
    moreover have "mo_last_sent s < int u32_max" using s m len by simp
    ultimately show "sat_add32 (u32_of_i64 (mo_last_sent s)) 1 = m" using that by simp
    show "t \<le> m" using t m by (simp add: tip_ok_def)
  qed
  show "near_tip_fetch_start (mo_last_sent s) t = m"
    using pos t by (auto simp: near_tip_fetch_start_def tip_ok_def)
  show "pick_height (mo_last_sent s) t = m"
    using pos t by (auto simp: pick_height_def near_tip_min_send_height_def tip_ok_def)
  show "(if mo_last_sent s < 0 then t else max (nat (mo_last_sent s) + 1) t) = m"
    using pos t by (auto simp: tip_ok_def)
qed

lemma handle_reorg_keeps_engine:
  assumes "db_at hexe index bs n (contents (fst (world e)))" "c \<le> n"
  shows "on_world (handle_reorg nd the_storage Rt cfg c) e = (Inr c, e)"
  using no_reorg [OF assms] by (simp add: on_world_def)

lemma indexed_height_quiet: "\<exists>r. on_world (s_indexed_height the_storage) e = (r, e)"
  by (simp add: on_world_def rs_adapter_def stored_read_def split_def split: sum.split)

lemma length_bs_pos: "Suc (length bs - 1) = length bs"
  using node_facts(1) by simp

lemma mono_fetcher_good:
  assumes g: "mono_good width n0 n m s" and w: "width \<le> u32_max"
    and step: "mono_fetcher_step nd the_storage Rt cfg width s = Some s'"
  shows "mono_good width n0 n m s' \<or> mono_good width n0 n (Suc m) s'"
proof -
  note db = mono_goodD(4) [OF g] and c = mono_goodD(6) [OF g] and f = mono_goodD(8) [OF g]
  note at = mono_fetcher_at [OF g] and starts = fetch_starts [OF g]
  have nm: "n \<le> m" "m \<le> length bs" using mono_goodD(2,3) [OF g] by simp_all
  have wm: "\<not> bumping (mo_fetcher s) \<Longrightarrow> mo_last_sent s < 0 \<Longrightarrow> current_height (mo_engine s) = m"
    "\<not> bumping (mo_fetcher s) \<Longrightarrow> mo_last_sent s \<le> int m"
    using mono_goodD(9) [OF g] by (auto simp: watermark_def split: if_splits)
  have tip: "tip_ok n m (mo_last_sent s) (current_height (mo_engine s))" if "\<not> bumping (mo_fetcher s)"
    using wm(1) that c by (simp add: tip_ok_def)
  show ?thesis
  proof (cases "mo_fetcher s")
    case GTop
    obtain r where "on_world (s_indexed_height the_storage) (mo_engine s) = (r, mo_engine s)"
      using indexed_height_quiet by blast
    with GTop step at [of GTop] at [of GTip] at [of GDone] show ?thesis
      by (auto simp: mono_fetcher_step_def next_block_step_def Let_def split: option.splits sum.splits if_splits)
  next
    case GTip
    with step at [of "GRemote (current_height (mo_engine s))"] tip show ?thesis by (auto simp: mono_fetcher_step_def next_block_step_def Let_def)
  next
    case (GRemote t)
    with step f at [of "GDecide t (length bs - 1)"] show ?thesis
      by (auto simp: mono_fetcher_step_def next_block_step_def Let_def on_world_def node_facts(2))
  next
    case (GDecide t r)
    show ?thesis
    proof (cases "compute_next_fetch_range t (mo_last_sent s) width r")
      case None
      with GDecide step at [of "GNext (mo_last_sent s)"] at [of GTop] show ?thesis
        by (auto simp: mono_fetcher_step_def next_block_step_def Let_def split: if_splits)
    next
      case (Some rg)
      obtain a b where rg: "rg = (a, b)" by (rule prod.exhaust)
      have t: "tip_ok n m (mo_last_sent s) t" "r = length bs - 1" using f GDecide by simp_all
      have "mo_last_sent s < int u32_max"
        using mono_goodD(9) [OF g] GDecide nm len by (simp add: watermark_def split: if_splits)
      from fetch_range [OF Some [unfolded rg] this _ _ w] t nm len length_bs_pos
      have "a = m" "b \<le> length bs" using starts(3) [OF t(1)] GDecide by (auto simp: tip_ok_def)
      with GDecide step rg Some at [of "GNext (mo_last_sent s)"] at [of "GBatch m b"] show ?thesis
        by (auto simp: mono_fetcher_step_def next_block_step_def Let_def split: if_splits)
    qed
  next
    case (GNext sn)
    with step f at [of "GNextTip sn (current_height (mo_engine s))"] tip show ?thesis
      by (auto simp: mono_fetcher_step_def next_block_step_def Let_def)
  next
    case (GNextTip sn t)
    with step f at [of "GNextReorg sn t (length bs - 1)"] at [of "GNextPick sn t (length bs - 1)"] show ?thesis
      by (auto simp: mono_fetcher_step_def next_block_step_def Let_def on_world_def node_facts(2) split: if_splits)
  next
    case (GNextReorg sn t r)
    then have t: "t \<le> n" using f by (simp add: tip_ok_def)
    from GNextReorg step f at [of "GNextStore sn t r"] handle_reorg_keeps_engine [OF db t] show ?thesis
      by (auto simp: mono_fetcher_step_def next_block_step_def Let_def)
  next
    case (GNextStore sn t r)
    then have s': "s' = s\<lparr>mo_engine := (mo_engine s)\<lparr>current_height := t\<rparr>, mo_fetcher := GNextPick sn t r\<rparr>"
      using step by (simp add: mono_fetcher_step_def next_block_step_def Let_def)
    have "t \<le> n" "mo_last_sent s < 0 \<Longrightarrow> t = m" using f GNextStore by (simp_all add: tip_ok_def)
    with GNextStore f g have "mono_good width n0 n m s'"
      by (simp add: s' mono_good_def watermark_def split: if_splits)
    then show ?thesis ..
  next
    case (GNextPick sn t r)
    then have "pick_height sn t = m" using f starts(2) [of t] by auto
    with GNextPick step f at [of GTop] at [of "GNextFetch sn m"] length_bs_pos show ?thesis
      by (auto simp: mono_fetcher_step_def next_block_step_def Let_def split: if_splits)
  next
    case (GNextFetch sn h)
    then have h: "h = m" "h < length bs" using f by simp_all
    with GNextFetch step f at [of "GDrop sn m (fst (bs ! m)) (snd (bs ! m))"] show ?thesis
      by (auto simp: mono_fetcher_step_def next_block_step_def Let_def on_world_def node_facts(3) block_of_def)
  next
    case (GDrop sn h data hash)
    with step f at [of GTop] at [of "GSend h data hash"] show ?thesis
      by (auto simp: mono_fetcher_step_def next_block_step_def Let_def split: if_splits)
  next
    case (GSend h data hash)
    with step f at [of GDone] mono_fetcher_sent [OF g, of data hash "GBump m"] wm(2) show ?thesis
      by (auto simp: mono_fetcher_step_def next_block_step_def Let_def split: if_splits)
  next
    case (GBump h)
    with step mono_fetcher_bumped [OF g, of h _ GTop] show ?thesis by (auto simp: mono_fetcher_step_def next_block_step_def Let_def)
  next
    case (GBatch h b)
    then have h: "h = m" "b \<le> length bs" using f by simp_all
    with GBatch step at [of GTop] at [of "GBatchSend m b (fst (bs ! m)) (snd (bs ! m))"] show ?thesis
      by (auto simp: mono_fetcher_step_def next_block_step_def Let_def on_world_def node_facts(3) block_of_def split: if_splits)
  next
    case (GBatchSend h b data hash)
    with step f at [of GTop] mono_fetcher_sent [OF g, of data hash "GBatchBump m b"] wm(2) show ?thesis
      by (auto simp: mono_fetcher_step_def next_block_step_def Let_def split: if_splits)
  next
    case (GBatchBump h b)
    with step f mono_fetcher_bumped [OF g, of h b "GBatch m b"] show ?thesis by (auto simp: mono_fetcher_step_def next_block_step_def Let_def)
  next
    case GDone
    with step show ?thesis by (simp add: mono_fetcher_step_def next_block_step_def)
  qed
qed

subsection \<open>The processor\<close>

lemma validate_next:
  assumes h: "headers_link sha decode_header bs" and db: "db_at hexe index bs n (contents (fst (world e)))"
    and blk: "block_of bs n data hash"
  shows "on_world (validate_block_connects sha decode_header None the_storage n data hash) e = (Inr True, e)"
proof -
  obtain hd prev where hd: "decode_header data = Inr (hd, prev)" "rev (sha (sha hd)) = hash"
      "n > 0 \<Longrightarrow> rev prev = snd (bs ! (n - 1))"
    using h blk unfolding headers_link_def block_of_def by (metis fst_conv snd_conv)
  have "s_block_hash the_storage (n - 1) (world e) = (Inr (contents (fst (world e)) (blockhash_key (n - 1))), world e)"
    using rocks_okD(1) [OF ok] by (simp add: rs_adapter_def stored_read_def rs_get_block_hash_def)
  moreover have "contents (fst (world e)) (blockhash_key (n - 1)) = Some (snd (bs ! (n - 1)))" if "n > 0"
    using db_at_hash [OF db, of "n - 1"] that by simp
  ultimately show ?thesis using hd by (simp add: validate_block_connects_def on_world_def sbind_def)
qed

lemma mono_processor_at:
  assumes g: "mono_good width n0 n m s" and c: "contents (fst w) = contents (fst (world (mo_engine s)))"
    and pc: "held pc = held (mo_processor s)" "unreported pc = unreported (mo_processor s)"
      "first_attempt (built hexe to_data index (contents (fst w))) pc"
      "pc \<noteq> QRecv" "mo_processor s \<noteq> QRecv" "pc \<noteq> QDone" "mo_processor s \<noteq> QDone"
  shows "mono_good width n0 n m (s\<lparr>mo_engine := (mo_engine s)\<lparr>world := w\<rparr>, mo_processor := pc\<rparr>)"
  using assms results_ok_cong [OF pc(2,6,7)] by (simp add: mono_good_def watermark_def split: if_splits)

lemma mono_held:
  assumes g: "mono_good width n0 n m s" and "held (mo_processor s) = [(h, data, hash)]"
  shows "h = n" "block_of bs n data hash" "n < m" "mo_blocks s = map (\<lambda>h. (h, bs ! h)) [Suc n..<m]"
proof -
  from mono_goodD(7) [OF g] assms(2) have "map (\<lambda>h. (h, bs ! h)) [n..<m] = (h, data, hash) # mo_blocks s" by simp
  then have "n < m \<and> (h, data, hash) = (n, bs ! n) \<and> mo_blocks s = map (\<lambda>h. (h, bs ! h)) [Suc n..<m]"
    by (simp add: map_upt_Cons)
  with mono_goodD(3) [OF g]
  show "h = n" "block_of bs n data hash" "n < m" "mo_blocks s = map (\<lambda>h. (h, bs ! h)) [Suc n..<m]"
    by (auto simp: block_of_def)
qed

lemma mono_committed:
  assumes g: "mono_good width n0 n m s" and pc: "mo_processor s = QCommit h data hash k res"
    and db: "db_at hexe index bs (Suc n) (contents (fst w))"
  shows "mono_good width n0 (Suc n) m (s\<lparr>mo_engine := (mo_engine s)\<lparr>world := w\<rparr>, mo_processor := QStore h\<rparr>)"
proof -
  have held: "held (mo_processor s) = [(h, data, hash)]" using pc by simp
  note hd = mono_held [OF g held]
  have "next_ok bs (Suc n) m (mo_last_sent s) (mo_fetcher s)"
    using next_ok_mono [OF mono_goodD(8) [OF g]] by simp
  moreover have "results_ok (Suc n) (n0 + mo_count s) (mo_results s) (QStore h)"
    using g pc hd(1) results_ok_commit [of n "n0 + mo_count s" "mo_results s" "mo_processor s"] by (simp add: mono_good_def)
  ultimately show ?thesis using g db hd pc by (simp add: mono_good_def watermark_def split: if_splits)
qed

lemma mono_processor_good:
  assumes g: "mono_good width n0 n m s" and hl: "headers_link sha decode_header bs"
    and step: "mono_processor_step sha decode_header None the_storage Rt width s = Some s'"
  shows "mono_good width n0 n m s' \<or> mono_good width n0 (Suc n) m s'"
proof (cases "mo_processor s")
  case QRecv
  show ?thesis
  proof (cases "mo_blocks s")
    case (Cons b blks)
    obtain h data hash where b: "b = (h, data, hash)" by (rule prod_cases3)
    have "map (\<lambda>h. (h, bs ! h)) [n..<m] = b # blks" using mono_goodD(7) [OF g] QRecv Cons by simp
    moreover have "s' = s\<lparr>mo_blocks := blks, mo_processor := QValidate h data hash\<rparr>"
      using QRecv Cons b step by (simp add: mono_processor_step_def Let_def)
    ultimately have "mono_good width n0 n m s'"
      using g QRecv Cons b results_ok_cong [of QRecv "QValidate h data hash"]
      by (simp add: mono_good_def watermark_def split: if_splits)
    then show ?thesis ..
  qed (use QRecv step in \<open>simp add: mono_processor_step_def\<close>)
next
  case (QValidate h data hash)
  then have held: "held (mo_processor s) = [(h, data, hash)]" by simp
  note hd = mono_held [OF g held]
  have "s' = s\<lparr>mo_engine := mo_engine s, mo_processor := QAttempt n data hash 0 None\<rparr>"
    using step QValidate hd validate_next [OF hl mono_goodD(4) [OF g] hd(2)]
    by (simp add: mono_processor_step_def Let_def)
  with mono_processor_at [OF g refl, of "QAttempt n data hash 0 None"] QValidate hd show ?thesis by simp
next
  case (QAttempt h data hash k err)
  then have held: "held (mo_processor s) = [(h, data, hash)]" by simp
  note hd = mono_held [OF g held]
  have "k = 0" using mono_goodD(5) [OF g] QAttempt by simp
  with step QAttempt hd mono_goodD(6) [OF g] have "s' = s\<lparr>mo_processor := QExec n data hash 1\<rparr>"
    by (simp add: mono_processor_step_def Let_def MAX_ATOMIC_COMMIT_ATTEMPTS_def sat_add32_def u32_max_def)
  with mono_processor_at [OF g refl, of "QExec n data hash 1"] QAttempt hd show ?thesis by simp
next
  case (QExec h data hash k)
  then have held: "held (mo_processor s) = [(h, data, hash)]" by simp
  note hd = mono_held [OF g held]
  obtain d x where w: "world (mo_engine s) = (d, x)" by (rule prod.exhaust)
  have db: "db_at hexe index bs n (contents d)" using mono_goodD(4) [OF g] w by simp
  have b: "n < length bs" "bs ! n = (data, hash)" using hd(2) by (simp_all add: block_of_def)
  obtain res x' where r: "r_process_atomic Rt n data hash (d, x) = (Inr res, (d, x'))"
      "built hexe to_data index (contents d) n data hash res"
    using exec_next [OF db b] by blast
  with step QExec w hd
  have "s' = s\<lparr>mo_engine := (mo_engine s)\<lparr>world := (d, x')\<rparr>, mo_processor := QCommit n data hash k res\<rparr>"
    by (simp add: mono_processor_step_def Let_def on_world_def)
  with mono_processor_at [OF g, of "(d, x')" "QCommit n data hash k res"] QExec hd r w show ?thesis by simp
next
  case (QCommit h data hash k res)
  then have held: "held (mo_processor s) = [(h, data, hash)]" by simp
  note hd = mono_held [OF g held]
  obtain d x where w: "world (mo_engine s) = (d, x)" by (rule prod.exhaust)
  have db: "db_at hexe index bs n (contents d)" using mono_goodD(4) [OF g] w by simp
  have b: "n < length bs" "bs ! n = (data, hash)" "built hexe to_data index (contents d) n data hash res"
    using hd(1,2) mono_goodD(5) [OF g] QCommit w by (simp_all add: block_of_def)
  obtain d' where
      c: "s_commit the_storage n (result_hash res) (state_root res) (batch_data res) (d, x) = (Inr (), (d', x))"
      "db_at hexe index bs (Suc n) (contents d')"
    by (rule commit_next [OF db b]) (rule that)
  with step QCommit w hd
  have "s' = s\<lparr>mo_engine := (mo_engine s)\<lparr>world := (d', x)\<rparr>, mo_processor := QStore h\<rparr>"
    by (simp add: mono_processor_step_def Let_def on_world_def)
  with mono_committed [OF g QCommit, of "(d', x)"] c(2) show ?thesis by simp
next
  case (QRefresh h data hash k err)
  then show ?thesis using mono_goodD(5) [OF g] by simp
next
  case (QStore h)
  have res: "results_ok n (n0 + mo_count s) (mo_results s) (QStore h)" using g QStore by (simp add: mono_good_def)
  have h: "Suc h = n" using results_ok_last [OF res, of "Success h"] by simp
  moreover have "n \<le> u32_max" using mono_goodD(2,3) [OF g] len by simp
  ultimately have "s' = s\<lparr>mo_engine := (mo_engine s)\<lparr>current_height := n,
      blocks_processed := add32 (blocks_processed (mo_engine s)) 1\<rparr>, mo_processor := QReport (Success h)\<rparr>"
    using QStore step by (simp add: mono_processor_step_def Let_def)
  with g QStore results_ok_cong [of "QStore h" "QReport (Success h)"] have "mono_good width n0 n m s'"
    by (clarsimp simp: mono_good_def watermark_def split: if_split_asm)
  then show ?thesis ..
next
  case (QReport r)
  consider "s' = s\<lparr>mo_processor := QDone\<rparr>"
    | "length (mo_results s) < width" "s' = s\<lparr>mo_results := mo_results s @ [r], mo_processor := QRecv\<rparr>"
    using step QReport by (auto simp: mono_processor_step_def Let_def split: if_splits)
  then have "mono_good width n0 n m s'"
  proof cases
    case 1
    with g QReport results_ok_dropped [of n _ _ r] show ?thesis
      by (clarsimp simp: mono_good_def watermark_def split: if_splits)
  next
    case 2
    with g QReport results_ok_reported [of n _ _ r] show ?thesis
      by (clarsimp simp: mono_good_def watermark_def split: if_splits)
  qed
  then show ?thesis ..
qed (use step in \<open>simp add: mono_processor_step_def\<close>)

subsection \<open>The results and the reachable states\<close>

lemma mono_indexer_good:
  assumes g: "mono_good width n0 n m s" and step: "mono_indexer_step nd the_storage Rt cfg s = Some s'"
  shows "mono_good width n0 n m s'"
proof (cases "mo_indexer s")
  case IRecv
  show ?thesis
  proof (cases "mo_results s")
    case (Cons r rs)
    have res: "results_ok n (n0 + mo_count s) (r # rs) (mo_processor s)" using g Cons by (simp add: mono_good_def)
    note taken = results_ok_taken [OF res]
    have "s' = s\<lparr>mo_results := rs, mo_count := mo_count s + 1, mo_indexer := IExit\<rparr>"
      using step IRecv Cons taken(1) by (simp add: mono_indexer_step_def)
    with g Cons taken(2) show ?thesis by (clarsimp simp: mono_good_def watermark_def split: if_split_asm)
  qed (use step IRecv in \<open>simp add: mono_indexer_step_def\<close>)
next
  case IExit
  then have "s' = s\<lparr>mo_indexer := IDone\<rparr> \<or> s' = s\<lparr>mo_indexer := IRecv\<rparr>"
    using step by (auto simp: mono_indexer_step_def split: if_splits)
  with g show ?thesis by (elim disjE; clarsimp simp: mono_good_def watermark_def split: if_split_asm)
qed (use g step in \<open>auto simp: mono_indexer_step_def mono_good_def\<close>)

lemma mono_step_good:
  assumes "mono_good width n0 n m s" "width \<le> u32_max" "headers_link sha decode_header bs"
    and "mono_step sha decode_header None nd the_storage Rt cfg width s s'"
  shows "mono_good width n0 n m s' \<or> mono_good width n0 n (Suc m) s' \<or> mono_good width n0 (Suc n) m s'"
  using assms(4)
proof (cases rule: mono_step.cases)
  case mono_fetches
  with mono_fetcher_good [OF assms(1,2)] show ?thesis by blast
next
  case mono_processes
  with mono_processor_good [OF assms(1,3)] show ?thesis by blast
next
  case mono_indexes
  with mono_indexer_good [OF assms(1)] show ?thesis by blast
qed

lemma mono_reaches_good:
  assumes "mono_reaches sha decode_header None nd the_storage Rt cfg width s s'"
    and "width \<le> u32_max" "headers_link sha decode_header bs" "mono_good width n0 n m s"
  shows "\<exists>n' m'. n \<le> n' \<and> m \<le> m' \<and> mono_good width n0 n' m' s'"
  using assms(1)
proof (induction rule: mono_reaches_invariant)
  case (step t t')
  then obtain n' m' where "n \<le> n'" "m \<le> m'" "mono_good width n0 n' m' t" by blast
  with mono_step_good [OF _ assms(2,3) step(1), of n0 n' m'] show ?case by (meson le_SucI)
qed (use assms(4) in blast)

lemma mono_good_start:
  assumes "db_at hexe index bs n (contents (fst (world e)))" "current_height e = n"
  shows "mono_good width n n n (new_mono e)"
  using assms by (simp add: mono_good_def new_mono_def watermark_def LAST_SENT_UNSET_def results_ok_def db_at_def)

end

end
