(* ===== verification/MonoLive.thy ===== *)
theory MonoLive
  imports MonoProofs
begin

text \<open>
  Progress of the binary's tasks: from every reachable state over a standing chain some
  task can move closer to the commit of the next block.
\<close>

fun fetcher_rank :: "mono_fetcher \<Rightarrow> nat" where
  "fetcher_rank GDone = 0"
| "fetcher_rank (GSend h data hash) = 1"
| "fetcher_rank (GBatchSend h fetch_end data hash) = 1"
| "fetcher_rank (GDrop sn h data hash) = 2"
| "fetcher_rank (GNextFetch sn h) = 3"
| "fetcher_rank (GNextPick sn c r) = 4"
| "fetcher_rank (GNextStore sn c r) = 5"
| "fetcher_rank (GNextReorg sn c r) = 6"
| "fetcher_rank (GNextTip sn c) = 7"
| "fetcher_rank (GNext sn) = 8"
| "fetcher_rank (GBatch h fetch_end) = (if h < fetch_end then 8 else 13)"
| "fetcher_rank (GDecide t r) = 9"
| "fetcher_rank (GRemote t) = 10"
| "fetcher_rank GTip = 11"
| "fetcher_rank GTop = 12"
| "fetcher_rank (GBump h) = 14"
| "fetcher_rank (GBatchBump h fetch_end) = 14"

fun hand_rank :: "mono_processor \<Rightarrow> nat" where
  "hand_rank (QValidate h data hash) = 4"
| "hand_rank (QAttempt h data hash k err) = 3"
| "hand_rank (QExec h data hash k) = 2"
| "hand_rank (QCommit h data hash k res) = 1"
| "hand_rank pc = 0"

definition mono_rank :: "'w mono \<Rightarrow> nat" where
  "mono_rank s =
     (case mo_processor s of
        QRecv \<Rightarrow> if mo_blocks s = [] then 6 + fetcher_rank (mo_fetcher s) else 5
      | QStore h \<Rightarrow> 22 + 2 * length (mo_results s) + (if mo_indexer s = IExit then 1 else 0)
      | QReport r \<Rightarrow> 21 + 2 * length (mo_results s) + (if mo_indexer s = IExit then 1 else 0)
      | pc \<Rightarrow> hand_rank pc)"

lemma fetcher_rank_bound: "fetcher_rank pc \<le> 14"
  by (cases pc) simp_all

text \<open>No task has ended; without \<open>exit_at\<close> none does.\<close>

definition running :: "'w mono \<Rightarrow> bool" where
  "running s \<longleftrightarrow> mo_fetcher s \<noteq> GDone \<and> mo_processor s \<noteq> QDone \<and> mo_indexer s \<noteq> IDone"

lemma running_step:
  assumes "running s" "exit_at cfg = None" "mono_step sha decode_header validator nd S R cfg width s s'"
  shows "running s'"
  using assms(3)
proof (cases rule: mono_step.cases)
  case mono_fetches
  then show ?thesis using assms(1,2) unfolding running_def
    by (cases "mo_fetcher s") (auto simp: mono_fetcher_step_def next_block_step_def Let_def split: if_splits sum.splits prod.splits option.splits)
next
  case mono_processes
  then show ?thesis using assms(1) unfolding running_def
    by (cases "mo_processor s") (auto simp: mono_processor_step_def Let_def split: if_splits sum.splits prod.splits list.splits)
next
  case mono_indexes
  then show ?thesis using assms(1,2) unfolding running_def
    by (cases "mo_indexer s") (auto simp: mono_indexer_step_def Let_def split: if_splits sum.splits prod.splits list.splits block_result.splits)
qed

lemma fetch_range_some:
  assumes "(if sent < 0 then tip else max (nat sent + 1) tip) = a" "sent < int u32_max" "a \<le> remote" "remote < u32_max"
    "0 < width" "width \<le> u32_max"
  shows "\<exists>b > a. compute_next_fetch_range tip sent width remote = Some (a, b)"
proof -
  have w: "width mod 4294967296 = width" using assms(6) by (simp add: u32_max_def)
  have start: "max (if sent < 0 then tip else sat_add32 (u32_of_i64 sent) 1) tip = a"
    using assms(1,2) by (simp split: if_splits)
  have r: "sat_add32 remote 1 = remote + 1" using assms(4) by (simp add: sat_add32_def)
  have "a < sat_add32 a width" using assms(3-5) by (simp add: sat_add32_def u32_max_def)
  then show ?thesis using assms(3)
    unfolding compute_next_fetch_range_def Let_def start w r by auto
qed

context pipeline_env
begin

lemma mono_fetcher_moves:
  assumes g: "mono_good width n0 n m s" and w: "0 < width" "width \<le> u32_max" and cfg: "exit_at cfg = None"
    and idle: "mo_processor s = QRecv" "mo_blocks s = []" "n < length bs" and run: "mo_fetcher s \<noteq> GDone"
  shows "\<exists>s'. mono_fetcher_step nd the_storage Rt cfg width s = Some s' \<and> mo_processor s' = QRecv
    \<and> (mo_blocks s' \<noteq> [] \<or> fetcher_rank (mo_fetcher s') < fetcher_rank (mo_fetcher s))"
proof -
  have "map (\<lambda>h. (h, bs ! h)) [n..<m] = []" using mono_goodD(7) [OF g] idle by simp
  then have m: "m = n" "m < length bs" using mono_goodD(2) [OF g] idle(3) by auto
  note f = mono_goodD(8) [OF g] and db = mono_goodD(4) [OF g] and starts = fetch_starts [OF g]
  show ?thesis
  proof (cases "mo_fetcher s")
    case (GRemote t)
    then show ?thesis using idle by (simp add: mono_fetcher_step_def next_block_step_def on_world_def node_facts(2))
  next
    case (GDecide t r)
    have t: "tip_ok n m (mo_last_sent s) t" "r = length bs - 1" using f GDecide by simp_all
    have sent: "mo_last_sent s < int u32_max"
      using mono_goodD(9) [OF g] GDecide m len by (simp add: watermark_def split: if_splits)
    have "m \<le> r" "r < u32_max" using m t len length_bs_pos by linarith+
    from fetch_range_some [OF _ sent this w, of t] starts(3) [OF t(1)] GDecide obtain b where
        "m < b" "compute_next_fetch_range t (mo_last_sent s) width r = Some (m, b)" by auto
    then show ?thesis using GDecide idle by (simp add: mono_fetcher_step_def next_block_step_def Let_def)
  next
    case (GNextTip sn t)
    then show ?thesis using idle by (simp add: mono_fetcher_step_def next_block_step_def on_world_def node_facts(2))
  next
    case (GNextReorg sn t r)
    then have t: "t \<le> n" using f by (simp add: tip_ok_def)
    from GNextReorg idle handle_reorg_keeps_engine [OF db t] show ?thesis by (simp add: mono_fetcher_step_def next_block_step_def)
  next
    case (GNextPick sn t r)
    then have "pick_height sn t = m" "m \<le> r" using f starts(2) [of t] m length_bs_pos by auto
    with GNextPick idle cfg show ?thesis by (simp add: mono_fetcher_step_def next_block_step_def Let_def)
  next
    case (GNextFetch sn h)
    then have "h < length bs" using f by simp
    with GNextFetch idle show ?thesis by (simp add: mono_fetcher_step_def next_block_step_def on_world_def node_facts(3))
  next
    case (GDrop sn h data hash)
    then have "sn = mo_last_sent s" "h = m" using f by simp_all
    moreover have "near_tip_min_send_height (mo_last_sent s) \<le> m"
    proof (cases "mo_last_sent s < 0")
      case False
      then have "mo_last_sent s = int m - 1"
        using mono_goodD(9) [OF g] GDrop by (simp add: watermark_def)
      moreover from this have "mo_last_sent s < int u32_max" using m len by simp
      ultimately show ?thesis using min_send_height [of "mo_last_sent s"] False by auto
    qed (simp add: near_tip_min_send_height_def)
    ultimately show ?thesis using GDrop idle by (simp add: mono_fetcher_step_def next_block_step_def near_tip_should_drop_def)
  next
    case (GBatch h b)
    then have "h < length bs" using f m by simp
    with GBatch idle show ?thesis
      by (simp add: mono_fetcher_step_def next_block_step_def Let_def on_world_def node_facts(3))
  next
    case (GBatchBump h b)
    then show ?thesis using idle by (simp add: mono_fetcher_step_def next_block_step_def Let_def)
  qed (use idle cfg w run in \<open>simp_all add: mono_fetcher_step_def next_block_step_def Let_def\<close>)
qed

lemma mono_holder_moves:
  assumes g: "mono_good width n0 n m s" and hl: "headers_link sha decode_header bs"
    and held: "held (mo_processor s) = [(h, data, hash)]"
  shows "\<exists>s'. mono_processor_step sha decode_header None the_storage Rt width s = Some s'
    \<and> (mono_good width n0 (Suc n) m s'
       \<or> mono_good width n0 n m s' \<and> held (mo_processor s') \<noteq> [] \<and> hand_rank (mo_processor s') < hand_rank (mo_processor s))"
proof -
  let ?step = "mono_processor_step sha decode_header None the_storage Rt width s"
  have ex: "\<exists>s'. ?step = Some s' \<and>
      (held (mo_processor s') \<noteq> [] \<and> (hand_rank (mo_processor s') < hand_rank (mo_processor s)
          \<or> (\<exists>h data hash k e. mo_processor s' = QRefresh h data hash k e))
       \<or> (\<exists>r. unreported (mo_processor s') = [r] \<and> (r = Success h \<or> (\<exists>h e. r = Failure h e))))"
    using held mono_goodD(5) [OF g] by (cases "mo_processor s")
      (auto simp: mono_processor_step_def Let_def split: sum.split prod.split)
  then obtain s' where s': "?step = Some s'" by blast
  from mono_processor_good [OF g hl this] show ?thesis
  proof
    assume g': "mono_good width n0 n m s'"
    have "unreported (mo_processor s') \<noteq> [r]" if "r = Success h \<or> (\<exists>h e. r = Failure h e)" for r
    proof
      assume "unreported (mo_processor s') = [r]"
      moreover have "results_ok n (n0 + mo_count s') (mo_results s') (mo_processor s')" using g' by (simp add: mono_good_def)
      ultimately have "r = Success (n - 1)" "0 < n" using results_ok_last by blast+
      with that mono_held(1) [OF g held] show False by auto
    qed
    moreover have "mo_processor s' \<noteq> QRefresh h data hash k e" for h data hash k e
      using mono_goodD(5) [OF g'] by auto
    ultimately show ?thesis using ex s' g' by auto
  qed (use s' in blast)
qed

lemma mono_step_closer:
  assumes g: "mono_good width n0 n m s" and w: "0 < width" "width \<le> u32_max" and cfg: "exit_at cfg = None"
    and hl: "headers_link sha decode_header bs" and more: "n < length bs" and run: "running s"
  shows "\<exists>s' m'. mono_step sha decode_header None nd the_storage Rt cfg width s s'
    \<and> (mono_good width n0 (Suc n) m' s' \<or> mono_good width n0 n m' s' \<and> mono_rank s' < mono_rank s)"
proof -
  have results: "\<exists>s'. mono_indexer_step nd the_storage Rt cfg s = Some s' \<and> mo_processor s' = mo_processor s
      \<and> 2 * length (mo_results s') + (if mo_indexer s' = IExit then 1 else 0)
          < 2 * length (mo_results s) + (if mo_indexer s = IExit then 1 else 0)"
    if full: "mo_results s \<noteq> []"
  proof (cases "mo_indexer s")
    case IRecv
    obtain r rs where r: "mo_results s = r # rs" using full by (cases "mo_results s") auto
    then have "results_ok n (n0 + mo_count s) (r # rs) (mo_processor s)" using g by (simp add: mono_good_def)
    from results_ok_taken(1) [OF this] IRecv r show ?thesis by (simp add: mono_indexer_step_def)
  qed (use mono_goodD(10) [OF g] run cfg in \<open>simp_all add: running_def mono_indexer_step_def\<close>)
  have moved: ?thesis
    if "mono_processor_step sha decode_header None the_storage Rt width s = Some s'"
       "mono_good width n0 (Suc n) m s' \<or> mono_good width n0 n m s' \<and> mono_rank s' < mono_rank s" for s'
    using that mono_processes by blast
  have holding: ?thesis if held: "held (mo_processor s) = [(h, data, hash)]" for h data hash
  proof -
    have rank: "mono_rank t = hand_rank (mo_processor t)" if "held (mo_processor t) \<noteq> []" for t :: "('d \<times> 'x) mono"
      using that by (cases "mo_processor t") (simp_all add: mono_rank_def)
    obtain s' where step: "mono_processor_step sha decode_header None the_storage Rt width s = Some s'"
        and s': "mono_good width n0 (Suc n) m s'
          \<or> mono_good width n0 n m s' \<and> held (mo_processor s') \<noteq> [] \<and> hand_rank (mo_processor s') < hand_rank (mo_processor s)"
      using mono_holder_moves [OF g hl held] by blast
    have "mono_good width n0 (Suc n) m s' \<or> mono_good width n0 n m s' \<and> mono_rank s' < mono_rank s"
      using s' rank [of s'] rank [of s] held by auto
    with moved [OF step] show ?thesis by blast
  qed
  show ?thesis
  proof (cases "mo_processor s")
    case QRecv
    show ?thesis
    proof (cases "mo_blocks s")
      case Nil
      have "mo_fetcher s \<noteq> GDone" using run by (simp add: running_def)
      from mono_fetcher_moves [OF g w cfg QRecv Nil more this] obtain s' where
          s': "mono_fetcher_step nd the_storage Rt cfg width s = Some s'" "mo_processor s' = QRecv"
            "mo_blocks s' \<noteq> [] \<or> fetcher_rank (mo_fetcher s') < fetcher_rank (mo_fetcher s)" by blast
      then have "mono_rank s' < mono_rank s" using QRecv Nil by (auto simp: mono_rank_def)
      with mono_fetcher_good [OF g w(2) s'(1)] s'(1) show ?thesis using mono_fetches by blast
    next
      case (Cons b blks)
      obtain h data hash where b: "b = (h, data, hash)" by (rule prod_cases3)
      let ?s' = "s\<lparr>mo_blocks := blks, mo_processor := QValidate h data hash\<rparr>"
      have step: "mono_processor_step sha decode_header None the_storage Rt width s = Some ?s'"
        using QRecv Cons b by (simp add: mono_processor_step_def Let_def)
      have "mono_rank ?s' < mono_rank s" using QRecv Cons by (simp add: mono_rank_def)
      with mono_processor_good [OF g hl step] moved [OF step] show ?thesis by blast
    qed
  next
    case (QStore h)
    let ?s' = "s\<lparr>mo_engine := (mo_engine s)\<lparr>current_height := add32 h 1,
      blocks_processed := add32 (blocks_processed (mo_engine s)) 1\<rparr>, mo_processor := QReport (Success h)\<rparr>"
    have step: "mono_processor_step sha decode_header None the_storage Rt width s = Some ?s'"
      using QStore by (simp add: mono_processor_step_def Let_def)
    have "mono_rank ?s' < mono_rank s" using QStore by (simp add: mono_rank_def)
    with mono_processor_good [OF g hl step] moved [OF step] show ?thesis by blast
  next
    case (QReport r)
    show ?thesis
    proof (cases "length (mo_results s) < width")
      case True
      let ?s' = "s\<lparr>mo_results := mo_results s @ [r], mo_processor := QRecv\<rparr>"
      have step: "mono_processor_step sha decode_header None the_storage Rt width s = Some ?s'"
        using QReport True run by (simp add: mono_processor_step_def Let_def running_def)
      have "mono_rank ?s' < mono_rank s" using QReport fetcher_rank_bound [of "mo_fetcher s"] by (simp add: mono_rank_def)
      with mono_processor_good [OF g hl step] moved [OF step] show ?thesis by blast
    next
      case False
      then have "mo_results s \<noteq> []" using w by auto
      from results [OF this] obtain s' where
          s': "mono_indexer_step nd the_storage Rt cfg s = Some s'" "mo_processor s' = mo_processor s"
            "2 * length (mo_results s') + (if mo_indexer s' = IExit then 1 else 0)
          < 2 * length (mo_results s) + (if mo_indexer s = IExit then 1 else 0)" by blast
      then have "mono_rank s' < mono_rank s" using QReport by (simp add: mono_rank_def)
      with mono_indexer_good [OF g s'(1)] s'(1) show ?thesis using mono_indexes by blast
    qed
  next
    case QDone
    with run show ?thesis by (simp add: running_def)
  next
    case (QRefresh h data hash k e)
    then show ?thesis using mono_goodD(5) [OF g] by simp
  qed (rule holding, simp)+
qed

lemma mono_reaches_tip:
  assumes "mono_good width n0 n m s" "0 < width" "width \<le> u32_max" "exit_at cfg = None"
    "headers_link sha decode_header bs" "running s"
  shows "\<exists>s' m'. mono_reaches sha decode_header None nd the_storage Rt cfg width s s'
    \<and> mono_good width n0 (length bs) m' s'"
  using assms(1,6)
proof (induction "(length bs - n, mono_rank s)" arbitrary: n m s rule: wf_induct_rule [OF wf_lex_prod [OF wf_less_than wf_less_than]])
  case less: 1
  show ?case
  proof (cases "n < length bs")
    case False
    then have "n = length bs" using mono_goodD(2,3) [OF less.prems(1)] by simp
    with less.prems(1) show ?thesis unfolding mono_reaches_def by blast
  next
    case True
    obtain s1 m1 where step: "mono_step sha decode_header None nd the_storage Rt cfg width s s1"
        and s1: "mono_good width n0 (Suc n) m1 s1 \<or> mono_good width n0 n m1 s1 \<and> mono_rank s1 < mono_rank s"
      using mono_step_closer [OF less.prems(1) assms(2-5) True less.prems(2)] by blast
    note run = running_step [OF less.prems(2) assms(4) step]
    from s1 have "\<exists>s' m'. mono_reaches sha decode_header None nd the_storage Rt cfg width s1 s'
        \<and> mono_good width n0 (length bs) m' s'"
    proof
      assume "mono_good width n0 (Suc n) m1 s1"
      then show ?thesis by (rule less.hyps [rotated]) (use True run in \<open>simp_all, linarith?\<close>)
    next
      assume "mono_good width n0 n m1 s1 \<and> mono_rank s1 < mono_rank s"
      then have "mono_good width n0 n m1 s1" "mono_rank s1 < mono_rank s" by simp_all
      then show ?thesis by (intro less.hyps [OF _ _ run]) simp_all
    qed
    with step show ?thesis unfolding mono_reaches_def by (meson converse_rtranclp_into_rtranclp)
  qed
qed

end

end
