(* ===== verification/MonoProps.thy ===== *)
theory MonoProps
  imports MonoLive PipelineProps
begin

text \<open>
  What the indexing tasks of the binary promise: the invariant of \<open>MonoProofs\<close> and the
  progress of \<open>MonoLive\<close>, from the state in which the tasks are spawned.
\<close>

section \<open>A sample run\<close>

text \<open>The sample chain of \<open>PipelineProps\<close>, with a hash and a header decoder under which its blocks link.\<close>

definition sample_sha :: "bytes \<Rightarrow> bytes" where
  "sample_sha x = (if x = ''B'' then ''b'' else if x = ''C'' then ''c'' else x)"

definition sample_header :: "bytes \<Rightarrow> string + bytes \<times> bytes" where
  "sample_header data = Inr (data, ''b'')"

lemma sample_headers_link: "headers_link sample_sha sample_header sample_blocks"
  by (simp add: headers_link_def sample_blocks_def sample_sha_def sample_header_def less_Suc_eq)

lemma sample_mono_config: "exit_at default_config = None" "reorg_check_threshold default_config \<le> u32_max"
  by (simp_all add: default_config_def u32_max_def)

section \<open>Properties\<close>

lemma mono_prefetch_bounds:
  "0 < mono_prefetch_size requested threshold" "threshold \<le> u32_max \<Longrightarrow> mono_prefetch_size requested threshold \<le> u32_max"
  by (auto simp: mono_prefetch_size_def u32_max_def)

lemma good_start_running: "running (new_mono e)"
  by (simp add: running_def new_mono_def)

lemma running_reached:
  assumes "mono_reaches sha decode_header validator nd S R cfg width s s'" "exit_at cfg = None" "running s"
  shows "running s'"
  using assms(1)
proof (induction rule: mono_reaches_invariant)
  case (step t t')
  with running_step assms(2) show ?case by metis
qed (rule assms(3))

text \<open>
  C30: the pipeline the binary runs. On the durable backend, with the built-in continuity
  check and a node whose chain of linked blocks stands still, in every state the three tasks
  can reach, whatever their interleaving and the prefetch size, the database is exactly the
  index of a prefix of the node's chain; the blocks in flight are the next ones, each once and
  in order (the watermark never lets the fetcher send a height twice or skip one); the
  results are the successes of the blocks indexed, in order, and no block has failed. And the
  tasks never wedge: unless an exit height stops them, from every such state a continuation
  indexes the node's whole chain.
\<close>

theorem mono_indexes_node_chain:
  assumes "rocks_ok R contents" "batch_format to_data from_data" "hex_codec hexe hexd"
    and "node_serves nd bs" "quiet_runtime contents Rt" "indexes hexe R to_data index Rt"
    and "chain_ok (node_kvs index bs (length bs))" "length bs \<le> u32_max"
    and "headers_link sha decode_header bs" "reorg_check_threshold cfg \<le> u32_max"
    and "db_at hexe index bs n (contents (fst (world e)))" "current_height e = n"
    and "mono_reaches sha decode_header None nd (rs_adapter None R from_data) Rt cfg
           (mono_prefetch_size requested (reorg_check_threshold cfg)) (new_mono e) s"
  shows "(\<exists>n' m. n \<le> n' \<and> n' \<le> m \<and> m \<le> length bs
       \<and> (\<forall>key q. get_at_height (rocks_get R (fst (world (mo_engine s)))) hexd key q
            = Inr (last_write (node_kvs index bs n') key q))
       \<and> hashes_recorded (contents (fst (world (mo_engine s)))) (map snd (take n' bs))
       \<and> current_height (mo_engine s) \<le> n'
       \<and> held (mo_processor s) @ mo_blocks s = map (\<lambda>h. (h, bs ! h)) [n'..<m]
       \<and> (\<exists>k \<le> n'. mo_results s @ unreported (mo_processor s) = map Success [n + mo_count s..<k])
       \<and> mo_indexer s \<in> {IRecv, IExit, IDone})
     \<and> (exit_at cfg = None \<longrightarrow>
         (\<exists>t. mono_reaches sha decode_header None nd (rs_adapter None R from_data) Rt cfg
                (mono_prefetch_size requested (reorg_check_threshold cfg)) s t
            \<and> (\<forall>key q. get_at_height (rocks_get R (fst (world (mo_engine t)))) hexd key q
                 = Inr (last_write (node_kvs index bs (length bs)) key q))
            \<and> hashes_recorded (contents (fst (world (mo_engine t)))) (map snd bs)))"
proof -
  have env: "pipeline_env R contents to_data from_data hexe index nd Rt bs"
    by unfold_locales (fact assms)+
  let ?w = "mono_prefetch_size requested (reorg_check_threshold cfg)"
  note w = mono_prefetch_bounds(1) [of requested "reorg_check_threshold cfg"] mono_prefetch_bounds(2) [OF assms(10)]
  have query: "get_at_height (rocks_get R (fst (world (mo_engine t)))) hexd key q
      = Inr (last_write (node_kvs index bs n') key q)" if "db_at hexe index bs n' (contents (fst (world (mo_engine t))))"
    for n' t key q
    using that pipeline_env.fits_take [OF env, of n'] by (intro durable_query [OF assms(1,3)]) (simp_all add: db_at_def)
  obtain n' m where n': "n \<le> n'" and g: "pipeline_env.mono_good contents to_data hexe index bs ?w n n' m s"
    using pipeline_env.mono_reaches_good [OF env assms(13) w(2) assms(9)
        pipeline_env.mono_good_start [OF env assms(11,12)]] by blast
  note good = pipeline_env.mono_goodD [OF env g]
  have res: "\<exists>k \<le> n'. mo_results s @ unreported (mo_processor s) = map Success [n + mo_count s..<k]"
    using g by (auto simp: pipeline_env.mono_good_def [OF env] results_ok_def)
  have "n' \<le> length bs" "hashes_recorded (contents (fst (world (mo_engine s)))) (map snd (take n' bs))"
    using good(4) by (simp_all add: db_at_def)
  with n' query [OF good(4)] good(2,3,6,7,10) res have "\<exists>n' m. n \<le> n' \<and> n' \<le> m \<and> m \<le> length bs
       \<and> (\<forall>key q. get_at_height (rocks_get R (fst (world (mo_engine s)))) hexd key q
            = Inr (last_write (node_kvs index bs n') key q))
       \<and> hashes_recorded (contents (fst (world (mo_engine s)))) (map snd (take n' bs))
       \<and> current_height (mo_engine s) \<le> n'
       \<and> held (mo_processor s) @ mo_blocks s = map (\<lambda>h. (h, bs ! h)) [n'..<m]
       \<and> (\<exists>k \<le> n'. mo_results s @ unreported (mo_processor s) = map Success [n + mo_count s..<k])
       \<and> mo_indexer s \<in> {IRecv, IExit, IDone}"
    by blast
  moreover have "\<exists>t. mono_reaches sha decode_header None nd (rs_adapter None R from_data) Rt cfg ?w s t
            \<and> (\<forall>key q. get_at_height (rocks_get R (fst (world (mo_engine t)))) hexd key q
                 = Inr (last_write (node_kvs index bs (length bs)) key q))
            \<and> hashes_recorded (contents (fst (world (mo_engine t)))) (map snd bs)" if "exit_at cfg = None"
  proof -
    note run = running_reached [OF assms(13) that good_start_running]
    from pipeline_env.mono_reaches_tip [OF env g w(1,2) that assms(9) run] obtain t m' where
        t: "mono_reaches sha decode_header None nd (rs_adapter None R from_data) Rt cfg ?w s t"
        "pipeline_env.mono_good contents to_data hexe index bs ?w n (length bs) m' t" by blast
    note db = pipeline_env.mono_goodD(4) [OF env t(2)]
    from t(1) query [OF db] db show ?thesis by (auto simp: db_at_def)
  qed
  ultimately show ?thesis by blast
qed

theorem mono_indexes_node_chain_witness:
  "\<exists>t. mono_reaches sample_sha sample_header None sample_node (rs_adapter None list_rocks sample_from) sample_runtime
         default_config (mono_prefetch_size (Some 8) 6) (new_mono sample_start) t
     \<and> (\<forall>key q. get_at_height (rocks_get list_rocks (fst (world (mo_engine t)))) hex_decode key q
          = Inr (last_write (node_kvs sample_index sample_blocks 2) key q))
     \<and> hashes_recorded (map_of (fst (world (mo_engine t)))) [''b'', ''c'']"
proof -
  have w: "mono_prefetch_size (Some 8) (reorg_check_threshold default_config) = mono_prefetch_size (Some 8) 6"
    by (simp add: default_config_def)
  have "mono_reaches sample_sha sample_header None sample_node (rs_adapter None list_rocks sample_from) sample_runtime
      default_config (mono_prefetch_size (Some 8) (reorg_check_threshold default_config))
      (new_mono sample_start) (new_mono sample_start)"
    by (simp add: mono_reaches_def)
  from mono_indexes_node_chain [OF list_facts hx.hex_codec_axioms sample_node_serves sample_runtime_facts
      sample_blocks_fit sample_headers_link sample_mono_config(2) sample_start_facts(1,2) this]
  show ?thesis unfolding w by (simp add: sample_mono_config sample_blocks_def numeral_2_eq_2)
qed

end
