(* ===== verification/WasmHost.thy ===== *)
theory WasmHost
  imports KvStore SmtTree "HOL-Library.Word"
begin

text \<open>
  The host side of the indexer's WebAssembly interface
  (\<open>crates/metashrew-runtime/src/runtime.rs\<close> and \<open>context.rs\<close>): the shared execution
  context, the linear memory a host call reads its arguments from and writes its results
  to, and one definition per host function of each linker (\<open>setup_linker\<close>,
  \<open>setup_linker_indexer\<close>, \<open>setup_linker_view\<close>, \<open>setup_linker_preview\<close>). A host function
  is a state transformer on the context and the store; its error is a panic of the host
  (the \<open>FATAL\<close> cases), every other failure is a flag it sets.

  \<open>decode\<close> is the protobuf decoder of \<open>KeyValueFlush\<close> (generated code over \<open>prost\<close>), and
  the \<open>i32\<close> pointers are 32-bit words.
\<close>

type_synonym i32 = "32 word"

section \<open>State\<close>

text \<open>
  The storage backend as the runtime uses it. A handle may share its database with its
  isolated copies: \<open>kb_shared d c\<close> is the handle \<open>d\<close> after the copy has become \<open>c\<close>.
  \<open>kb_bytes\<close> is \<open>BatchLike::to_bytes\<close>.
\<close>

record 'd kv_backend = "'d store_ops" +
  kb_track :: "bytes \<Rightarrow> bytes \<Rightarrow> 'd \<Rightarrow> 'd"
  kb_isolated :: "'d \<Rightarrow> 'd"
  kb_shared :: "'d \<Rightarrow> 'd \<Rightarrow> 'd"
  kb_bytes :: "batch \<Rightarrow> bytes"

record 'd rt_context =
  ctx_db :: 'd
  ctx_height :: nat
  ctx_block :: bytes
  ctx_state :: nat
  ctx_block_hash :: bytes
  ctx_pending :: "bytes option"

definition context_new :: "'d \<Rightarrow> nat \<Rightarrow> bytes \<Rightarrow> 'd rt_context" where
  "context_new d h blk =
     \<lparr>ctx_db = d, ctx_height = h, ctx_block = blk, ctx_state = 0, ctx_block_hash = [], ctx_pending = None\<rparr>"

text \<open>
  The store of an instance: \<open>State\<close> with its two failure fields, the text printed by
  \<open>__log\<close>, the exported linear memory (\<open>None\<close> when the module exports none) and the
  guest's own state.
\<close>

record 'g wasm_store =
  ws_failure :: bool
  ws_flush_error :: "string option"
  ws_printed :: bytes
  ws_memory :: "bytes option"
  ws_guest :: 'g

definition state_new :: "bytes option \<Rightarrow> 'g \<Rightarrow> 'g wasm_store" where
  "state_new memory guest =
     \<lparr>ws_failure = False, ws_flush_error = None, ws_printed = [], ws_memory = memory, ws_guest = guest\<rparr>"

type_synonym ('d, 'g) host_state = "'d rt_context \<times> 'g wasm_store"
type_synonym ('d, 'g, 'a) host = "(('d, 'g) host_state, 'a) st"

section \<open>Linear memory\<close>

definition i32_max :: i32 where "i32_max = 2147483647"

text \<open>\<open>v as usize\<close> on a 64-bit host: sign extension.\<close>

definition as_usize :: "i32 \<Rightarrow> nat" where
  "as_usize p = nat (sint p mod 18446744073709551616)"

text \<open>\<open>usize::try_from(i32)\<close>, with \<open>usize::MAX\<close> for a negative value.\<close>

definition to_usize_or_trap :: "i32 \<Rightarrow> nat" where
  "to_usize_or_trap p = (if 0 \<le> sint p then nat (sint p) else u64_max)"

definition to_signed_or_trap :: "nat \<Rightarrow> i32" where
  "to_signed_or_trap v = (if v < 2147483648 then of_nat v else i32_max)"

text \<open>\<open>Memory::write\<close>: all of the buffer, or nothing and an error.\<close>

definition mem_store_at :: "nat \<Rightarrow> bytes \<Rightarrow> bytes \<Rightarrow> bytes option" where
  "mem_store_at off bs mem =
     (if off + length bs \<le> length mem
      then Some (take off mem @ bs @ drop (off + length bs) mem) else None)"

definition try_read_arraybuffer_as_vec :: "bytes \<Rightarrow> i32 \<Rightarrow> bytes result" where
  "try_read_arraybuffer_as_vec data data_start =
     (if sint data_start < 4 \<or> nat (sint data_start) > length data
      then Inl ''memory error: invalid data_start''
      else
        let data_offset = nat (sint data_start);
            len = from_le (take 4 (drop (data_offset - 4) data));
            end_offset = data_offset + len
        in if end_offset > length data then Inl ''memory error: data extends beyond memory bounds''
           else Inr (take len (drop data_offset data)))"

definition read_arraybuffer_as_vec :: "bytes \<Rightarrow> i32 \<Rightarrow> bytes" where
  "read_arraybuffer_as_vec data data_start =
     (case try_read_arraybuffer_as_vec data data_start of Inr v \<Rightarrow> v | Inl _ \<Rightarrow> [])"

text \<open>The key helpers the runtime module exports.\<close>

definition db_make_list_key :: "bytes \<Rightarrow> nat \<Rightarrow> bytes" where
  "db_make_list_key v index = v @ le_bytes 4 index"

definition db_make_length_key :: "bytes \<Rightarrow> bytes" where
  "db_make_length_key key = db_make_list_key key u32_max"

definition db_make_updated_key :: "bytes \<Rightarrow> bytes" where
  "db_make_updated_key key = key"

definition u32_to_vec :: "nat \<Rightarrow> bytes" where
  "u32_to_vec v = le_bytes 4 v"

definition db_append :: "batch \<Rightarrow> bytes \<Rightarrow> bytes \<Rightarrow> batch" where
  "db_append batch up key = batch @ [Put (make_prefixed_key ''updates:'' up) key]"

section \<open>Host functions\<close>

text \<open>Set \<open>had_failure\<close> and return.\<close>

definition host_failure :: "('d, 'g, unit) host" where
  "host_failure s = (case s of (ctx, ws) \<Rightarrow> (Inr (), (ctx, ws\<lparr>ws_failure := True\<rparr>)))"

text \<open>\<open>mem.write(..).expect(msg)\<close>\<close>

definition write_or_panic :: "string \<Rightarrow> nat \<Rightarrow> bytes \<Rightarrow> bytes \<Rightarrow> ('d, 'g, unit) host" where
  "write_or_panic msg off bs data s =
     (case s of (ctx, ws) \<Rightarrow>
        case mem_store_at off bs data of
          Some data' \<Rightarrow> (Inr (), (ctx, ws\<lparr>ws_memory := Some data'\<rparr>))
        | None \<Rightarrow> (Inl msg, s))"

subsection \<open>Common to all linkers\<close>

definition host_len :: "('d, 'g, i32) host" where
  "host_len s = (case s of (ctx, ws) \<Rightarrow> (Inr (of_nat (length (ctx_block ctx)) + 4), s))"

definition host_load_input :: "i32 \<Rightarrow> ('d, 'g, unit) host" where
  "host_load_input data_start s =
     (case s of (ctx, ws) \<Rightarrow>
        case ws_memory ws of
          None \<Rightarrow> host_failure s
        | Some data \<Rightarrow>
            let input = le_bytes 4 (ctx_height ctx) @ ctx_block ctx;
                sz = to_usize_or_trap data_start
            in if sz = u64_max then (Inl ''FATAL: __load_input failed to convert data_start to usize'', s)
               else write_or_panic ''FATAL: __load_input memory write failed'' sz input data s)"

text \<open>Text is printed when it is well-formed UTF-8, that is, when lossy decoding keeps it.\<close>

definition host_log :: "i32 \<Rightarrow> ('d, 'g, unit) host" where
  "host_log data_start s =
     (case s of (ctx, ws) \<Rightarrow>
        case ws_memory ws of
          None \<Rightarrow> (Inr (), s)
        | Some data \<Rightarrow>
            (case try_read_arraybuffer_as_vec data data_start of
               Inl _ \<Rightarrow> (Inr (), s)
             | Inr text \<Rightarrow>
                 if utf8_lossy text = text
                 then (Inr (), (ctx, ws\<lparr>ws_printed := ws_printed ws @ text\<rparr>)) else (Inr (), s)))"

definition host_abort :: "('d, 'g, unit) host" where
  "host_abort = host_failure"

subsection \<open>Reading the database\<close>

text \<open>\<open>get_value_at_height\<close>: an absent key is the empty value.\<close>

definition get_value_at_height :: "(bytes \<Rightarrow> bytes option) \<Rightarrow> reader \<Rightarrow> bytes \<Rightarrow> nat \<Rightarrow> bytes result" where
  "get_value_at_height hexd rd key height =
     (case get_at_height rd hexd key height of
        Inr (Some v) \<Rightarrow> Inr v
      | Inr None \<Rightarrow> Inr []
      | Inl e \<Rightarrow> Inl (''Append-only query error: '' @ e))"

text \<open>
  \<open>__get\<close> at a query height; the three linkers have the same body but for the height and
  the panic texts, which begin with \<open>who\<close> and end with \<open>why\<close>. A failed lookup writes the
  empty value.
\<close>

definition get_body ::
    "string \<Rightarrow> string \<Rightarrow> (bytes \<Rightarrow> bytes result) \<Rightarrow> i32 \<Rightarrow> i32 \<Rightarrow> ('d, 'g, unit) host" where
  "get_body who why lookup key val s =
     (case s of (ctx, ws) \<Rightarrow>
        case ws_memory ws of
          None \<Rightarrow> host_failure s
        | Some data \<Rightarrow>
            (case try_read_arraybuffer_as_vec data key of
               Inr key_vec \<Rightarrow>
                 (case lookup key_vec of
                    Inr v \<Rightarrow> write_or_panic (who @ '' memory write failed'' @ why) (as_usize val) v data s
                  | Inl _ \<Rightarrow>
                      write_or_panic (who @ '' memory write failed for empty value'' @ why) (as_usize val) [] data s)
             | Inl _ \<Rightarrow>
                 write_or_panic (who @ '' memory write failed for error bits'' @ why) (as_usize (val - 4))
                   (u32_to_vec 2147483647) data s))"

definition get_len_body :: "(bytes \<Rightarrow> bytes result) \<Rightarrow> i32 \<Rightarrow> ('d, 'g, i32) host" where
  "get_len_body lookup key s =
     (case s of (ctx, ws) \<Rightarrow>
        case ws_memory ws of
          None \<Rightarrow> (Inr i32_max, s)
        | Some data \<Rightarrow>
            (case try_read_arraybuffer_as_vec data key of
               Inr key_vec \<Rightarrow>
                 (case lookup key_vec of
                    Inr v \<Rightarrow> (Inr (of_nat (length v)), s)
                  | Inl _ \<Rightarrow> (Inr 0, s))
             | Inl _ \<Rightarrow> (Inr i32_max, s)))"

definition indexer_get ::
    "(bytes \<Rightarrow> bytes option) \<Rightarrow> ('d, 'x) kv_backend_scheme \<Rightarrow> i32 \<Rightarrow> i32 \<Rightarrow> ('d, 'g, unit) host" where
  "indexer_get hexd B key val s =
     (let target_height = (if ctx_height (fst s) > 0 then ctx_height (fst s) - 1 else 0)
      in get_body ''FATAL: __get'' ''''
           (\<lambda>k. get_value_at_height hexd (so_read B (ctx_db (fst s))) k target_height) key val s)"

definition indexer_get_len ::
    "(bytes \<Rightarrow> bytes option) \<Rightarrow> ('d, 'x) kv_backend_scheme \<Rightarrow> i32 \<Rightarrow> ('d, 'g, i32) host" where
  "indexer_get_len hexd B key s =
     (let target_height = (if ctx_height (fst s) > 0 then ctx_height (fst s) - 1 else 0)
      in get_len_body
           (\<lambda>k. get_value_at_height hexd (so_read B (ctx_db (fst s))) k target_height) key s)"

definition view_get ::
    "(bytes \<Rightarrow> bytes option) \<Rightarrow> ('d, 'x) kv_backend_scheme \<Rightarrow> i32 \<Rightarrow> i32 \<Rightarrow> ('d, 'g, unit) host" where
  "view_get hexd B key val s =
     get_body ''FATAL: view __get'' '' - WASM memory bounds exceeded.''
       (\<lambda>k. get_value_at_height hexd (so_read B (ctx_db (fst s))) k (ctx_height (fst s))) key val s"

definition view_get_len ::
    "(bytes \<Rightarrow> bytes option) \<Rightarrow> ('d, 'x) kv_backend_scheme \<Rightarrow> i32 \<Rightarrow> ('d, 'g, i32) host" where
  "view_get_len hexd B key s =
     get_len_body
       (\<lambda>k. get_value_at_height hexd (so_read B (ctx_db (fst s))) k (ctx_height (fst s))) key s"

definition preview_get ::
    "(bytes \<Rightarrow> bytes option) \<Rightarrow> ('d, 'x) kv_backend_scheme \<Rightarrow> i32 \<Rightarrow> i32 \<Rightarrow> ('d, 'g, unit) host" where
  "preview_get hexd B key val s =
     get_body ''FATAL: preview __get'' '' - WASM memory bounds exceeded.''
       (\<lambda>k. get_value_at_height hexd (so_read B (ctx_db (fst s))) k (ctx_height (fst s))) key val s"

definition preview_get_len ::
    "(bytes \<Rightarrow> bytes option) \<Rightarrow> ('d, 'x) kv_backend_scheme \<Rightarrow> i32 \<Rightarrow> ('d, 'g, i32) host" where
  "preview_get_len hexd B key s =
     get_len_body
       (\<lambda>k. get_value_at_height hexd (so_read B (ctx_db (fst s))) k (ctx_height (fst s))) key s"

subsection \<open>Flushing\<close>

text \<open>\<open>Itertools::tuples\<close>: consecutive pairs; an odd last element is dropped.\<close>

fun tuples :: "'a list \<Rightarrow> ('a \<times> 'a) list" where
  "tuples (k # v # rest) = (k, v) # tuples rest"
| "tuples _ = []"

text \<open>
  \<open>calculate_and_store_state_root_batched\<close> on a backend with its state: the same batch,
  then one write.
\<close>

definition store_state_root_on ::
    "(bytes \<Rightarrow> bytes) \<Rightarrow> ('d, 'x) kv_backend_scheme \<Rightarrow> nat \<Rightarrow> (bytes \<times> bytes) list \<Rightarrow> bytes \<Rightarrow> ('d, bytes) st" where
  "store_state_root_on hexe B height key_values bh =
     sbind (lift_result (\<lambda>d. fst (build_state_root_batch_unwritten hexe (so_read B d) height key_values bh new_caches)))
       (\<lambda>(new_root, batch) d. case so_write B batch d of (r, d') \<Rightarrow> (storage_err (rbind r (\<lambda>_. Inr new_root)), d'))"

text \<open>\<open>__flush\<close> of the indexer: build and stash when the slot is armed, else write.\<close>

definition flush_failed :: "string \<Rightarrow> ('d, 'g, unit) host" where
  "flush_failed e s =
     (case s of (ctx, ws) \<Rightarrow> (Inr (), (ctx, ws\<lparr>ws_flush_error := Some e, ws_failure := True\<rparr>)))"

definition indexer_flush ::
    "(bytes \<Rightarrow> bytes) \<Rightarrow> (bytes \<Rightarrow> bytes list option) \<Rightarrow> ('d, 'x) kv_backend_scheme \<Rightarrow> i32 \<Rightarrow> ('d, 'g, unit) host" where
  "indexer_flush hexe decode B encoded s =
     (case s of (ctx, ws) \<Rightarrow>
        case ws_memory ws of
          None \<Rightarrow> host_failure s
        | Some data \<Rightarrow>
            (case try_read_arraybuffer_as_vec data encoded of
               Inl _ \<Rightarrow> host_failure s
             | Inr encoded_vec \<Rightarrow>
                 (case decode encoded_vec of
                    None \<Rightarrow> host_failure s
                  | Some decoded \<Rightarrow>
                      let key_values = tuples decoded;
                          d = fold (\<lambda>(k, v). kb_track B k v) key_values (ctx_db ctx)
                      in if ctx_pending ctx \<noteq> None then
                           (case fst (build_state_root_batch_unwritten hexe (so_read B d) (ctx_height ctx)
                                        key_values (ctx_block_hash ctx) new_caches) of
                              Inr (_, batch) \<Rightarrow>
                                (Inr (), (ctx\<lparr>ctx_db := d, ctx_pending := Some (kb_bytes B batch), ctx_state := 1\<rparr>, ws))
                            | Inl e \<Rightarrow> flush_failed e (ctx\<lparr>ctx_db := d\<rparr>, ws))
                         else
                           (case store_state_root_on hexe B (ctx_height ctx) key_values (ctx_block_hash ctx) d of
                              (Inr _, d') \<Rightarrow> (Inr (), (ctx\<lparr>ctx_db := d', ctx_state := 1\<rparr>, ws))
                            | (Inl e, d') \<Rightarrow> flush_failed e (ctx\<lparr>ctx_db := d'\<rparr>, ws)))))"

definition view_flush :: "i32 \<Rightarrow> ('d, 'g, unit) host" where
  "view_flush encoded s = (Inr (), s)"

text \<open>
  \<open>__flush\<close> of the preview linker: each pair is put into one batch against the database,
  not against the batch so far.
\<close>

definition preview_flush ::
    "(bytes \<Rightarrow> bytes) \<Rightarrow> (bytes \<Rightarrow> bytes list option) \<Rightarrow> ('d, 'x) kv_backend_scheme \<Rightarrow> i32 \<Rightarrow> ('d, 'g, unit) host" where
  "preview_flush hexe decode B encoded s =
     (case s of (ctx, ws) \<Rightarrow>
        case ws_memory ws of
          None \<Rightarrow> host_failure s
        | Some data \<Rightarrow>
            (case try_read_arraybuffer_as_vec data encoded of
               Inl _ \<Rightarrow> host_failure s
             | Inr encoded_vec \<Rightarrow>
                 (case decode encoded_vec of
                    None \<Rightarrow> host_failure s
                  | Some decoded \<Rightarrow>
                      let ctx1 = ctx\<lparr>ctx_state := 1\<rparr> in
                      (case rfold (\<lambda>(k, v) batch. put_to_batch hexe (so_read B (ctx_db ctx)) batch k v (ctx_height ctx))
                              (tuples decoded) [] of
                         Inl _ \<Rightarrow> host_failure (ctx1, ws)
                       | Inr batch \<Rightarrow>
                           (case so_write B batch (ctx_db ctx1) of
                              (Inl _, d) \<Rightarrow> host_failure (ctx1\<lparr>ctx_db := d\<rparr>, ws)
                            | (Inr _, d) \<Rightarrow> (Inr (), (ctx1\<lparr>ctx_db := d\<rparr>, ws)))))))"

section \<open>Pointers and buffers\<close>

lemma sint_i32 [simp]: "n < 2147483648 \<Longrightarrow> sint (of_nat n :: i32) = int n"
  by (simp add: signed_of_nat signed_take_bit_int_eq_self)

lemma as_usize_i32 [simp]: "n < 2147483648 \<Longrightarrow> as_usize (of_nat n) = n"
  by (simp add: as_usize_def)

lemma to_usize_or_trap_i32 [simp]: "n < 2147483648 \<Longrightarrow> to_usize_or_trap (of_nat n) = n"
  by (simp add: to_usize_or_trap_def)

text \<open>A buffer in ArrayBuffer layout, wherever it lies, is read back from its data pointer.\<close>

lemma try_read_layout:
  assumes "length pre + 4 + length v < 2147483648"
  shows "try_read_arraybuffer_as_vec (pre @ le_bytes 4 (length v) @ v @ post) (of_nat (length pre + 4)) = Inr v"
proof -
  have "length v \<le> u32_max" using assms by (simp add: u32_max_def)
  moreover have "sint (of_nat (length pre + 4) :: i32) = int (length pre + 4)"
    by (rule sint_i32) (use assms in simp)
  ultimately show ?thesis
    by (simp add: try_read_arraybuffer_as_vec_def Let_def del: of_nat_add)
qed

lemma mem_store_at_append:
  "length old = length bs \<Longrightarrow> mem_store_at (length pre) bs (pre @ old @ post) = Some (pre @ bs @ post)"
  by (simp add: mem_store_at_def)

lemma mem_store_at_Nil: "off \<le> length mem \<Longrightarrow> mem_store_at off [] mem = Some mem"
  by (simp add: mem_store_at_def)

end
