(* ===== verification/WasmRuntime.thy ===== *)
theory WasmRuntime
  imports WasmHost
begin

text \<open>
  Executing a module (\<open>MetashrewRuntime\<close>, \<open>crates/metashrew-runtime/src/runtime.rs\<close>). The
  module is a parameter: its instantiation and the steps it takes between two host calls
  are the engine's and the guest's, not this repository's. The runtime's own part is
  here: the three linkers, the memory refresh, block processing in its atomic and its
  direct form, views and previews.
\<close>

section \<open>Modules and linkers\<close>

datatype host_call =
    HostLen
  | LoadInput i32
  | LogText i32
  | AbortCall
  | FlushCall i32
  | GetCall i32 i32
  | GetLenCall i32

text \<open>
  What a guest does next, given its memory: a step of its own, a host call, a return from
  the entry point, or a trap. Each carries the memory it leaves.
\<close>

datatype 'g guest_action =
    Internal_step 'g "bytes option"
  | Invoke host_call "i32 \<Rightarrow> 'g" "bytes option"
  | Return i32 'g "bytes option"
  | Trap string "bytes option"

record 'g wasm_module =
  wm_instantiate :: "nat \<Rightarrow> string + 'g \<times> bytes option"
  wm_enter :: "string \<Rightarrow> 'g \<Rightarrow> 'g option"
  wm_step :: "'g \<Rightarrow> bytes option \<Rightarrow> 'g guest_action"

text \<open>
  \<open>wm_instantiate n\<close> is the outcome of the \<open>n\<close>-th instantiation (it may fail, for want of
  memory for instance), \<open>wm_enter\<close> is \<open>get_typed_func\<close>.
\<close>

type_synonym ('d, 'g) linker = "host_call \<Rightarrow> ('d, 'g, i32) host"

definition no_value :: "('d, 'g, unit) host \<Rightarrow> ('d, 'g, i32) host" where
  "no_value m = sbind m (\<lambda>_. sreturn 0)"

fun setup_linker :: "host_call \<Rightarrow> ('d, 'g, i32) host" where
  "setup_linker HostLen = host_len"
| "setup_linker (LoadInput p) = no_value (host_load_input p)"
| "setup_linker (LogText p) = no_value (host_log p)"
| "setup_linker _ = no_value host_abort"

fun setup_linker_indexer ::
    "(bytes \<Rightarrow> bytes) \<Rightarrow> (bytes \<Rightarrow> bytes option) \<Rightarrow> (bytes \<Rightarrow> bytes list option) \<Rightarrow> ('d, 'x) kv_backend_scheme
     \<Rightarrow> ('d, 'g) linker" where
  "setup_linker_indexer hexe hexd decode B (FlushCall p) = no_value (indexer_flush hexe decode B p)"
| "setup_linker_indexer hexe hexd decode B (GetCall k v) = no_value (indexer_get hexd B k v)"
| "setup_linker_indexer hexe hexd decode B (GetLenCall k) = indexer_get_len hexd B k"
| "setup_linker_indexer hexe hexd decode B c = setup_linker c"

fun setup_linker_view ::
    "(bytes \<Rightarrow> bytes option) \<Rightarrow> ('d, 'x) kv_backend_scheme \<Rightarrow> ('d, 'g) linker" where
  "setup_linker_view hexd B (FlushCall p) = no_value (view_flush p)"
| "setup_linker_view hexd B (GetCall k v) = no_value (view_get hexd B k v)"
| "setup_linker_view hexd B (GetLenCall k) = view_get_len hexd B k"
| "setup_linker_view hexd B c = setup_linker c"

fun setup_linker_preview ::
    "(bytes \<Rightarrow> bytes) \<Rightarrow> (bytes \<Rightarrow> bytes option) \<Rightarrow> (bytes \<Rightarrow> bytes list option) \<Rightarrow> ('d, 'x) kv_backend_scheme
     \<Rightarrow> ('d, 'g) linker" where
  "setup_linker_preview hexe hexd decode B (FlushCall p) = no_value (preview_flush hexe decode B p)"
| "setup_linker_preview hexe hexd decode B (GetCall k v) = no_value (preview_get hexd B k v)"
| "setup_linker_preview hexe hexd decode B (GetLenCall k) = preview_get_len hexd B k"
| "setup_linker_preview hexe hexd decode B c = setup_linker c"

text \<open>A call into the guest, run to its end; \<open>None\<close> when it never ends.\<close>

datatype outcome = Returned i32 | Trapped string | Panicked string

partial_function (option) call_guest ::
    "'g wasm_module \<Rightarrow> ('d, 'g) linker \<Rightarrow> 'g \<Rightarrow> ('d, 'g) host_state \<Rightarrow> (outcome \<times> ('d, 'g) host_state) option" where
  "call_guest M link g s =
     (case wm_step M g (ws_memory (snd s)) of
        Internal_step g' mem \<Rightarrow> call_guest M link g' (fst s, (snd s)\<lparr>ws_memory := mem\<rparr>)
      | Invoke c k mem \<Rightarrow>
          (case link c (fst s, (snd s)\<lparr>ws_memory := mem\<rparr>) of
             (Inl e, s') \<Rightarrow> Some (Panicked e, s')
           | (Inr r, s') \<Rightarrow> call_guest M link (k r) s')
      | Return r g' mem \<Rightarrow> Some (Returned r, (fst s, (snd s)\<lparr>ws_memory := mem, ws_guest := g'\<rparr>))
      | Trap e mem \<Rightarrow> Some (Trapped e, (fst s, (snd s)\<lparr>ws_memory := mem\<rparr>)))"

section \<open>The runtime\<close>

record ('d, 'g) wasm_runtime =
  rw_context :: "'d rt_context"
  rw_store :: "'g wasm_store"
  rw_instances :: nat

text \<open>An operation fails with an error of the code or with a panic of the host.\<close>

datatype rt_error = RtError string | RtPanic string

type_synonym ('d, 'g, 'a) rt_op = "(('d, 'g) wasm_runtime, rt_error, 'a) est"

text \<open>\<open>linker.instantiate_async\<close> on a fresh store.\<close>

definition instantiate ::
    "'g wasm_module \<Rightarrow> string \<Rightarrow> ('d, 'g) wasm_runtime \<Rightarrow> (rt_error + 'g wasm_store) \<times> ('d, 'g) wasm_runtime" where
  "instantiate M why r =
     (case wm_instantiate M (rw_instances r) of
        Inl e \<Rightarrow> (Inl (RtError why), r\<lparr>rw_instances := rw_instances r + 1\<rparr>)
      | Inr (g, mem) \<Rightarrow> (Inr (state_new mem g), r\<lparr>rw_instances := rw_instances r + 1\<rparr>))"

definition refresh_memory :: "'g wasm_module \<Rightarrow> ('d, 'g, unit) rt_op" where
  "refresh_memory M =
     sbind (instantiate M ''Failed to instantiate module during memory refresh'')
       (\<lambda>ws r. (Inr (), r\<lparr>rw_store := ws\<rparr>))"

text \<open>The record of the tip that \<open>new\<close> and \<open>load\<close> start the context from.\<close>

definition tip_at_start :: "reader \<Rightarrow> nat" where
  "tip_at_start rd =
     (case rd TIP_HEIGHT_KEY of
        Inr (Some bytes) \<Rightarrow> if length bytes \<ge> 4 then from_le (take 4 bytes) else 0
      | _ \<Rightarrow> 0)"

definition runtime_load ::
    "('d, 'x) kv_backend_scheme \<Rightarrow> 'g wasm_module \<Rightarrow> 'd \<Rightarrow> rt_error + ('d, 'g) wasm_runtime" where
  "runtime_load B M d =
     (case wm_instantiate M 0 of
        Inl e \<Rightarrow> Inl (RtError ''Failed to instantiate WASM module'')
      | Inr (g, mem) \<Rightarrow>
          Inr \<lparr>rw_context = context_new d (tip_at_start (so_read B d)) [],
               rw_store = state_new mem g, rw_instances = 1\<rparr>)"

text \<open>A runtime of its own for one call: \<open>new_with_db_async_limited\<close> and its siblings.\<close>

definition new_with_db :: "'g wasm_module \<Rightarrow> nat \<Rightarrow> 'd \<Rightarrow> nat \<Rightarrow> rt_error + ('d, 'g) wasm_runtime" where
  "new_with_db M n d h =
     (case wm_instantiate M n of
        Inl e \<Rightarrow> Inl (RtError ''Failed to instantiate WASM module'')
      | Inr (g, mem) \<Rightarrow> Inr \<lparr>rw_context = context_new d h [], rw_store = state_new mem g, rw_instances = n + 1\<rparr>)"

subsection \<open>Executing a block\<close>

text \<open>
  What the code concludes from the end of \<open>_start\<close>. The error captured by a flush comes
  first, then a run without a flush, then the failure flag.
\<close>

definition judge :: "string \<Rightarrow> string \<Rightarrow> string \<Rightarrow> outcome \<Rightarrow> ('d, 'g) host_state \<Rightarrow> rt_error + unit" where
  "judge unexpected failed call_error out s =
     (case out of
        Panicked e \<Rightarrow> Inl (RtPanic e)
      | Trapped e \<Rightarrow> Inl (RtError call_error)
      | Returned _ \<Rightarrow>
          (case ws_flush_error (snd s) of
             Some msg \<Rightarrow> Inl (RtError (''__flush atomic write failed: '' @ msg))
           | None \<Rightarrow>
               if ctx_state (fst s) \<noteq> 1 \<and> \<not> ws_failure (snd s) then Inl (RtError unexpected)
               else if ws_failure (snd s) then Inl (RtError failed)
               else Inr ()))"

definition put_host_state :: "('d, 'g) host_state \<Rightarrow> ('d, 'g) wasm_runtime \<Rightarrow> ('d, 'g) wasm_runtime" where
  "put_host_state s r = r\<lparr>rw_context := fst s, rw_store := snd s\<rparr>"

text \<open>
  Clear the captured error and call \<open>_start\<close>. The result is \<open>None\<close> when the call does not
  return, \<open>Inl\<close> for the early return when the module has no \<open>_start\<close>, else the judgement.
\<close>

definition execute_start ::
    "'g wasm_module \<Rightarrow> ('d, 'g) linker \<Rightarrow> string \<Rightarrow> string \<Rightarrow> string \<Rightarrow> ('d, 'g) wasm_runtime
     \<Rightarrow> ((rt_error + (rt_error + unit)) \<times> ('d, 'g) wasm_runtime) option" where
  "execute_start M link unexpected failed call_error r =
     (let ws = (rw_store r)\<lparr>ws_flush_error := None\<rparr>;
          r1 = r\<lparr>rw_store := ws\<rparr>
      in case wm_enter M ''_start'' (ws_guest ws) of
           None \<Rightarrow> Some (Inl (RtError ''Failed to get _start function''), r1)
         | Some g \<Rightarrow>
             map_option (\<lambda>(out, s). (Inr (judge unexpected failed call_error out s), put_host_state s r1))
               (call_guest M link g (rw_context r1, ws)))"

definition calculate_state_root :: "('d, 'x) kv_backend_scheme \<Rightarrow> ('d, 'g, bytes) rt_op" where
  "calculate_state_root B r =
     (case get_current_state_root (so_scan B (ctx_db (rw_context r))) of
        Inl e \<Rightarrow> (Inl (RtError e), r)
      | Inr root \<Rightarrow> (Inr root, r))"

definition set_pending :: "bytes option \<Rightarrow> ('d, 'g) wasm_runtime \<Rightarrow> ('d, 'g) wasm_runtime" where
  "set_pending p r = r\<lparr>rw_context := (rw_context r)\<lparr>ctx_pending := p\<rparr>\<rparr>"

definition set_block :: "nat \<Rightarrow> bytes \<Rightarrow> bytes \<Rightarrow> ('d, 'g) wasm_runtime \<Rightarrow> ('d, 'g) wasm_runtime" where
  "set_block h blk bh r =
     r\<lparr>rw_context := (rw_context r)\<lparr>ctx_block := blk, ctx_height := h, ctx_block_hash := bh, ctx_state := 0\<rparr>\<rparr>"

record rt_block_result =
  br_state_root :: bytes
  br_batch_data :: bytes
  br_height :: nat
  br_hash :: bytes

text \<open>
  \<open>process_block_atomic\<close>: arm the slot, run, then take the batch out of the slot. A panic
  unwinds through the whole operation.
\<close>

definition finish_atomic ::
    "('d, 'x) kv_backend_scheme \<Rightarrow> 'g wasm_module \<Rightarrow> nat \<Rightarrow> bytes
     \<Rightarrow> rt_error + (rt_error + unit) \<Rightarrow> ('d, 'g, rt_block_result) rt_op" where
  "finish_atomic B M h bh executed r1 =
     (case executed of
        Inl e \<Rightarrow> (Inl e, r1)
      | Inr (Inl (RtPanic e)) \<Rightarrow> (Inl (RtPanic e), r1)
      | Inr (Inl (RtError e)) \<Rightarrow> (Inl (RtError e), snd (refresh_memory M (set_pending None r1)))
      | Inr (Inr _) \<Rightarrow>
          sbind (calculate_state_root B) (\<lambda>root r2.
            let batch_data = (case ctx_pending (rw_context r2) of Some b \<Rightarrow> b | None \<Rightarrow> []);
                r3 = set_pending None r2
            in case refresh_memory M r3 of
                 (Inl e, r4) \<Rightarrow> (Inl (RtError ''Memory refresh failed after atomic block execution''), r4)
               | (Inr _, r4) \<Rightarrow>
                   (Inr \<lparr>br_state_root = root, br_batch_data = batch_data, br_height = h, br_hash = bh\<rparr>, r4)) r1)"

definition process_block_atomic ::
    "('d, 'x) kv_backend_scheme \<Rightarrow> 'g wasm_module \<Rightarrow> ('d, 'g) linker \<Rightarrow> nat \<Rightarrow> bytes \<Rightarrow> bytes
     \<Rightarrow> ('d, 'g) wasm_runtime \<Rightarrow> ((rt_error + rt_block_result) \<times> ('d, 'g) wasm_runtime) option" where
  "process_block_atomic B M link h blk bh r =
     map_option (\<lambda>(executed, r1). finish_atomic B M h bh executed r1)
       (execute_start M link ''indexer exited unexpectedly during atomic processing''
          ''indexer host function reported failure during atomic processing''
          ''Error calling _start function in atomic processing''
          (set_block h blk bh (set_pending (Some []) r)))"

text \<open>\<open>run\<close> and the direct \<open>process_block\<close>.\<close>

definition finish_run ::
    "'g wasm_module \<Rightarrow> rt_error + (rt_error + unit) \<Rightarrow> ('d, 'g, unit) rt_op" where
  "finish_run M executed r1 =
     (case executed of
        Inl e \<Rightarrow> (Inl e, r1)
      | Inr (Inl (RtPanic e)) \<Rightarrow> (Inl (RtPanic e), r1)
      | Inr execution_result \<Rightarrow>
          (case refresh_memory M r1 of
             (Inl e, r2) \<Rightarrow> (Inl (RtError ''Memory refresh failed after block execution''), r2)
           | (Inr _, r2) \<Rightarrow> (execution_result, r2)))"

definition runtime_run ::
    "'g wasm_module \<Rightarrow> ('d, 'g) linker \<Rightarrow> ('d, 'g) wasm_runtime \<Rightarrow> ((rt_error + unit) \<times> ('d, 'g) wasm_runtime) option" where
  "runtime_run M link r =
     map_option (\<lambda>(executed, r1). finish_run M executed r1)
       (execute_start M link ''indexer exited unexpectedly'' ''indexer host function reported failure''
          ''Error calling _start function''
          (r\<lparr>rw_context := (rw_context r)\<lparr>ctx_state := 0\<rparr>\<rparr>))"

definition process_block_direct ::
    "'g wasm_module \<Rightarrow> ('d, 'g) linker \<Rightarrow> nat \<Rightarrow> bytes \<Rightarrow> ('d, 'g) wasm_runtime
     \<Rightarrow> ((rt_error + unit) \<times> ('d, 'g) wasm_runtime) option" where
  "process_block_direct M link h blk r = runtime_run M link (set_block h blk [] r)"

definition get_state_root :: "('d, 'x) kv_backend_scheme \<Rightarrow> nat \<Rightarrow> ('d, 'g) wasm_runtime \<Rightarrow> rt_error + bytes" where
  "get_state_root B h r =
     (case get_smt_root_at_height (so_read B (ctx_db (rw_context r))) h of
        Inl e \<Rightarrow> Inl (RtError e) | Inr root \<Rightarrow> Inr root)"

subsection \<open>Views and previews\<close>

text \<open>
  A call of an exported function in a runtime of its own, and the bytes its result points
  to; the failure flag of the store is not looked at.
\<close>

definition call_view ::
    "string \<Rightarrow> string \<Rightarrow> 'g wasm_module \<Rightarrow> ('d, 'g) linker \<Rightarrow> string \<Rightarrow> bytes \<Rightarrow> ('d, 'g) wasm_runtime
     \<Rightarrow> ((rt_error + bytes) \<times> ('d, 'g) wasm_runtime) option" where
  "call_view no_func call_error M link symbol input r =
     (let ctx = (rw_context r)\<lparr>ctx_block := input\<rparr> in
      case wm_enter M symbol (ws_guest (rw_store r)) of
        None \<Rightarrow> Some (Inl (RtError no_func), r)
      | Some g \<Rightarrow>
          map_option (\<lambda>(out, s).
            (case out of
               Panicked e \<Rightarrow> Inl (RtPanic e)
             | Trapped e \<Rightarrow> Inl (RtError call_error)
             | Returned p \<Rightarrow>
                 (case ws_memory (snd s) of
                    None \<Rightarrow> Inl (RtError ''Failed to get memory for view result'')
                  | Some data \<Rightarrow> Inr (read_arraybuffer_as_vec data p)),
             put_host_state s r))
            (call_guest M link g (ctx, rw_store r)))"

text \<open>
  \<open>view\<close>: the caller's runtime is not touched but for its database handle, of which the
  view has a clone.
\<close>

definition quoted :: "string \<Rightarrow> string" where
  "quoted x = CHR 0x27 # x @ [CHR 0x27]"

definition view_with_limits ::
    "'g wasm_module \<Rightarrow> ('d, 'g) linker \<Rightarrow> nat \<Rightarrow> string \<Rightarrow> bytes \<Rightarrow> nat \<Rightarrow> ('d, 'g) wasm_runtime
     \<Rightarrow> ((rt_error + bytes) \<times> ('d, 'g) wasm_runtime) option" where
  "view_with_limits M link n symbol input h r =
     (case new_with_db M n (ctx_db (rw_context r)) h of
        Inl e \<Rightarrow> Some (Inl e, r)
      | Inr vr \<Rightarrow>
          map_option (\<lambda>(res, vr'). (res, r\<lparr>rw_context := (rw_context r)\<lparr>ctx_db := ctx_db (rw_context vr')\<rparr>\<rparr>))
            (call_view (''Failed to get view function '' @ quoted symbol)
               (''Failed to execute view function '' @ quoted symbol) M link symbol input vr))"

text \<open>
  \<open>preview\<close>: the block runs at the next height on an isolated copy through the indexer's
  linker, then the view runs on a clone of that copy.
\<close>

definition preview_failed :: "('d, 'g) host_state \<Rightarrow> outcome \<Rightarrow> rt_error option" where
  "preview_failed s out =
     (case out of
        Panicked e \<Rightarrow> Some (RtPanic e)
      | Trapped e \<Rightarrow> Some (RtError ''Error executing _start in preview'')
      | Returned _ \<Rightarrow>
          if ctx_state (fst s) \<noteq> 1 \<and> \<not> ws_failure (snd s)
          then Some (RtError (''indexer exited unexpectedly during preview: state='' @ dec (ctx_state (fst s))
                 @ '', had_failure=false''))
          else if ws_failure (snd s)
          then Some (RtError (''indexer had failure during preview execution: state='' @ dec (ctx_state (fst s))))
          else None)"

definition preview_rejoin :: "('d, 'x) kv_backend_scheme \<Rightarrow> 'd \<Rightarrow> ('d, 'g) wasm_runtime \<Rightarrow> ('d, 'g) wasm_runtime" where
  "preview_rejoin B copy r = r\<lparr>rw_context := (rw_context r)\<lparr>ctx_db := kb_shared B (ctx_db (rw_context r)) copy\<rparr>\<rparr>"

definition preview_view ::
    "'g wasm_module \<Rightarrow> ('d, 'g) linker \<Rightarrow> nat \<Rightarrow> string \<Rightarrow> bytes \<Rightarrow> 'd \<Rightarrow> nat \<Rightarrow> ((rt_error + bytes) \<times> 'd) option" where
  "preview_view M view_link n symbol input d h =
     (case wm_instantiate M n of
        Inl e \<Rightarrow> Some (Inl (RtError ''Failed to instantiate WASM module for preview view''), d)
      | Inr (g, mem) \<Rightarrow>
          map_option (\<lambda>(res, vr). (res, ctx_db (rw_context vr)))
            (call_view ''Failed to get view function'' ''Failed to execute view function'' M view_link symbol input
               \<lparr>rw_context = context_new d h [], rw_store = state_new mem g, rw_instances = n + 1\<rparr>))"

definition preview ::
    "('d, 'x) kv_backend_scheme \<Rightarrow> 'g wasm_module \<Rightarrow> ('d, 'g) linker \<Rightarrow> ('d, 'g) linker \<Rightarrow> nat
     \<Rightarrow> bytes \<Rightarrow> string \<Rightarrow> bytes \<Rightarrow> nat \<Rightarrow> ('d, 'g) wasm_runtime
     \<Rightarrow> ((rt_error + bytes) \<times> ('d, 'g) wasm_runtime) option" where
  "preview B M link view_link n blk symbol input h r =
     (let preview_db = kb_isolated B (ctx_db (rw_context r)) in
      case add_u32 h 1 of
        Inl e \<Rightarrow> Some (Inl (RtPanic e), r)
      | Inr preview_height \<Rightarrow>
          (case new_with_db M n preview_db preview_height of
             Inl e \<Rightarrow> Some (Inl e, preview_rejoin B preview_db r)
           | Inr pr \<Rightarrow>
               (case wm_enter M ''_start'' (ws_guest (rw_store pr)) of
                  None \<Rightarrow> Some (Inl (RtError ''Failed to get _start function for preview''), preview_rejoin B preview_db r)
                | Some g \<Rightarrow>
                    Option.bind (call_guest M link g ((rw_context pr)\<lparr>ctx_block := blk\<rparr>, rw_store pr)) (\<lambda>(out, s).
                      case preview_failed s out of
                        Some e \<Rightarrow> Some (Inl e, preview_rejoin B (ctx_db (fst s)) r)
                      | None \<Rightarrow>
                          map_option (\<lambda>(res, copy). (res, preview_rejoin B copy r))
                            (preview_view M view_link (n + 1) symbol input (ctx_db (fst s)) preview_height)))))"

end
