(* ===== verification/WasmBackends.thy ===== *)
theory WasmBackends
  imports WasmRuntime RocksChain RocksRuntime MemStore
begin

text \<open>
  The two storage backends as the runtime's \<open>KeyValueStoreLike\<close>, and the contract its
  operations rest on: tracking an update changes no read, every prefix can be scanned, an
  isolated copy reads as its original, and nothing done to the copy shows in the original.
\<close>

text \<open>What can become of an isolated copy of \<open>d\<close> through the operations of the runtime.\<close>

inductive copy_of :: "('d, 'x) kv_backend_scheme \<Rightarrow> 'd \<Rightarrow> 'd \<Rightarrow> bool" for B d where
  isolated: "copy_of B d (kb_isolated B d)"
| tracked: "copy_of B d c \<Longrightarrow> copy_of B d (kb_track B k v c)"
| written: "copy_of B d c \<Longrightarrow> copy_of B d (snd (so_write B b c))"

locale wasm_backend = kv_store "so_read B" "so_write B" view writable
  for B :: "'d kv_backend" and view and writable +
  assumes track_view: "view (kb_track B k v d) = view d"
    and track_writable: "writable d \<Longrightarrow> writable (kb_track B k v d)"
    and scan_total: "\<exists>kvs. so_scan B d pre = Inr kvs"
    and shared_view: "copy_of B d c \<Longrightarrow> kb_shared B d c = d"
begin

lemma track_all_view: "view (fold (\<lambda>(k, v). kb_track B k v) kvs d) = view d"
  by (induction kvs arbitrary: d) (auto simp: track_view)

lemma track_all_writable: "writable d \<Longrightarrow> writable (fold (\<lambda>(k, v). kb_track B k v) kvs d)"
  by (induction kvs arbitrary: d) (auto simp: track_writable)

lemma root_read_total: "\<exists>root. get_current_state_root (so_scan B d) = Inr root"
  using scan_total [of d SMT_ROOT_PREFIX] by (auto simp: get_current_state_root_def)

end

subsection \<open>The durable adapter\<close>

definition rt_share :: "'d rocks_runtime \<Rightarrow> 'd rocks_runtime \<Rightarrow> 'd rocks_runtime" where
  "rt_share s c = s\<lparr>rt_db := rt_db c\<rparr>"

definition rt_backend :: "bytes option \<Rightarrow> 'd rocks \<Rightarrow> (batch \<Rightarrow> bytes) \<Rightarrow> 'd rocks_runtime kv_backend" where
  "rt_backend lbl R to_data =
     \<lparr>so_read = rt_get lbl R, so_scan = rt_scan_prefix lbl R, so_write = rt_write lbl R,
      kb_track = rt_track_kv_update, kb_isolated = rt_create_isolated_copy, kb_shared = rt_share,
      kb_bytes = (\<lambda>b. to_data (rocks_batch lbl b))\<rparr>"

lemma rt_backend_sel [simp]:
  "so_read (rt_backend lbl R to_data) = rt_get lbl R"
  "so_scan (rt_backend lbl R to_data) = rt_scan_prefix lbl R"
  "so_write (rt_backend lbl R to_data) = rt_write lbl R"
  "kb_track (rt_backend lbl R to_data) = rt_track_kv_update"
  "kb_isolated (rt_backend lbl R to_data) = rt_create_isolated_copy"
  "kb_shared (rt_backend lbl R to_data) = rt_share"
  "kb_bytes (rt_backend lbl R to_data) = (\<lambda>b. to_data (rocks_batch lbl b))"
  by (simp_all add: rt_backend_def)

lemma rt_track_update: "\<exists>t. rt_track_kv_update k v s = s\<lparr>kv_tracker := t\<rparr>"
proof -
  have same: "\<exists>t. s = s\<lparr>kv_tracker := t\<rparr>" by (rule exI [of _ "kv_tracker s"]) simp
  then show ?thesis
    unfolding rt_track_kv_update_def track_kv_update_internal_def
    by (cases "kv_tracker s"; cases "write_shadow s") auto
qed

lemma rt_copy_of:
  "copy_of (rt_backend lbl R to_data) s c \<Longrightarrow> rt_db c = rt_db s \<and> write_shadow c \<noteq> None"
proof (induction rule: copy_of.induct)
  case isolated
  then show ?case by (simp add: rt_create_isolated_copy_def)
next
  case (tracked c k v)
  with rt_track_update [of k v c] show ?case by auto
next
  case (written c b)
  then obtain sh where "write_shadow c = Some sh" by auto
  with written show ?case by (simp add: rt_write_shadow(1))
qed

lemma rt_wasm_backend:
  assumes "rocks_ok R contents"
  shows "wasm_backend (rt_backend lbl R to_data) (rt_view lbl contents) rt_writable"
proof (intro wasm_backend.intro wasm_backend_axioms.intro)
  show "kv_store (so_read (rt_backend lbl R to_data)) (so_write (rt_backend lbl R to_data))
      (rt_view lbl contents) rt_writable"
    using rt_kv_store [OF assms] by simp
next
  fix k v and d :: "'a rocks_runtime"
  obtain t where "rt_track_kv_update k v d = d\<lparr>kv_tracker := t\<rparr>" using rt_track_update by blast
  then show "rt_view lbl contents (kb_track (rt_backend lbl R to_data) k v d) = rt_view lbl contents d"
    by (simp add: rt_view_def rt_raw_def cong: option.case_cong)
next
  fix k v and d :: "'a rocks_runtime" assume "rt_writable d"
  moreover obtain t where "rt_track_kv_update k v d = d\<lparr>kv_tracker := t\<rparr>" using rt_track_update by blast
  ultimately show "rt_writable (kb_track (rt_backend lbl R to_data) k v d)" by (simp add: rt_writable_def)
next
  fix d :: "'a rocks_runtime" and pre
  show "\<exists>kvs. so_scan (rt_backend lbl R to_data) d pre = Inr kvs"
    by (simp add: rt_scan_prefix_def Let_def)
next
  fix d c assume "copy_of (rt_backend lbl R to_data) d c"
  from rt_copy_of [OF this] show "kb_shared (rt_backend lbl R to_data) d c = d"
    by (simp add: rt_share_def)
qed

interpretation rt_wasm: wasm_backend "rt_backend lbl list_rocks sample_data" "rt_view lbl map_of" rt_writable
  for lbl
  by (rule rt_wasm_backend) (rule list_rocks_ok)

subsection \<open>The in-memory adapter\<close>

text \<open>
  \<open>MemStoreBatch\<close> and \<open>MemStoreAdapter\<close> keep the default \<open>to_bytes\<close> and \<open>track_kv_update\<close>
  of the traits.
\<close>

definition default_to_bytes :: "batch \<Rightarrow> bytes" where
  "default_to_bytes b = []"

definition default_track_kv_update :: "bytes \<Rightarrow> bytes \<Rightarrow> 'd \<Rightarrow> 'd" where
  "default_track_kv_update k v d = d"

definition mem_wasm_backend :: "bytes option \<Rightarrow> mem_store kv_backend" where
  "mem_wasm_backend lbl =
     \<lparr>so_read = mem_get lbl, so_scan = mem_scan_prefix lbl, so_write = mem_write lbl,
      kb_track = default_track_kv_update, kb_isolated = mem_create_isolated_copy,
      kb_shared = (\<lambda>d c. d), kb_bytes = default_to_bytes\<rparr>"

interpretation mem_wasm: wasm_backend "mem_wasm_backend lbl" "mem_view lbl" "\<lambda>s. height s < u32_max" for lbl
proof (intro wasm_backend.intro wasm_backend_axioms.intro)
  show "kv_store (so_read (mem_wasm_backend lbl)) (so_write (mem_wasm_backend lbl)) (mem_view lbl)
      (\<lambda>s. height s < u32_max)"
    using mem_kv.kv_store_axioms by (simp add: mem_wasm_backend_def)
qed (simp_all add: mem_wasm_backend_def default_track_kv_update_def mem_scan_prefix_def)

end
