(* ===== verification/WasmProps.thy ===== *)
theory WasmProps
  imports WasmBackends
begin

text \<open>
  What the runtime guarantees whatever the guest does. The guest is any module: its steps,
  its host calls and their arguments are unconstrained, and a call may never return. The
  lemmas are inductions over the execution; the properties are isolation (an atomic
  execution, a view and a preview write nothing), independence of blocks from one another,
  memory safety of the host functions, and the cases in which a host function hides a
  failure or loses writes.
\<close>

section \<open>Induction over an execution\<close>

text \<open>The executions of a call that returns, as a relation.\<close>

inductive guest_runs ::
    "'g wasm_module \<Rightarrow> ('d, 'g) linker \<Rightarrow> 'g \<Rightarrow> ('d, 'g) host_state \<Rightarrow> outcome \<Rightarrow> ('d, 'g) host_state \<Rightarrow> bool"
  for M link where
  internal: "wm_step M g (ws_memory (snd s)) = Internal_step g' m \<Longrightarrow>
     guest_runs M link g' (fst s, (snd s)\<lparr>ws_memory := m\<rparr>) out s' \<Longrightarrow> guest_runs M link g s out s'"
| panicked: "wm_step M g (ws_memory (snd s)) = Invoke c k m \<Longrightarrow>
     link c (fst s, (snd s)\<lparr>ws_memory := m\<rparr>) = (Inl e, s') \<Longrightarrow> guest_runs M link g s (Panicked e) s'"
| invoked: "wm_step M g (ws_memory (snd s)) = Invoke c k m \<Longrightarrow>
     link c (fst s, (snd s)\<lparr>ws_memory := m\<rparr>) = (Inr r, s1) \<Longrightarrow>
     guest_runs M link (k r) s1 out s' \<Longrightarrow> guest_runs M link g s out s'"
| returned: "wm_step M g (ws_memory (snd s)) = Return r g' m \<Longrightarrow>
     guest_runs M link g s (Returned r) (fst s, (snd s)\<lparr>ws_memory := m, ws_guest := g'\<rparr>)"
| trapped: "wm_step M g (ws_memory (snd s)) = Trap e m \<Longrightarrow>
     guest_runs M link g s (Trapped e) (fst s, (snd s)\<lparr>ws_memory := m\<rparr>)"

lemma call_guest_runs: "call_guest M link g s = Some os \<Longrightarrow> guest_runs M link g s (fst os) (snd os)"
proof (induction rule: call_guest.raw_induct [rotated, consumes 1, case_names step])
  case (step cg M link g s os)
  note IH = step(1)
  show ?case
  proof (cases "wm_step M g (ws_memory (snd s))")
    case (Internal_step g' m)
    with step(2) have "cg M link g' (fst s, (snd s)\<lparr>ws_memory := m\<rparr>) = Some os" by simp
    from IH [OF this] Internal_step show ?thesis by (rule guest_runs.internal [rotated])
  next
    case (Invoke c k m)
    obtain res s1 where l: "link c (fst s, (snd s)\<lparr>ws_memory := m\<rparr>) = (res, s1)"
      by (rule prod.exhaust)
    show ?thesis
    proof (cases res)
      case (Inl e)
      with step(2) Invoke l show ?thesis by (auto intro: guest_runs.panicked)
    next
      case (Inr r)
      with step(2) Invoke l have "cg M link (k r) s1 = Some os" by simp
      from IH [OF this] Invoke l Inr show ?thesis by (blast intro: guest_runs.invoked)
    qed
  qed (use step(2) in \<open>auto intro: guest_runs.returned guest_runs.trapped\<close>)
qed

lemma guest_runs_call: "guest_runs M link g s out s' \<Longrightarrow> call_guest M link g s = Some (out, s')"
proof (induction rule: guest_runs.induct)
  case (internal g s g' m out s')
  then show ?case by (subst call_guest.simps) simp
next
  case (panicked g s c k m e s')
  then show ?case by (subst call_guest.simps) simp
next
  case (invoked g s c k m r s1 out s')
  then show ?case by (subst call_guest.simps) simp
next
  case (returned g s r g' m)
  then show ?case by (subst call_guest.simps) simp
next
  case (trapped g s e m)
  then show ?case by (subst call_guest.simps) simp
qed

lemma call_guest_iff: "call_guest M link g s = Some (out, s') \<longleftrightarrow> guest_runs M link g s out s'"
  using call_guest_runs [of M link g s "(out, s')"] guest_runs_call [of M link g s out s'] by auto

text \<open>What every host call and every step of the guest keep, the execution keeps.\<close>

lemma guest_runs_invariant:
  assumes run: "guest_runs M link g s out s'" and start: "I s"
    and link: "\<And>c s r s'. I s \<Longrightarrow> link c s = (r, s') \<Longrightarrow> I s'"
    and mem: "\<And>s m. I s \<Longrightarrow> I (fst s, (snd s)\<lparr>ws_memory := m\<rparr>)"
    and guest: "\<And>s m g. I s \<Longrightarrow> I (fst s, (snd s)\<lparr>ws_memory := m, ws_guest := g\<rparr>)"
  shows "I s'"
  using run start
proof (induction rule: guest_runs.induct)
  case (internal g s g' m out s')
  from internal.IH [OF mem [OF internal.prems]] show ?case .
next
  case (panicked g s c k m e s')
  from link [OF mem [OF panicked.prems] panicked(2)] show ?case .
next
  case (invoked g s c k m r s1 out s')
  from invoked.IH [OF link [OF mem [OF invoked.prems] invoked(2)]] show ?case .
next
  case (returned g s r g' m)
  from guest [OF returned.prems] show ?case .
next
  case (trapped g s e m)
  from mem [OF trapped.prems] show ?case .
qed

section \<open>What a host call changes\<close>

lemma write_or_panic_ctx: "write_or_panic msg off bs data s = (r, s') \<Longrightarrow> fst s' = fst s"
  by (auto simp: write_or_panic_def split: prod.splits option.splits)

lemma host_failure_ctx: "host_failure s = (r, s') \<Longrightarrow> fst s' = fst s"
  by (auto simp: host_failure_def split: prod.splits)

lemma get_body_ctx: "get_body who why find_val key val s = (r, s') \<Longrightarrow> fst s' = fst s"
  by (auto simp: get_body_def dest!: write_or_panic_ctx host_failure_ctx
      split: prod.splits option.splits sum.splits)

lemma get_len_body_ctx: "get_len_body find_val key s = (r, s') \<Longrightarrow> s' = s"
  by (auto simp: get_len_body_def split: prod.splits option.splits sum.splits)

lemma no_value_ctx: "no_value m s = (r, s') \<Longrightarrow> \<exists>r0. m s = (r0, s')"
  by (auto simp: no_value_def sbind_def split: prod.splits sum.splits)

lemma host_load_input_ctx: "host_load_input p s = (r, s') \<Longrightarrow> fst s' = fst s"
  by (auto simp: host_load_input_def Let_def dest!: write_or_panic_ctx host_failure_ctx
      split: prod.splits option.splits if_splits)

lemma host_log_ctx: "host_log p s = (r, s') \<Longrightarrow> fst s' = fst s"
  by (auto simp: host_log_def split: prod.splits option.splits sum.splits if_splits)

lemma host_len_ctx: "host_len s = (r, s') \<Longrightarrow> s' = s"
  by (auto simp: host_len_def split: prod.splits)

lemma setup_linker_ctx: "setup_linker c s = (r, s') \<Longrightarrow> fst s' = fst s"
  by (cases c; clarsimp simp: host_abort_def dest!: no_value_ctx)
     (auto dest: host_len_ctx host_load_input_ctx host_log_ctx host_failure_ctx)

text \<open>No call of the view linker touches the context.\<close>

lemma view_linker_ctx: "setup_linker_view hexd B c s = (r, s') \<Longrightarrow> fst s' = fst s"
  by (cases c) (auto simp: view_flush_def view_get_def view_get_len_def simp del: setup_linker.simps
      dest!: no_value_ctx dest: get_body_ctx get_len_body_ctx setup_linker_ctx)

text \<open>A call of the indexer linker either leaves the context alone or is a flush.\<close>

lemma indexer_linker_ctx:
  assumes "setup_linker_indexer hexe hexd decode B c s = (r, s')"
  shows "fst s' = fst s \<or> (\<exists>p r0. c = FlushCall p \<and> indexer_flush hexe decode B p s = (r0, s'))"
proof (cases c)
  case (FlushCall p)
  with assms show ?thesis by (auto dest: no_value_ctx)
next
  case (GetCall k v)
  with assms show ?thesis by (auto simp: indexer_get_def Let_def dest!: no_value_ctx dest: get_body_ctx)
next
  case (GetLenCall k)
  with assms show ?thesis by (auto simp: indexer_get_len_def Let_def dest: get_len_body_ctx)
qed (use assms in \<open>auto simp del: setup_linker.simps dest: setup_linker_ctx\<close>)

text \<open>What a flush leaves of the context.\<close>

definition flushed_ctx :: "'d rt_context \<Rightarrow> 'd \<Rightarrow> bytes option \<Rightarrow> nat \<Rightarrow> 'd rt_context" where
  "flushed_ctx ctx d p st = ctx\<lparr>ctx_db := d, ctx_pending := p, ctx_state := st\<rparr>"

lemma flushed_ctx_id: "flushed_ctx ctx (ctx_db ctx) (ctx_pending ctx) (ctx_state ctx) = ctx"
  by (simp add: flushed_ctx_def)

lemma store_state_root_on_db:
  "store_state_root_on hexe B h kvs bh d = (r, d') \<Longrightarrow> d' = d \<or> (\<exists>b. d' = snd (so_write B b d))"
  by (auto simp: store_state_root_on_def sbind_def lift_result_def split: prod.splits sum.splits)
     (metis snd_conv)

text \<open>
  A flush leaves the context as it was, or, armed, fills the slot, or else has written
  through the backend.
\<close>

lemma indexer_flush_cases:
  assumes "indexer_flush hexe decode B p s = (r, s')"
  obtains (none) "fst s' = fst s"
  | (armed) kvs q st where "ctx_pending (fst s) \<noteq> None"
      "fst s' = flushed_ctx (fst s) (fold (\<lambda>(k, v). kb_track B k v) kvs (ctx_db (fst s))) q st" "q \<noteq> None"
  | (direct) kvs x d' st where "ctx_pending (fst s) = None"
      "store_state_root_on hexe B (ctx_height (fst s)) kvs (ctx_block_hash (fst s))
         (fold (\<lambda>(k, v). kb_track B k v) kvs (ctx_db (fst s))) = (x, d')"
      "fst s' = flushed_ctx (fst s) d' None st"
proof -
  obtain ctx ws where s: "s = (ctx, ws)" by (rule prod.exhaust)
  show ?thesis
  proof (cases "Option.bind (ws_memory ws) (\<lambda>data. case try_read_arraybuffer_as_vec data p of
      Inl _ \<Rightarrow> None | Inr enc \<Rightarrow> decode enc)")
    case None
    with assms have "fst s' = fst s"
      by (auto simp: indexer_flush_def s host_failure_def split: option.splits sum.splits)
    then show ?thesis by (rule none)
  next
    case (Some decoded)
    let ?d = "fold (\<lambda>(k, v). kb_track B k v) (tuples decoded) (ctx_db ctx)"
    let ?built = "fst (build_state_root_batch_unwritten hexe (so_read B ?d) (ctx_height ctx)
        (tuples decoded) (ctx_block_hash ctx) new_caches)"
    let ?stored = "store_state_root_on hexe B (ctx_height ctx) (tuples decoded) (ctx_block_hash ctx) ?d"
    show ?thesis
    proof (cases "ctx_pending ctx")
      case None
      obtain x d' where st: "?stored = (x, d')" by (rule prod.exhaust)
      with Some None assms have "fst s' = ctx\<lparr>ctx_db := d'\<rparr> \<or> fst s' = ctx\<lparr>ctx_db := d', ctx_state := 1\<rparr>"
        by (auto simp: indexer_flush_def s Let_def flush_failed_def split: option.splits sum.splits)
      moreover have "ctx\<lparr>ctx_db := d'\<rparr> = flushed_ctx ctx d' None (ctx_state ctx)"
          "ctx\<lparr>ctx_db := d', ctx_state := 1\<rparr> = flushed_ctx ctx d' None 1"
        using None by (cases ctx, simp add: flushed_ctx_def)+
      ultimately have "\<exists>st. fst s' = flushed_ctx ctx d' None st" by metis
      with None st show ?thesis using direct by (auto simp: s)
    next
      case (Some q)
      obtain data enc where dec: "ws_memory ws = Some data" "try_read_arraybuffer_as_vec data p = Inr enc"
          "decode enc = Some decoded"
        using \<open>Option.bind _ _ = Some decoded\<close> by (auto split: Option.bind_splits sum.splits)
      have "fst s' = ctx\<lparr>ctx_db := ?d\<rparr> \<or> (\<exists>q. fst s' = ctx\<lparr>ctx_db := ?d, ctx_pending := Some q, ctx_state := 1\<rparr>)"
      proof (cases ?built)
        case (Inl e)
        with assms Some dec show ?thesis by (auto simp: indexer_flush_def s Let_def flush_failed_def)
      next
        case (Inr rb)
        obtain root batch where "rb = (root, batch)" by (rule prod.exhaust)
        with Inr assms Some dec show ?thesis by (auto simp: indexer_flush_def s Let_def)
      qed
      moreover have "ctx\<lparr>ctx_db := ?d\<rparr> = flushed_ctx ctx ?d (Some q) (ctx_state ctx)"
        using Some by (cases ctx) (simp add: flushed_ctx_def)
      moreover have "ctx\<lparr>ctx_db := ?d, ctx_pending := Some q', ctx_state := 1\<rparr> = flushed_ctx ctx ?d (Some q') 1" for q'
        by (simp add: flushed_ctx_def)
      ultimately have "\<exists>q st. fst s' = flushed_ctx ctx ?d (Some q) st" by metis
      with Some show ?thesis using armed by (auto simp: s)
    qed
  qed
qed

lemma copy_of_track_all:
  "copy_of B d0 d \<Longrightarrow> copy_of B d0 (fold (\<lambda>(k, v). kb_track B k v) kvs d)"
  by (induction kvs arbitrary: d) (auto intro: copy_of.tracked)

lemma indexer_flush_copy:
  assumes "indexer_flush hexe decode B p s = (r, s')" "copy_of B d0 (ctx_db (fst s))"
  shows "copy_of B d0 (ctx_db (fst s'))"
  using assms(1)
proof (cases rule: indexer_flush_cases)
  case none
  with assms(2) show ?thesis by simp
next
  case (armed kvs q st)
  with copy_of_track_all [OF assms(2)] show ?thesis by (simp add: flushed_ctx_def)
next
  case (direct kvs x d' st)
  let ?d = "fold (\<lambda>(k, v). kb_track B k v) kvs (ctx_db (fst s))"
  have "copy_of B d0 ?d" by (rule copy_of_track_all) (rule assms(2))
  with store_state_root_on_db [OF direct(2)] have "copy_of B d0 d'" by (auto intro: copy_of.written)
  with direct(3) show ?thesis by (simp add: flushed_ctx_def)
qed

section \<open>Atomic execution\<close>

text \<open>The context through an armed execution.\<close>

definition armed_from :: "('d, 'x) kv_backend_scheme \<Rightarrow> 'd rt_context \<Rightarrow> 'd rt_context \<Rightarrow> bool" where
  "armed_from B ctx0 ctx \<longleftrightarrow>
     (\<exists>kvs q st. ctx = flushed_ctx ctx0 (fold (\<lambda>(k, v). kb_track B k v) kvs (ctx_db ctx0)) (Some q) st)"

lemma armed_from_start: "ctx_pending ctx = Some q \<Longrightarrow> armed_from B ctx ctx"
  unfolding armed_from_def
  by (intro exI [of _ "[]"] exI [of _ q] exI [of _ "ctx_state ctx"]) (simp add: flushed_ctx_def)

lemma armed_from_flush:
  assumes "armed_from B ctx0 ctx"
    and "ctx' = flushed_ctx ctx (fold (\<lambda>(k, v). kb_track B k v) kvs' (ctx_db ctx)) (Some q') st'"
  shows "armed_from B ctx0 ctx'"
proof -
  obtain kvs q st where
      "ctx = flushed_ctx ctx0 (fold (\<lambda>(k, v). kb_track B k v) kvs (ctx_db ctx0)) (Some q) st"
    using assms(1) by (auto simp: armed_from_def)
  with assms(2) have
      "ctx' = flushed_ctx ctx0 (fold (\<lambda>(k, v). kb_track B k v) (kvs @ kvs') (ctx_db ctx0)) (Some q') st'"
    by (simp add: flushed_ctx_def)
  then show ?thesis unfolding armed_from_def by blast
qed

lemma armed_execution:
  assumes "call_guest M (setup_linker_indexer hexe hexd decode B) g s = Some (out, s')"
    and "ctx_pending (fst s) = Some q"
  shows "armed_from B (fst s) (fst s')"
proof (rule guest_runs_invariant [where I = "\<lambda>t. armed_from B (fst s) (fst t)"])
  show "guest_runs M (setup_linker_indexer hexe hexd decode B) g s out s'"
    using assms(1) by (simp add: call_guest_iff)
  show "armed_from B (fst s) (fst s)" by (rule armed_from_start) (rule assms(2))
next
  fix c t r t'
  assume I: "armed_from B (fst s) (fst t)" and link: "setup_linker_indexer hexe hexd decode B c t = (r, t')"
  have pend: "ctx_pending (fst t) \<noteq> None" using I by (auto simp: armed_from_def flushed_ctx_def)
  consider "fst t' = fst t" | p r0 where "indexer_flush hexe decode B p t = (r0, t')"
    using indexer_linker_ctx [OF link] by blast
  then show "armed_from B (fst s) (fst t')"
  proof cases
    case 1
    with I show ?thesis by simp
  next
    case 2
    then show ?thesis
    proof (cases rule: indexer_flush_cases)
      case (armed kvs q st)
      with armed_from_flush [OF I, of "fst t'" kvs] show ?thesis by blast
    qed (use I pend in auto)
  qed
qed simp_all

lemma execute_start_ctx:
  assumes "execute_start M link un fa ce r = Some (res, r')"
    and "\<And>g out s'. call_guest M link g (rw_context r, (rw_store r)\<lparr>ws_flush_error := None\<rparr>) = Some (out, s') \<Longrightarrow>
       P (fst s')"
    and "P (rw_context r)"
  shows "P (rw_context r')"
  using assms by (auto simp: execute_start_def Let_def put_host_state_def split: option.splits)

lemma refresh_memory_ctx: "refresh_memory M r = (x, r') \<Longrightarrow> rw_context r' = rw_context r"
  by (auto simp: refresh_memory_def instantiate_def sbind_def split: sum.splits prod.splits)

lemma finish_atomic_db:
  assumes "finish_atomic B M h bh ex r1 = (res, r')"
  shows "ctx_db (rw_context r') = ctx_db (rw_context r1)"
proof -
  have refresh: "ctx_db (rw_context (snd (refresh_memory M (set_pending q r)))) = ctx_db (rw_context r)" for q r
    using refresh_memory_ctx [of M "set_pending q r"] by (cases "refresh_memory M (set_pending q r)")
      (simp add: set_pending_def)
  show ?thesis
  proof (cases ex)
    case (Inl e)
    with assms show ?thesis by (simp add: finish_atomic_def)
  next
    case (Inr judged)
    show ?thesis
    proof (cases judged)
      case (Inl e)
      with assms Inr refresh [of None r1] show ?thesis
        by (cases e) (auto simp: finish_atomic_def)
    next
      case ok: (Inr u)
      obtain x r4 where x: "refresh_memory M (set_pending None r1) = (x, r4)" by (rule prod.exhaust)
      with refresh [of None r1] have "ctx_db (rw_context r4) = ctx_db (rw_context r1)" by simp
      with assms Inr ok x show ?thesis
        by (cases "get_current_state_root (so_scan B (ctx_db (rw_context r1)))"; cases x)
           (auto simp: finish_atomic_def calculate_state_root_def sbind_def Let_def)
    qed
  qed
qed

lemma atomic_database:
  assumes "process_block_atomic B M (setup_linker_indexer hexe hexd decode B) h blk bh r = Some (res, r')"
  shows "\<exists>kvs. ctx_db (rw_context r') = fold (\<lambda>(k, v). kb_track B k v) kvs (ctx_db (rw_context r))"
proof -
  let ?r0 = "set_block h blk bh (set_pending (Some []) r)"
  let ?P = "\<lambda>c. \<exists>kvs. ctx_db c = fold (\<lambda>(k, v). kb_track B k v) kvs (ctx_db (rw_context r))"
  obtain ex r1 where ex: "execute_start M (setup_linker_indexer hexe hexd decode B)
        ''indexer exited unexpectedly during atomic processing''
        ''indexer host function reported failure during atomic processing''
        ''Error calling _start function in atomic processing'' ?r0 = Some (ex, r1)"
      and post: "finish_atomic B M h bh ex r1 = (res, r')"
    using assms unfolding process_block_atomic_def by auto
  have "?P (rw_context r1)"
  proof (rule execute_start_ctx [OF ex])
    fix g out s'
    assume "call_guest M (setup_linker_indexer hexe hexd decode B) g
        (rw_context ?r0, (rw_store ?r0)\<lparr>ws_flush_error := None\<rparr>) = Some (out, s')"
    from armed_execution [OF this] have "armed_from B (rw_context ?r0) (fst s')"
      by (simp add: set_block_def set_pending_def)
    then show "?P (fst s')" by (auto simp: armed_from_def flushed_ctx_def set_block_def set_pending_def)
  next
    show "?P (rw_context ?r0)" by (rule exI [of _ "[]"]) (simp add: set_block_def set_pending_def)
  qed
  with finish_atomic_db [OF post] show ?thesis by simp
qed

section \<open>Views and previews\<close>

lemma view_execution:
  assumes "call_guest M (setup_linker_view hexd B) g s = Some (out, s')"
  shows "fst s' = fst s"
proof (rule guest_runs_invariant [where I = "\<lambda>t. fst t = fst s"])
  show "guest_runs M (setup_linker_view hexd B) g s out s'" using assms by (simp add: call_guest_iff)
  show "fst t' = fst s" if "fst t = fst s" "setup_linker_view hexd B c t = (r, t')" for c t r t'
    using view_linker_ctx [OF that(2)] that(1) by simp
qed simp_all

lemma call_view_db:
  assumes "call_view nf ce M (setup_linker_view hexd B) symbol input r = Some (res, r')"
  shows "ctx_db (rw_context r') = ctx_db (rw_context r)"
  using assms
  by (auto simp: call_view_def Let_def put_host_state_def dest!: view_execution split: option.splits)

lemma view_leaves_runtime:
  assumes "view_with_limits M (setup_linker_view hexd B) n symbol input h r = Some (res, r')"
  shows "r' = r"
proof (cases "new_with_db M n (ctx_db (rw_context r)) h")
  case (Inl e)
  with assms show ?thesis by (simp add: view_with_limits_def)
next
  case (Inr vr)
  then have "ctx_db (rw_context vr) = ctx_db (rw_context r)"
    by (auto simp: new_with_db_def context_new_def split: sum.splits)
  with assms Inr show ?thesis
    by (auto simp: view_with_limits_def dest!: call_view_db)
qed

lemma copy_execution:
  assumes "call_guest M (setup_linker_indexer hexe hexd decode B) g s = Some (out, s')"
    and "copy_of B d0 (ctx_db (fst s))"
  shows "copy_of B d0 (ctx_db (fst s'))"
proof (rule guest_runs_invariant [where I = "\<lambda>t. copy_of B d0 (ctx_db (fst t))"])
  show "guest_runs M (setup_linker_indexer hexe hexd decode B) g s out s'"
    using assms(1) by (simp add: call_guest_iff)
  show "copy_of B d0 (ctx_db (fst t'))"
    if "copy_of B d0 (ctx_db (fst t))" "setup_linker_indexer hexe hexd decode B c t = (r, t')" for c t r t'
    using indexer_linker_ctx [OF that(2)] that(1) indexer_flush_copy by metis
qed (use assms(2) in simp_all)

lemma preview_view_copy:
  assumes "preview_view M (setup_linker_view hexd B) n symbol input d h = Some (res, d')"
  shows "d' = d"
  using assms
  by (auto simp: preview_view_def context_new_def dest!: call_view_db split: sum.splits)

lemma preview_result:
  assumes "preview B M (setup_linker_indexer hexe hexd decode B) (setup_linker_view hexd B) n blk symbol input h r
      = Some (res, r')"
  shows "r' = r \<or> (\<exists>c. copy_of B (ctx_db (rw_context r)) c \<and> r' = preview_rejoin B c r)"
proof (cases "add_u32 h 1")
  case (Inl e)
  with assms show ?thesis by (simp add: preview_def)
next
  case (Inr ph)
  let ?d = "kb_isolated B (ctx_db (rw_context r))"
  have start: "copy_of B (ctx_db (rw_context r)) ?d" by (rule copy_of.isolated)
  show ?thesis
  proof (cases "new_with_db M n ?d ph")
    case (Inl e)
    with assms Inr start show ?thesis by (auto simp: preview_def)
  next
    case pr: (Inr pr)
    then have db: "ctx_db (rw_context pr) = ?d"
      by (auto simp: new_with_db_def context_new_def split: sum.splits)
    show ?thesis
    proof (cases "wm_enter M ''_start'' (ws_guest (rw_store pr))")
      case None
      with assms Inr pr start show ?thesis by (auto simp: preview_def)
    next
      case (Some g)
      with assms Inr pr obtain out s where
          run: "call_guest M (setup_linker_indexer hexe hexd decode B) g
            ((rw_context pr)\<lparr>ctx_block := blk\<rparr>, rw_store pr) = Some (out, s)"
        by (auto simp: preview_def bind_eq_Some_conv)
      from copy_execution [OF run] start have "copy_of B (ctx_db (rw_context r)) (ctx_db (fst s))"
        by (simp add: db)
      with assms Inr pr Some run show ?thesis
        by (auto simp: preview_def dest!: preview_view_copy split: option.splits)
    qed
  qed
qed

section \<open>Properties of isolation\<close>

lemma rt_track_all:
  "\<exists>t. fold (\<lambda>(k, v). rt_track_kv_update k v) kvs s = s\<lparr>kv_tracker := t\<rparr>"
proof (induction kvs arbitrary: s)
  case Nil
  show ?case by (rule exI [of _ "kv_tracker s"]) simp
next
  case (Cons kv kvs)
  obtain k v where kv: "kv = (k, v)" by (cases kv)
  obtain t where "rt_track_kv_update k v s = s\<lparr>kv_tracker := t\<rparr>" using rt_track_update by blast
  with Cons [of "s\<lparr>kv_tracker := t\<rparr>"] show ?case by (auto simp: kv)
qed

text \<open>
  C2: executing a block atomically never writes. For any module, any flush decoder and any
  database, whatever \<open>_start\<close> does and however it ends (a result, an error, a trap or a
  panic of the host), the backend handle after \<open>process_block_atomic\<close> is the one before
  it but for what the update tracker has been handed: the same database, fork, height and
  shadow.
\<close>

theorem atomic_execution_never_writes:
  "case process_block_atomic (rt_backend lbl R to_data) M
          (setup_linker_indexer hexe hexd decode (rt_backend lbl R to_data)) h blk bh r of
     None \<Rightarrow> True
   | Some (res, r') \<Rightarrow>
       \<exists>t. ctx_db (rw_context r') = (ctx_db (rw_context r))\<lparr>kv_tracker := t\<rparr>"
proof -
  let ?B = "rt_backend lbl R to_data"
  have "\<exists>t. ctx_db (rw_context r') = (ctx_db (rw_context r))\<lparr>kv_tracker := t\<rparr>"
    if "process_block_atomic ?B M (setup_linker_indexer hexe hexd decode ?B) h blk bh r = Some (res, r')" for res r'
    using atomic_database [OF that] rt_track_all by auto
  then show ?thesis by (auto split: option.splits)
qed

text \<open>
  C3: views and previews leave the runtime they are called on exactly as it was, whatever
  the guest does with the host functions it is given, direct flushes of the previewed
  block included: context, database handle, store and instance are unchanged.
\<close>

theorem views_and_previews_change_nothing:
  "(case view_with_limits M (setup_linker_view hexd (rt_backend lbl R to_data)) n symbol input h r of
      None \<Rightarrow> True | Some (res, r') \<Rightarrow> r' = r)
   \<and> (case preview (rt_backend lbl R to_data) M
            (setup_linker_indexer hexe hexd decode (rt_backend lbl R to_data))
            (setup_linker_view hexd (rt_backend lbl R to_data)) n blk symbol input h r of
      None \<Rightarrow> True | Some (res, r') \<Rightarrow> r' = r)"
proof -
  let ?B = "rt_backend lbl R to_data"
  have "preview_rejoin ?B c r = r" if "copy_of ?B (ctx_db (rw_context r)) c" for c
    using rt_copy_of [OF that] by (simp add: preview_rejoin_def rt_share_def)
  then have "r' = r"
    if "preview ?B M (setup_linker_indexer hexe hexd decode ?B) (setup_linker_view hexd ?B) n blk symbol input h r
      = Some (res, r')" for res r'
    using preview_result [OF that] by auto
  moreover have "r' = r"
    if "view_with_limits M (setup_linker_view hexd ?B) n symbol input h r = Some (res, r')" for res r'
    by (rule view_leaves_runtime [OF that])
  ultimately show ?thesis by (auto split: option.splits)
qed

section \<open>Blocks do not influence each other\<close>

lemma refresh_always:
  assumes "\<And>n. wm_instantiate M n = Inr (g0, mem0)"
  shows "refresh_memory M r = (Inr (), r\<lparr>rw_instances := rw_instances r + 1, rw_store := state_new mem0 g0\<rparr>)"
  by (simp add: refresh_memory_def instantiate_def sbind_def assms)

lemma execute_start_same:
  assumes "rw_context r1 = rw_context r2" "rw_store r1 = rw_store r2"
  shows "map_option (\<lambda>(ex, r). (ex, rw_context r, rw_store r)) (execute_start M link un fa ce r1)
    = map_option (\<lambda>(ex, r). (ex, rw_context r, rw_store r)) (execute_start M link un fa ce r2)"
  using assms
  by (auto simp: execute_start_def Let_def put_host_state_def option.map_comp comp_def case_prod_beta
      split: option.splits)

text \<open>What an operation leaves, but for the count of instances.\<close>

definition visible :: "'a \<times> ('d, 'g) wasm_runtime \<Rightarrow> 'a \<times> 'd rt_context \<times> 'g wasm_store" where
  "visible x = (fst x, rw_context (snd x), rw_store (snd x))"

lemma finish_atomic_same:
  assumes "\<And>n. wm_instantiate M n = Inr (g0, mem0)"
    and "rw_context r1 = rw_context r2" "rw_store r1 = rw_store r2"
  shows "visible (finish_atomic B M h bh ex r1) = visible (finish_atomic B M h bh ex r2)"
proof -
  have root: "fst (calculate_state_root B r1) = fst (calculate_state_root B r2)"
      "snd (calculate_state_root B r1) = r1" "snd (calculate_state_root B r2) = r2"
    using assms(2) by (auto simp: calculate_state_root_def split: sum.splits)
  obtain x where x: "calculate_state_root B r1 = (x, r1)" "calculate_state_root B r2 = (x, r2)"
    using root by (metis prod.collapse)
  show ?thesis
  proof (cases ex)
    case (Inl e)
    with assms(2,3) show ?thesis by (simp add: finish_atomic_def visible_def)
  next
    case (Inr judged)
    show ?thesis
    proof (cases judged)
      case (Inl e)
      with assms(2,3) \<open>ex = Inr judged\<close> show ?thesis
        by (cases e) (simp_all add: finish_atomic_def visible_def refresh_always [OF assms(1)] set_pending_def)
    next
      case (Inr u)
      with assms(2,3) \<open>ex = Inr judged\<close> x show ?thesis
        by (cases x) (simp_all add: finish_atomic_def visible_def sbind_def Let_def refresh_always [OF assms(1)]
          set_pending_def)
    qed
  qed
qed

lemma finish_atomic_fresh:
  assumes "\<And>n. wm_instantiate M n = Inr (g0, mem0)"
    and "get_current_state_root (so_scan B (ctx_db (rw_context r1))) = Inr root"
    and "finish_atomic B M h bh (Inr judged) r1 = (res, r')" "\<forall>e. res \<noteq> Inl (RtPanic e)"
  shows "rw_store r' = state_new mem0 g0 \<and> ctx_pending (rw_context r') = None"
proof (cases judged)
  case (Inl e)
  with assms(3,4) show ?thesis
    by (cases e) (auto simp: finish_atomic_def refresh_always [OF assms(1)] set_pending_def)
next
  case (Inr u)
  with assms(2,3) show ?thesis
    by (auto simp: finish_atomic_def calculate_state_root_def sbind_def Let_def refresh_always [OF assms(1)]
        set_pending_def)
qed

text \<open>A small module for examples: \<open>_start\<close> flushes the buffers at the pointers it holds.\<close>

definition flusher :: "i32 list \<Rightarrow> bytes \<Rightarrow> i32 list wasm_module" where
  "flusher ps mem =
     \<lparr>wm_instantiate = (\<lambda>_. Inr (ps, Some mem)),
      wm_enter = (\<lambda>symbol g. if symbol = ''_start'' then Some g else None),
      wm_step = (\<lambda>g m. case g of [] \<Rightarrow> Return 0 [] m | p # ps \<Rightarrow> Invoke (FlushCall p) (\<lambda>_. ps) m)\<rparr>"

definition fresh_runtime :: "'g wasm_module \<Rightarrow> 'd \<Rightarrow> ('d, 'g) wasm_runtime \<Rightarrow> bool" where
  "fresh_runtime M d r \<longleftrightarrow>
     ctx_db (rw_context r) = d
   \<and> (\<forall>n. wm_instantiate M n = Inr (ws_guest (rw_store r), ws_memory (rw_store r)))
   \<and> rw_store r = state_new (ws_memory (rw_store r)) (ws_guest (rw_store r))"

text \<open>
  C4: a block runs in isolation from the blocks before it. On a module that instantiates
  the same way every time and has a \<open>_start\<close>, two runtimes with the same database and a
  fresh instance give the same result for a block, whatever height, block, hash, state and
  armed slot earlier calls left in them; and unless the host panicked, the runtime
  afterwards again has a fresh instance and a disarmed slot, so that the same holds for
  the next block.
\<close>

theorem blocks_run_in_isolation:
  assumes "fresh_runtime M d r1" "fresh_runtime M d r2" "wm_enter M ''_start'' (ws_guest (rw_store r1)) \<noteq> None"
  shows "map_option visible (process_block_atomic (rt_backend lbl R to_data) M link h blk bh r1)
      = map_option visible (process_block_atomic (rt_backend lbl R to_data) M link h blk bh r2)
    \<and> (\<forall>res r'. process_block_atomic (rt_backend lbl R to_data) M link h blk bh r1 = Some (res, r') \<longrightarrow>
         (\<forall>e. res \<noteq> Inl (RtPanic e)) \<longrightarrow>
         fresh_runtime M (ctx_db (rw_context r')) r' \<and> ctx_pending (rw_context r') = None)"
proof (intro conjI allI impI)
  let ?B = "rt_backend lbl R to_data"
  let ?un = "''indexer exited unexpectedly during atomic processing''"
  let ?fa = "''indexer host function reported failure during atomic processing''"
  let ?ce = "''Error calling _start function in atomic processing''"
  let ?s1 = "set_block h blk bh (set_pending (Some []) r1)" and ?s2 = "set_block h blk bh (set_pending (Some []) r2)"
  obtain g0 mem0 where inst: "\<And>n. wm_instantiate M n = Inr (g0, mem0)"
      and st: "rw_store r1 = state_new mem0 g0" "rw_store r2 = state_new mem0 g0"
    using assms(1,2) unfolding fresh_runtime_def by (metis Inr_inject prod.inject)
  have "rw_context ?s1 = rw_context ?s2" "rw_store ?s1 = rw_store ?s2"
    using assms(1,2) st
    by (cases "rw_context r1"; cases "rw_context r2"; simp add: fresh_runtime_def set_block_def set_pending_def)+
  note same = execute_start_same [OF this, of M link ?un ?fa ?ce]
  show "map_option visible (process_block_atomic ?B M link h blk bh r1)
      = map_option visible (process_block_atomic ?B M link h blk bh r2)"
  proof (cases "execute_start M link ?un ?fa ?ce ?s1")
    case None
    with same show ?thesis by (simp add: process_block_atomic_def)
  next
    case (Some x)
    obtain ex t1 where x: "x = (ex, t1)" by (rule prod.exhaust)
    with same Some have "map_option (\<lambda>(ex, r). (ex, rw_context r, rw_store r))
        (execute_start M link ?un ?fa ?ce ?s2) = Some (ex, rw_context t1, rw_store t1)" by simp
    then obtain t2 where t2: "execute_start M link ?un ?fa ?ce ?s2 = Some (ex, t2)"
        "rw_context t1 = rw_context t2" "rw_store t1 = rw_store t2"
      by (auto simp: map_option_eq_Some)
    with Some x finish_atomic_same [OF inst t2(2,3)] show ?thesis
      by (simp add: process_block_atomic_def)
  qed
  fix res r'
  assume run: "process_block_atomic ?B M link h blk bh r1 = Some (res, r')" and np: "\<forall>e. res \<noteq> Inl (RtPanic e)"
  obtain ex t1 where ex: "execute_start M link ?un ?fa ?ce ?s1 = Some (ex, t1)"
      and fin: "finish_atomic ?B M h bh ex t1 = (res, r')"
    using run by (auto simp: process_block_atomic_def)
  obtain judged where "ex = Inr judged"
    using ex assms(3) by (auto simp: execute_start_def Let_def set_block_def set_pending_def split: option.splits)
  moreover obtain root where "get_current_state_root (so_scan ?B (ctx_db (rw_context t1))) = Inr root"
    by (auto simp: get_current_state_root_def rt_scan_prefix_def Let_def)
  ultimately have "rw_store r' = state_new mem0 g0 \<and> ctx_pending (rw_context r') = None"
    using finish_atomic_fresh [OF inst] fin np by blast
  then show "fresh_runtime M (ctx_db (rw_context r')) r'" "ctx_pending (rw_context r') = None"
    by (simp_all add: fresh_runtime_def inst state_new_def)
qed

text \<open>Two pairs in the encoding of the examples.\<close>

definition sample_fields :: "bytes list \<Rightarrow> bytes" where
  "sample_fields fs = concat (map (\<lambda>f. encode_hex_fast f @ '':'') fs)"

definition sample_decode :: "bytes \<Rightarrow> bytes list option" where
  "sample_decode b = Some (split_fields b)"

lemma sample_decode_fields: "sample_decode (sample_fields fs) = Some fs"
  by (simp add: sample_decode_def sample_fields_def split_fields_encoded)

definition sample_wasm :: "(list_db rocks_runtime, i32 list) wasm_runtime" where
  "sample_wasm = \<lparr>rw_context = context_new (rt_new []) 7 ''old'', rw_store = state_new (Some ''abcdefgh'') [],
     rw_instances = 4\<rparr>"

theorem blocks_run_in_isolation_witness:
  "\<exists>out. map_option visible (process_block_atomic (rt_backend None list_rocks sample_data) (flusher [] ''abcdefgh'')
        (setup_linker_indexer encode_hex_fast hex_decode sample_decode (rt_backend None list_rocks sample_data))
        3 ''b'' ''h'' sample_wasm) = Some out
     \<and> fst out = Inl (RtError ''indexer exited unexpectedly during atomic processing'')"
proof -
  let ?M = "flusher [] ''abcdefgh''" and ?B = "rt_backend None list_rocks sample_data"
  let ?link = "setup_linker_indexer encode_hex_fast hex_decode sample_decode ?B"
  have fresh: "fresh_runtime ?M (rt_new []) sample_wasm"
      "fresh_runtime ?M (rt_new []) (sample_wasm\<lparr>rw_context := context_new (rt_new []) 0 []\<rparr>)"
    by (simp_all add: fresh_runtime_def sample_wasm_def flusher_def context_new_def state_new_def)
  have entry: "wm_enter ?M ''_start'' (ws_guest (rw_store sample_wasm)) \<noteq> None"
    by (simp add: flusher_def)
  have stops: "call_guest ?M ?link [] s = Some (Returned 0, (fst s, (snd s)\<lparr>ws_memory := ws_memory (snd s), ws_guest := []\<rparr>))" for s
    by (subst call_guest.simps) (simp add: flusher_def)
  have "\<exists>r'. process_block_atomic ?B ?M ?link 3 ''b'' ''h'' (sample_wasm\<lparr>rw_context := context_new (rt_new []) 0 []\<rparr>)
      = Some (Inl (RtError ''indexer exited unexpectedly during atomic processing''), r')"
    by (simp add: process_block_atomic_def execute_start_def set_block_def set_pending_def sample_wasm_def
        state_new_def context_new_def stops judge_def finish_atomic_def Let_def put_host_state_def)
       (simp add: flusher_def stops [unfolded flusher_def] judge_def finish_atomic_def put_host_state_def)
  with blocks_run_in_isolation [OF fresh entry, where lbl = None and R = list_rocks and to_data = sample_data
      and link = ?link and h = 3 and blk = "''b''" and bh = "''h''"]
  show ?thesis by (auto simp: visible_def)
qed

end
