(* ===== verification/GuestCore.thy ===== *)
theory GuestCore
  imports WasmProps
begin

text \<open>
  The guest library: \<open>crates/metashrew-core/src/lib.rs\<close> (the cache, the flush queue,
  \<open>get\<close>, \<open>set\<close>, \<open>flush\<close>, \<open>input\<close>, \<open>export_bytes\<close>), \<open>stdio.rs\<close> and the entry point of
  \<open>declare_indexer!\<close> (\<open>macros.rs\<close>), over the buffer layout of
  \<open>crates/metashrew-support/src/compat.rs\<close>.

  A guest program is data: what it does next to its memory or with the host, and how it
  goes on. The library functions take the rest of the program as their last argument. The
  Rust values of the guest (\<open>CACHE\<close>, \<open>TO_FLUSH\<close>) are HOL values; the linear memory holds
  the buffers that cross to the host. Where a buffer is put is the allocator's choice, the
  parameter \<open>place\<close>: a function of the memory and the size. \<open>encode\<close> is the protobuf encoder
  of \<open>KeyValueFlush\<close>.
\<close>

section \<open>Guest programs\<close>

datatype prog =
    Done i32
  | Fault string
  | Host_call host_call "i32 \<Rightarrow> prog"
  | Alloc nat "nat \<Rightarrow> prog"
  | Store_bytes nat bytes prog
  | Load_bytes nat nat "bytes \<Rightarrow> prog"

definition prog_step :: "(bytes \<Rightarrow> nat \<Rightarrow> nat) \<Rightarrow> prog \<Rightarrow> bytes option \<Rightarrow> prog guest_action" where
  "prog_step place p m =
     (case (p, m) of
        (Done r, _) \<Rightarrow> Return r p m
      | (Fault e, _) \<Rightarrow> Trap e m
      | (Host_call c k, _) \<Rightarrow> Invoke c k m
      | (Alloc n k, Some mem) \<Rightarrow> Internal_step (k (place mem n)) m
      | (Store_bytes a bs p', Some mem) \<Rightarrow>
          (case mem_store_at a bs mem of
             Some mem' \<Rightarrow> Internal_step p' (Some mem')
           | None \<Rightarrow> Trap ''out of bounds memory access'' m)
      | (Load_bytes a n k, Some mem) \<Rightarrow>
          if a + n \<le> length mem then Internal_step (k (take n (drop a mem))) m
          else Trap ''out of bounds memory access'' m
      | (_, None) \<Rightarrow> Trap ''out of bounds memory access'' m)"

definition prog_module :: "(bytes \<Rightarrow> nat \<Rightarrow> nat) \<Rightarrow> (string \<Rightarrow> prog option) \<Rightarrow> bytes \<Rightarrow> prog wasm_module" where
  "prog_module place exports mem0 =
     \<lparr>wm_instantiate = (\<lambda>_. Inr (Done 0, Some mem0)), wm_enter = (\<lambda>symbol _. exports symbol),
      wm_step = prog_step place\<rparr>"

section \<open>Buffers\<close>

definition to_ptr :: "nat \<Rightarrow> i32" where
  "to_ptr a = of_nat a"

definition to_passback_ptr :: "nat \<Rightarrow> i32" where
  "to_passback_ptr a = to_ptr a + 4"

definition to_arraybuffer_layout :: "bytes \<Rightarrow> bytes" where
  "to_arraybuffer_layout v = le_bytes 4 (length v) @ v"

text \<open>A buffer of the guest, at the address the allocator gives it.\<close>

definition with_buffer :: "bytes \<Rightarrow> (nat \<Rightarrow> prog) \<Rightarrow> prog" where
  "with_buffer bs k = Alloc (length bs) (\<lambda>a. Store_bytes a bs (k a))"

text \<open>\<open>compat::export_bytes\<close>: the buffer is leaked, the pointer is to its data.\<close>

definition support_export_bytes :: "bytes \<Rightarrow> (i32 \<Rightarrow> prog) \<Rightarrow> prog" where
  "support_export_bytes v k = with_buffer (to_arraybuffer_layout v) (\<lambda>a. k (to_ptr a + 4))"

section \<open>The library\<close>

record core =
  core_cache :: "(bytes \<rightharpoonup> bytes) option"
  core_to_flush :: "bytes list option"

definition core_start :: core where
  "core_start = \<lparr>core_cache = None, core_to_flush = None\<rparr>"

definition core_reset :: "core \<Rightarrow> core" where
  "core_reset c = c\<lparr>core_to_flush := Some []\<rparr>"

definition core_initialize :: "core \<Rightarrow> core" where
  "core_initialize c = (if core_cache c = None then (core_reset c)\<lparr>core_cache := Some Map.empty\<rparr> else c)"

definition core_clear :: "core \<Rightarrow> core" where
  "core_clear c = (core_reset c)\<lparr>core_cache := Some Map.empty\<rparr>"

definition get_cache :: "core \<Rightarrow> (bytes \<rightharpoonup> bytes) option" where
  "get_cache c = core_cache c"

text \<open>\<open>buffer.extend(len.to_le_bytes()); buffer.resize((len as usize) + 4, 0)\<close> on 32 bits.\<close>

definition sized_buffer :: "i32 \<Rightarrow> bytes" where
  "sized_buffer len =
     (let n = add32 (unat len) 4
      in take n (le_bytes 4 (unat len) @ replicate (n - 4) (char_of (0 :: nat))))"

text \<open>\<open>buffer[4..]\<close>\<close>

definition after_prefix :: "nat \<Rightarrow> nat \<Rightarrow> (bytes \<Rightarrow> prog) \<Rightarrow> prog" where
  "after_prefix b n k =
     Load_bytes b n (\<lambda>buffer. if length buffer < 4 then Fault ''range start index 4 out of range''
       else k (drop 4 buffer))"

definition core_get :: "bytes \<Rightarrow> core \<Rightarrow> (bytes \<Rightarrow> core \<Rightarrow> prog) \<Rightarrow> prog" where
  "core_get v c k =
     (let c1 = core_initialize c;
          cache = the (core_cache c1)
      in case cache v of
           Some x \<Rightarrow> k x c1
         | None \<Rightarrow>
             with_buffer (to_arraybuffer_layout v) (\<lambda>a.
             Host_call (GetLenCall (to_passback_ptr a)) (\<lambda>len.
             with_buffer (sized_buffer len) (\<lambda>b.
             with_buffer (to_arraybuffer_layout v) (\<lambda>a'.
             Host_call (GetCall (to_passback_ptr a') (to_passback_ptr b)) (\<lambda>_.
             after_prefix b (length (sized_buffer len)) (\<lambda>x.
               k x (c1\<lparr>core_cache := Some (cache(v \<mapsto> x))\<rparr>))))))))"

definition core_set :: "bytes \<Rightarrow> bytes \<Rightarrow> core \<Rightarrow> core" where
  "core_set key val c =
     (let c1 = core_initialize c
      in c1\<lparr>core_cache := Some ((the (core_cache c1))(key \<mapsto> val)),
            core_to_flush := Some (the (core_to_flush c1) @ [key])\<rparr>)"

text \<open>The message of a flush; a queued key without a cache entry would be a panic.\<close>

definition flush_list :: "core \<Rightarrow> bytes list option" where
  "flush_list c =
     (if \<forall>item \<in> set (the (core_to_flush c)). the (core_cache c) item \<noteq> None
      then Some (concat (map (\<lambda>item. [item, the (the (core_cache c) item)]) (the (core_to_flush c))))
      else None)"

definition core_flush :: "(bytes list \<Rightarrow> bytes) \<Rightarrow> core \<Rightarrow> (core \<Rightarrow> prog) \<Rightarrow> prog" where
  "core_flush encode c k =
     (let c1 = core_initialize c
      in case flush_list c1 of
           None \<Rightarrow> Fault ''called Option::unwrap() on a None value''
         | Some to_encode \<Rightarrow>
             with_buffer (to_arraybuffer_layout (encode to_encode)) (\<lambda>a.
             Host_call (FlushCall (to_ptr a + 4)) (\<lambda>_. k (c1\<lparr>core_to_flush := Some []\<rparr>))))"

definition core_input :: "core \<Rightarrow> (bytes \<Rightarrow> core \<Rightarrow> prog) \<Rightarrow> prog" where
  "core_input c k =
     (let c1 = core_initialize c
      in Host_call HostLen (\<lambda>len.
         with_buffer (sized_buffer len) (\<lambda>b.
         Host_call (LoadInput (to_ptr b + 4)) (\<lambda>_.
         after_prefix b (length (sized_buffer len)) (\<lambda>x. k x c1)))))"

text \<open>\<open>metashrew_core::export_bytes\<close>: the pointer is to the length prefix of the buffer.\<close>

definition core_export_bytes :: "bytes \<Rightarrow> (i32 \<Rightarrow> prog) \<Rightarrow> prog" where
  "core_export_bytes bs k = with_buffer (le_bytes 4 (length bs) @ bs) (\<lambda>a. k (to_ptr a))"

definition core_log :: "bytes \<Rightarrow> prog \<Rightarrow> prog" where
  "core_log v p = with_buffer (to_arraybuffer_layout v) (\<lambda>a. Host_call (LogText (to_passback_ptr a)) (\<lambda>_. p))"

section \<open>Indexers\<close>

text \<open>
  The code a user writes against the library: reads and writes in any order, each depending
  on what was read, then the end. \<open>compile\<close> is the program it becomes.
\<close>

datatype index_code =
    Read bytes "bytes \<Rightarrow> index_code"
  | Write bytes bytes index_code
  | Finish

primrec compile :: "index_code \<Rightarrow> core \<Rightarrow> (core \<Rightarrow> prog) \<Rightarrow> prog" where
  "compile (Read key f) c k = core_get key c (\<lambda>x c'. compile (f x) c' k)"
| "compile (Write key val u) c k = compile u (core_set key val c) k"
| "compile Finish c k = k c"

text \<open>\<open>_start\<close> as \<open>declare_indexer!\<close> generates it; \<open>index_block\<close> includes the block parser.\<close>

definition indexer_start ::
    "(bytes list \<Rightarrow> bytes) \<Rightarrow> (nat \<Rightarrow> bytes \<Rightarrow> index_code) \<Rightarrow> prog" where
  "indexer_start encode index_block =
     core_input core_start (\<lambda>input c.
       if length input < 4 then Fault ''index out of bounds''
       else compile (index_block (from_le (take 4 input)) (drop 4 input)) c (\<lambda>c'.
         core_flush encode c' (\<lambda>_. Done 0)))"

text \<open>
  What the code means: reads see its own writes, then the database; the block's pairs are
  its writes in order, each with the last value written to its key.
\<close>

primrec meaning ::
    "index_code \<Rightarrow> (bytes \<Rightarrow> bytes) \<Rightarrow> (bytes \<rightharpoonup> bytes) \<Rightarrow> bytes list \<Rightarrow> (bytes \<rightharpoonup> bytes) \<times> bytes list" where
  "meaning (Read key f) stored_at W ks =
     meaning (f (case W key of Some x \<Rightarrow> x | None \<Rightarrow> stored_at key)) stored_at W ks"
| "meaning (Write key val u) stored_at W ks = meaning u stored_at (W(key \<mapsto> val)) (ks @ [key])"
| "meaning Finish stored_at W ks = (W, ks)"

definition block_pairs :: "(bytes \<Rightarrow> bytes) \<Rightarrow> index_code \<Rightarrow> (bytes \<times> bytes) list" where
  "block_pairs stored_at u =
     (case meaning u stored_at Map.empty [] of (W, ks) \<Rightarrow> map (\<lambda>key. (key, the (W key))) ks)"

text \<open>The buffers the code needs on its way stay within \<open>cap\<close>.\<close>

primrec reads_fit :: "index_code \<Rightarrow> nat \<Rightarrow> (bytes \<Rightarrow> bytes) \<Rightarrow> (bytes \<rightharpoonup> bytes) \<Rightarrow> bool" where
  "reads_fit (Read key f) cap stored_at W \<longleftrightarrow>
     (case W key of
        Some x \<Rightarrow> reads_fit (f x) cap stored_at W
      | None \<Rightarrow> length key + 4 \<le> cap \<and> length (stored_at key) + 4 \<le> cap
          \<and> reads_fit (f (stored_at key)) cap stored_at W)"
| "reads_fit (Write key val u) cap stored_at W \<longleftrightarrow> reads_fit u cap stored_at (W(key \<mapsto> val))"
| "reads_fit Finish cap stored_at W \<longleftrightarrow> True"

text \<open>An allocator that finds room for one buffer of at most \<open>cap\<close> bytes.\<close>

definition allocates :: "(bytes \<Rightarrow> nat \<Rightarrow> nat) \<Rightarrow> nat \<Rightarrow> nat \<Rightarrow> bool" where
  "allocates place cap room \<longleftrightarrow> room < 2147483648
     \<and> (\<forall>mem n. length mem = room \<longrightarrow> n \<le> cap \<longrightarrow> place mem n + n \<le> room)"

section \<open>Running a program\<close>

text \<open>One lemma per construct; the state is the context and a store with its memory.\<close>

definition with_mem :: "'g wasm_store \<Rightarrow> bytes \<Rightarrow> 'g wasm_store" where
  "with_mem ws mem = ws\<lparr>ws_memory := Some mem\<rparr>"

lemma with_mem_simps [simp]:
  "ws_memory (with_mem ws mem) = Some mem"
  "with_mem ws mem\<lparr>ws_memory := Some mem'\<rparr> = with_mem ws mem'"
  "with_mem (with_mem ws mem) mem' = with_mem ws mem'"
  "ws_failure (with_mem ws mem) = ws_failure ws"
  "ws_flush_error (with_mem ws mem) = ws_flush_error ws"
  by (simp_all add: with_mem_def)

abbreviation run_prog ::
    "(bytes \<Rightarrow> nat \<Rightarrow> nat) \<Rightarrow> (string \<Rightarrow> prog option) \<Rightarrow> bytes \<Rightarrow> ('d, prog) linker \<Rightarrow> prog
     \<Rightarrow> ('d, prog) host_state \<Rightarrow> (outcome \<times> ('d, prog) host_state) option" where
  "run_prog place exports mem0 link \<equiv> call_guest (prog_module place exports mem0) link"

lemma run_done:
  "run_prog place exports mem0 link (Done r) (ctx, with_mem ws mem)
     = Some (Returned r, (ctx, (with_mem ws mem)\<lparr>ws_guest := Done r\<rparr>))"
  by (subst call_guest.simps) (simp add: prog_module_def prog_step_def)

lemma run_host:
  assumes "link c s = (Inr r, s')"
  shows "run_prog place exports mem0 link (Host_call c k) s = run_prog place exports mem0 link (k r) s'"
  by (subst call_guest.simps) (simp add: prog_module_def prog_step_def assms)

lemma run_alloc:
  "run_prog place exports mem0 link (Alloc n k) (ctx, with_mem ws mem)
     = run_prog place exports mem0 link (k (place mem n)) (ctx, with_mem ws mem)"
  by (subst call_guest.simps) (simp add: prog_module_def prog_step_def)

lemma run_store:
  assumes "a + length bs \<le> length mem"
  shows "run_prog place exports mem0 link (Store_bytes a bs p) (ctx, with_mem ws mem)
     = run_prog place exports mem0 link p
         (ctx, with_mem ws (take a mem @ bs @ drop (a + length bs) mem))"
  by (subst call_guest.simps) (simp add: prog_module_def prog_step_def mem_store_at_def assms)

lemma run_load:
  assumes "a + n \<le> length mem"
  shows "run_prog place exports mem0 link (Load_bytes a n k) (ctx, with_mem ws mem)
     = run_prog place exports mem0 link (k (take n (drop a mem))) (ctx, with_mem ws mem)"
  by (subst call_guest.simps) (simp add: prog_module_def prog_step_def assms)

end
