(* ===== verification/WasmFaults.thy ===== *)
theory WasmFaults
  imports WasmProps
begin

text \<open>
  Host functions at their edges: which bytes of the guest's memory they may write, what a
  second flush does to the first, and what the guest sees of a read that failed.
\<close>

section \<open>Memory safety\<close>

text \<open>
  The bytes a call of the indexer's linker is entitled to write: the input from
  \<open>data_start\<close> on, the value found from \<open>value\<close> on, or the four bytes of the error code
  before it.
\<close>

definition region :: "nat \<Rightarrow> nat \<Rightarrow> nat set" where
  "region off n = {off..<off + n}"

definition value_found :: "bytes result \<Rightarrow> bytes" where
  "value_found r = (case r of Inr v \<Rightarrow> v | Inl _ \<Rightarrow> [])"

fun write_region ::
    "(bytes \<Rightarrow> bytes option) \<Rightarrow> reader \<Rightarrow> 'd rt_context \<Rightarrow> bytes \<Rightarrow> host_call \<Rightarrow> nat set" where
  "write_region hexd rd ctx data (LoadInput p) = region (nat (sint p)) (4 + length (ctx_block ctx))"
| "write_region hexd rd ctx data (GetCall k v) =
     (case try_read_arraybuffer_as_vec data k of
        Inr key \<Rightarrow> region (as_usize v) (length (value_found (get_value_at_height hexd rd key (ctx_height ctx - 1))))
      | Inl _ \<Rightarrow> region (as_usize (v - 4)) 4)"
| "write_region hexd rd ctx data _ = {}"

lemma mem_store_at_Some:
  assumes "mem_store_at off bs mem = Some mem'"
  shows "length mem' = length mem \<and> off + length bs \<le> length mem
     \<and> (\<forall>i < length mem. i \<notin> region off (length bs) \<longrightarrow> mem' ! i = mem ! i)
     \<and> take (length bs) (drop off mem') = bs"
proof -
  have fits: "off + length bs \<le> length mem"
      and mem': "mem' = take off mem @ bs @ drop (off + length bs) mem"
    using assms by (auto simp: mem_store_at_def split: if_splits)
  have "mem' ! i = mem ! i" if "i < length mem" "i \<notin> region off (length bs)" for i
    using that fits by (auto simp: mem' region_def nth_append not_le not_less)
  with fits show ?thesis by (simp add: mem')
qed

text \<open>What a host call leaves of the memory.\<close>

definition writes_within :: "nat set \<Rightarrow> bytes option \<Rightarrow> bytes option \<Rightarrow> bool" where
  "writes_within W m m' \<longleftrightarrow>
     (case m of
        None \<Rightarrow> m' = None
      | Some data \<Rightarrow> \<exists>data'. m' = Some data' \<and> length data' = length data
          \<and> (\<forall>i < length data. i \<notin> W \<longrightarrow> data' ! i = data ! i))"

lemma writes_within_refl [simp]: "writes_within W m m"
  by (simp add: writes_within_def split: option.splits)

lemma write_or_panic_within:
  assumes "write_or_panic msg off bs data s = (r, s')" "ws_memory (snd s) = Some data"
    and "region off (length bs) \<subseteq> W"
  shows "writes_within W (ws_memory (snd s)) (ws_memory (snd s'))"
proof (cases "mem_store_at off bs data")
  case None
  with assms(1) show ?thesis by (auto simp: write_or_panic_def split: prod.splits)
next
  case (Some data')
  have "\<forall>i < length data. i \<notin> W \<longrightarrow> data' ! i = data ! i"
    using mem_store_at_Some [OF Some] assms(3) by blast
  with assms mem_store_at_Some [OF Some] Some show ?thesis
    by (auto simp: write_or_panic_def writes_within_def split: prod.splits)
qed

lemma host_failure_memory: "host_failure s = (r, s') \<Longrightarrow> ws_memory (snd s') = ws_memory (snd s)"
  by (auto simp: host_failure_def split: prod.splits)

lemma get_body_within:
  assumes "get_body who why find_val key val s = (r, s')"
    and "\<And>data. ws_memory (snd s) = Some data \<Longrightarrow>
      (case try_read_arraybuffer_as_vec data key of
         Inr k \<Rightarrow> region (as_usize val) (length (value_found (find_val k)))
       | Inl _ \<Rightarrow> region (as_usize (val - 4)) 4) \<subseteq> W"
  shows "writes_within W (ws_memory (snd s)) (ws_memory (snd s'))"
proof (cases "ws_memory (snd s)")
  case None
  with assms(1) have "host_failure s = (r, s')" by (auto simp: get_body_def split: prod.splits)
  with host_failure_memory [OF this] show ?thesis by simp
next
  case (Some data)
  note W = assms(2) [OF Some]
  obtain ctx ws where s: "s = (ctx, ws)" by (rule prod.exhaust)
  show ?thesis
  proof (cases "try_read_arraybuffer_as_vec data key")
    case (Inl e)
    with assms(1) Some have "write_or_panic (who @ '' memory write failed for error bits'' @ why)
        (as_usize (val - 4)) (u32_to_vec 2147483647) data s = (r, s')"
      by (simp add: get_body_def s)
    from write_or_panic_within [OF this Some] W Inl show ?thesis by (simp add: u32_to_vec_def)
  next
    case (Inr k)
    show ?thesis
    proof (cases "find_val k")
      case (Inl e)
      with assms(1) Some Inr have "write_or_panic (who @ '' memory write failed for empty value'' @ why)
          (as_usize val) [] data s = (r, s')"
        by (simp add: get_body_def s)
      from write_or_panic_within [OF this Some] show ?thesis by (simp add: region_def)
    next
      case found: (Inr v)
      with assms(1) Some Inr have "write_or_panic (who @ '' memory write failed'' @ why)
          (as_usize val) v data s = (r, s')"
        by (simp add: get_body_def s)
      from write_or_panic_within [OF this Some] W Inr found show ?thesis by (simp add: value_found_def)
    qed
  qed
qed

lemma indexer_flush_memory:
  "indexer_flush hexe decode B p s = (r, s') \<Longrightarrow> ws_memory (snd s') = ws_memory (snd s)"
  by (auto simp: indexer_flush_def Let_def flush_failed_def host_failure_def
      split: prod.splits option.splits sum.splits if_splits)

lemma host_log_memory: "host_log p s = (r, s') \<Longrightarrow> ws_memory (snd s') = ws_memory (snd s)"
  by (auto simp: host_log_def split: prod.splits option.splits sum.splits if_splits)

lemma host_load_input_within:
  assumes "host_load_input p s = (r, s')" "region (nat (sint p)) (4 + length (ctx_block (fst s))) \<subseteq> W"
  shows "writes_within W (ws_memory (snd s)) (ws_memory (snd s'))"
proof (cases "ws_memory (snd s)")
  case None
  with assms(1) have "host_failure s = (r, s')" by (auto simp: host_load_input_def split: prod.splits)
  with host_failure_memory [OF this] show ?thesis by simp
next
  case (Some data)
  obtain ctx ws where s: "s = (ctx, ws)" by (rule prod.exhaust)
  show ?thesis
  proof (cases "to_usize_or_trap p = u64_max")
    case True
    with assms(1) Some show ?thesis by (auto simp: host_load_input_def s Let_def)
  next
    case False
    then have off: "to_usize_or_trap p = nat (sint p)" by (simp add: to_usize_or_trap_def split: if_splits)
    have "write_or_panic ''FATAL: __load_input memory write failed'' (nat (sint p))
        (le_bytes 4 (ctx_height ctx) @ ctx_block ctx) data s = (r, s')"
      using assms(1) Some False by (simp add: host_load_input_def s Let_def off)
    from write_or_panic_within [OF this Some] assms(2) show ?thesis by (simp add: s)
  qed
qed

text \<open>A panic leaves everything as it was.\<close>

lemma write_or_panic_Inl: "write_or_panic msg off bs data s = (Inl e, s') \<Longrightarrow> s' = s"
  by (auto simp: write_or_panic_def split: prod.splits option.splits)

lemma host_failure_Inl: "host_failure s \<noteq> (Inl e, s')"
  by (auto simp: host_failure_def split: prod.splits)

lemma get_body_Inl: "get_body who why find_val key val s = (Inl e, s') \<Longrightarrow> s' = s"
  by (auto simp: get_body_def host_failure_Inl dest: write_or_panic_Inl
      split: prod.splits option.splits sum.splits)

lemma host_load_input_Inl: "host_load_input p s = (Inl e, s') \<Longrightarrow> s' = s"
  by (auto simp: host_load_input_def Let_def host_failure_Inl dest: write_or_panic_Inl
      split: prod.splits option.splits if_splits)

lemma indexer_flush_Inl: "indexer_flush hexe decode B p s \<noteq> (Inl e, s')"
  by (auto simp: indexer_flush_def Let_def flush_failed_def host_failure_def
      split: prod.splits option.splits sum.splits if_splits)

lemma no_value_Inl: "no_value m s = (Inl e, s') \<Longrightarrow> m s = (Inl e, s')"
  by (auto simp: no_value_def sbind_def split: prod.splits sum.splits)

lemma no_value_cases:
  assumes "no_value m s = (r, s')"
  obtains r0 where "m s = (r0, s')" "\<And>e. r = Inl e \<Longrightarrow> r0 = Inl e"
  using assms by (cases "m s") (auto simp: no_value_def sbind_def split: sum.splits)

text \<open>
  C5: host calls are memory safe. Whatever call the guest makes with whatever pointers,
  the memory keeps its size and no byte outside the region the call is entitled to
  changes: a result that does not fit is a panic of the host with the memory as it was,
  never a truncated or wrapped write, and a module without memory gets none.
\<close>

theorem host_calls_stay_in_region:
  "case setup_linker_indexer hexe hexd decode B c s of (r, s') \<Rightarrow>
     writes_within (write_region hexd (so_read B (ctx_db (fst s))) (fst s) (the (ws_memory (snd s))) c)
       (ws_memory (snd s)) (ws_memory (snd s'))
   \<and> (\<forall>e. r = Inl e \<longrightarrow> s' = s)"
proof -
  obtain r s' where run: "setup_linker_indexer hexe hexd decode B c s = (r, s')" by (rule prod.exhaust)
  let ?W = "write_region hexd (so_read B (ctx_db (fst s))) (fst s) (the (ws_memory (snd s))) c"
  have "writes_within ?W (ws_memory (snd s)) (ws_memory (snd s')) \<and> (\<forall>e. r = Inl e \<longrightarrow> s' = s)"
  proof (cases c)
    case HostLen
    with run host_len_ctx [of s r s'] show ?thesis by simp
  next
    case (LoadInput p)
    with run have "no_value (host_load_input p) s = (r, s')" by simp
    then obtain r0 where r0: "host_load_input p s = (r0, s')" "\<And>e. r = Inl e \<Longrightarrow> r0 = Inl e"
      by (rule no_value_cases) (rule that)
    have "writes_within ?W (ws_memory (snd s)) (ws_memory (snd s'))"
      by (rule host_load_input_within [OF r0(1)]) (simp add: LoadInput)
    with host_load_input_Inl r0 show ?thesis by metis
  next
    case (LogText p)
    with run have "no_value (host_log p) s = (r, s')" by simp
    then obtain r0 where r0: "host_log p s = (r0, s')" "\<And>e. r = Inl e \<Longrightarrow> r0 = Inl e"
      by (rule no_value_cases) (rule that)
    moreover have "\<forall>e. r0 \<noteq> Inl e"
      using r0(1) by (auto simp: host_log_def split: prod.splits option.splits sum.splits if_splits)
    ultimately show ?thesis using host_log_memory [OF r0(1)] by (metis writes_within_refl)
  next
    case AbortCall
    with run have "no_value host_failure s = (r, s')" by (simp add: host_abort_def)
    then obtain r0 where r0: "host_failure s = (r0, s')" "\<And>e. r = Inl e \<Longrightarrow> r0 = Inl e"
      by (rule no_value_cases) (rule that)
    with host_failure_memory [OF r0(1)] host_failure_Inl [of s] show ?thesis by (metis writes_within_refl)
  next
    case (FlushCall p)
    with run have "no_value (indexer_flush hexe decode B p) s = (r, s')" by simp
    then obtain r0 where r0: "indexer_flush hexe decode B p s = (r0, s')" "\<And>e. r = Inl e \<Longrightarrow> r0 = Inl e"
      by (rule no_value_cases) (rule that)
    with indexer_flush_memory [OF r0(1)] indexer_flush_Inl [of hexe decode B p s] show ?thesis
      by (metis writes_within_refl)
  next
    case (GetCall k v)
    with run have "no_value (indexer_get hexd B k v) s = (r, s')" by simp
    then obtain r0 where r0: "indexer_get hexd B k v s = (r0, s')" "\<And>e. r = Inl e \<Longrightarrow> r0 = Inl e"
      by (rule no_value_cases) (rule that)
    have th: "(if ctx_height (fst s) > 0 then ctx_height (fst s) - 1 else 0) = ctx_height (fst s) - 1" by simp
    note get = r0(1) [unfolded indexer_get_def th Let_def]
    have "writes_within ?W (ws_memory (snd s)) (ws_memory (snd s'))"
      by (rule get_body_within [OF get]) (simp add: GetCall)
    with get_body_Inl r0 show ?thesis unfolding indexer_get_def Let_def by metis
  next
    case (GetLenCall k)
    with run get_len_body_ctx show ?thesis by (fastforce simp: indexer_get_len_def Let_def)
  qed
  with run show ?thesis by simp
qed

definition small_store :: "unit wasm_store" where
  "small_store = state_new (Some ''abcdefgh'') ()"

theorem host_calls_stay_in_region_witness:
  "setup_linker_indexer encode_hex_fast hex_decode sample_decode (rt_backend None list_rocks sample_data)
       (LoadInput 2) (context_new (rt_new []) 1 ''block'', small_store)
     = (Inl ''FATAL: __load_input memory write failed'', (context_new (rt_new []) 1 ''block'', small_store))"
proof -
  let ?s = "(context_new (rt_new []) 1 ''block'', small_store) :: (list_db rocks_runtime, unit) host_state"
  let ?B = "rt_backend None list_rocks sample_data"
  obtain s' where s': "setup_linker_indexer encode_hex_fast hex_decode sample_decode ?B (LoadInput 2) ?s
      = (Inl ''FATAL: __load_input memory write failed'', s')"
    by (simp add: no_value_def sbind_def host_load_input_def small_store_def state_new_def context_new_def Let_def
        to_usize_or_trap_def u64_max_def write_or_panic_def mem_store_at_def)
  with host_calls_stay_in_region [where hexe = encode_hex_fast and hexd = hex_decode and decode = sample_decode
      and B = ?B and c = "LoadInput 2" and s = ?s]
  show ?thesis by simp
qed

section \<open>Several flushes of one block\<close>

text \<open>An armed flush that succeeds, in full.\<close>

lemma indexer_flush_stash:
  assumes "ctx_pending (fst s) \<noteq> None" "indexer_flush hexe decode B p s = (Inr (), s')"
    and "\<not> ws_failure (snd s')"
  shows "\<exists>data enc dec root batch. ws_memory (snd s) = Some data \<and> try_read_arraybuffer_as_vec data p = Inr enc
     \<and> decode enc = Some dec
     \<and> fst (build_state_root_batch_unwritten hexe (so_read B (fold (\<lambda>(k, v). kb_track B k v) (tuples dec) (ctx_db (fst s))))
          (ctx_height (fst s)) (tuples dec) (ctx_block_hash (fst s)) new_caches) = Inr (root, batch)
     \<and> fst s' = flushed_ctx (fst s) (fold (\<lambda>(k, v). kb_track B k v) (tuples dec) (ctx_db (fst s)))
          (Some (kb_bytes B batch)) 1"
proof -
  obtain ctx ws where s: "s = (ctx, ws)" by (rule prod.exhaust)
  obtain data where data: "ws_memory ws = Some data"
    using assms(2,3) by (cases "ws_memory ws") (auto simp: indexer_flush_def s host_failure_def)
  obtain enc where enc: "try_read_arraybuffer_as_vec data p = Inr enc"
    using assms(2,3) data by (cases "try_read_arraybuffer_as_vec data p")
      (auto simp: indexer_flush_def s host_failure_def)
  obtain dec where dec: "decode enc = Some dec"
    using assms(2,3) data enc by (cases "decode enc") (auto simp: indexer_flush_def s host_failure_def)
  let ?d = "fold (\<lambda>(k, v). kb_track B k v) (tuples dec) (ctx_db ctx)"
  let ?built = "fst (build_state_root_batch_unwritten hexe (so_read B ?d) (ctx_height ctx) (tuples dec)
      (ctx_block_hash ctx) new_caches)"
  obtain q where q: "ctx_pending ctx = Some q" using assms(1) by (auto simp: s)
  obtain rb where "?built = Inr rb"
    using assms(2,3) data enc dec q by (cases ?built) (auto simp: indexer_flush_def s Let_def flush_failed_def)
  then obtain root batch where built: "?built = Inr (root, batch)" by (cases rb) auto
  have "fst s' = flushed_ctx ctx ?d (Some (kb_bytes B batch)) 1"
    using assms(2) data enc dec q built by (auto simp: indexer_flush_def s Let_def flushed_ctx_def)
  with data enc dec built show ?thesis by (auto simp: s)
qed

lemma indexer_flush_failure:
  "indexer_flush hexe decode B p s = (r, s') \<Longrightarrow> ws_failure (snd s) \<Longrightarrow> ws_failure (snd s')"
  by (auto simp: indexer_flush_def Let_def flush_failed_def host_failure_def
      split: prod.splits option.splits sum.splits if_splits)

lemma rt_get_tracker: "rt_get lbl R (s\<lparr>kv_tracker := t\<rparr>) = rt_get lbl R s"
  by (simp add: fun_eq_iff rt_get_def Let_def cong: option.case_cong)

text \<open>
  C40: a second flush replaces the first. When \<open>_start\<close> flushes twice in an atomic
  execution and both flushes succeed, the batch that is shipped is the one of the second
  flush alone: it is the batch the second flush would have stashed if the first had never
  been made, so everything the first one wrote is lost.
\<close>

theorem second_flush_replaces_first:
  assumes "ctx_pending (fst s) \<noteq> None"
    and "indexer_flush hexe decode (rt_backend lbl R to_data) p1 s = (Inr (), s1)"
    and "indexer_flush hexe decode (rt_backend lbl R to_data) p2 (fst s1, ws) = (Inr (), s2)" "\<not> ws_failure (snd s2)"
  shows "\<exists>s2'. indexer_flush hexe decode (rt_backend lbl R to_data) p2 (fst s, ws) = (Inr (), s2')
     \<and> \<not> ws_failure (snd s2') \<and> ctx_pending (fst s2') = ctx_pending (fst s2)"
proof -
  let ?B = "rt_backend lbl R to_data"
  have "\<exists>q t st. fst s1 = flushed_ctx (fst s) ((ctx_db (fst s))\<lparr>kv_tracker := t\<rparr>) (Some q) st"
    using assms(2)
  proof (cases rule: indexer_flush_cases)
    case none
    obtain q where q: "ctx_pending (fst s) = Some q" using assms(1) by auto
    have "fst s = flushed_ctx (fst s) ((ctx_db (fst s))\<lparr>kv_tracker := kv_tracker (ctx_db (fst s))\<rparr>) (Some q) (ctx_state (fst s))"
      using flushed_ctx_id [of "fst s"] q by simp
    with none show ?thesis by metis
  next
    case (armed kvs q st)
    obtain t where "fold (\<lambda>(k, v). rt_track_kv_update k v) kvs (ctx_db (fst s)) = (ctx_db (fst s))\<lparr>kv_tracker := t\<rparr>"
      using rt_track_all by blast
    moreover obtain q' where "q = Some q'" using armed(3) by auto
    ultimately have "fst s1 = flushed_ctx (fst s) ((ctx_db (fst s))\<lparr>kv_tracker := t\<rparr>) (Some q') st"
      using armed(2) by simp
    then show ?thesis by blast
  qed (use assms(1) in simp)
  then obtain q t st where s1: "fst s1 = flushed_ctx (fst s) ((ctx_db (fst s))\<lparr>kv_tracker := t\<rparr>) (Some q) st"
    by blast
  have "ctx_pending (fst (fst s1, ws)) \<noteq> None" by (simp add: s1 flushed_ctx_def)
  from indexer_flush_stash [OF this assms(3,4)] obtain data enc dec root batch where
      at: "ws_memory ws = Some data" "try_read_arraybuffer_as_vec data p2 = Inr enc" "decode enc = Some dec"
      and built: "fst (build_state_root_batch_unwritten hexe
          (rt_get lbl R (fold (\<lambda>(k, v). rt_track_kv_update k v) (tuples dec) (ctx_db (fst s1))))
          (ctx_height (fst s1)) (tuples dec) (ctx_block_hash (fst s1)) new_caches) = Inr (root, batch)"
      and pending: "ctx_pending (fst s2) = Some (to_data (rocks_batch lbl batch))"
    by (auto simp: flushed_ctx_def)
  have same: "rt_get lbl R (fold (\<lambda>(k, v). rt_track_kv_update k v) kvs d') = rt_get lbl R d'" for kvs d'
    using rt_track_all [of kvs d'] rt_get_tracker [where lbl = lbl and R = R and s = d'] by auto
  have "fst (build_state_root_batch_unwritten hexe
          (rt_get lbl R (fold (\<lambda>(k, v). rt_track_kv_update k v) (tuples dec) (ctx_db (fst s))))
          (ctx_height (fst s)) (tuples dec) (ctx_block_hash (fst s)) new_caches) = Inr (root, batch)"
    using built by (simp add: same s1 flushed_ctx_def rt_get_tracker)
  moreover have "\<not> ws_failure ws" using indexer_flush_failure [OF assms(3)] assms(4) by auto
  ultimately show ?thesis
    using at assms(1) pending by (simp add: indexer_flush_def Let_def)
qed

definition layout :: "bytes \<Rightarrow> bytes" where
  "layout v = le_bytes 4 (length v) @ v"

definition two_buffers :: bytes where
  "two_buffers = layout (sample_fields [''k'', ''1'']) @ layout (sample_fields [''j'', ''2''])"

definition armed_state :: "(list_db rocks_runtime, unit) host_state" where
  "armed_state = ((context_new (rt_new []) 1 [])\<lparr>ctx_pending := Some []\<rparr>, state_new (Some two_buffers) ())"

lemma two_buffers_read:
  "try_read_arraybuffer_as_vec two_buffers 4 = Inr (sample_fields [''k'', ''1''])"
  "try_read_arraybuffer_as_vec two_buffers 14 = Inr (sample_fields [''j'', ''2''])"
proof -
  have len: "length (sample_fields [''k'', ''1'']) = 6" "length (sample_fields [''j'', ''2'']) = 6"
    by (simp_all add: sample_fields_def encode_hex_fast_eq hex_byte_def)
  show "try_read_arraybuffer_as_vec two_buffers 4 = Inr (sample_fields [''k'', ''1''])"
    using try_read_layout [of "[]" "sample_fields [''k'', ''1'']" "layout (sample_fields [''j'', ''2''])"]
    by (simp add: two_buffers_def layout_def len)
  show "try_read_arraybuffer_as_vec two_buffers 14 = Inr (sample_fields [''j'', ''2''])"
    using try_read_layout [of "layout (sample_fields [''k'', ''1''])" "sample_fields [''j'', ''2'']" "[]"]
    by (simp add: two_buffers_def layout_def len)
qed

lemma fresh_pair_builds:
  assumes "rt_db d = []" "write_shadow d = None" "rt_fork d = None"
  shows "\<exists>root batch. fst (build_state_root_batch_unwritten encode_hex_fast (rt_get None list_rocks d)
      1 [(k, v)] bh new_caches) = Inr (root, batch)"
  using assms by (simp add: build_state_root_batch_unwritten_def block_update_step_def rt_get_def Let_def
      make_labeled_key_fast_def list_rocks_def add_u32_def u32_max_def)

theorem second_flush_replaces_first_witness:
  "\<exists>s1 s2 s2'.
     indexer_flush encode_hex_fast sample_decode (rt_backend None list_rocks sample_data) 4 armed_state = (Inr (), s1)
   \<and> indexer_flush encode_hex_fast sample_decode (rt_backend None list_rocks sample_data) 14 s1 = (Inr (), s2)
   \<and> indexer_flush encode_hex_fast sample_decode (rt_backend None list_rocks sample_data) 14 armed_state = (Inr (), s2')
   \<and> ctx_pending (fst s2') = ctx_pending (fst s2)"
proof -
  let ?B = "rt_backend None list_rocks sample_data"
  let ?ws = "state_new (Some two_buffers) ()"

  have new: "rt_db (rt_new [] :: list_db rocks_runtime) = []" "write_shadow (rt_new [] :: list_db rocks_runtime) = None"
      "rt_fork (rt_new [] :: list_db rocks_runtime) = None"
    by (simp_all add: rt_new_def)
  obtain root1 batch1 where b1: "fst (build_state_root_batch_unwritten encode_hex_fast (rt_get None list_rocks (rt_new []))
      1 [(''k'', ''1'')] [] new_caches) = Inr (root1, batch1)"
    using fresh_pair_builds [OF new] by blast
  obtain root2 batch2 where b2: "fst (build_state_root_batch_unwritten encode_hex_fast (rt_get None list_rocks (rt_new []))
      1 [(''j'', ''2'')] [] new_caches) = Inr (root2, batch2)"
    using fresh_pair_builds [OF new] by blast
  have track: "rt_track_kv_update k v (rt_new []) = rt_new []" for k v
    by (simp add: rt_track_kv_update_def track_kv_update_internal_def rt_new_def)
  have run: "indexer_flush encode_hex_fast sample_decode ?B p
      ((context_new (rt_new []) 1 [])\<lparr>ctx_pending := Some q, ctx_state := st\<rparr>, ?ws)
      = (Inr (), ((context_new (rt_new []) 1 [])\<lparr>ctx_pending := Some (sample_data (rocks_batch None batch)), ctx_state := 1\<rparr>, ?ws))"
    if "try_read_arraybuffer_as_vec two_buffers p = Inr (sample_fields [k, v])"
      "fst (build_state_root_batch_unwritten encode_hex_fast (rt_get None list_rocks (rt_new [])) 1 [(k, v)] [] new_caches)
        = Inr (root, batch)" for p q k v root batch st
    using that by (simp add: indexer_flush_def state_new_def Let_def sample_decode_fields track context_new_def)
  have armed: "armed_state = ((context_new (rt_new []) 1 [])\<lparr>ctx_pending := Some [], ctx_state := 0\<rparr>, ?ws)"
    by (simp add: armed_state_def context_new_def)
  note first = run [OF two_buffers_read(1) b1, of 0 "[]", folded armed]
  note second = run [OF two_buffers_read(2) b2, of 1 "sample_data (rocks_batch None batch1)"]
  note alone = run [OF two_buffers_read(2) b2, of 0 "[]", folded armed]
  show ?thesis
    using second_flush_replaces_first [OF _ first, of 14 ?ws] first second alone
    by (simp add: armed_state_def state_new_def)
qed

section \<open>Reads that fail\<close>

text \<open>
  The guest cannot tell a failed read from an absent key. When the lookup of a key
  fails, with an I/O error of the database or a corrupt record, \<open>__get_len\<close> answers 0 and
  \<open>__get\<close> writes nothing and sets no failure flag, which is what both do for a key that
  was never written; so the block is indexed on the wrong value instead of being retried.
\<close>

theorem failed_read_looks_absent:
  assumes "ws_memory (snd s) = Some data" "try_read_arraybuffer_as_vec data p = Inr key"
    and "get_at_height (so_read B (ctx_db (fst s))) hexd key (ctx_height (fst s) - 1) = Inl e
       \<or> get_at_height (so_read B (ctx_db (fst s))) hexd key (ctx_height (fst s) - 1) = Inr None"
    and "as_usize v \<le> length data"
  shows "indexer_get_len hexd B p s = (Inr 0, s) \<and> indexer_get hexd B p v s = (Inr (), s)"
proof -
  obtain ctx ws where s: "s = (ctx, ws)" by (rule prod.exhaust)
  have th: "(if ctx_height ctx > 0 then ctx_height ctx - 1 else 0) = ctx_height ctx - 1" by simp
  have keep: "ws\<lparr>ws_memory := Some data\<rparr> = ws" using assms(1) by (simp add: s)
  have found: "get_value_at_height hexd (so_read B (ctx_db ctx)) key (ctx_height ctx - 1) = Inr []
      \<or> (\<exists>e'. get_value_at_height hexd (so_read B (ctx_db ctx)) key (ctx_height ctx - 1) = Inl e')"
    using assms(3) by (auto simp: get_value_at_height_def s)
  have wr: "write_or_panic msg (as_usize v) [] data s = (Inr (), s)" for msg
    by (simp add: write_or_panic_def mem_store_at_Nil [OF assms(4)] s keep)
  show ?thesis
    using found assms(1,2) wr
    by (auto simp: indexer_get_len_def indexer_get_def get_len_body_def get_body_def th s Let_def)
qed

text \<open>A record that does not parse.\<close>

definition corrupt_state :: "(list_db rocks_runtime, unit) host_state" where
  "corrupt_state = (context_new (rt_new [(''k/length'', ''1''), (''k/0'', ''junk'')]) 5 [],
     state_new (Some (layout ''k'' @ ''....'')) ())"

theorem failed_read_looks_absent_witness:
  "indexer_get_len hex_decode (rt_backend None list_rocks sample_data) 4 corrupt_state = (Inr 0, corrupt_state)"
proof -
  let ?B = "rt_backend None list_rocks sample_data"
  let ?data = "layout ''k'' @ ''....''"
  have "try_read_arraybuffer_as_vec ?data 4 = Inr ''k''"
    using try_read_layout [of "[]" "''k''" "''....''"] by (simp add: layout_def)
  moreover have "get_at_height (so_read ?B (ctx_db (fst corrupt_state))) hex_decode ''k''
      (ctx_height (fst corrupt_state) - 1) = Inl ''Invalid update format''"
  proof -
    have "parsed_length ''1'' = 1" by (simp add: parsed_length_def parse_u32_def is_digit_def u32_max_def)
    moreover have "char_of (48 :: nat) = CHR ''0''" by code_simp
    ultimately show ?thesis
      by (simp add: corrupt_state_def context_new_def get_at_height_def rt_new_def rt_get_def Let_def
          make_labeled_key_fast_def list_rocks_def length_key_def search_updates.simps [of _ _ _ _ 0] add_u32_def
          u32_max_def update_key_def dec.simps [of 0] digit_def)
  qed
  ultimately show ?thesis
    using failed_read_looks_absent [where s = corrupt_state and data = ?data and p = 4 and key = "''k''" and B = ?B
        and hexd = hex_decode and v = 4]
    by (simp add: corrupt_state_def state_new_def layout_def as_usize_def)
qed

end
