(* ===== verification/GuestProps.thy ===== *)
theory GuestProps
  imports GuestCore WasmFaults
begin

text \<open>
  The guest library against the host: what each library call does to a program that runs
  on the indexer's linker, that an indexer compiled against the library computes the
  meaning of its code, and what the two versions of \<open>export_bytes\<close> hand to the host.
\<close>

section \<open>Library calls on the indexer's linker\<close>

lemma indexer_reads:
  "indexer_get_len hexd B key s
     = get_len_body (\<lambda>k. get_value_at_height hexd (so_read B (ctx_db (fst s))) k (ctx_height (fst s) - 1)) key s"
  "indexer_get hexd B key val s = get_body ''FATAL: __get'' ''''
     (\<lambda>k. get_value_at_height hexd (so_read B (ctx_db (fst s))) k (ctx_height (fst s) - 1)) key val s"
proof -
  have "(if h > 0 then h - 1 else 0) = h - 1" for h :: nat by simp
  then show "indexer_get_len hexd B key s
     = get_len_body (\<lambda>k. get_value_at_height hexd (so_read B (ctx_db (fst s))) k (ctx_height (fst s) - 1)) key s"
    "indexer_get hexd B key val s = get_body ''FATAL: __get'' ''''
     (\<lambda>k. get_value_at_height hexd (so_read B (ctx_db (fst s))) k (ctx_height (fst s) - 1)) key val s"
    by (simp_all only: indexer_get_len_def indexer_get_def Let_def)
qed

lemma run_buffer:
  assumes "allocates place cap room" "length mem = room" "length bs \<le> cap"
  obtains pre post where "length pre + length bs + length post = room" "set pre \<subseteq> set mem"
    "\<And>k ctx ws. run_prog place exports mem0 link (with_buffer bs k) (ctx, with_mem ws mem)
       = run_prog place exports mem0 link (k (length pre)) (ctx, with_mem ws (pre @ bs @ post))"
proof -
  let ?a = "place mem (length bs)"
  have fits: "?a + length bs \<le> length mem" using assms by (simp add: allocates_def)
  then have "\<And>k ctx ws. run_prog place exports mem0 link (with_buffer bs k) (ctx, with_mem ws mem)
      = run_prog place exports mem0 link (k ?a) (ctx, with_mem ws (take ?a mem @ bs @ drop (?a + length bs) mem))"
    by (simp add: with_buffer_def run_alloc run_store)
  with fits assms(2) show ?thesis
    by (intro that [of "take ?a mem" "drop (?a + length bs) mem"]) (simp_all add: min_absorb2 set_take_subset)
qed

lemma allocates_room: "allocates place cap room \<Longrightarrow> room < 2147483648"
  by (simp add: allocates_def)

lemma ptr_of_nat: "to_passback_ptr a = of_nat (a + 4)" "to_ptr a + 4 = of_nat (a + 4)"
  by (simp_all add: to_passback_ptr_def to_ptr_def)

lemma layout_read:
  assumes "length pre + length (to_arraybuffer_layout v) + length post < 2147483648"
  shows "try_read_arraybuffer_as_vec (pre @ to_arraybuffer_layout v @ post) (of_nat (length pre + 4)) = Inr v"
  using try_read_layout [of pre v post] assms by (simp add: to_arraybuffer_layout_def)

lemma length_layout [simp]: "length (to_arraybuffer_layout v) = length v + 4"
  by (simp add: to_arraybuffer_layout_def)

lemma length_sized_buffer:
  assumes "n + 4 < 2147483648"
  shows "length (sized_buffer (of_nat n)) = n + 4"
proof -
  have "unat (of_nat n :: i32) = n" using assms by (simp add: unat_of_nat take_bit_nat_eq_self)
  with assms show ?thesis by (simp add: sized_buffer_def Let_def u32_max_def)
qed

lemma run_after_prefix:
  assumes "b + (n + 4) \<le> length mem" "take n (drop (b + 4) mem) = x"
  shows "run_prog place exports mem0 link (after_prefix b (n + 4) k) (ctx, with_mem ws mem)
    = run_prog place exports mem0 link (k x) (ctx, with_mem ws mem)"
proof -
  have "drop 4 (take (n + 4) (drop b mem)) = x" using assms(2) by (simp add: drop_take add.commute)
  with assms(1) show ?thesis by (simp add: after_prefix_def run_load)
qed

text \<open>The cache of an initialised library.\<close>

definition core_of :: "(bytes \<rightharpoonup> bytes) \<Rightarrow> bytes list \<Rightarrow> core" where
  "core_of cache ks = \<lparr>core_cache = Some cache, core_to_flush = Some ks\<rparr>"

lemma core_of_simps [simp]:
  "core_initialize (core_of cache ks) = core_of cache ks"
  "core_initialize core_start = core_of Map.empty []"
  "core_cache (core_of cache ks) = Some cache"
  "core_to_flush (core_of cache ks) = Some ks"
  "core_set key val (core_of cache ks) = core_of (cache(key \<mapsto> val)) (ks @ [key])"
  by (simp_all add: core_of_def core_initialize_def core_start_def core_reset_def core_set_def)

lemma run_get_cached:
  "cache key = Some x \<Longrightarrow> core_get key (core_of cache ks) k = k x (core_of cache ks)"
  by (simp add: core_get_def)

text \<open>A read that misses the cache: two buffers for the key, one for the value.\<close>

lemma run_get:
  assumes alloc: "allocates place cap room" "length mem = room"
    and fits: "length key + 4 \<le> cap" "length v + 4 \<le> cap" "cap \<le> room"
    and miss: "cache key = None"
    and found: "get_value_at_height hexd (so_read B (ctx_db ctx)) key (ctx_height ctx - 1) = Inr v"
  shows "\<exists>mem'. length mem' = room
     \<and> run_prog place exports mem0 (setup_linker_indexer hexe hexd decode B)
         (core_get key (core_of cache ks) k) (ctx, with_mem ws mem)
       = run_prog place exports mem0 (setup_linker_indexer hexe hexd decode B)
         (k v (core_of (cache(key \<mapsto> v)) ks)) (ctx, with_mem ws mem')"
proof -
  let ?run = "run_prog place exports mem0 (setup_linker_indexer hexe hexd decode B)"
  have small: "room < 2147483648" by (rule allocates_room) (rule alloc(1))

  let ?after = "\<lambda>x. k x (core_of (cache(key \<mapsto> x)) ks)"
  let ?fetch = "\<lambda>len b a'. Host_call (GetCall (to_passback_ptr a') (to_passback_ptr b))
      (\<lambda>_. after_prefix b (length (sized_buffer len)) ?after)"
  let ?second = "\<lambda>len b. with_buffer (to_arraybuffer_layout key) (?fetch len b)"
  let ?first = "\<lambda>len. with_buffer (sized_buffer len) (?second len)"
  have start: "core_get key (core_of cache ks) k
      = with_buffer (to_arraybuffer_layout key) (\<lambda>a. Host_call (GetLenCall (to_passback_ptr a)) ?first)"
    using miss by (simp add: core_get_def core_of_def core_initialize_def)
  obtain pre post where mem1: "length pre + length (to_arraybuffer_layout key) + length post = room"
    and run1: "\<And>k ctx ws. ?run (with_buffer (to_arraybuffer_layout key) k) (ctx, with_mem ws mem)
      = ?run (k (length pre)) (ctx, with_mem ws (pre @ to_arraybuffer_layout key @ post))"
    by (rule run_buffer [OF alloc, of "to_arraybuffer_layout key" exports mem0 "setup_linker_indexer hexe hexd decode B"])
       (use fits in auto)
  have "setup_linker_indexer hexe hexd decode B (GetLenCall (to_passback_ptr (length pre)))
      (ctx, with_mem ws (pre @ to_arraybuffer_layout key @ post))
      = (Inr (of_nat (length v)), (ctx, with_mem ws (pre @ to_arraybuffer_layout key @ post)))"
    using layout_read [of pre key post] mem1 small found
    by (simp add: indexer_reads get_len_body_def ptr_of_nat del: of_nat_add)
  note run2 = run_host [where link = "setup_linker_indexer hexe hexd decode B", OF this, of place exports mem0 ?first]
  have n: "length (sized_buffer (of_nat (length v))) = length v + 4"
    by (rule length_sized_buffer) (use fits small in simp)
  obtain pb pb' where mem2: "length pb + length (sized_buffer (of_nat (length v))) + length pb' = room"
    and run3: "\<And>k ctx ws. ?run (with_buffer (sized_buffer (of_nat (length v))) k)
        (ctx, with_mem ws (pre @ to_arraybuffer_layout key @ post))
      = ?run (k (length pb)) (ctx, with_mem ws (pb @ sized_buffer (of_nat (length v)) @ pb'))"
    by (rule run_buffer [OF alloc(1), of "pre @ to_arraybuffer_layout key @ post" "sized_buffer (of_nat (length v))"
        exports mem0 "setup_linker_indexer hexe hexd decode B"])
       (use fits mem1 n in auto)
  obtain qa qa' where mem3: "length qa + length (to_arraybuffer_layout key) + length qa' = room"
    and run4: "\<And>k ctx ws. ?run (with_buffer (to_arraybuffer_layout key) k)
        (ctx, with_mem ws (pb @ sized_buffer (of_nat (length v)) @ pb'))
      = ?run (k (length qa)) (ctx, with_mem ws (qa @ to_arraybuffer_layout key @ qa'))"
    by (rule run_buffer [OF alloc(1), of "pb @ sized_buffer (of_nat (length v)) @ pb'" "to_arraybuffer_layout key"
        exports mem0 "setup_linker_indexer hexe hexd decode B"])
       (use fits mem2 n in auto)
  let ?m3 = "qa @ to_arraybuffer_layout key @ qa'"
  have b: "length pb + 4 + length v \<le> length ?m3" "length ?m3 = room" using mem2 mem3 n by simp_all
  then obtain m4 where m4: "mem_store_at (length pb + 4) v ?m3 = Some m4" by (simp add: mem_store_at_def)
  note m4' = mem_store_at_Some [OF m4]
  have "as_usize (of_nat (length pb + 4)) = length pb + 4"
    by (rule as_usize_i32) (use b small in simp)
  then have "setup_linker_indexer hexe hexd decode B (GetCall (to_passback_ptr (length qa)) (to_passback_ptr (length pb)))
      (ctx, with_mem ws ?m3) = (Inr 0, (ctx, with_mem ws m4))"
    using layout_read [of qa key qa'] mem3 small found m4
    by (simp add: indexer_reads get_body_def ptr_of_nat no_value_def sbind_def sreturn_def write_or_panic_def
        del: of_nat_add)
  note run5 = run_host [where link = "setup_linker_indexer hexe hexd decode B", OF this, of place exports mem0 "\<lambda>_. after_prefix (length pb) (length (sized_buffer (of_nat (length v)))) ?after"]
  have "?run (after_prefix (length pb) (length v + 4) ?after) (ctx, with_mem ws m4) = ?run (?after v) (ctx, with_mem ws m4)"
    by (rule run_after_prefix) (use m4' b in auto)
  then have "?run (core_get key (core_of cache ks) k) (ctx, with_mem ws mem) = ?run (?after v) (ctx, with_mem ws m4)"
    unfolding start run1 run2 run3 run4 run5 unfolding n .
  moreover have "length m4 = room" using m4' b by simp
  ultimately show ?thesis by blast
qed

text \<open>The input of the block.\<close>

lemma run_input:
  assumes alloc: "allocates place cap room" "length mem = room" and fits: "length (ctx_block ctx) + 8 \<le> cap" "cap \<le> room"
  shows "\<exists>mem'. length mem' = room
     \<and> run_prog place exports mem0 (setup_linker_indexer hexe hexd decode B) (core_input core_start k) (ctx, with_mem ws mem)
       = run_prog place exports mem0 (setup_linker_indexer hexe hexd decode B)
         (k (le_bytes 4 (ctx_height ctx) @ ctx_block ctx) (core_of Map.empty [])) (ctx, with_mem ws mem')"
proof -
  let ?run = "run_prog place exports mem0 (setup_linker_indexer hexe hexd decode B)"
  let ?in = "le_bytes 4 (ctx_height ctx) @ ctx_block ctx"
  have small: "room < 2147483648" by (rule allocates_room) (rule alloc(1))
  let ?after = "\<lambda>x. k x (core_of Map.empty [])"
  let ?load = "\<lambda>len b. Host_call (LoadInput (to_ptr b + 4)) (\<lambda>_. after_prefix b (length (sized_buffer len)) ?after)"
  let ?first = "\<lambda>len. with_buffer (sized_buffer len) (?load len)"
  let ?n = "length (ctx_block ctx) + 4"
  have start: "core_input core_start k = Host_call HostLen ?first" by (simp add: core_input_def)
  have "setup_linker_indexer hexe hexd decode B HostLen (ctx, with_mem ws mem) = (Inr (of_nat ?n), (ctx, with_mem ws mem))"
    by (simp add: host_len_def)
  note run1 = run_host [where link = "setup_linker_indexer hexe hexd decode B", OF this, of place exports mem0 ?first]
  have n: "length (sized_buffer (of_nat ?n)) = ?n + 4"
    by (rule length_sized_buffer) (use fits small in simp)
  have cap: "length (sized_buffer (of_nat ?n)) \<le> cap" using fits by (simp only: n)
  obtain pb pb' where mem2: "length pb + length (sized_buffer (of_nat ?n)) + length pb' = room"
    and run2: "\<And>k ctx ws. ?run (with_buffer (sized_buffer (of_nat ?n)) k) (ctx, with_mem ws mem)
      = ?run (k (length pb)) (ctx, with_mem ws (pb @ sized_buffer (of_nat ?n) @ pb'))"
    by (rule run_buffer [OF alloc cap, of exports mem0 "setup_linker_indexer hexe hexd decode B"]) blast
  let ?m = "pb @ sized_buffer (of_nat ?n) @ pb'"
  have b: "length pb + 4 + length ?in \<le> length ?m" "length ?m = room" using mem2 n by simp_all
  then obtain m' where m': "mem_store_at (length pb + 4) ?in ?m = Some m'" by (simp add: mem_store_at_def)
  note m'' = mem_store_at_Some [OF m']
  have p: "to_usize_or_trap (of_nat (length pb + 4)) = length pb + 4"
    by (rule to_usize_or_trap_i32) (use b small in simp)
  have "length pb + 4 \<noteq> u64_max" using b small by (simp add: u64_max_def)
  then have "setup_linker_indexer hexe hexd decode B (LoadInput (to_ptr (length pb) + 4)) (ctx, with_mem ws ?m)
      = (Inr 0, (ctx, with_mem ws m'))"
    using p m'
    by (simp add: host_load_input_def ptr_of_nat no_value_def sbind_def sreturn_def write_or_panic_def Let_def
        del: of_nat_add)
  note run3 = run_host [where link = "setup_linker_indexer hexe hexd decode B", OF this,
      of place exports mem0 "\<lambda>_. after_prefix (length pb) (length (sized_buffer (of_nat ?n))) ?after"]
  have "?run (after_prefix (length pb) (?n + 4) ?after) (ctx, with_mem ws m') = ?run (?after ?in) (ctx, with_mem ws m')"
    by (rule run_after_prefix) (use m'' b in \<open>auto simp: add.commute\<close>)
  then have "?run (core_input core_start k) (ctx, with_mem ws mem) = ?run (?after ?in) (ctx, with_mem ws m')"
    unfolding start run1 run2 run3 unfolding n .
  moreover have "length m' = room" using m'' b by simp
  ultimately show ?thesis by blast
qed

section \<open>Compiled code\<close>

text \<open>
  The cache of the library is what the code has read or written so far: \<open>W\<close> is what it has
  written, everything else in the cache is what the database holds.
\<close>

definition cache_agrees :: "(bytes \<Rightarrow> bytes) \<Rightarrow> (bytes \<rightharpoonup> bytes) \<Rightarrow> (bytes \<rightharpoonup> bytes) \<Rightarrow> bool" where
  "cache_agrees stored_at W cache \<longleftrightarrow>
     W \<subseteq>\<^sub>m cache \<and> (\<forall>key x. cache key = Some x \<longrightarrow> W key = None \<longrightarrow> x = stored_at key)"

lemma cache_agrees_start: "cache_agrees stored_at Map.empty Map.empty"
  by (simp add: cache_agrees_def)

lemma cache_agrees_read:
  "cache_agrees stored_at W cache \<Longrightarrow> W key = None \<Longrightarrow> cache_agrees stored_at W (cache(key \<mapsto> stored_at key))"
  by (auto simp: cache_agrees_def map_le_def dom_def)

lemma cache_agrees_write:
  "cache_agrees stored_at W cache \<Longrightarrow> cache_agrees stored_at (W(key \<mapsto> val)) (cache(key \<mapsto> val))"
  by (auto simp: cache_agrees_def map_le_def dom_def)

lemma cache_agrees_written:
  "cache_agrees stored_at W cache \<Longrightarrow> W key = Some x \<Longrightarrow> cache key = Some x"
  by (auto simp: cache_agrees_def map_le_def dom_def)

lemma cache_agrees_value:
  "cache_agrees stored_at W cache \<Longrightarrow> cache key = Some x
     \<Longrightarrow> (case W key of Some x \<Rightarrow> x | None \<Rightarrow> stored_at key) = x"
  by (auto simp: cache_agrees_def map_le_def dom_def split: option.splits)

text \<open>Fewer reads reach the database than the bound assumes: a cached key needs no buffer.\<close>

lemma compile_meaning:
  assumes alloc: "allocates place cap room" "cap \<le> room"
    and found: "\<And>key. get_value_at_height hexd (so_read B (ctx_db ctx)) key (ctx_height ctx - 1) = Inr (stored_at key)"
  shows "length mem = room \<Longrightarrow> cache_agrees stored_at W cache \<Longrightarrow> reads_fit u cap stored_at W \<Longrightarrow>
     set ks \<subseteq> dom W \<Longrightarrow> meaning u stored_at W ks = (W', ks') \<Longrightarrow>
     \<exists>mem' cache'. length mem' = room \<and> cache_agrees stored_at W' cache' \<and> set ks' \<subseteq> dom W'
     \<and> run_prog place exports mem0 (setup_linker_indexer hexe hexd decode B) (compile u (core_of cache ks) k) (ctx, with_mem ws mem)
       = run_prog place exports mem0 (setup_linker_indexer hexe hexd decode B) (k (core_of cache' ks')) (ctx, with_mem ws mem')"
proof (induction u arbitrary: mem W cache ks)
  case (Read key f)
  show ?case
  proof (cases "cache key")
    case (Some x)
    have x: "(case W key of Some x \<Rightarrow> x | None \<Rightarrow> stored_at key) = x"
      using cache_agrees_value [OF Read.prems(2) Some] .
    have "reads_fit (f x) cap stored_at W"
      using Read.prems(3) x by (auto split: option.splits)
    with Read.IH [OF rangeI [of f x]] Read.prems x have "\<exists>mem' cache'. length mem' = room \<and> cache_agrees stored_at W' cache' \<and> set ks' \<subseteq> dom W'
     \<and> run_prog place exports mem0 (setup_linker_indexer hexe hexd decode B) (compile (f x) (core_of cache ks) k) (ctx, with_mem ws mem)
       = run_prog place exports mem0 (setup_linker_indexer hexe hexd decode B) (k (core_of cache' ks')) (ctx, with_mem ws mem')"
      by simp
    then show ?thesis using Some by (simp add: run_get_cached)
  next
    case None
    then have W: "W key = None" using cache_agrees_written [OF Read.prems(2), of key] by (cases "W key") auto
    let ?x = "stored_at key" and ?cache = "cache(key \<mapsto> stored_at key)"
    have fits: "length key + 4 \<le> cap" "length ?x + 4 \<le> cap" "reads_fit (f ?x) cap stored_at W"
      using Read.prems(3) W by auto
    obtain mem1 where mem1: "length mem1 = room"
        "run_prog place exports mem0 (setup_linker_indexer hexe hexd decode B)
           (compile (Read key f) (core_of cache ks) k) (ctx, with_mem ws mem)
         = run_prog place exports mem0 (setup_linker_indexer hexe hexd decode B)
           (compile (f ?x) (core_of ?cache ks) k) (ctx, with_mem ws mem1)"
      using run_get [where key = key and cache = cache and v = ?x, OF alloc(1) Read.prems(1) fits(1,2) alloc(2) None found]
      by fastforce
    have "meaning (f ?x) stored_at W ks = (W', ks')" using Read.prems(5) W by simp
    from Read.IH [OF rangeI [of f ?x] mem1(1) cache_agrees_read [OF Read.prems(2) W] fits(3) Read.prems(4) this]
    show ?thesis unfolding mem1(2) .
  qed
next
  case (Write key val u)
  have "set (ks @ [key]) \<subseteq> dom (W(key \<mapsto> val))" using Write.prems(4) by auto
  moreover have "reads_fit u cap stored_at (W(key \<mapsto> val))"
      "meaning u stored_at (W(key \<mapsto> val)) (ks @ [key]) = (W', ks')"
    using Write.prems by simp_all
  ultimately show ?case
    using Write.IH [OF Write.prems(1) cache_agrees_write [OF Write.prems(2)]] by (simp del: fun_upd_apply)
next
  case Finish
  then show ?case by auto
qed

lemma tuples_pairs: "tuples (concat (map (\<lambda>i. [i, f i]) ks)) = map (\<lambda>i. (i, f i)) ks"
  by (induction ks) simp_all

text \<open>The message that the code flushes.\<close>

definition flush_message :: "(bytes \<times> bytes) list \<Rightarrow> bytes list" where
  "flush_message kvs = concat (map (\<lambda>(k, v). [k, v]) kvs)"

lemma tuples_flush_message: "tuples (flush_message kvs) = kvs"
  by (induction kvs) (auto simp: flush_message_def)

lemma flush_list_meaning:
  assumes "cache_agrees stored_at W cache" "set ks \<subseteq> dom W"
  shows "flush_list (core_of cache ks) = Some (flush_message (map (\<lambda>key. (key, the (W key))) ks))"
proof -
  have "cache item = Some (the (W item))" if "item \<in> set ks" for item
    using that assms cache_agrees_written [OF assms(1), of item] by fastforce
  then have same: "\<forall>item \<in> set ks. cache item = Some (the (W item))" by simp
  then show ?thesis by (simp add: flush_list_def flush_message_def comp_def cong: map_cong)
qed

text \<open>All of \<open>_start\<close>, in an armed execution.\<close>

lemma run_indexer_start:
  assumes alloc: "allocates place cap room" "length mem = room" "cap \<le> room"
    and found: "\<And>key. get_value_at_height hexd (so_read B (ctx_db ctx)) key (ctx_height ctx - 1) = Inr (stored_at key)"
    and h: "ctx_height ctx \<le> u32_max" and blk: "length (ctx_block ctx) + 8 \<le> cap"
    and u: "index_block (ctx_height ctx) (ctx_block ctx) = u"
    and fits: "reads_fit u cap stored_at Map.empty"
      "length (encode (flush_message (block_pairs stored_at u))) + 4 \<le> cap"
    and code: "decode (encode (flush_message (block_pairs stored_at u))) = Some (flush_message (block_pairs stored_at u))"
    and armed: "ctx_pending ctx = Some q"
    and d: "d = fold (\<lambda>(k, v). kb_track B k v) (block_pairs stored_at u) (ctx_db ctx)"
    and built: "fst (build_state_root_batch_unwritten hexe (so_read B d) (ctx_height ctx) (block_pairs stored_at u)
        (ctx_block_hash ctx) new_caches) = Inr (root, batch)"
  shows "\<exists>ws'. run_prog place exports mem0 (setup_linker_indexer hexe hexd decode B)
      (indexer_start encode index_block) (ctx, with_mem ws mem)
    = Some (Returned 0, (ctx\<lparr>ctx_db := d, ctx_pending := Some (kb_bytes B batch), ctx_state := 1\<rparr>, ws'))
    \<and> ws_failure ws' = ws_failure ws \<and> ws_flush_error ws' = ws_flush_error ws"
proof -
  let ?link = "setup_linker_indexer hexe hexd decode B"
  let ?run = "run_prog place exports mem0 ?link"
  have small: "room < 2147483648" by (rule allocates_room) (rule alloc(1))
  let ?stop = "\<lambda>_ :: core. Done 0" and ?kvs = "block_pairs stored_at u"
  let ?finish = "\<lambda>c. core_flush encode c ?stop"
  let ?body = "\<lambda>input c. if length input < 4 then Fault ''index out of bounds''
      else compile (index_block (from_le (take 4 input)) (drop 4 input)) c ?finish"
  let ?in = "le_bytes 4 (ctx_height ctx) @ ctx_block ctx"
  obtain m1 where m1: "length m1 = room"
      "?run (indexer_start encode index_block) (ctx, with_mem ws mem) = ?run (?body ?in (core_of Map.empty [])) (ctx, with_mem ws m1)"
    using run_input [OF alloc(1,2) blk alloc(3)] unfolding indexer_start_def by blast
  have "?body ?in (core_of Map.empty []) = compile u (core_of Map.empty []) ?finish"
    using h u by simp
  note m1' = m1(2) [unfolded this]
  obtain W ks where m: "meaning u stored_at Map.empty [] = (W, ks)" by (rule prod.exhaust)
  then have kvs: "?kvs = map (\<lambda>key. (key, the (W key))) ks" by (simp add: block_pairs_def)
  obtain m2 cache where m2: "length m2 = room" "cache_agrees stored_at W cache" "set ks \<subseteq> dom W"
      "?run (compile u (core_of Map.empty []) ?finish) (ctx, with_mem ws m1) = ?run (?finish (core_of cache ks)) (ctx, with_mem ws m2)"
    using compile_meaning [OF alloc(1,3) found m1(1) cache_agrees_start fits(1) _ m] by force
  let ?msg = "encode (flush_message ?kvs)"
  let ?call = "\<lambda>a. Host_call (FlushCall (to_ptr a + 4)) (\<lambda>_. Done 0)"
  have flush: "?finish (core_of cache ks) = with_buffer (to_arraybuffer_layout ?msg) ?call"
    using flush_list_meaning [OF m2(2,3)] by (simp add: core_flush_def kvs)
  obtain pb pb' where mem3: "length pb + length (to_arraybuffer_layout ?msg) + length pb' = room"
    and run3: "\<And>k ctx ws. ?run (with_buffer (to_arraybuffer_layout ?msg) k) (ctx, with_mem ws m2)
      = ?run (k (length pb)) (ctx, with_mem ws (pb @ to_arraybuffer_layout ?msg @ pb'))"
    by (rule run_buffer [OF alloc(1) m2(1), of "to_arraybuffer_layout ?msg" exports mem0 ?link]) (use fits in auto)
  let ?m3 = "pb @ to_arraybuffer_layout ?msg @ pb'"
  let ?ctx = "ctx\<lparr>ctx_db := d, ctx_pending := Some (kb_bytes B batch), ctx_state := 1\<rparr>"
  have "?link (FlushCall (to_ptr (length pb) + 4)) (ctx, with_mem ws ?m3) = (Inr 0, (?ctx, with_mem ws ?m3))"
    using layout_read [of pb ?msg pb'] mem3 small code armed built
    by (simp add: indexer_flush_def ptr_of_nat no_value_def sbind_def sreturn_def Let_def tuples_flush_message
        d [symmetric] del: of_nat_add)
  note run4 = run_host [where link = ?link, OF this, of place exports mem0 "\<lambda>_. Done 0"]
  have "?run (indexer_start encode index_block) (ctx, with_mem ws mem)
      = Some (Returned 0, (?ctx, (with_mem ws ?m3)\<lparr>ws_guest := Done 0\<rparr>))"
    unfolding m1' m2(4) flush run3 run4 run_done ..
  then show ?thesis by auto
qed

section \<open>A block, end to end\<close>

lemma rocks_batch_plain: "rocks_batch None b = b"
  unfolding rocks_batch_def
  by (rule map_idI) (simp add: make_labeled_key_fast_def split: batch_op.splits)

lemma rt_fold_track_get: "rt_get lbl R (fold (\<lambda>(k, v). rt_track_kv_update k v) kvs d) = rt_get lbl R d"
  using rt_track_all [of kvs d] rt_get_tracker [where lbl = lbl and R = R and s = d] by auto

lemma rt_fold_track_scan:
  "rt_scan_prefix lbl R (fold (\<lambda>(k, v). rt_track_kv_update k v) kvs d) = rt_scan_prefix lbl R d"
proof -
  obtain t where "fold (\<lambda>(k, v). rt_track_kv_update k v) kvs d = d\<lparr>kv_tracker := t\<rparr>" using rt_track_all by blast
  then show ?thesis by (simp add: fun_eq_iff rt_scan_prefix_def Let_def)
qed

text \<open>A block with the size of everything that crosses to the host on its way.\<close>

definition block_fits ::
    "nat \<Rightarrow> (bytes list \<Rightarrow> bytes) \<Rightarrow> (bytes \<Rightarrow> bytes) \<Rightarrow> bytes \<Rightarrow> index_code \<Rightarrow> bool" where
  "block_fits cap encode stored_at blk u \<longleftrightarrow>
     length blk + 8 \<le> cap \<and> reads_fit u cap stored_at Map.empty
   \<and> length (encode (flush_message (block_pairs stored_at u))) + 4 \<le> cap"

lemma guest_block_run:
  assumes fresh: "fresh_runtime (prog_module place exports mem0) d r"
    and start: "exports ''_start'' = Some (indexer_start encode index_block)"
    and alloc: "allocates place cap (length mem0)" "cap \<le> length mem0"
    and code: "\<forall>xs. decode (encode xs) = Some xs"
    and found: "\<forall>key. get_value_at_height hexd (rt_get lbl R d) key (h - 1) = Inr (stored_at key)"
    and fits: "h \<le> u32_max" "block_fits cap encode stored_at blk (index_block h blk)"
    and built: "fst (build_state_root_batch_unwritten hexe (rt_get lbl R d) h
        (block_pairs stored_at (index_block h blk)) bh new_caches) = Inr (root, batch)"
  shows "\<exists>cur r'. process_block_atomic (rt_backend lbl R to_data) (prog_module place exports mem0)
        (setup_linker_indexer hexe hexd decode (rt_backend lbl R to_data)) h blk bh r
      = Some (Inr \<lparr>br_state_root = cur, br_batch_data = to_data (rocks_batch lbl batch), br_height = h, br_hash = bh\<rparr>, r')
    \<and> get_current_state_root (rt_scan_prefix lbl R d) = Inr cur
    \<and> fresh_runtime (prog_module place exports mem0) (ctx_db (rw_context r')) r'
    \<and> ctx_db (rw_context r') = fold (\<lambda>(k, v). rt_track_kv_update k v) (block_pairs stored_at (index_block h blk)) d"
proof -
  let ?B = "rt_backend lbl R to_data" and ?M = "prog_module place exports mem0"
  let ?link = "setup_linker_indexer hexe hexd decode ?B"
  let ?u = "index_block h blk"
  let ?kvs = "block_pairs stored_at ?u"
  let ?r0 = "set_block h blk bh (set_pending (Some []) r)"
  let ?ws = "(rw_store ?r0)\<lparr>ws_flush_error := None\<rparr>"
  let ?d = "fold (\<lambda>(k, v). rt_track_kv_update k v) ?kvs d"
  have db: "ctx_db (rw_context r) = d" and store: "rw_store r = state_new (Some mem0) (Done 0)"
    using fresh by (auto simp: fresh_runtime_def prog_module_def)
  have inst: "wm_instantiate ?M n = Inr (Done 0, Some mem0)" for n by (simp add: prog_module_def)
  have ctx: "ctx_db (rw_context ?r0) = d" "ctx_height (rw_context ?r0) = h" "ctx_block (rw_context ?r0) = blk"
      "ctx_block_hash (rw_context ?r0) = bh" "ctx_pending (rw_context ?r0) = Some []"
    by (simp_all add: set_block_def set_pending_def db)
  have mem: "?ws = with_mem ?ws mem0"
    by (simp add: with_mem_def set_block_def set_pending_def store state_new_def)
  obtain ws' where run: "call_guest ?M ?link (indexer_start encode index_block) (rw_context ?r0, with_mem ?ws mem0)
      = Some (Returned 0, ((rw_context ?r0)\<lparr>ctx_db := ?d,
          ctx_pending := Some (kb_bytes ?B batch), ctx_state := 1\<rparr>, ws'))"
      and ws': "ws_failure ws' = ws_failure ?ws" "ws_flush_error ws' = ws_flush_error ?ws"
  proof -
    have found': "\<And>key. get_value_at_height hexd (so_read ?B (ctx_db (rw_context ?r0))) key
        (ctx_height (rw_context ?r0) - 1) = Inr (stored_at key)"
      using found unfolding ctx by simp
    have built': "fst (build_state_root_batch_unwritten hexe (so_read ?B ?d) (ctx_height (rw_context ?r0))
        ?kvs (ctx_block_hash (rw_context ?r0)) new_caches) = Inr (root, batch)"
      unfolding ctx using built by (simp add: rt_fold_track_get)
    have "\<exists>ws'. call_guest ?M ?link (indexer_start encode index_block) (rw_context ?r0, with_mem ?ws mem0)
      = Some (Returned 0, ((rw_context ?r0)\<lparr>ctx_db := ?d,
          ctx_pending := Some (kb_bytes ?B batch), ctx_state := 1\<rparr>, ws'))
      \<and> ws_failure ws' = ws_failure ?ws \<and> ws_flush_error ws' = ws_flush_error ?ws"
      by (rule run_indexer_start [OF alloc(1) refl alloc(2) found' _ _ _ _ _ _ ctx(5) _ built'])
         (use ctx fits code in \<open>auto simp: block_fits_def\<close>)
    then show ?thesis using that by blast
  qed
  let ?r1 = "put_host_state ((rw_context ?r0)\<lparr>ctx_db := ?d, ctx_pending := Some (kb_bytes ?B batch), ctx_state := 1\<rparr>, ws')
      (?r0\<lparr>rw_store := ?ws\<rparr>)"
  have enter: "wm_enter ?M ''_start'' g = Some (indexer_start encode index_block)" for g
    by (simp add: prog_module_def start)
  have flags: "\<not> ws_failure ws'" "ws_flush_error ws' = None"
    using ws' by (simp_all add: store state_new_def set_block_def set_pending_def)
  have ex: "execute_start ?M ?link un fa ce ?r0 = Some (Inr (Inr ()), ?r1)" for un fa ce
    using run flags unfolding execute_start_def Let_def enter
    by (simp add: mem [symmetric] judge_def)
  obtain cur where cur: "get_current_state_root (rt_scan_prefix lbl R d) = Inr cur"
    by (auto simp: get_current_state_root_def rt_scan_prefix_def Let_def)
  have "\<exists>r'. finish_atomic ?B ?M h bh (Inr (Inr ())) ?r1
      = (Inr \<lparr>br_state_root = cur, br_batch_data = to_data (rocks_batch lbl batch), br_height = h, br_hash = bh\<rparr>, r')
     \<and> fresh_runtime ?M (ctx_db (rw_context r')) r' \<and> ctx_db (rw_context r') = ?d"
    using cur
    by (simp add: finish_atomic_def sbind_def calculate_state_root_def put_host_state_def rt_fold_track_scan
        refresh_always [OF inst] set_pending_def fresh_runtime_def inst state_new_def Let_def)
  with ex cur show ?thesis by (fastforce simp: process_block_atomic_def)
qed

text \<open>
  An indexer built on the guest library computes what its code means. On a fresh
  instance, with an allocator that finds room for the buffers, the atomic execution of a
  block returns exactly the batch built from the reference meaning of the indexer: the
  writes of the block in order, each key with the value last written to it, where a read
  sees the block's own writes first and otherwise the database below the block's height.
  The cache, the buffers (which may overlap), the message and the host's writes into guest
  memory leave no trace in the result.
\<close>

theorem guest_block_meaning:
  assumes "fresh_runtime (prog_module place exports mem0) d r"
    and "exports ''_start'' = Some (indexer_start encode index_block)"
    and "allocates place cap (length mem0)" "cap \<le> length mem0"
    and "\<forall>xs. decode (encode xs) = Some xs"
    and "\<forall>key. get_value_at_height hexd (rt_get lbl R d) key (h - 1) = Inr (stored_at key)"
    and "h \<le> u32_max" "block_fits cap encode stored_at blk (index_block h blk)"
    and "fst (build_state_root_batch_unwritten hexe (rt_get lbl R d) h
        (block_pairs stored_at (index_block h blk)) bh new_caches) = Inr (root, batch)"
  shows "\<exists>cur r'. process_block_atomic (rt_backend lbl R to_data) (prog_module place exports mem0)
        (setup_linker_indexer hexe hexd decode (rt_backend lbl R to_data)) h blk bh r
      = Some (Inr \<lparr>br_state_root = cur, br_batch_data = to_data (rocks_batch lbl batch), br_height = h, br_hash = bh\<rparr>, r')
    \<and> get_current_state_root (rt_scan_prefix lbl R d) = Inr cur"
  using guest_block_run [OF assms, where to_data = to_data] by blast

text \<open>An indexer that appends each block to one key.\<close>

definition sample_indexer :: "nat \<Rightarrow> bytes \<Rightarrow> index_code" where
  "sample_indexer h blk = Read ''n'' (\<lambda>x. Write ''n'' (x @ blk) Finish)"

definition sample_exports :: "string \<Rightarrow> prog option" where
  "sample_exports = [''_start'' \<mapsto> indexer_start sample_fields sample_indexer]"

definition sample_memory :: bytes where
  "sample_memory = replicate 64 (char_of (0 :: nat))"

text \<open>An allocator that puts every buffer at the same address.\<close>

definition sample_place :: "bytes \<Rightarrow> nat \<Rightarrow> nat" where
  "sample_place mem n = 0"

lemma sample_allocates: "allocates sample_place 64 (length sample_memory)"
  by (simp add: allocates_def sample_place_def sample_memory_def)

lemma fresh_database_reads_empty:
  "get_value_at_height hex_decode (rt_get None list_rocks (rt_new [])) key h = Inr []"
proof -
  have "get_at_height (rocks_get list_rocks []) hex_decode key h = Inr (last_write [] key h)"
    by (rule durable_query [OF list_rocks_ok hx.hex_codec_axioms list_empty_inv])
       (simp add: chain_ok_def total_pairs_def)
  moreover have "rt_get None list_rocks (rt_new []) = rocks_get list_rocks []"
    by (auto simp: fun_eq_iff rt_get_def rt_new_def Let_def make_labeled_key_fast_def list_rocks_def)
  ultimately show ?thesis by (simp add: get_value_at_height_def last_write_def)
qed

definition sample_guest :: "(list_db rocks_runtime, prog) wasm_runtime" where
  "sample_guest = \<lparr>rw_context = context_new (rt_new []) 0 [], rw_store = state_new (Some sample_memory) (Done 0),
     rw_instances = 1\<rparr>"

theorem guest_block_meaning_witness:
  "\<exists>root batch cur r'. fst (build_state_root_batch_unwritten encode_hex_fast (rt_get None list_rocks (rt_new [])) 1
        [(''n'', ''b'')] ''h'' new_caches) = Inr (root, batch)
    \<and> process_block_atomic (rt_backend None list_rocks sample_data) (prog_module sample_place sample_exports sample_memory)
        (setup_linker_indexer encode_hex_fast hex_decode sample_decode (rt_backend None list_rocks sample_data)) 1 ''b'' ''h'' sample_guest
      = Some (Inr \<lparr>br_state_root = cur, br_batch_data = sample_data batch, br_height = 1, br_hash = ''h''\<rparr>, r')"
proof -

  have fresh: "fresh_runtime (prog_module sample_place sample_exports sample_memory) (rt_new []) sample_guest"
    by (simp add: fresh_runtime_def sample_guest_def context_new_def state_new_def prog_module_def)
  have entry: "sample_exports ''_start'' = Some (indexer_start sample_fields sample_indexer)"
    by (simp add: sample_exports_def)
  have code: "\<forall>xs. sample_decode (sample_fields xs) = Some xs" by (simp add: sample_decode_fields)
  have pairs: "block_pairs (\<lambda>_. []) (sample_indexer 1 ''b'') = [(''n'', ''b'')]"
    by (simp add: block_pairs_def sample_indexer_def)
  have fits: "block_fits 64 sample_fields (\<lambda>_. []) ''b'' (sample_indexer 1 ''b'')"
    by (simp add: block_fits_def pairs flush_message_def sample_fields_def encode_hex_fast_eq hex_byte_def
        del: One_nat_def) (simp add: sample_indexer_def)
  have room: "64 \<le> length sample_memory" by (simp add: sample_memory_def)
  have reads: "\<forall>key. get_value_at_height hex_decode (rt_get None list_rocks (rt_new [])) key (1 - 1) = Inr ((\<lambda>_. []) key)"
    by (simp add: fresh_database_reads_empty)
  obtain root batch where built: "fst (build_state_root_batch_unwritten encode_hex_fast (rt_get None list_rocks (rt_new [])) 1
      (block_pairs (\<lambda>_. []) (sample_indexer 1 ''b'')) ''h'' new_caches) = Inr (root, batch)"
    unfolding pairs using fresh_pair_builds [of "rt_new []"] by (fastforce simp: rt_new_def)
  have "(1 :: nat) \<le> u32_max" by (simp add: u32_max_def)
  from guest_block_meaning [OF fresh entry sample_allocates room code reads this fits built, where to_data = sample_data]
  show ?thesis using built [unfolded pairs] unfolding rocks_batch_plain by blast
qed

section \<open>What a view returns\<close>

text \<open>
  Only one of the two \<open>export_bytes\<close> works. A view that returns its result through
  \<open>compat::export_bytes\<close> of the support crate yields these bytes to the caller. A view
  that returns it through \<open>metashrew_core::export_bytes\<close> points the host at the length
  prefix instead of the data: the host takes the four bytes before the buffer for the
  length, so on zeroed memory every result comes back empty.
\<close>

theorem export_bytes_off_by_four:
  assumes "allocates place cap (length mem0)" "length v + 4 \<le> cap" "set mem0 \<subseteq> {char_of (0 :: nat)}"
    and "exports ''good'' = Some (support_export_bytes v Done)" "exports ''bad'' = Some (core_export_bytes v Done)"
  shows "map_option fst (view_with_limits (prog_module place exports mem0) link n ''good'' input h r) = Some (Inr v)
    \<and> map_option fst (view_with_limits (prog_module place exports mem0) link n ''bad'' input h r) = Some (Inr [])"
proof -
  let ?M = "prog_module place exports mem0"
  let ?ctx = "(context_new (ctx_db (rw_context r)) h [])\<lparr>ctx_block := input\<rparr>"
  let ?ws = "state_new (Some mem0) (Done 0)"
  let ?b = "to_arraybuffer_layout v"
  have small: "length mem0 < 2147483648" by (rule allocates_room) (rule assms(1))
  have mem: "with_mem ?ws mem0 = ?ws" by (simp add: with_mem_def state_new_def)
  obtain pre post where buf: "length pre + length ?b + length post = length mem0" "set pre \<subseteq> set mem0"
    and run: "\<And>k ctx ws. call_guest ?M link (with_buffer ?b k) (ctx, with_mem ws mem0)
      = call_guest ?M link (k (length pre)) (ctx, with_mem ws (pre @ ?b @ post))"
    by (rule run_buffer [OF assms(1) refl, of ?b exports mem0 link]) (use assms(2) in auto)
  have view: "map_option fst (view_with_limits ?M link n f input h r)
      = Some (Inr (read_arraybuffer_as_vec (pre @ ?b @ post) p))"
    if "exports f = Some (with_buffer ?b k)" "k (length pre) = Done p" for f k p
    using that run [of k ?ctx ?ws] unfolding mem
    by (simp add: view_with_limits_def new_with_db_def prog_module_def call_view_def context_new_def Let_def
        run_done [unfolded prog_module_def])
  have "read_arraybuffer_as_vec (pre @ ?b @ post) (of_nat (length pre + 4)) = v"
    using layout_read [of pre v post] buf(1) small by (simp add: read_arraybuffer_as_vec_def)
  moreover have "read_arraybuffer_as_vec (pre @ ?b @ post) (of_nat (length pre)) = []"
  proof (cases "length pre < 4")
    case True
    then show ?thesis by (simp add: read_arraybuffer_as_vec_def try_read_arraybuffer_as_vec_def)
  next
    case False
    have zeros: "pre = replicate (length pre) (char_of (0 :: nat))"
      using buf(2) assms(3) by (intro replicate_eqI) auto
    have "take 4 (drop (length pre - 4) (pre @ ?b @ post)) = replicate 4 (char_of (0 :: nat))"
      using False by (subst (2) zeros) simp
    moreover have "from_le (replicate 4 (char_of (0 :: nat))) = 0" by code_simp
    ultimately have "from_le (take 4 (drop (length pre - 4) (pre @ ?b @ post))) = 0" by (simp only:)
    moreover have "4 + (length pre - 4) - length pre = 0" using False by simp
    moreover have "sint (of_nat (length pre) :: i32) = int (length pre)"
      by (rule sint_i32) (use buf(1) small in simp)
    ultimately show ?thesis
      by (simp add: read_arraybuffer_as_vec_def try_read_arraybuffer_as_vec_def Let_def)
  qed
  ultimately show ?thesis
    using view [OF assms(4) [unfolded support_export_bytes_def]]
      view [OF assms(5) [unfolded core_export_bytes_def, folded to_arraybuffer_layout_def]]
    by (simp add: ptr_of_nat to_ptr_def)
qed

definition view_exports :: "bytes \<Rightarrow> string \<Rightarrow> prog option" where
  "view_exports v = [''good'' \<mapsto> support_export_bytes v Done, ''bad'' \<mapsto> core_export_bytes v Done]"

theorem export_bytes_off_by_four_witness:
  "map_option fst (view_with_limits (prog_module sample_place (view_exports ''hi'') sample_memory)
      (setup_linker_view hex_decode (rt_backend None list_rocks sample_data)) 1 ''bad'' ''in'' 7 sample_guest) = Some (Inr [])"
proof -
  have "set sample_memory \<subseteq> {char_of (0 :: nat)}" by (simp add: sample_memory_def)
  with export_bytes_off_by_four [OF sample_allocates, of "''hi''" "view_exports ''hi''"
      "setup_linker_view hex_decode (rt_backend None list_rocks sample_data)" 1 "''in''" 7 sample_guest]
  show ?thesis by (simp add: view_exports_def)
qed

end
