(* ===== verification/MonoAdapters.thy ===== *)
theory MonoAdapters
  imports SyncTypes WasmRuntime
begin

text \<open>
  The adapters of the indexer binary, \<open>crates/rockshrew-mono/src/adapters.rs\<close>: the Bitcoin
  node behind JSON-RPC, with its retries, its SSH tunnel and the check that a body belongs
  to the hash the node named, and the runtime adapter over \<open>MetashrewRuntime\<close>.

  The transport (\<open>make_request_with_tunnel\<close>, the clock, the timer), the JSON parser, the
  hash functions and the hex codec are parameters.
\<close>

section \<open>View errors\<close>

definition to_lower :: "string \<Rightarrow> string" where
  "to_lower s = map (\<lambda>c. if CHR ''A'' \<le> c \<and> c \<le> CHR ''Z'' then char_of (of_char c + 32 :: nat) else c) s"

definition classify_view_error :: "string \<Rightarrow> sync_error" where
  "classify_view_error chain =
     (let lower = to_lower chain in
      if contains lower ''memory growth'' \<or> contains lower ''memory.grow'' \<or> contains lower ''out of memory''
         \<or> contains lower ''memory size'' \<or> contains lower ''cannotgrow''
      then ResourceExhausted (''view function exceeded memory budget: '' @ chain)
      else ViewFunction (''View function failed: '' @ chain))"

section \<open>Block identity\<close>

definition double_sha256 :: "(bytes \<Rightarrow> bytes) \<Rightarrow> bytes \<Rightarrow> bytes" where
  "double_sha256 sha b = rev (sha (sha b))"

definition SKIP_VERIFY_ENV :: string where
  "SKIP_VERIFY_ENV = ''METASHREW_SKIP_BLOCK_HASH_VERIFY''"

text \<open>\<open>skip\<close> says whether the environment variable is set.\<close>

definition verify_block_hash ::
    "(bytes \<Rightarrow> bytes) \<Rightarrow> (bytes \<Rightarrow> bytes) \<Rightarrow> bool \<Rightarrow> nat \<Rightarrow> bytes \<Rightarrow> bytes \<Rightarrow> sync_error + unit" where
  "verify_block_hash sha hexe skip height expected data =
     (if skip then Inr ()
      else if length data < 80 then
        Inl (BitcoinNode (''block '' @ dec height @ '' body is '' @ dec (length data)
               @ '' bytes, too short to contain a header''))
      else
        let computed = double_sha256 sha (take 80 data) in
        if computed \<noteq> expected then
          Inl (BitcoinNode (''block '' @ dec height @ '' body does not match the hash the node gave for that height (expected ''
                 @ hexe expected @ '', body hashes to '' @ hexe computed
                 @ ''). If this chain does not use sha256d over an 80-byte header, set '' @ SKIP_VERIFY_ENV @ ''=1.''))
        else Inr ())"

section \<open>Requests\<close>

datatype rpc_param = RpcString string | RpcNumber nat

record json_rpc_request =
  rq_id :: nat
  rq_jsonrpc :: string
  rq_method :: string
  rq_params :: "rpc_param list"

text \<open>
  The outside world of a request: the clock (seconds since the epoch, or an error), one
  exchange over an existing tunnel or a new one, giving the body of the response and the
  tunnel it used, and the timer.
\<close>

record ('w, 't) transport =
  tp_now :: "'w \<Rightarrow> (string + nat) \<times> 'w"
  tp_send :: "json_rpc_request \<Rightarrow> 't option \<Rightarrow> 'w \<Rightarrow> (string + bytes \<times> 't option) \<times> 'w"
  tp_sleep :: "nat \<Rightarrow> 'w \<Rightarrow> 'w"

text \<open>The configuration of the adapter and its environment.\<close>

record ('w, 't) rpc_config =
  rc_transport :: "('w, 't) transport"
  rc_tunnelled :: bool
  rc_hash :: "string \<Rightarrow> nat \<Rightarrow> nat"
  rc_sha :: "bytes \<Rightarrow> bytes"
  rc_hex :: "bytes \<Rightarrow> string"
  rc_unhex :: "string \<Rightarrow> string + bytes"
  rc_count :: "bytes \<Rightarrow> nat option option"
  rc_text :: "bytes \<Rightarrow> string option option"
  rc_skip :: bool

text \<open>The state of the adapter: the world and the active tunnel.\<close>

type_synonym ('w, 't) rpc_state = "'w \<times> 't option"

definition next_delay :: "(string \<Rightarrow> nat \<Rightarrow> nat) \<Rightarrow> string \<Rightarrow> nat \<Rightarrow> nat \<Rightarrow> nat" where
  "next_delay hash meth attempt delay = min 16000 (delay * 2 + hash meth attempt mod 101)"

text \<open>The tunnel after an exchange: a new one is kept, a failed one is dropped.\<close>

definition keep_tunnel :: "bool \<Rightarrow> 't option \<Rightarrow> 't option \<Rightarrow> 't option" where
  "keep_tunnel tunnelled active made = (if tunnelled \<and> active = None then made else active)"

fun request_attempts ::
    "('w, 't) rpc_config \<Rightarrow> (bytes \<Rightarrow> 'r option) \<Rightarrow> string \<Rightarrow> rpc_param list \<Rightarrow> nat \<Rightarrow> nat \<Rightarrow> nat
     \<Rightarrow> (('w, 't) rpc_state, string, 'r) est" where
  "request_attempts C parse meth params attempt delay 0 s = (Inl (''Max retries exceeded for method '' @ meth), s)"
| "request_attempts C parse meth params attempt delay (Suc left) (w, active) =
     (case tp_now (rc_transport C) w of
        (Inl e, w1) \<Rightarrow> (Inl (''Time error: '' @ e), (w1, active))
      | (Inr secs, w1) \<Rightarrow>
          let req = \<lparr>rq_id = secs mod 4294967296, rq_jsonrpc = ''2.0'', rq_method = meth, rq_params = params\<rparr>;
              existing = (if rc_tunnelled C then active else None);
              delay' = next_delay (rc_hash C) meth attempt delay
          in case tp_send (rc_transport C) req existing w1 of
               (Inr (text, made), w2) \<Rightarrow>
                 let active' = keep_tunnel (rc_tunnelled C) active made in
                 (case parse text of
                    Some response \<Rightarrow> (Inr response, (w2, active'))
                  | None \<Rightarrow> request_attempts C parse meth params (attempt + 1) delay' left
                      (tp_sleep (rc_transport C) delay' w2, active'))
             | (Inl e, w2) \<Rightarrow>
                 request_attempts C parse meth params (attempt + 1) delay' left
                   (tp_sleep (rc_transport C) delay' w2, if rc_tunnelled C then None else active))"

definition request_with_retry ::
    "('w, 't) rpc_config \<Rightarrow> (bytes \<Rightarrow> 'r option) \<Rightarrow> string \<Rightarrow> rpc_param list \<Rightarrow> (('w, 't) rpc_state, 'r) io" where
  "request_with_retry C parse meth params s =
     (case request_attempts C parse meth params 0 500 5 s of
        (Inl e, s') \<Rightarrow> (Inl (BitcoinNode e), s')
      | (Inr r, s') \<Rightarrow> (Inr r, s'))"

section \<open>The node adapter\<close>

definition rpc_result :: "'a option \<Rightarrow> ('s, 'a) io" where
  "rpc_result r s = (case r of None \<Rightarrow> (Inl (BitcoinNode ''missing result''), s) | Some x \<Rightarrow> (Inr x, s))"

definition rpc_unhex :: "('w, 't) rpc_config \<Rightarrow> string \<Rightarrow> ('s, bytes) io" where
  "rpc_unhex C text s =
     (case rc_unhex C text of
        Inl e \<Rightarrow> (Inl (BitcoinNode (''Hex decode error: '' @ e)), s)
      | Inr b \<Rightarrow> (Inr b, s))"

definition rpc_get_tip_height :: "('w, 't) rpc_config \<Rightarrow> (('w, 't) rpc_state, nat) io" where
  "rpc_get_tip_height C = sbind (request_with_retry C (rc_count C) ''getblockcount'' []) rpc_result"

definition rpc_get_block_hash :: "('w, 't) rpc_config \<Rightarrow> nat \<Rightarrow> (('w, 't) rpc_state, bytes) io" where
  "rpc_get_block_hash C height =
     sbind (request_with_retry C (rc_text C) ''getblockhash'' [RpcNumber height])
       (\<lambda>response. sbind (rpc_result response) (rpc_unhex C))"

definition get_block_data_by_hash :: "('w, 't) rpc_config \<Rightarrow> bytes \<Rightarrow> (('w, 't) rpc_state, bytes) io" where
  "get_block_data_by_hash C blockhash =
     sbind (request_with_retry C (rc_text C) ''getblock'' [RpcString (rc_hex C blockhash), RpcNumber 0])
       (\<lambda>response. sbind (rpc_result response) (rpc_unhex C))"

definition rpc_get_block_data :: "('w, 't) rpc_config \<Rightarrow> nat \<Rightarrow> (('w, 't) rpc_state, bytes) io" where
  "rpc_get_block_data C height = sbind (rpc_get_block_hash C height) (get_block_data_by_hash C)"

definition rpc_get_block_info :: "('w, 't) rpc_config \<Rightarrow> nat \<Rightarrow> (('w, 't) rpc_state, block_info) io" where
  "rpc_get_block_info C height =
     sbind (rpc_get_block_hash C height) (\<lambda>hash.
     sbind (get_block_data_by_hash C hash) (\<lambda>data s.
       case verify_block_hash (rc_sha C) (rc_hex C) (rc_skip C) height hash data of
         Inl e \<Rightarrow> (Inl e, s)
       | Inr _ \<Rightarrow> (Inr \<lparr>info_height = height, info_hash = hash, info_data = data\<rparr>, s)))"

definition rpc_get_chain_tip :: "('w, 't) rpc_config \<Rightarrow> (('w, 't) rpc_state, nat \<times> bytes) io" where
  "rpc_get_chain_tip C =
     sbind (rpc_get_tip_height C) (\<lambda>height. sbind (rpc_get_block_hash C height) (\<lambda>hash. sreturn (height, hash)))"

definition rpc_is_connected :: "('w, 't) rpc_config \<Rightarrow> ('w, 't) rpc_state \<Rightarrow> bool \<times> ('w, 't) rpc_state" where
  "rpc_is_connected C s = (case rpc_get_tip_height C s of (Inl _, s') \<Rightarrow> (False, s') | (Inr _, s') \<Rightarrow> (True, s'))"

definition rpc_node :: "('w, 't) rpc_config \<Rightarrow> ('w, 't) rpc_state node_adapter" where
  "rpc_node C = \<lparr>n_tip_height = rpc_get_tip_height C, n_block_hash = rpc_get_block_hash C,
     n_block_data = rpc_get_block_data C, n_block_info = rpc_get_block_info C, n_is_connected = rpc_is_connected C\<rparr>"

section \<open>The runtime adapter\<close>

text \<open>
  A panic of the host is not an error of the adapter: it unwinds. \<open>chain\<close> prints an error
  of the runtime with its causes.
\<close>

datatype adapter_error = AdapterError sync_error | AdapterPanic string

definition adapter_error :: "(string \<Rightarrow> sync_error) \<Rightarrow> rt_error \<Rightarrow> adapter_error" where
  "adapter_error f e = (case e of RtError m \<Rightarrow> AdapterError (f m) | RtPanic m \<Rightarrow> AdapterPanic m)"

definition ra_process_block ::
    "'g wasm_module \<Rightarrow> ('d, 'g) linker \<Rightarrow> nat \<Rightarrow> bytes \<Rightarrow> ('d, 'g) wasm_runtime
     \<Rightarrow> ((adapter_error + unit) \<times> ('d, 'g) wasm_runtime) option" where
  "ra_process_block M link h data r =
     map_option (\<lambda>(res, r'). (map_sum (adapter_error Runtime) id res, r')) (process_block_direct M link h data r)"

definition ra_process_block_atomic ::
    "('d, 'x) kv_backend_scheme \<Rightarrow> 'g wasm_module \<Rightarrow> ('d, 'g) linker \<Rightarrow> nat \<Rightarrow> bytes \<Rightarrow> bytes \<Rightarrow> ('d, 'g) wasm_runtime
     \<Rightarrow> ((adapter_error + atomic_block_result) \<times> ('d, 'g) wasm_runtime) option" where
  "ra_process_block_atomic B M link h data bh r =
     map_option (\<lambda>(res, r'). (map_sum (adapter_error Runtime)
         (\<lambda>b. \<lparr>state_root = br_state_root b, batch_data = br_batch_data b, result_height = br_height b,
               result_hash = br_hash b\<rparr>) res, r'))
       (process_block_atomic B M link h data bh r)"

definition ra_get_state_root :: "('d, 'x) kv_backend_scheme \<Rightarrow> nat \<Rightarrow> ('d, 'g) wasm_runtime \<Rightarrow> sync_error + bytes" where
  "ra_get_state_root B h r =
     (case get_smt_root_at_height (so_read B (ctx_db (rw_context r))) h of
        Inr root \<Rightarrow> Inr root
      | Inl e \<Rightarrow> Inl (Runtime (''Failed to get state root for height '' @ dec h @ '': '' @ e)))"

definition ra_execute_view ::
    "(rt_error \<Rightarrow> string) \<Rightarrow> 'g wasm_module \<Rightarrow> ('d, 'g) linker \<Rightarrow> nat \<Rightarrow> view_call \<Rightarrow> ('d, 'g) wasm_runtime
     \<Rightarrow> ((adapter_error + bytes) \<times> ('d, 'g) wasm_runtime) option" where
  "ra_execute_view chain M link n call r =
     map_option (\<lambda>(res, r'). (map_sum (\<lambda>e. adapter_error (\<lambda>_. classify_view_error (chain e)) e) id res, r'))
       (view_with_limits M link n (function_name call) (input_data call) (call_height call) r)"

definition ra_execute_preview ::
    "('d, 'x) kv_backend_scheme \<Rightarrow> 'g wasm_module \<Rightarrow> ('d, 'g) linker \<Rightarrow> ('d, 'g) linker \<Rightarrow> nat \<Rightarrow> preview_call
     \<Rightarrow> ('d, 'g) wasm_runtime \<Rightarrow> ((adapter_error + bytes) \<times> ('d, 'g) wasm_runtime) option" where
  "ra_execute_preview B M link view_link n call r =
     map_option (\<lambda>(res, r'). (map_sum (adapter_error (\<lambda>m. ViewFunction (''Preview function failed: '' @ m))) id res, r'))
       (preview B M link view_link n (preview_block call) (function_name call) (input_data call) (call_height call) r)"

definition ra_refresh_memory :: "('s, unit) io" where
  "ra_refresh_memory = sreturn ()"

definition ra_is_ready :: "('d, 'g) wasm_runtime \<Rightarrow> bool" where
  "ra_is_ready r = True"

definition ra_get_stats :: "('d, 'g) wasm_runtime \<Rightarrow> nat \<times> nat \<times> nat option" where
  "ra_get_stats r = (0, ctx_height (rw_context r), Some (ctx_height (rw_context r)))"

section \<open>Properties\<close>

lemma sbind_cases:
  assumes "sbind m f s = (Inr y, s')"
  obtains x s1 where "m s = (Inr x, s1)" "f x s1 = (Inr y, s')"
  using assms by (auto simp: sbind_def split: prod.splits sum.splits)

lemma next_delay_bound: "next_delay hash meth attempt delay \<le> 16000"
  by (simp add: next_delay_def)

text \<open>A request that succeeds is answered by a body that parses.\<close>

lemma request_attempts_result:
  "request_attempts C parse meth params attempt delay left s = (Inr r, s') \<Longrightarrow> \<exists>text. parse text = Some r"
proof (induction C parse meth params attempt delay left s arbitrary: r s' rule: request_attempts.induct)
  case (2 C parse meth params attempt delay left w active)
  then show ?case
    by (auto simp: Let_def split: prod.splits sum.splits option.splits)
qed simp

text \<open>
  C39: a block of the node adapter is the block it is said to be. Unless the check is
  switched off, \<open>get_block_info\<close> returns only bodies that contain a header whose double
  SHA-256 is the hash returned with them, at the height asked for, however the node
  answers, and whatever retries and tunnels it took.
\<close>

theorem fetched_block_identified:
  assumes "n_block_info (rpc_node C) height s = (Inr info, s')" "\<not> rc_skip C"
  shows "info_height info = height \<and> 80 \<le> length (info_data info)
    \<and> double_sha256 (rc_sha C) (take 80 (info_data info)) = info_hash info"
proof -
  obtain hash s1 data s2 where
      "(case verify_block_hash (rc_sha C) (rc_hex C) (rc_skip C) height hash data of
         Inl e \<Rightarrow> (Inl e, s2)
       | Inr _ \<Rightarrow> (Inr \<lparr>info_height = height, info_hash = hash, info_data = data\<rparr>, s2)) = (Inr info, s')"
    using assms(1) by (auto simp: rpc_node_def rpc_get_block_info_def elim!: sbind_cases)
  with assms(2) show ?thesis
    by (auto simp: verify_block_hash_def Let_def not_less split: sum.splits if_splits)
qed

definition sample_transport :: "(bytes list, unit) transport" where
  "sample_transport = \<lparr>tp_now = (\<lambda>w. (Inr 1, w)),
     tp_send = (\<lambda>req tunnel w. case w of [] \<Rightarrow> (Inl ''refused'', []) | t # ts \<Rightarrow> (Inr (t, None), ts)),
     tp_sleep = (\<lambda>ms w. w)\<rparr>"

definition sample_rpc :: "(bytes list, unit) rpc_config" where
  "sample_rpc = \<lparr>rc_transport = sample_transport, rc_tunnelled = False, rc_hash = (\<lambda>m a. 0), rc_sha = take 4,
     rc_hex = id, rc_unhex = Inr, rc_count = (\<lambda>t. None),
     rc_text = (\<lambda>t. if t = ''junk'' then None else Some (Some t)), rc_skip = False\<rparr>"

definition sample_body :: bytes where
  "sample_body = ''abcd'' @ replicate 80 CHR ''x''"

theorem fetched_block_identified_witness:
  "\<exists>info. n_block_info (rpc_node sample_rpc) 9 ([''junk'', ''dcba'', sample_body], None) = (Inr info, ([], None))
     \<and> info_hash info = ''dcba'' \<and> double_sha256 (take 4) (take 80 (info_data info)) = info_hash info"
proof -
  let ?info = "\<lparr>info_height = 9, info_hash = ''dcba'', info_data = sample_body\<rparr>"
  have body: "sample_body \<noteq> ''junk''" "length sample_body = 84" "take 4 (take 80 sample_body) = ''abcd''"
    by (simp_all add: sample_body_def)
  have attempts: "request_attempts sample_rpc (rc_text sample_rpc) meth ps attempt delay (Suc left) (t # ts, None)
      = (if t = ''junk'' then request_attempts sample_rpc (rc_text sample_rpc) meth ps (attempt + 1)
           (next_delay (rc_hash sample_rpc) meth attempt delay) left (ts, None)
         else (Inr (Some t), (ts, None)))" for meth ps attempt delay left t ts
    by (simp add: sample_rpc_def sample_transport_def keep_tunnel_def)
  have request: "request_with_retry sample_rpc (rc_text sample_rpc) meth ps (t # ts, None)
      = (if t = ''junk'' then (case request_attempts sample_rpc (rc_text sample_rpc) meth ps (0 + 1)
           (next_delay (rc_hash sample_rpc) meth 0 500) 4 (ts, None) of
             (Inl e, s') \<Rightarrow> (Inl (BitcoinNode e), s') | (Inr r, s') \<Rightarrow> (Inr r, s'))
         else (Inr (Some t), (ts, None)))" for meth ps t ts
    using attempts [of meth ps 0 500 4 t ts] by (simp add: request_with_retry_def)
  have rest: "rc_unhex sample_rpc = Inr" "rc_sha sample_rpc = take 4" "rc_skip sample_rpc = False"
    by (simp_all add: sample_rpc_def)
  have "n_block_info (rpc_node sample_rpc) 9 ([''junk'', ''dcba'', sample_body], None) = (Inr ?info, ([], None))"
    using attempts [of _ _ _ _ 3] body
    by (simp add: rpc_node_def rpc_get_block_info_def rpc_get_block_hash_def get_block_data_by_hash_def sbind_def
        request rpc_result_def rpc_unhex_def rest verify_block_hash_def double_sha256_def Let_def)
  from this fetched_block_identified [OF this] show ?thesis by (simp add: rest)
qed

end
