(* ===== verification/WasmChain.thy ===== *)
theory WasmChain
  imports GuestProps MonoAdapters
begin

text \<open>
  A chain indexed the way the binary indexes it: each block is executed by the runtime
  adapter, on a handle that shares the storage's database, and the batch it returns is
  committed by the storage adapter. With an indexer built on the guest library, the
  database is the one its reference meaning describes.
\<close>

section \<open>Indexing\<close>

text \<open>The runtime's handle and the storage are two \<open>Arc\<close>s of one database.\<close>

definition share_database :: "'d \<Rightarrow> ('d rocks_runtime, 'g) wasm_runtime \<Rightarrow> ('d rocks_runtime, 'g) wasm_runtime" where
  "share_database d r = r\<lparr>rw_context := (rw_context r)\<lparr>ctx_db := (ctx_db (rw_context r))\<lparr>rt_db := d\<rparr>\<rparr>\<rparr>"

definition index_wasm_block ::
    "'d rocks \<Rightarrow> (bytes \<Rightarrow> batch) \<Rightarrow> ('d rocks_runtime, 'x) kv_backend_scheme \<Rightarrow> 'g wasm_module
     \<Rightarrow> ('d rocks_runtime, 'g) linker \<Rightarrow> nat \<Rightarrow> bytes \<times> bytes \<Rightarrow> 'd \<times> ('d rocks_runtime, 'g) wasm_runtime
     \<Rightarrow> ((adapter_error + unit) \<times> 'd \<times> ('d rocks_runtime, 'g) wasm_runtime) option" where
  "index_wasm_block R from_data B M link h blk s =
     map_option (\<lambda>(res, r).
         case res of
           Inl e \<Rightarrow> (Inl e, (fst s, r))
         | Inr b \<Rightarrow>
             (case commit_atomic R from_data h (result_hash b) (state_root b) (batch_data b) (fst s) of
                (Inl e, d) \<Rightarrow> (Inl (AdapterError (Storage e)), (d, r))
              | (Inr _, d) \<Rightarrow> (Inr (), (d, r))))
       (ra_process_block_atomic B M link h (fst blk) (snd blk) (share_database (fst s) (snd s)))"

fun index_wasm_blocks ::
    "'d rocks \<Rightarrow> (bytes \<Rightarrow> batch) \<Rightarrow> ('d rocks_runtime, 'x) kv_backend_scheme \<Rightarrow> 'g wasm_module
     \<Rightarrow> ('d rocks_runtime, 'g) linker \<Rightarrow> nat \<Rightarrow> (bytes \<times> bytes) list \<Rightarrow> 'd \<times> ('d rocks_runtime, 'g) wasm_runtime
     \<Rightarrow> ((adapter_error + unit) \<times> 'd \<times> ('d rocks_runtime, 'g) wasm_runtime) option" where
  "index_wasm_blocks R from_data B M link h [] s = Some (Inr (), s)"
| "index_wasm_blocks R from_data B M link h (blk # blks) s =
     Option.bind (index_wasm_block R from_data B M link h blk s) (\<lambda>(res, s').
       case res of
         Inl e \<Rightarrow> Some (Inl e, s')
       | Inr _ \<Rightarrow> index_wasm_blocks R from_data B M link (h + 1) blks s')"

section \<open>The reference\<close>

text \<open>The pairs each block writes, from the meaning of the code on the blocks before it.\<close>

definition stored_by :: "block_kvs list \<Rightarrow> bytes \<Rightarrow> bytes" where
  "stored_by P key = (case last_write P key (length P - 1) of Some v \<Rightarrow> v | None \<Rightarrow> [])"

definition reference_step :: "(nat \<Rightarrow> bytes \<Rightarrow> index_code) \<Rightarrow> block_kvs list \<Rightarrow> bytes \<Rightarrow> block_kvs list" where
  "reference_step index_block P blk = P @ [block_pairs (stored_by P) (index_block (length P) blk)]"

definition reference_chain :: "(nat \<Rightarrow> bytes \<Rightarrow> index_code) \<Rightarrow> bytes list \<Rightarrow> block_kvs list" where
  "reference_chain index_block blks = foldl (reference_step index_block) [] blks"

text \<open>Every block fits the buffers.\<close>

fun chain_fits :: "nat \<Rightarrow> (bytes list \<Rightarrow> bytes) \<Rightarrow> (nat \<Rightarrow> bytes \<Rightarrow> index_code) \<Rightarrow> block_kvs list \<Rightarrow> bytes list \<Rightarrow> bool" where
  "chain_fits cap encode index_block P [] \<longleftrightarrow> True"
| "chain_fits cap encode index_block P (blk # blks) \<longleftrightarrow>
     block_fits cap encode (stored_by P) blk (index_block (length P) blk)
   \<and> chain_fits cap encode index_block (reference_step index_block P blk) blks"

section \<open>State roots\<close>

text \<open>Every record that parses as a state root holds the empty root.\<close>

definition roots_empty :: "kvmap \<Rightarrow> bool" where
  "roots_empty m \<longleftrightarrow>
     (\<forall>k v h. m k = Some v \<longrightarrow> Option.bind (strip_prefix SMT_ROOT_PREFIX k) parse_u32 = Some h \<longrightarrow> v = EMPTY_NODE_HASH)"

lemma roots_empty_Map [simp]: "roots_empty Map.empty"
  by (simp add: roots_empty_def)

lemma current_root_fold:
  assumes "\<forall>(k, v) \<in> set kvs. \<forall>h. Option.bind (strip_prefix SMT_ROOT_PREFIX k) parse_u32 = Some h \<longrightarrow> v = EMPTY_NODE_HASH"
    and "best = None \<or> (\<exists>h. best = Some (h, EMPTY_NODE_HASH))"
  shows "fold current_root_step kvs best = None \<or> (\<exists>h. fold current_root_step kvs best = Some (h, EMPTY_NODE_HASH))"
  using assms
proof (induction kvs arbitrary: best)
  case (Cons kv kvs)
  have "current_root_step kv best = None \<or> (\<exists>h. current_root_step kv best = Some (h, EMPTY_NODE_HASH))"
    using Cons.prems by (cases kv) (auto simp: current_root_step_def split: option.splits)
  with Cons show ?case by simp
qed simp

text \<open>A handle of the indexer: no fork, no shadow.\<close>

definition plain_handle :: "'d rocks_runtime \<Rightarrow> bool" where
  "plain_handle s \<longleftrightarrow> rt_fork s = None \<and> write_shadow s = None"

lemma plain_get:
  assumes "plain_handle s"
  shows "rt_get None R s = rocks_get R (rt_db s)"
proof
  fix key
  show "rt_get None R s key = rocks_get R (rt_db s) key"
    using assms by (cases "rocks_get R (rt_db s) key")
      (auto simp: plain_handle_def rt_get_def Let_def make_labeled_key_fast_def split: option.splits)
qed

lemma current_root_empty:
  assumes "rocks_ok R contents" "plain_handle s" "roots_empty (contents (rt_db s))"
    and "get_current_state_root (rt_scan_prefix None R s) = Inr cur"
  shows "cur = EMPTY_NODE_HASH"
proof -
  have "shadow_wf s" "rt_fork s = None" using assms(2) by (simp_all add: plain_handle_def shadow_wf_def)
  from scan_prefix_set [OF assms(1) this] obtain kvs where kvs: "rt_scan_prefix None R s SMT_ROOT_PREFIX = Inr kvs"
      "\<And>k v. (k, v) \<in> set kvs \<Longrightarrow> rt_raw contents s k = Some v"
    by blast
  have "rt_raw contents s = contents (rt_db s)"
    using assms(2) by (auto simp: plain_handle_def rt_raw_def rt_base_def fun_eq_iff split: option.splits)
  with kvs(2) assms(3) have "\<forall>(k, v) \<in> set kvs. \<forall>h. Option.bind (strip_prefix SMT_ROOT_PREFIX k) parse_u32 = Some h
      \<longrightarrow> v = EMPTY_NODE_HASH"
    by (fastforce simp: roots_empty_def)
  from current_root_fold [OF this, of None] assms(4) show ?thesis
    by (auto simp: get_current_state_root_def kvs(1))
qed

text \<open>No log key, manifest or pointer parses as a root record.\<close>

lemma not_a_root:
  assumes "Option.bind (strip_prefix SMT_ROOT_PREFIX k) parse_u32 = Some h"
  shows "k \<notin> log_keys key" "k \<noteq> manifest_key i" "k \<noteq> TIP_HEIGHT_KEY" "k \<noteq> blockhash_key i" "k \<noteq> INDEXED_HEIGHT_KEY"
proof -
  obtain s where k: "k = SMT_ROOT_PREFIX @ s" and s: "parse_u32 s = Some h"
    using assms by (auto simp: bind_eq_Some_conv strip_prefix_Some)
  have "CHR ''/'' \<notin> set s"
  proof
    assume "CHR ''/'' \<in> set s"
    from parse_u32_chars [OF s this] show False by (simp add: is_digit_def)
  qed
  then have "CHR ''/'' \<notin> set k" by (simp add: k SMT_ROOT_PREFIX_def)
  then show "k \<notin> log_keys key" using slash_in_keys by (auto simp: log_keys_def)
  show "k \<noteq> manifest_key i" "k \<noteq> TIP_HEIGHT_KEY" "k \<noteq> blockhash_key i" "k \<noteq> INDEXED_HEIGHT_KEY"
    by (simp_all add: k SMT_ROOT_PREFIX_def manifest_key_def MANIFEST_PREFIX_def TIP_HEIGHT_KEY_def
        blockhash_key_def BLOCK_HASH_PREFIX_def INDEXED_HEIGHT_KEY_def)
qed

lemma roots_empty_commit:
  assumes "roots_empty m"
    and keys: "op_key ` set ops \<subseteq> (\<Union>key \<in> fst ` set kvs. log_keys key) \<union> {root_key h, manifest_key h, TIP_HEIGHT_KEY}"
  shows "roots_empty (apply_ops (ops @ commit_metadata h bh EMPTY_NODE_HASH) m)"
  unfolding roots_empty_def
proof (intro allI impI)
  fix k v i
  assume at: "apply_ops (ops @ commit_metadata h bh EMPTY_NODE_HASH) m k = Some v"
    and root: "Option.bind (strip_prefix SMT_ROOT_PREFIX k) parse_u32 = Some i"
  note away = not_a_root [OF root]
  show "v = EMPTY_NODE_HASH"
  proof (cases "k = root_key h")
    case True
    with at away show ?thesis by (simp add: commit_metadata_effect)
  next
    case False
    with keys away have "k \<notin> op_key ` set ops" by blast
    then have "apply_ops ops m k = m k" by (rule apply_ops_other)
    with at away False have "m k = Some v" by (simp add: commit_metadata_effect)
    with assms(1) root show ?thesis by (simp add: roots_empty_def)
  qed
qed

section \<open>One block\<close>

lemma index_wasm_block_run:
  assumes ok: "rocks_ok R contents" and fmt: "batch_format to_data from_data" and hex: "hex_codec hexe hexd"
    and guest: "exports ''_start'' = Some (indexer_start encode index_block)"
      "allocates place cap (length mem0)" "cap \<le> length mem0" "\<forall>xs. decode (encode xs) = Some xs"
    and fresh: "fresh_runtime (prog_module place exports mem0) (ctx_db (rw_context r)) r"
      "plain_handle (ctx_db (rw_context r))"
    and inv: "durable_inv hexe (contents d) P" "roots_empty (contents d)"
    and fits: "chain_ok (reference_step index_block P (fst blk))"
      "block_fits cap encode (stored_by P) (fst blk) (index_block (length P) (fst blk))"
  shows "\<exists>d' r'. index_wasm_block R from_data (rt_backend None R to_data) (prog_module place exports mem0)
        (setup_linker_indexer hexe hexd decode (rt_backend None R to_data)) (length P) blk (d, r) = Some (Inr (), (d', r'))
    \<and> durable_inv hexe (contents d') (reference_step index_block P (fst blk)) \<and> roots_empty (contents d')
    \<and> fresh_runtime (prog_module place exports mem0) (ctx_db (rw_context r')) r' \<and> plain_handle (ctx_db (rw_context r'))"
proof -
  let ?B = "rt_backend None R to_data" and ?M = "prog_module place exports mem0"
  let ?u = "index_block (length P) (fst blk)"
  let ?kvs = "block_pairs (stored_by P) ?u"
  let ?r = "share_database d r"
  let ?s = "ctx_db (rw_context ?r)"
  have okP: "chain_ok P" and ok1: "chain_ok (P @ [?kvs])"
    using fits(1) chain_ok_take [OF fits(1), of "length P"] by (simp_all add: reference_step_def)
  have rd: "rt_get None R ?s = rocks_get R d" "rocks_get R d = reader_of (contents d)"
    using plain_get [of ?s R] fresh(2) by (simp_all add: share_database_def plain_handle_def fun_eq_iff
        rocks_okD(1) [OF ok] reader_of_def)
  have cinv: "chain_inv hexe (contents d) P" using inv(1) by (simp add: durable_inv_def)
  obtain ops where
      build: "build_state_root_batch_unwritten hexe (reader_of (contents d)) (length P) ?kvs (snd blk) new_caches
        = (Inr (EMPTY_NODE_HASH, ops), clear_caches new_caches)"
      and keys: "op_key ` set ops \<subseteq> (\<Union>key \<in> fst ` set ?kvs. log_keys key)
         \<union> {root_key (length P), manifest_key (length P), TIP_HEIGHT_KEY}"
    by (rule chain_build [OF cinv ok1])
  have reads: "\<forall>key. get_value_at_height hexd (rt_get None R ?s) key (length P - 1) = Inr (stored_by P key)"
    using durable_query [OF ok hex inv(1) okP]
    by (simp add: rd(1) get_value_at_height_def stored_by_def split: option.splits)
  have shared: "fresh_runtime ?M ?s ?r"
    using fresh(1) by (simp add: fresh_runtime_def share_database_def)
  have bound: "length P \<le> u32_max" using ok1 by (simp add: chain_ok_def)
  obtain cur r' where run: "process_block_atomic ?B ?M (setup_linker_indexer hexe hexd decode ?B) (length P) (fst blk)
        (snd blk) ?r
      = Some (Inr \<lparr>br_state_root = cur, br_batch_data = to_data (rocks_batch None ops), br_height = length P,
          br_hash = snd blk\<rparr>, r')"
    and cur: "get_current_state_root (rt_scan_prefix None R ?s) = Inr cur"
    and r': "fresh_runtime ?M (ctx_db (rw_context r')) r'"
      "ctx_db (rw_context r') = fold (\<lambda>(k, v). rt_track_kv_update k v) ?kvs ?s"
    using guest_block_run [OF shared guest(1-4) reads bound fits(2), where to_data = to_data and hexe = hexe
        and bh = "snd blk" and root = EMPTY_NODE_HASH and batch = ops] build rd by auto
  have plain: "plain_handle ?s" "rt_db ?s = d" using fresh(2) by (simp_all add: share_database_def plain_handle_def)
  have root: "cur = EMPTY_NODE_HASH"
    by (rule current_root_empty [OF ok plain(1) _ cur]) (use inv(2) plain(2) in simp)
  obtain d' where d': "apply_block hexe R to_data from_data (length P) (?kvs, snd blk) d = (Inr (), d')"
      "durable_inv hexe (contents d') (P @ [?kvs])"
    using apply_block_run [OF ok fmt inv(1), of "(?kvs, snd blk)"] ok1 by auto
  then have commit: "commit_atomic R from_data (length P) (snd blk) EMPTY_NODE_HASH (to_data ops) d = (Inr (), d')"
    using build by (simp add: apply_block_def rd(2))
  have "fresh_db (contents d) \<or> length P = sat_add32 (indexed_height (contents d)) 1"
    using inv(1) bound by (cases "P = []") (auto simp: durable_inv_def sat_add32_def)
  from commit_atomic_ok [OF ok this, of from_data "snd blk" EMPTY_NODE_HASH "to_data ops"] commit fmt
  have "contents d' = apply_ops (ops @ commit_metadata (length P) (snd blk) EMPTY_NODE_HASH) (contents d)"
    by (auto simp: batch_format_def)
  with roots_empty_commit [OF inv(2) keys] have "roots_empty (contents d')" by simp
  moreover have "plain_handle (ctx_db (rw_context r'))"
    using plain(1) rt_track_all [of ?kvs ?s] r'(2) by (auto simp: plain_handle_def)
  ultimately show ?thesis
    using run root commit d'(2) r'(1)
    by (simp add: index_wasm_block_def ra_process_block_atomic_def rocks_batch_plain reference_step_def)
qed

section \<open>The chain\<close>

lemma length_reference_step [simp]: "length (reference_step index_block P blk) = Suc (length P)"
  by (simp add: reference_step_def)

lemma reference_fold_prefix: "\<exists>rest. foldl (reference_step index_block) P blks = P @ rest"
proof (induction blks arbitrary: P)
  case (Cons blk blks)
  from Cons [of "reference_step index_block P blk"] show ?case by (auto simp: reference_step_def)
qed simp

lemma index_wasm_blocks_run:
  assumes ok: "rocks_ok R contents" and fmt: "batch_format to_data from_data" and hex: "hex_codec hexe hexd"
    and guest: "exports ''_start'' = Some (indexer_start encode index_block)"
      "allocates place cap (length mem0)" "cap \<le> length mem0" "\<forall>xs. decode (encode xs) = Some xs"
  shows "fresh_runtime (prog_module place exports mem0) (ctx_db (rw_context r)) r \<Longrightarrow>
    plain_handle (ctx_db (rw_context r)) \<Longrightarrow> durable_inv hexe (contents d) P \<Longrightarrow> roots_empty (contents d) \<Longrightarrow>
    chain_ok (foldl (reference_step index_block) P (map fst blks)) \<Longrightarrow>
    chain_fits cap encode index_block P (map fst blks) \<Longrightarrow>
    \<exists>d' r'. index_wasm_blocks R from_data (rt_backend None R to_data) (prog_module place exports mem0)
        (setup_linker_indexer hexe hexd decode (rt_backend None R to_data)) (length P) blks (d, r) = Some (Inr (), (d', r'))
    \<and> durable_inv hexe (contents d') (foldl (reference_step index_block) P (map fst blks))"
proof (induction blks arbitrary: d r P)
  case (Cons blk blks)
  let ?P = "reference_step index_block P (fst blk)"
  obtain rest where rest: "foldl (reference_step index_block) ?P (map fst blks) = ?P @ rest"
    using reference_fold_prefix by blast
  have "chain_ok ?P"
    using Cons.prems(5) rest chain_ok_take [of "?P @ rest" "length ?P"] by simp
  moreover have "block_fits cap encode (stored_by P) (fst blk) (index_block (length P) (fst blk))"
    using Cons.prems(6) by simp
  ultimately obtain d1 r1 where step: "index_wasm_block R from_data (rt_backend None R to_data) (prog_module place exports mem0)
        (setup_linker_indexer hexe hexd decode (rt_backend None R to_data)) (length P) blk (d, r) = Some (Inr (), (d1, r1))"
      and s1: "durable_inv hexe (contents d1) ?P" "roots_empty (contents d1)"
        "fresh_runtime (prog_module place exports mem0) (ctx_db (rw_context r1)) r1" "plain_handle (ctx_db (rw_context r1))"
    using index_wasm_block_run [OF ok fmt hex guest Cons.prems(1-4)] by blast
  have "chain_ok (foldl (reference_step index_block) ?P (map fst blks))"
      "chain_fits cap encode index_block ?P (map fst blks)"
    using Cons.prems(5,6) by simp_all
  from Cons.IH [OF s1(3,4,1,2) this] step show ?case by simp
qed simp

text \<open>
  C1: indexing end to end. Take an indexer written against the guest library, a runtime
  whose instance is fresh and whose handle is the storage's empty database, and any blocks
  that fit. Executing each block in WebAssembly and committing the batch it returns
  succeeds for all of them, and afterwards every historical query answers from the
  reference: the value last written to the key, up to the height asked for, by the blocks'
  reference meanings, each of which reads what the blocks before it have written.
\<close>

theorem wasm_chain_indexed:
  assumes "rocks_ok R contents" "batch_format to_data from_data" "hex_codec hexe hexd"
    and "exports ''_start'' = Some (indexer_start encode index_block)"
    and "allocates place cap (length mem0)" "cap \<le> length mem0" "\<forall>xs. decode (encode xs) = Some xs"
    and "fresh_runtime (prog_module place exports mem0) (ctx_db (rw_context r)) r" "plain_handle (ctx_db (rw_context r))"
    and "contents d = Map.empty"
    and "chain_ok (reference_chain index_block (map fst blks))" "chain_fits cap encode index_block [] (map fst blks)"
  shows "\<exists>d' r'. index_wasm_blocks R from_data (rt_backend None R to_data) (prog_module place exports mem0)
        (setup_linker_indexer hexe hexd decode (rt_backend None R to_data)) 0 blks (d, r) = Some (Inr (), (d', r'))
    \<and> (\<forall>key q. get_at_height (rocks_get R d') hexd key q
         = Inr (last_write (reference_chain index_block (map fst blks)) key q))"
proof -
  have "durable_inv hexe (contents d) []" "roots_empty (contents d)"
    using assms(10) chain_inv_empty by (simp_all add: durable_inv_def fresh_db_def indexed_height_def)
  from index_wasm_blocks_run [OF assms(1-9) this assms(11) [unfolded reference_chain_def] assms(12)]
  obtain d' r' where "index_wasm_blocks R from_data (rt_backend None R to_data) (prog_module place exports mem0)
        (setup_linker_indexer hexe hexd decode (rt_backend None R to_data)) 0 blks (d, r) = Some (Inr (), (d', r'))"
      and inv: "durable_inv hexe (contents d') (reference_chain index_block (map fst blks))"
    by (auto simp: reference_chain_def)
  with durable_query [OF assms(1,3) inv assms(11)] show ?thesis by blast
qed

lemma sample_reference: "reference_chain sample_indexer [''b'', ''c''] = [[(''n'', ''b'')], [(''n'', ''bc'')]]"
  by (simp add: reference_chain_def reference_step_def stored_by_def last_write_def block_pairs_def sample_indexer_def
      block_values_def)

theorem wasm_chain_indexed_witness:
  "\<exists>d' r'. index_wasm_blocks list_rocks sample_from (rt_backend None list_rocks sample_data)
        (prog_module sample_place sample_exports sample_memory)
        (setup_linker_indexer encode_hex_fast hex_decode sample_decode (rt_backend None list_rocks sample_data)) 0
        [(''b'', ''h0''), (''c'', ''h1'')] ([], sample_guest) = Some (Inr (), (d', r'))
    \<and> get_at_height (rocks_get list_rocks d') hex_decode ''n'' 0 = Inr (Some ''b'')
    \<and> get_at_height (rocks_get list_rocks d') hex_decode ''n'' 5 = Inr (Some ''bc'')"
proof -
  let ?M = "prog_module sample_place sample_exports sample_memory"
  have fresh: "fresh_runtime ?M (ctx_db (rw_context sample_guest)) sample_guest"
      "plain_handle (ctx_db (rw_context sample_guest))"
    by (simp_all add: fresh_runtime_def sample_guest_def context_new_def state_new_def prog_module_def
        plain_handle_def rt_new_def)
  have entry: "sample_exports ''_start'' = Some (indexer_start sample_fields sample_indexer)"
    by (simp add: sample_exports_def)
  have code: "\<forall>xs. sample_decode (sample_fields xs) = Some xs" by (simp add: sample_decode_fields)
  have room: "64 \<le> length sample_memory" by (simp add: sample_memory_def)
  have ok: "chain_ok (reference_chain sample_indexer (map fst [(''b'', ''h0''), (''c'', ''h1'')]))"
    by (simp add: sample_reference chain_ok_def user_block_def reserved_base_def manifest_base_def
        blockhash_base_def total_pairs_def u32_max_def)
  have fits: "chain_fits 64 sample_fields sample_indexer [] (map fst [(''b'', ''h0''), (''c'', ''h1'')])"
    by (simp add: block_fits_def reference_step_def stored_by_def last_write_def block_pairs_def sample_indexer_def
        block_values_def flush_message_def sample_fields_def encode_hex_fast_eq hex_byte_def)
  from wasm_chain_indexed [OF list_facts hx.hex_codec_axioms entry sample_allocates room code fresh _ ok fits, of "[]"]
  show ?thesis by (auto simp: sample_reference last_write_def block_values_def)
qed

end
