(* ===== verification/ByteView.thy ===== *)
theory ByteView
  imports Bytes "HOL-Library.Word"
begin

text \<open>
  \<open>crates/metashrew-support/src/byte_view.rs\<close>: the little-endian views of the unsigned
  integers that index pointers store. A view is a record of the trait's four functions;
  \<open>from_bytes\<close> panics on a wrong length, which is \<open>None\<close>.
\<close>

record 'a byte_view =
  bv_from :: "bytes \<Rightarrow> 'a option"
  bv_to :: "'a \<Rightarrow> bytes"
  bv_maximum :: 'a
  bv_zero :: 'a

text \<open>\<open>to_le_bytes\<close> and \<open>from_le_bytes(v.try_into().expect(..))\<close> at \<open>n\<close> bytes.\<close>

definition word_to_bytes :: "nat \<Rightarrow> 'a::len word \<Rightarrow> bytes" where
  "word_to_bytes n x = le_bytes n (unat x)"

definition word_from_bytes :: "nat \<Rightarrow> bytes \<Rightarrow> 'a::len word option" where
  "word_from_bytes n v = (if length v = n then Some (of_nat (from_le v)) else None)"

definition u8_view :: "8 word byte_view" where
  "u8_view = \<lparr>bv_from = word_from_bytes 1, bv_to = word_to_bytes 1, bv_maximum = -1, bv_zero = 0\<rparr>"

definition u16_view :: "16 word byte_view" where
  "u16_view = \<lparr>bv_from = word_from_bytes 2, bv_to = word_to_bytes 2, bv_maximum = -1, bv_zero = 0\<rparr>"

definition u32_view :: "32 word byte_view" where
  "u32_view = \<lparr>bv_from = word_from_bytes 4, bv_to = word_to_bytes 4, bv_maximum = -1, bv_zero = 0\<rparr>"

definition u64_view :: "64 word byte_view" where
  "u64_view = \<lparr>bv_from = word_from_bytes 8, bv_to = word_to_bytes 8, bv_maximum = -1, bv_zero = 0\<rparr>"

definition u128_view :: "128 word byte_view" where
  "u128_view = \<lparr>bv_from = word_from_bytes 16, bv_to = word_to_bytes 16, bv_maximum = -1, bv_zero = 0\<rparr>"

text \<open>\<open>usize\<close> in the guest, where these views run, has 32 bits.\<close>

definition usize_view :: "32 word byte_view" where
  "usize_view = \<lparr>bv_from = word_from_bytes 4, bv_to = word_to_bytes 4, bv_maximum = -1, bv_zero = 0\<rparr>"

definition shrink_back :: "bytes \<Rightarrow> nat \<Rightarrow> bytes" where
  "shrink_back b v = (if v > length b then [] else drop v b)"

section \<open>The contract\<close>

locale byte_view =
  fixes V :: "'a byte_view" and width :: nat
  assumes positive: "0 < width"
    and from_to: "bv_from V (bv_to V x) = Some x"
    and to_length: "length (bv_to V x) = width"
    and from_length: "bv_from V b = None \<longleftrightarrow> length b \<noteq> width"
    and to_from: "bv_from V b = Some x \<Longrightarrow> bv_to V x = b"
begin

lemma to_not_empty: "bv_to V x \<noteq> []"
  using to_length [of x] positive by auto

lemma to_inject: "bv_to V x = bv_to V y \<longleftrightarrow> x = y"
  by (metis from_to option.inject)

end

lemma word_view:
  assumes "LENGTH('a::len) = 8 * n" "0 < n"
    and "bv_from V = (word_from_bytes n :: bytes \<Rightarrow> 'a word option)" "bv_to V = word_to_bytes n"
  shows "byte_view V n"
proof
  have fits: "256 ^ n = (2 :: nat) ^ LENGTH('a)" by (simp add: assms(1) power_mult)
  show "0 < n" by (rule assms(2))
  show "bv_from V (bv_to V x) = Some x" for x :: "'a word"
  proof -
    have "unat x < 256 ^ n" unfolding fits by (rule unsigned_less)
    then show ?thesis by (simp add: assms(3,4) word_from_bytes_def word_to_bytes_def from_le_le_bytes)
  qed
  show "length (bv_to V x) = n" for x :: "'a word" by (simp add: assms(4) word_to_bytes_def)
  show "bv_from V b = None \<longleftrightarrow> length b \<noteq> n" for b by (simp add: assms(3) word_from_bytes_def)
  show "bv_to V x = b" if "bv_from V b = Some x" for b and x :: "'a word"
  proof -
    have b: "length b = n" "x = of_nat (from_le b)"
      using that by (auto simp: assms(3) word_from_bytes_def split: if_splits)
    have "from_le b < 2 ^ LENGTH('a)" using from_le_less [of b] b(1) fits by simp
    then have "unat (of_nat (from_le b) :: 'a word) = from_le b" by (simp add: unat_of_nat)
    with b le_bytes_from_le [of b] show ?thesis by (simp add: assms(4) word_to_bytes_def)
  qed
qed

interpretation u8: byte_view u8_view 1 by (rule word_view) (simp_all add: u8_view_def)
interpretation u16: byte_view u16_view 2 by (rule word_view) (simp_all add: u16_view_def)
interpretation u32: byte_view u32_view 4 by (rule word_view) (simp_all add: u32_view_def)
interpretation u64: byte_view u64_view 8 by (rule word_view) (simp_all add: u64_view_def)
interpretation u128: byte_view u128_view 16 by (rule word_view) (simp_all add: u128_view_def)
interpretation usize: byte_view usize_view 4 by (rule word_view) (simp_all add: usize_view_def)

end
