(* ===== verification/IndexPointer.thy ===== *)
theory IndexPointer
  imports ByteView KeyUtils
begin

text \<open>
  \<open>KeyValuePointer\<close> (\<open>crates/metashrew-support/src/index_pointer.rs\<close>): pointers into a
  key-value store, with lists and linked lists laid out under a key. The required methods
  of the trait are a record; each default method is a definition over it. An operation is
  a state transformer; \<open>None\<close> is a panic, or, for \<open>map_ll\<close>, a loop that does not end.
\<close>

type_synonym u32 = "32 word"
type_synonym ('s, 'a) pop = "'s \<Rightarrow> ('a \<times> 's) option"

record ('s, 'p) pointer =
  p_wrap :: "bytes \<Rightarrow> ('s, 'p) pop"
  p_unwrap :: "'p \<Rightarrow> bytes"
  p_set :: "'p \<Rightarrow> bytes \<Rightarrow> ('s, unit) pop"
  p_get :: "'p \<Rightarrow> ('s, bytes) pop"
  p_inherits :: "'p \<Rightarrow> 'p \<Rightarrow> 'p"

definition preturn :: "'a \<Rightarrow> ('s, 'a) pop" where
  "preturn x s = Some (x, s)"

definition pbind :: "('s, 'a) pop \<Rightarrow> ('a \<Rightarrow> ('s, 'b) pop) \<Rightarrow> ('s, 'b) pop" where
  "pbind m f s = Option.bind (m s) (\<lambda>(x, s'). f x s')"

lemma pbind_Some [simp]: "m s = Some (x, s') \<Longrightarrow> pbind m f s = f x s'"
  by (simp add: pbind_def)

lemma preturn_app [simp]: "preturn x s = Some (x, s)"
  by (simp add: preturn_def)

section \<open>Pointers\<close>

text \<open>\<open>let mut ptr = Self::wrap(&key); ptr.inherits(self)\<close>\<close>

definition p_child :: "('s, 'p) pointer \<Rightarrow> 'p \<Rightarrow> bytes \<Rightarrow> ('s, 'p) pop" where
  "p_child I p key = pbind (p_wrap I key) (\<lambda>q. preturn (p_inherits I q p))"

definition p_select :: "('s, 'p) pointer \<Rightarrow> 'p \<Rightarrow> bytes \<Rightarrow> ('s, 'p) pop" where
  "p_select I p word = p_child I p (p_unwrap I p @ word)"

definition p_from_keyword :: "('s, 'p) pointer \<Rightarrow> string \<Rightarrow> ('s, 'p) pop" where
  "p_from_keyword I word = p_wrap I word"

definition p_keyword :: "('s, 'p) pointer \<Rightarrow> 'p \<Rightarrow> string \<Rightarrow> ('s, 'p) pop" where
  "p_keyword I p word = p_child I p (p_unwrap I p @ word)"

definition p_prefix :: "('s, 'p) pointer \<Rightarrow> 'p \<Rightarrow> string \<Rightarrow> ('s, 'p) pop" where
  "p_prefix I p word = p_child I p (word @ p_unwrap I p)"

definition p_set_value :: "('s, 'p) pointer \<Rightarrow> 'a byte_view \<Rightarrow> 'p \<Rightarrow> 'a \<Rightarrow> ('s, unit) pop" where
  "p_set_value I V p v = p_set I p (bv_to V v)"

definition p_get_value :: "('s, 'p) pointer \<Rightarrow> 'a byte_view \<Rightarrow> 'p \<Rightarrow> ('s, 'a) pop" where
  "p_get_value I V p = pbind (p_get I p) (\<lambda>cloned s.
     if cloned = [] then Some (bv_zero V, s) else map_option (\<lambda>x. (x, s)) (bv_from V cloned))"

definition p_select_value :: "('s, 'p) pointer \<Rightarrow> 'a byte_view \<Rightarrow> 'p \<Rightarrow> 'a \<Rightarrow> ('s, 'p) pop" where
  "p_select_value I V p key = p_select I p (bv_to V key)"

definition p_nullify :: "('s, 'p) pointer \<Rightarrow> 'p \<Rightarrow> ('s, unit) pop" where
  "p_nullify I p = p_set I p [char_of (0 :: nat)]"

text \<open>\<open>Arc::try_unwrap\<close> succeeds: the argument is the only reference.\<close>

definition p_set_or_nullify :: "('s, 'p) pointer \<Rightarrow> 'p \<Rightarrow> bytes \<Rightarrow> ('s, unit) pop" where
  "p_set_or_nullify I p v s =
     (case bv_from usize_view v of
        None \<Rightarrow> None
      | Some n \<Rightarrow> if n = 0 then p_nullify I p s else p_set I p v s)"

section \<open>Lists\<close>

definition p_length_key :: "('s, 'p) pointer \<Rightarrow> 'p \<Rightarrow> ('s, 'p) pop" where
  "p_length_key I p = p_keyword I p ''/length''"

definition p_head_key :: "('s, 'p) pointer \<Rightarrow> 'p \<Rightarrow> ('s, 'p) pop" where
  "p_head_key I p = p_keyword I p ''/head''"

definition p_next_key :: "('s, 'p) pointer \<Rightarrow> 'p \<Rightarrow> u32 \<Rightarrow> ('s, 'p) pop" where
  "p_next_key I p i = pbind (p_keyword I p ''/next'') (\<lambda>q. p_select_value I u32_view q i)"

definition p_length :: "('s, 'p) pointer \<Rightarrow> 'p \<Rightarrow> ('s, u32) pop" where
  "p_length I p = pbind (p_length_key I p) (p_get_value I u32_view)"

definition p_select_index :: "('s, 'p) pointer \<Rightarrow> 'p \<Rightarrow> u32 \<Rightarrow> ('s, 'p) pop" where
  "p_select_index I p index = p_keyword I p (''/'' @ dec (unat index))"

definition p_drop_index :: "('s, 'p) pointer \<Rightarrow> 'p \<Rightarrow> u32 \<Rightarrow> ('s, unit) pop" where
  "p_drop_index I p index = pbind (p_keyword I p (''/'' @ dec (unat index))) (p_nullify I)"

primrec p_collect :: "(u32 \<Rightarrow> ('s, 'a) pop) \<Rightarrow> nat list \<Rightarrow> 'a list \<Rightarrow> ('s, 'a list) pop" where
  "p_collect f [] result = preturn result"
| "p_collect f (i # is) result = pbind (f (of_nat i)) (\<lambda>x. p_collect f is (result @ [x]))"

definition p_get_list :: "('s, 'p) pointer \<Rightarrow> 'p \<Rightarrow> ('s, bytes list) pop" where
  "p_get_list I p = pbind (p_length I p) (\<lambda>n.
     p_collect (\<lambda>i. pbind (p_select_index I p i) (p_get I)) [0..<unat n] [])"

definition p_get_list_values :: "('s, 'p) pointer \<Rightarrow> 'a byte_view \<Rightarrow> 'p \<Rightarrow> ('s, 'a list) pop" where
  "p_get_list_values I V p = pbind (p_length I p) (\<lambda>n.
     p_collect (\<lambda>i. pbind (p_select_index I p i) (p_get_value I V)) [0..<unat n] [])"

definition p_pop :: "('s, 'p) pointer \<Rightarrow> 'p \<Rightarrow> ('s, bytes) pop" where
  "p_pop I p = pbind (p_length_key I p) (\<lambda>length_key.
     pbind (p_get_value I u32_view length_key) (\<lambda>len.
       if len = 0 then preturn []
       else pbind (p_set_value I u32_view length_key (len - 1)) (\<lambda>_.
         pbind (p_select_index I p (len - 1)) (p_get I))))"

definition p_pop_value :: "('s, 'p) pointer \<Rightarrow> 'a byte_view \<Rightarrow> 'p \<Rightarrow> ('s, 'a) pop" where
  "p_pop_value I V p = pbind (p_length_key I p) (\<lambda>length_key.
     pbind (p_get_value I u32_view length_key) (\<lambda>len s.
       if len = 0 then map_option (\<lambda>x. (x, s)) (bv_from V [])
       else pbind (p_set_value I u32_view length_key (len - 1)) (\<lambda>_.
         pbind (p_select_index I p (len - 1)) (p_get_value I V)) s))"

definition p_extend :: "('s, 'p) pointer \<Rightarrow> 'p \<Rightarrow> ('s, 'p) pop" where
  "p_extend I p = pbind (p_length_key I p) (\<lambda>length_key.
     pbind (p_get_value I u32_view length_key) (\<lambda>len.
     pbind (p_set_value I u32_view length_key (len + 1)) (\<lambda>_. p_select_index I p len)))"

definition p_append :: "('s, 'p) pointer \<Rightarrow> 'p \<Rightarrow> bytes \<Rightarrow> ('s, unit) pop" where
  "p_append I p v = pbind (p_extend I p) (\<lambda>new_index. p_set I new_index v)"

definition p_append_value :: "('s, 'p) pointer \<Rightarrow> 'a byte_view \<Rightarrow> 'p \<Rightarrow> 'a \<Rightarrow> ('s, unit) pop" where
  "p_append_value I V p v = pbind (p_extend I p) (\<lambda>new_index. p_set_value I V new_index v)"

section \<open>Linked lists\<close>

definition p_set_next_for :: "('s, 'p) pointer \<Rightarrow> 'p \<Rightarrow> u32 \<Rightarrow> u32 \<Rightarrow> ('s, unit) pop" where
  "p_set_next_for I p i v = pbind (p_next_key I p i) (\<lambda>next_key. p_set_value I u32_view next_key v)"

definition p_extend_ll :: "('s, 'p) pointer \<Rightarrow> 'p \<Rightarrow> ('s, 'p) pop" where
  "p_extend_ll I p = pbind (p_length_key I p) (\<lambda>length_key.
     pbind (p_get_value I u32_view length_key) (\<lambda>len.
     pbind (if len > 0 then p_set_next_for I p (len - 1) len else preturn ()) (\<lambda>_.
     pbind (p_set_value I u32_view length_key (len + 1)) (\<lambda>_. p_select_index I p len))))"

definition p_append_ll :: "('s, 'p) pointer \<Rightarrow> 'p \<Rightarrow> bytes \<Rightarrow> ('s, unit) pop" where
  "p_append_ll I p v = pbind (p_extend_ll I p) (\<lambda>new_index. p_set I new_index v)"

text \<open>\<open>i - 1\<close> wraps, as in a release build of the guest.\<close>

definition p_delete_value :: "('s, 'p) pointer \<Rightarrow> 'p \<Rightarrow> u32 \<Rightarrow> ('s, unit) pop" where
  "p_delete_value I p i = pbind (p_head_key I p) (\<lambda>head_key.
     pbind (p_get_value I u32_view head_key) (\<lambda>head.
     pbind (if i = head then
              pbind (p_next_key I p i) (\<lambda>k. pbind (p_get_value I u32_view k) (\<lambda>nxt.
                p_set_value I u32_view head_key nxt))
            else
              pbind (p_next_key I p (i - 1)) (\<lambda>prev.
              pbind (p_next_key I p i) (\<lambda>k. pbind (p_get_value I u32_view k) (\<lambda>nxt.
                p_set_value I u32_view prev nxt)))) (\<lambda>_.
     p_drop_index I p i)))"

partial_function (option) map_ll_loop ::
    "('s, 'p) pointer \<Rightarrow> 'p \<Rightarrow> ('p \<Rightarrow> u32 \<Rightarrow> ('s, 'a) pop) \<Rightarrow> u32 \<Rightarrow> u32 \<Rightarrow> 'a list \<Rightarrow> ('s, 'a list) pop" where
  "map_ll_loop I p f len i result s =
     (if i < len then
        Option.bind (p_select_index I p i s) (\<lambda>(item, s1).
        Option.bind (f item i s1) (\<lambda>(x, s2).
        Option.bind (p_next_key I p i s2) (\<lambda>(k, s3).
        Option.bind (p_get_value I u32_view k s3) (\<lambda>(j, s4).
          if j = 0 then Some (result @ [x], s4) else map_ll_loop I p f len j (result @ [x]) s4))))
      else Some (result, s))"

definition p_map_ll :: "('s, 'p) pointer \<Rightarrow> 'p \<Rightarrow> ('p \<Rightarrow> u32 \<Rightarrow> ('s, 'a) pop) \<Rightarrow> ('s, 'a list) pop" where
  "p_map_ll I p f = pbind (p_length I p) (\<lambda>len.
     pbind (p_head_key I p) (\<lambda>k. pbind (p_get_value I u32_view k) (\<lambda>head. map_ll_loop I p f len head [])))"

end
