(* ===== verification/PointerSpec.thy ===== *)
theory PointerSpec
  imports IndexPointer
begin

text \<open>
  The contract of a pointer and what the default methods do under it. A pointer sees its
  store as a function from keys to values (\<open>peek\<close>); pointers derived from one another
  (\<open>same\<close>) see the same function. The list and linked-list methods are then specified on
  these functions, once for every implementation.
\<close>

section \<open>The layout under a key\<close>

definition index_key :: "bytes \<Rightarrow> u32 \<Rightarrow> bytes" where
  "index_key key i = key @ ''/'' @ dec (unat i)"

definition len_key :: "bytes \<Rightarrow> bytes" where
  "len_key key = key @ ''/length''"

definition head_key :: "bytes \<Rightarrow> bytes" where
  "head_key key = key @ ''/head''"

definition next_key :: "bytes \<Rightarrow> u32 \<Rightarrow> bytes" where
  "next_key key i = (key @ ''/next'') @ bv_to u32_view i"

lemma dec_first: "\<exists>c cs. dec n = c # cs \<and> is_digit c"
proof -
  have "\<forall>c \<in> set (dec n). is_digit c" using dec_digits by blast
  then show ?thesis by (cases "dec n") auto
qed

lemma layout_distinct [simp]:
  "index_key key i = index_key key j \<longleftrightarrow> i = j"
  "next_key key i = next_key key j \<longleftrightarrow> i = j"
  "len_key key \<noteq> index_key key i" "head_key key \<noteq> index_key key i" "next_key key j \<noteq> index_key key i"
  "len_key key \<noteq> head_key key" "len_key key \<noteq> next_key key i" "head_key key \<noteq> next_key key i"
  "index_key key i \<noteq> len_key key" "index_key key i \<noteq> head_key key" "index_key key i \<noteq> next_key key j"
  "head_key key \<noteq> len_key key" "next_key key i \<noteq> len_key key" "next_key key i \<noteq> head_key key"
proof -
  show "index_key key i = index_key key j \<longleftrightarrow> i = j" by (auto simp: index_key_def intro: unsigned_word_eqI)
  show "next_key key i = next_key key j \<longleftrightarrow> i = j" by (simp add: next_key_def u32.to_inject)
  obtain c cs where d: "dec (unat i) = c # cs" "is_digit c" using dec_first by blast
  then have "c \<noteq> CHR ''l''" "c \<noteq> CHR ''h''" "c \<noteq> CHR ''n''" by (auto simp: is_digit_def)
  then show "len_key key \<noteq> index_key key i" "head_key key \<noteq> index_key key i" "next_key key j \<noteq> index_key key i"
    using d by (auto simp: len_key_def head_key_def next_key_def index_key_def)
  then show "index_key key i \<noteq> len_key key" "index_key key i \<noteq> head_key key" "index_key key i \<noteq> next_key key j"
    by metis+
  show "len_key key \<noteq> head_key key" "len_key key \<noteq> next_key key i" "head_key key \<noteq> next_key key i"
    by (simp_all add: len_key_def head_key_def next_key_def)
  then show "head_key key \<noteq> len_key key" "next_key key i \<noteq> len_key key" "next_key key i \<noteq> head_key key"
    by metis+
qed

text \<open>A cell that a typed read of a \<open>u32\<close> accepts, and what it reads.\<close>

definition cell :: "bytes \<Rightarrow> bool" where
  "cell v \<longleftrightarrow> v = [] \<or> length v = 4"

definition u32_of :: "bytes \<Rightarrow> u32" where
  "u32_of v = (if v = [] then 0 else of_nat (from_le v))"

lemma cell_u32 [simp]: "cell (bv_to u32_view n)"
  by (simp add: cell_def u32.to_length)

lemma u32_of_to [simp]: "u32_of (bv_to u32_view n) = n"
proof -
  have "bv_from u32_view (bv_to u32_view n) = Some n" by (rule u32.from_to)
  then show ?thesis
    using u32.to_not_empty [of n] by (simp add: u32_of_def u32_view_def word_from_bytes_def split: if_splits)
qed

text \<open>The cells of a list or linked list are well typed.\<close>

definition typed :: "bytes \<Rightarrow> (bytes \<Rightarrow> bytes) \<Rightarrow> bool" where
  "typed key F \<longleftrightarrow> cell (F (len_key key)) \<and> cell (F (head_key key)) \<and> (\<forall>i. cell (F (next_key key i)))"

section \<open>The methods on functions\<close>

definition list_len :: "bytes \<Rightarrow> (bytes \<Rightarrow> bytes) \<Rightarrow> u32" where
  "list_len key F = u32_of (F (len_key key))"

definition next_of :: "bytes \<Rightarrow> (bytes \<Rightarrow> bytes) \<Rightarrow> u32 \<Rightarrow> u32" where
  "next_of key F i = u32_of (F (next_key key i))"

definition extended :: "bytes \<Rightarrow> (bytes \<Rightarrow> bytes) \<Rightarrow> bytes \<Rightarrow> bytes" where
  "extended key F = F(len_key key := bv_to u32_view (list_len key F + 1))"

definition linked :: "bytes \<Rightarrow> (bytes \<Rightarrow> bytes) \<Rightarrow> bytes \<Rightarrow> bytes" where
  "linked key F = (if list_len key F > 0
     then F(next_key key (list_len key F - 1) := bv_to u32_view (list_len key F)) else F)"

definition deleted :: "bytes \<Rightarrow> u32 \<Rightarrow> (bytes \<Rightarrow> bytes) \<Rightarrow> bytes \<Rightarrow> bytes" where
  "deleted key i F =
     (if i = u32_of (F (head_key key)) then F(head_key key := bv_to u32_view (next_of key F i))
      else F(next_key key (i - 1) := bv_to u32_view (next_of key F i)))
     (index_key key i := [char_of (0 :: nat)])"

lemma typed_updates:
  assumes "typed key F"
  shows "typed key (F(len_key key := bv_to u32_view n))" "typed key (F(head_key key := bv_to u32_view n))"
    "typed key (F(next_key key i := bv_to u32_view n))" "typed key (F(index_key key i := v))"
  using assms by (simp_all add: typed_def)

lemma typed_methods:
  assumes "typed key F"
  shows "typed key (extended key F)" "typed key (linked key F)" "typed key (deleted key i F)"
  using assms by (simp_all add: extended_def linked_def deleted_def typed_updates del: fun_upd_apply)

section \<open>The contract\<close>

locale pointer_space =
  fixes I :: "('s, 'p) pointer" and ok :: "'p \<Rightarrow> 's \<Rightarrow> bool" and peek :: "'p \<Rightarrow> 's \<Rightarrow> bytes \<Rightarrow> bytes"
    and same :: "'p \<Rightarrow> 'p \<Rightarrow> bool"
  assumes child: "ok p s \<Longrightarrow> \<exists>q s'. p_child I p key s = Some (q, s') \<and> p_unwrap I q = key \<and> same p q
      \<and> ok p s' \<and> peek p s' = peek p s"
    and same_space: "same p q \<Longrightarrow> ok q s = ok p s \<and> peek q s = peek p s"
    and same_refl: "same p p"
    and same_trans: "same p q \<Longrightarrow> same q r \<Longrightarrow> same p r"
    and get: "ok p s \<Longrightarrow> \<exists>s'. p_get I p s = Some (peek p s (p_unwrap I p), s') \<and> ok p s' \<and> peek p s' = peek p s"
    and set: "ok p s \<Longrightarrow> \<exists>s'. p_set I p v s = Some ((), s') \<and> ok p s' \<and> peek p s' = (peek p s)(p_unwrap I p := v)"
begin

text \<open>
  \<open>runs p m x F F'\<close>: in a store that \<open>p\<close> sees as \<open>F\<close>, \<open>m\<close> returns \<open>x\<close> and leaves \<open>F'\<close>;
  \<open>yields\<close> is the same for a pointer of \<open>p\<close>'s space.
\<close>

definition runs :: "'p \<Rightarrow> ('s, 'a) pop \<Rightarrow> 'a \<Rightarrow> (bytes \<Rightarrow> bytes) \<Rightarrow> (bytes \<Rightarrow> bytes) \<Rightarrow> bool" where
  "runs p m x F F' \<longleftrightarrow> (\<forall>s. ok p s \<longrightarrow> peek p s = F \<longrightarrow> (\<exists>s'. m s = Some (x, s') \<and> ok p s' \<and> peek p s' = F'))"

definition yields :: "'p \<Rightarrow> ('s, 'p) pop \<Rightarrow> bytes \<Rightarrow> (bytes \<Rightarrow> bytes) \<Rightarrow> (bytes \<Rightarrow> bytes) \<Rightarrow> bool" where
  "yields p m key F F' \<longleftrightarrow> (\<forall>s. ok p s \<longrightarrow> peek p s = F \<longrightarrow>
     (\<exists>q s'. m s = Some (q, s') \<and> same p q \<and> p_unwrap I q = key \<and> ok p s' \<and> peek p s' = F'))"

lemma runs_return: "runs p (preturn x) x F F"
  by (simp add: runs_def)

lemma runs_bind:
  assumes "runs p m x F F1" "runs p (f x) y F1 F2"
  shows "runs p (pbind m f) y F F2"
  unfolding runs_def
proof (intro allI impI)
  fix s
  assume "ok p s" "peek p s = F"
  with assms(1) obtain s1 where s1: "m s = Some (x, s1)" "ok p s1" "peek p s1 = F1"
    unfolding runs_def by blast
  with assms(2) obtain s2 where "f x s1 = Some (y, s2)" "ok p s2" "peek p s2 = F2"
    unfolding runs_def by blast
  with s1 show "\<exists>s'. pbind m f s = Some (y, s') \<and> ok p s' \<and> peek p s' = F2" by simp
qed

lemma yields_bind:
  assumes "yields p m key F F1" "\<And>q. same p q \<Longrightarrow> p_unwrap I q = key \<Longrightarrow> runs p (f q) y F1 F2"
  shows "runs p (pbind m f) y F F2"
  unfolding runs_def
proof (intro allI impI)
  fix s
  assume "ok p s" "peek p s = F"
  with assms(1) obtain q s1 where s1: "m s = Some (q, s1)" "same p q" "p_unwrap I q = key" "ok p s1" "peek p s1 = F1"
    unfolding yields_def by blast
  from assms(2) [OF s1(2,3)] s1(4,5) obtain s2 where "f q s1 = Some (y, s2)" "ok p s2" "peek p s2 = F2"
    unfolding runs_def by blast
  with s1(1) show "\<exists>s'. pbind m f s = Some (y, s') \<and> ok p s' \<and> peek p s' = F2" by simp
qed

lemma yields_after:
  assumes "yields p m key F F1" "\<And>q. same p q \<Longrightarrow> p_unwrap I q = key \<Longrightarrow> yields p (f q) key' F1 F2"
  shows "yields p (pbind m f) key' F F2"
  unfolding yields_def
proof (intro allI impI)
  fix s
  assume "ok p s" "peek p s = F"
  with assms(1) obtain q s1 where s1: "m s = Some (q, s1)" "same p q" "p_unwrap I q = key" "ok p s1" "peek p s1 = F1"
    unfolding yields_def by blast
  from assms(2) [OF s1(2,3)] s1(4,5) obtain r s2 where "f q s1 = Some (r, s2)" "same p r" "p_unwrap I r = key'"
      "ok p s2" "peek p s2 = F2"
    unfolding yields_def by blast
  with s1(1) show "\<exists>r s'. pbind m f s = Some (r, s') \<and> same p r \<and> p_unwrap I r = key' \<and> ok p s' \<and> peek p s' = F2"
    by simp
qed

lemma runs_then:
  assumes "runs p m x F F1" "yields p (f x) key F1 F2"
  shows "yields p (pbind m f) key F F2"
  unfolding yields_def
proof (intro allI impI)
  fix s
  assume "ok p s" "peek p s = F"
  with assms(1) obtain s1 where s1: "m s = Some (x, s1)" "ok p s1" "peek p s1 = F1"
    unfolding runs_def by blast
  with assms(2) obtain q s2 where "f x s1 = Some (q, s2)" "same p q" "p_unwrap I q = key" "ok p s2" "peek p s2 = F2"
    unfolding yields_def by blast
  with s1(1) show "\<exists>q s'. pbind m f s = Some (q, s') \<and> same p q \<and> p_unwrap I q = key \<and> ok p s' \<and> peek p s' = F2"
    by simp
qed

lemma yields_child:
  assumes "same p q"
  shows "yields p (p_child I q key) key F F"
  unfolding yields_def
proof (intro allI impI)
  fix s
  assume "ok p s" "peek p s = F"
  with same_space [OF assms] obtain r s' where "p_child I q key s = Some (r, s')" "p_unwrap I r = key" "same q r"
      "ok q s'" "peek q s' = F"
    using child [of q s key] by metis
  then show "\<exists>r s'. p_child I q key s = Some (r, s') \<and> same p r \<and> p_unwrap I r = key \<and> ok p s' \<and> peek p s' = F"
    using same_trans [OF assms] same_space [OF assms] by metis
qed

lemma runs_get: "same p q \<Longrightarrow> p_unwrap I q = key \<Longrightarrow> runs p (p_get I q) (F key) F F"
  unfolding runs_def
proof (intro allI impI)
  fix s
  assume q: "same p q" "p_unwrap I q = key" and s: "ok p s" "peek p s = F"
  with same_space [OF q(1)] have "ok q s" "peek q s = F" by auto
  with get [of q s] q(2) same_space [OF q(1)]
  show "\<exists>s'. p_get I q s = Some (F key, s') \<and> ok p s' \<and> peek p s' = F" by auto
qed

lemma runs_set: "same p q \<Longrightarrow> p_unwrap I q = key \<Longrightarrow> runs p (p_set I q v) () F (F(key := v))"
  unfolding runs_def
proof (intro allI impI)
  fix s
  assume q: "same p q" "p_unwrap I q = key" and s: "ok p s" "peek p s = F"
  with same_space [OF q(1)] have "ok q s" "peek q s = F" by auto
  with set [of q s v] q(2) same_space [OF q(1)]
  show "\<exists>s'. p_set I q v s = Some ((), s') \<and> ok p s' \<and> peek p s' = F(key := v)" by auto
qed

lemma runs_get_u32:
  assumes "same p q" "p_unwrap I q = key" "cell (F key)"
  shows "runs p (p_get_value I u32_view q) (u32_of (F key)) F F"
proof -
  have "runs p (\<lambda>s. if F key = [] then Some (bv_zero u32_view, s) else map_option (\<lambda>x. (x, s)) (bv_from u32_view (F key)))
      (u32_of (F key)) F F"
    using assms(3) by (auto simp: runs_def cell_def u32_of_def u32_view_def word_from_bytes_def)
  with runs_get [OF assms(1,2), of F] show ?thesis unfolding p_get_value_def by (rule runs_bind)
qed

lemma runs_set_u32:
  "same p q \<Longrightarrow> p_unwrap I q = key \<Longrightarrow> runs p (p_set_value I u32_view q n) () F (F(key := bv_to u32_view n))"
  unfolding p_set_value_def by (rule runs_set)

subsection \<open>Derived pointers\<close>

lemma yields_len_key: "yields p (p_length_key I p) (len_key (p_unwrap I p)) F F"
  by (simp add: p_length_key_def p_keyword_def len_key_def yields_child same_refl)

lemma yields_head_key: "yields p (p_head_key I p) (head_key (p_unwrap I p)) F F"
  by (simp add: p_head_key_def p_keyword_def head_key_def yields_child same_refl)

lemma yields_index: "yields p (p_select_index I p i) (index_key (p_unwrap I p) i) F F"
  by (simp add: p_select_index_def p_keyword_def index_key_def yields_child same_refl)

lemma yields_next_key: "yields p (p_next_key I p i) (next_key (p_unwrap I p) i) F F"
  unfolding p_next_key_def
proof (rule yields_after)
  show "yields p (p_keyword I p ''/next'') (p_unwrap I p @ ''/next'') F F"
    by (simp add: p_keyword_def yields_child same_refl)
  show "yields p (p_select_value I u32_view q i) (next_key (p_unwrap I p) i) F F"
    if "same p q" "p_unwrap I q = p_unwrap I p @ ''/next''" for q
    using yields_child [OF that(1)] that(2) by (simp add: p_select_value_def p_select_def next_key_def)
qed

text \<open>Reading and writing a derived \<open>u32\<close>.\<close>

lemma runs_read_u32:
  assumes "yields p m key F F" "cell (F key)"
  shows "runs p (pbind m (p_get_value I u32_view)) (u32_of (F key)) F F"
  using assms(2) by (intro yields_bind [OF assms(1)] runs_get_u32)

lemma runs_write_u32:
  assumes "yields p m key F F"
  shows "runs p (pbind m (\<lambda>q. p_set_value I u32_view q n)) () F (F(key := bv_to u32_view n))"
  by (rule yields_bind [OF assms]) (rule runs_set_u32)

subsection \<open>The methods\<close>

lemma runs_length:
  assumes "typed (p_unwrap I p) F"
  shows "runs p (p_length I p) (list_len (p_unwrap I p) F) F F"
  unfolding p_length_def list_len_def
  by (rule runs_read_u32 [OF yields_len_key]) (use assms in \<open>simp add: typed_def\<close>)

lemma yields_extend:
  assumes "typed (p_unwrap I p) F"
  shows "yields p (p_extend I p) (index_key (p_unwrap I p) (list_len (p_unwrap I p) F)) F (extended (p_unwrap I p) F)"
  unfolding p_extend_def
proof (rule yields_after [OF yields_len_key])
  fix q
  assume q: "same p q" "p_unwrap I q = len_key (p_unwrap I p)"
  have "cell (F (len_key (p_unwrap I p)))" using assms by (simp add: typed_def)
  from runs_get_u32 [where F = F, OF q this]
  show "yields p (pbind (p_get_value I u32_view q) (\<lambda>len. pbind (p_set_value I u32_view q (len + 1))
      (\<lambda>_. p_select_index I p len))) (index_key (p_unwrap I p) (list_len (p_unwrap I p) F)) F (extended (p_unwrap I p) F)"
    unfolding list_len_def [symmetric] extended_def
    by (rule runs_then) (rule runs_then [OF runs_set_u32 [OF q] yields_index])
qed

lemma runs_append:
  assumes "typed (p_unwrap I p) F"
  shows "runs p (p_append I p v) () F
    ((extended (p_unwrap I p) F)(index_key (p_unwrap I p) (list_len (p_unwrap I p) F) := v))"
  unfolding p_append_def by (rule yields_bind [OF yields_extend [OF assms]]) (rule runs_set)

lemma runs_set_next_for:
  "runs p (p_set_next_for I p i v) () F (F(next_key (p_unwrap I p) i := bv_to u32_view v))"
  unfolding p_set_next_for_def by (rule runs_write_u32) (rule yields_next_key)

lemma list_len_linked [simp]: "list_len key (linked key F) = list_len key F"
  by (simp add: list_len_def linked_def)

lemma runs_link:
  assumes "n = list_len (p_unwrap I p) F"
  shows "runs p (if n > 0 then p_set_next_for I p (n - 1) n else preturn ()) () F (linked (p_unwrap I p) F)"
  using runs_set_next_for by (simp add: assms linked_def runs_return)

lemma yields_extend_ll:
  assumes "typed (p_unwrap I p) F"
  shows "yields p (p_extend_ll I p) (index_key (p_unwrap I p) (list_len (p_unwrap I p) F)) F
    (extended (p_unwrap I p) (linked (p_unwrap I p) F))"
  unfolding p_extend_ll_def
proof (rule yields_after [OF yields_len_key])
  fix q
  assume q: "same p q" "p_unwrap I q = len_key (p_unwrap I p)"
  let ?n = "list_len (p_unwrap I p) F"
  have "cell (F (len_key (p_unwrap I p)))" using assms by (simp add: typed_def)
  then have "runs p (p_get_value I u32_view q) ?n F F" unfolding list_len_def by (rule runs_get_u32 [OF q])
  then show "yields p (pbind (p_get_value I u32_view q) (\<lambda>len.
      pbind (if 0 < len then p_set_next_for I p (len - 1) len else preturn ())
      (\<lambda>_. pbind (p_set_value I u32_view q (len + 1)) (\<lambda>_. p_select_index I p len))))
      (index_key (p_unwrap I p) ?n) F (extended (p_unwrap I p) (linked (p_unwrap I p) F))"
  proof (rule runs_then)
    have set: "runs p (p_set_value I u32_view q (?n + 1)) () (linked (p_unwrap I p) F)
        (extended (p_unwrap I p) (linked (p_unwrap I p) F))"
      using runs_set_u32 [OF q, of "?n + 1" "linked (p_unwrap I p) F"] by (simp add: extended_def)
    show "yields p (pbind (if 0 < ?n then p_set_next_for I p (?n - 1) ?n else preturn ())
        (\<lambda>_. pbind (p_set_value I u32_view q (?n + 1)) (\<lambda>_. p_select_index I p ?n)))
        (index_key (p_unwrap I p) ?n) F (extended (p_unwrap I p) (linked (p_unwrap I p) F))"
      by (rule runs_then [OF runs_link [OF refl]]) (rule runs_then [OF set yields_index])
  qed
qed

lemma runs_append_ll:
  assumes "typed (p_unwrap I p) F"
  shows "runs p (p_append_ll I p v) () F ((extended (p_unwrap I p) (linked (p_unwrap I p) F))
    (index_key (p_unwrap I p) (list_len (p_unwrap I p) F) := v))"
  unfolding p_append_ll_def by (rule yields_bind [OF yields_extend_ll [OF assms]]) (rule runs_set)

lemma runs_drop_index:
  "runs p (p_drop_index I p i) () F (F(index_key (p_unwrap I p) i := [char_of (0 :: nat)]))"
  unfolding p_drop_index_def p_nullify_def
  by (rule yields_bind [OF yields_index [unfolded p_select_index_def]]) (rule runs_set)

lemma runs_pop:
  assumes "typed (p_unwrap I p) F"
  shows "runs p (p_pop I p)
    (if list_len (p_unwrap I p) F = 0 then [] else F (index_key (p_unwrap I p) (list_len (p_unwrap I p) F - 1))) F
    (if list_len (p_unwrap I p) F = 0 then F
     else F(len_key (p_unwrap I p) := bv_to u32_view (list_len (p_unwrap I p) F - 1)))"
  unfolding p_pop_def
proof (rule yields_bind [OF yields_len_key])
  fix q
  assume q: "same p q" "p_unwrap I q = len_key (p_unwrap I p)"
  let ?n = "list_len (p_unwrap I p) F" and ?k = "p_unwrap I p"
  have "cell (F (len_key ?k))" using assms by (simp add: typed_def)
  then have "runs p (p_get_value I u32_view q) ?n F F" unfolding list_len_def by (rule runs_get_u32 [OF q])
  then show "runs p (pbind (p_get_value I u32_view q) (\<lambda>len. if len = 0 then preturn []
        else pbind (p_set_value I u32_view q (len - 1)) (\<lambda>_. pbind (p_select_index I p (len - 1)) (p_get I))))
      (if ?n = 0 then [] else F (index_key ?k (?n - 1))) F
      (if ?n = 0 then F else F(len_key ?k := bv_to u32_view (?n - 1)))"
  proof (rule runs_bind)
    let ?F = "F(len_key ?k := bv_to u32_view (?n - 1))"
    have "runs p (pbind (p_select_index I p (?n - 1)) (p_get I)) (?F (index_key ?k (?n - 1))) ?F ?F"
      by (rule yields_bind [OF yields_index]) (rule runs_get)
    then have "runs p (pbind (p_set_value I u32_view q (?n - 1)) (\<lambda>_. pbind (p_select_index I p (?n - 1)) (p_get I)))
        (F (index_key ?k (?n - 1))) F ?F"
      by (intro runs_bind [OF runs_set_u32 [OF q]]) simp
    then show "runs p (if ?n = 0 then preturn []
        else pbind (p_set_value I u32_view q (?n - 1)) (\<lambda>_. pbind (p_select_index I p (?n - 1)) (p_get I)))
        (if ?n = 0 then [] else F (index_key ?k (?n - 1))) F (if ?n = 0 then F else ?F)"
      by (simp add: runs_return)
  qed
qed
lemma runs_delete_value:
  assumes "typed (p_unwrap I p) F"
  shows "runs p (p_delete_value I p i) () F (deleted (p_unwrap I p) i F)"
  unfolding p_delete_value_def
proof (rule yields_bind [OF yields_head_key])
  fix q
  let ?k = "p_unwrap I p"
  assume q: "same p q" "p_unwrap I q = head_key ?k"
  let ?nxt = "u32_of (F (next_key ?k i))"
  let ?F = "if i = u32_of (F (head_key ?k)) then F(head_key ?k := bv_to u32_view ?nxt)
      else F(next_key ?k (i - 1) := bv_to u32_view ?nxt)"
  have cells: "cell (F (head_key ?k))" "cell (F (next_key ?k i))" using assms by (simp_all add: typed_def)
  have tail: "runs p (pbind (p_next_key I p i) (\<lambda>k. pbind (p_get_value I u32_view k) (\<lambda>nxt. p_set_value I u32_view r nxt)))
      () F (F(p_unwrap I r := bv_to u32_view ?nxt))" if "same p r" for r
    by (intro yields_bind [OF yields_next_key] runs_bind [OF runs_get_u32 [where F = F, OF _ _ cells(2)]] runs_set_u32 that refl)
  have skip: "runs p (pbind (p_next_key I p (i - 1)) (\<lambda>prev. pbind (p_next_key I p i) (\<lambda>k.
      pbind (p_get_value I u32_view k) (\<lambda>nxt. p_set_value I u32_view prev nxt))))
      () F (F(next_key ?k (i - 1) := bv_to u32_view ?nxt))"
    by (rule yields_bind [OF yields_next_key]) (metis tail)
  have "runs p (if i = u32_of (F (head_key ?k)) then pbind (p_next_key I p i) (\<lambda>k.
        pbind (p_get_value I u32_view k) (\<lambda>nxt. p_set_value I u32_view q nxt))
      else pbind (p_next_key I p (i - 1)) (\<lambda>prev. pbind (p_next_key I p i) (\<lambda>k.
        pbind (p_get_value I u32_view k) (\<lambda>nxt. p_set_value I u32_view prev nxt)))) () F ?F"
  proof (cases "i = u32_of (F (head_key ?k))")
    case True
    show ?thesis using tail [OF q(1)] unfolding q(2) if_P [OF True] .
  next
    case False
    show ?thesis using skip unfolding if_not_P [OF False] .
  qed
  moreover have "deleted ?k i F = ?F(index_key ?k i := [char_of (0 :: nat)])"
    by (simp add: deleted_def next_of_def)
  ultimately show "runs p (pbind (p_get_value I u32_view q) (\<lambda>head. pbind (if i = head then
        pbind (p_next_key I p i) (\<lambda>k. pbind (p_get_value I u32_view k) (\<lambda>nxt. p_set_value I u32_view q nxt))
      else pbind (p_next_key I p (i - 1)) (\<lambda>prev. pbind (p_next_key I p i) (\<lambda>k.
        pbind (p_get_value I u32_view k) (\<lambda>nxt. p_set_value I u32_view prev nxt)))) (\<lambda>_. p_drop_index I p i)))
      () F (deleted ?k i F)"
    using runs_drop_index [of p i ?F]
    by (intro runs_bind [OF runs_get_u32 [where F = F, OF q cells(1)]]) (simp only: runs_bind)
qed

lemma runs_collect:
  assumes "\<And>i. i \<in> List.set js \<Longrightarrow> runs p (f (of_nat i)) (g i) F F"
  shows "runs p (p_collect f js res) (res @ map g js) F F"
  using assms
proof (induction js arbitrary: res)
  case (Cons i js)
  show ?case
    unfolding p_collect.simps
  proof (rule runs_bind)
    show "runs p (f (of_nat i)) (g i) F F" by (rule Cons.prems) simp
    show "runs p (p_collect f js (res @ [g i])) (res @ map g (i # js)) F F"
      using Cons.IH [of "res @ [g i]"] Cons.prems by simp
  qed
qed (simp add: runs_return)

lemma runs_get_list:
  assumes "typed (p_unwrap I p) F"
  shows "runs p (p_get_list I p)
    (map (\<lambda>i. F (index_key (p_unwrap I p) (of_nat i))) [0..<unat (list_len (p_unwrap I p) F)]) F F"
  unfolding p_get_list_def
proof (rule runs_bind [OF runs_length [OF assms]])
  have "runs p (pbind (p_select_index I p j) (p_get I)) (F (index_key (p_unwrap I p) j)) F F" for j
    by (rule yields_bind [OF yields_index]) (rule runs_get)
  from runs_collect [OF this, where js = "[0..<unat (list_len (p_unwrap I p) F)]" and res = "[]"]
  show "runs p (p_collect (\<lambda>i. pbind (p_select_index I p i) (p_get I)) [0..<unat (list_len (p_unwrap I p) F)] [])
    (map (\<lambda>i. F (index_key (p_unwrap I p) (of_nat i))) [0..<unat (list_len (p_unwrap I p) F)]) F F"
    by simp
qed

end

section \<open>Walking a linked list\<close>

inductive walk :: "bytes \<Rightarrow> (bytes \<Rightarrow> bytes) \<Rightarrow> u32 \<Rightarrow> u32 \<Rightarrow> u32 list \<Rightarrow> bool" for key F len where
  beyond: "\<not> i < len \<Longrightarrow> walk key F len i []"
| last_one: "i < len \<Longrightarrow> next_of key F i = 0 \<Longrightarrow> walk key F len i [i]"
| onwards: "i < len \<Longrightarrow> next_of key F i \<noteq> 0 \<Longrightarrow> walk key F len (next_of key F i) js \<Longrightarrow> walk key F len i (i # js)"

context pointer_space
begin

lemma runs_map_ll_loop:
  assumes "walk (p_unwrap I p) F len i js" "typed (p_unwrap I p) F"
    and "\<And>q i. same p q \<Longrightarrow> p_unwrap I q = index_key (p_unwrap I p) i \<Longrightarrow> runs p (f q i) (g i) F F"
  shows "runs p (map_ll_loop I p f len i res) (res @ map g js) F F"
proof -
  have step: "\<exists>s'. ok p s' \<and> peek p s' = F \<and> map_ll_loop I p f len i res s
      = (if next_of (p_unwrap I p) F i = 0 then Some (res @ [g i], s')
         else map_ll_loop I p f len (next_of (p_unwrap I p) F i) (res @ [g i]) s')"
    if lt: "i < len" and at: "ok p s" "peek p s = F" for i res s
  proof -
    obtain q s1 where s1: "p_select_index I p i s = Some (q, s1)" "same p q"
        "p_unwrap I q = index_key (p_unwrap I p) i" "ok p s1" "peek p s1 = F"
      using yields_index at unfolding yields_def by blast
    obtain s2 where s2: "f q i s1 = Some (g i, s2)" "ok p s2" "peek p s2 = F"
      using assms(3) [OF s1(2,3)] s1(4,5) unfolding runs_def by blast
    have "runs p (pbind (p_next_key I p i) (p_get_value I u32_view)) (next_of (p_unwrap I p) F i) F F"
      unfolding next_of_def by (rule runs_read_u32 [OF yields_next_key]) (use assms(2) in \<open>simp add: typed_def\<close>)
    with s2 obtain s3 where s3: "pbind (p_next_key I p i) (p_get_value I u32_view) s2 = Some (next_of (p_unwrap I p) F i, s3)"
        "ok p s3" "peek p s3 = F"
      unfolding runs_def by blast
    then have "Option.bind (p_next_key I p i s2) (\<lambda>(k, s). Option.bind (p_get_value I u32_view k s) c)
        = c (next_of (p_unwrap I p) F i, s3)" for c :: "u32 \<times> 's \<Rightarrow> ('a list \<times> 's) option"
      by (auto simp: pbind_def bind_eq_Some_conv)
    with lt s1(1) s2(1) s3(2,3) show ?thesis
      by (subst map_ll_loop.simps) (intro exI [of _ s3], simp)
  qed
  show ?thesis
    using assms(1)
  proof (induction i js arbitrary: res rule: walk.induct)
    case (beyond i)
    then show ?case by (simp add: runs_def map_ll_loop.simps)
  next
    case (last_one i)
    with step show ?case unfolding runs_def by fastforce
  next
    case (onwards i js)
    show ?case
      unfolding runs_def
    proof (intro allI impI)
      fix s
      assume "ok p s" "peek p s = F"
      with step [OF onwards(1)] onwards(2) obtain s' where "ok p s'" "peek p s' = F"
          "map_ll_loop I p f len i res s = map_ll_loop I p f len (next_of (p_unwrap I p) F i) (res @ [g i]) s'"
        by metis
      with onwards.IH [of "res @ [g i]"]
      show "\<exists>s'. map_ll_loop I p f len i res s = Some (res @ map g (i # js), s') \<and> ok p s' \<and> peek p s' = F"
        unfolding runs_def by simp
    qed
  qed
qed

lemma runs_map_ll:
  assumes "typed (p_unwrap I p) F"
    and "walk (p_unwrap I p) F (list_len (p_unwrap I p) F) (u32_of (F (head_key (p_unwrap I p)))) js"
    and "\<And>q i. same p q \<Longrightarrow> p_unwrap I q = index_key (p_unwrap I p) i \<Longrightarrow> runs p (f q i) (g i) F F"
  shows "runs p (p_map_ll I p f) (map g js) F F"
  unfolding p_map_ll_def
proof (rule runs_bind [OF runs_length [OF assms(1)]], rule yields_bind [OF yields_head_key])
  fix q
  assume q: "same p q" "p_unwrap I q = head_key (p_unwrap I p)"
  have "cell (F (head_key (p_unwrap I p)))" using assms(1) by (simp add: typed_def)
  moreover have "runs p (map_ll_loop I p f (list_len (p_unwrap I p) F) (u32_of (F (head_key (p_unwrap I p)))) [])
      ([] @ map g js) F F"
    by (rule runs_map_ll_loop [OF assms(2,1)]) (rule assms(3))
  ultimately show "runs p (pbind (p_get_value I u32_view q) (\<lambda>head. map_ll_loop I p f (list_len (p_unwrap I p) F) head [])) (map g js) F F"
    using runs_bind [OF runs_get_u32 [where F = F, OF q]] by simp
qed

end

end
