(* ===== verification/AtomicPointer.thy ===== *)
theory AtomicPointer
  imports PointerSpec GuestCore
begin

text \<open>
  The pointers of the guest, \<open>crates/metashrew-core/src/index_pointer.rs\<close>: \<open>IndexPointer\<close>
  over the library's cache, and \<open>AtomicPointer\<close>, which writes to a stack of checkpoints
  shared by the pointers derived from it. The state is the library's, with the stacks:
  a stack is named by its position, as the \<open>Arc\<close> that a pointer holds names it.

  \<open>stored_at\<close> is what the host answers for a key; \<open>get\<close> of the library is \<open>lib_get\<close> here,
  which is what \<open>core_get\<close> computes when the host answers so. \<open>order\<close> is the iteration order
  of a hash map, which Rust leaves open.
\<close>

section \<open>State\<close>

type_synonym checkpoint = "bytes \<rightharpoonup> bytes"

record guest =
  gu_core :: core
  gu_stacks :: "checkpoint list list"

record atomic_pointer =
  ap_pointer :: bytes
  ap_store :: nat

definition lib_get :: "(bytes \<Rightarrow> bytes) \<Rightarrow> bytes \<Rightarrow> core \<Rightarrow> bytes \<times> core" where
  "lib_get stored_at key c =
     (let c1 = core_initialize c in
      case the (core_cache c1) key of
        Some x \<Rightarrow> (x, c1)
      | None \<Rightarrow> (stored_at key, c1\<lparr>core_cache := Some ((the (core_cache c1))(key \<mapsto> stored_at key))\<rparr>))"

section \<open>\<open>IndexPointer\<close>\<close>

definition ip_set :: "bytes \<Rightarrow> bytes \<Rightarrow> (guest, unit) pop" where
  "ip_set p v s = Some ((), s\<lparr>gu_core := core_set p v (gu_core s)\<rparr>)"

definition ip_get :: "(bytes \<Rightarrow> bytes) \<Rightarrow> bytes \<Rightarrow> (guest, bytes) pop" where
  "ip_get stored_at p s = (case lib_get stored_at p (gu_core s) of (x, c) \<Rightarrow> Some (x, s\<lparr>gu_core := c\<rparr>))"

definition index_pointer :: "(bytes \<Rightarrow> bytes) \<Rightarrow> (guest, bytes) pointer" where
  "index_pointer stored_at = \<lparr>p_wrap = (\<lambda>word. preturn word), p_unwrap = (\<lambda>p. p), p_set = ip_set,
     p_get = ip_get stored_at, p_inherits = (\<lambda>p from. p)\<rparr>"

section \<open>\<open>AtomicPointer\<close>\<close>

definition stack_of :: "atomic_pointer \<Rightarrow> guest \<Rightarrow> checkpoint list" where
  "stack_of p s = gu_stacks s ! ap_store p"

definition put_stack :: "atomic_pointer \<Rightarrow> checkpoint list \<Rightarrow> guest \<Rightarrow> guest" where
  "put_stack p st s = s\<lparr>gu_stacks := (gu_stacks s)[ap_store p := st]\<rparr>"

text \<open>\<open>IndexCheckpointStack::default\<close>: a new stack with one empty checkpoint.\<close>

definition default_stack :: "(guest, nat) pop" where
  "default_stack s = Some (length (gu_stacks s), s\<lparr>gu_stacks := gu_stacks s @ [[Map.empty]]\<rparr>)"

definition ap_wrap :: "bytes \<Rightarrow> (guest, atomic_pointer) pop" where
  "ap_wrap word = pbind default_stack (\<lambda>i. preturn \<lparr>ap_pointer = word, ap_store = i\<rparr>)"

definition ap_default :: "(guest, atomic_pointer) pop" where
  "ap_default = ap_wrap []"

definition ap_inherits :: "atomic_pointer \<Rightarrow> atomic_pointer \<Rightarrow> atomic_pointer" where
  "ap_inherits p from = p\<lparr>ap_store := ap_store from\<rparr>"

definition ap_set :: "atomic_pointer \<Rightarrow> bytes \<Rightarrow> (guest, unit) pop" where
  "ap_set p v s =
     (case rev (stack_of p s) of
        [] \<Rightarrow> None
      | cp # below \<Rightarrow> Some ((), put_stack p (rev (cp(ap_pointer p \<mapsto> v) # below)) s))"

definition ap_get :: "(bytes \<Rightarrow> bytes) \<Rightarrow> atomic_pointer \<Rightarrow> (guest, bytes) pop" where
  "ap_get stored_at p s =
     (case List.find (\<lambda>m. m (ap_pointer p) \<noteq> None) (rev (stack_of p s)) of
        Some m \<Rightarrow> Some (the (m (ap_pointer p)), s)
      | None \<Rightarrow> ip_get stored_at (ap_pointer p) s)"

definition atomic_pointer_ops :: "(bytes \<Rightarrow> bytes) \<Rightarrow> (guest, atomic_pointer) pointer" where
  "atomic_pointer_ops stored_at = \<lparr>p_wrap = ap_wrap, p_unwrap = ap_pointer, p_set = ap_set,
     p_get = ap_get stored_at, p_inherits = ap_inherits\<rparr>"

definition pipe_to :: "checkpoint \<Rightarrow> checkpoint \<Rightarrow> checkpoint" where
  "pipe_to c target = target ++ c"

definition depth :: "atomic_pointer \<Rightarrow> guest \<Rightarrow> nat" where
  "depth p s = length (stack_of p s)"

definition ap_checkpoint :: "atomic_pointer \<Rightarrow> (guest, unit) pop" where
  "ap_checkpoint p s = Some ((), put_stack p (stack_of p s @ [Map.empty]) s)"

text \<open>A commit at depth 1 hands the checkpoint to the library and keeps it.\<close>

definition ap_commit :: "(checkpoint \<Rightarrow> (bytes \<times> bytes) list) \<Rightarrow> atomic_pointer \<Rightarrow> (guest, unit) pop" where
  "ap_commit order p s =
     (case rev (stack_of p s) of
        cp # target # below \<Rightarrow> Some ((), put_stack p (rev (pipe_to cp target # below)) s)
      | [only] \<Rightarrow> Some ((), s\<lparr>gu_core := fold (\<lambda>(k, v). core_set k v) (order only) (gu_core s)\<rparr>)
      | [] \<Rightarrow> None)"

definition ap_rollback :: "atomic_pointer \<Rightarrow> (guest, unit) pop" where
  "ap_rollback p s = Some ((), put_stack p (butlast (stack_of p s)) s)"

definition ap_derive :: "atomic_pointer \<Rightarrow> bytes \<Rightarrow> atomic_pointer" where
  "ap_derive p pointer = p\<lparr>ap_pointer := pointer\<rparr>"

definition get_pointer :: "atomic_pointer \<Rightarrow> bytes" where
  "get_pointer p = ap_pointer p"

definition checkpoint_depth :: "atomic_pointer \<Rightarrow> guest \<Rightarrow> nat" where
  "checkpoint_depth p s = depth p s"

section \<open>The contract\<close>

definition core_view :: "(bytes \<Rightarrow> bytes) \<Rightarrow> core \<Rightarrow> bytes \<Rightarrow> bytes" where
  "core_view stored_at c key =
     (case Option.bind (core_cache c) (\<lambda>m. m key) of Some x \<Rightarrow> x | None \<Rightarrow> stored_at key)"

lemma core_view_initialize [simp]: "core_view stored_at (core_initialize c) = core_view stored_at c"
  by (auto simp: fun_eq_iff core_view_def core_initialize_def)

lemma core_view_set [simp]: "core_view stored_at (core_set k v c) = (core_view stored_at c)(k := v)"
  by (cases "core_cache c") (auto simp: fun_eq_iff core_view_def core_set_def core_initialize_def Let_def)

lemma core_cache_initialize: "\<exists>m. core_cache (core_initialize c) = Some m"
  by (simp add: core_initialize_def)

lemma lib_get_view:
  "fst (lib_get stored_at key c) = core_view stored_at c key
   \<and> core_view stored_at (snd (lib_get stored_at key c)) = core_view stored_at c"
proof -
  obtain m where m: "core_cache (core_initialize c) = Some m" using core_cache_initialize by blast
  have v: "core_view stored_at c = (\<lambda>k. case m k of Some x \<Rightarrow> x | None \<Rightarrow> stored_at k)"
    unfolding core_view_initialize [of stored_at c, symmetric]
    by (rule ext) (simp add: core_view_def m del: core_view_initialize)
  show ?thesis
  proof (cases "m key")
    case None
    then show ?thesis by (auto simp: lib_get_def Let_def m v fun_eq_iff core_view_def)
  next
    case (Some x)
    then show ?thesis by (auto simp: lib_get_def Let_def m v fun_eq_iff core_view_def)
  qed
qed

interpretation ip: pointer_space "index_pointer stored_at" "\<lambda>p s. True"
  "\<lambda>p s. core_view stored_at (gu_core s)" "\<lambda>p q. True" for stored_at
proof
  fix p key and s :: guest
  show "\<exists>q s'. p_child (index_pointer stored_at) p key s = Some (q, s') \<and> p_unwrap (index_pointer stored_at) q = key
     \<and> True \<and> True \<and> core_view stored_at (gu_core s') = core_view stored_at (gu_core s)"
    by (simp add: p_child_def index_pointer_def pbind_def)
next
  fix p and s :: guest
  obtain x c where xc: "lib_get stored_at p (gu_core s) = (x, c)" by (rule prod.exhaust)
  show "\<exists>s'. p_get (index_pointer stored_at) p s
      = Some (core_view stored_at (gu_core s) (p_unwrap (index_pointer stored_at) p), s')
     \<and> True \<and> core_view stored_at (gu_core s') = core_view stored_at (gu_core s)"
    using lib_get_view [of stored_at p "gu_core s"] xc by (simp add: index_pointer_def ip_get_def)
next
  fix p v and s :: guest
  show "\<exists>s'. p_set (index_pointer stored_at) p v s = Some ((), s') \<and> True
     \<and> core_view stored_at (gu_core s') = (core_view stored_at (gu_core s))(p_unwrap (index_pointer stored_at) p := v)"
    by (simp add: index_pointer_def ip_set_def)
qed simp_all

text \<open>A pointer whose stack exists and is not empty, and what it sees.\<close>

definition ap_ok :: "atomic_pointer \<Rightarrow> guest \<Rightarrow> bool" where
  "ap_ok p s \<longleftrightarrow> ap_store p < length (gu_stacks s) \<and> stack_of p s \<noteq> []"

definition stack_view :: "checkpoint list \<Rightarrow> checkpoint" where
  "stack_view st = foldl (++) Map.empty st"

definition ap_view :: "(bytes \<Rightarrow> bytes) \<Rightarrow> atomic_pointer \<Rightarrow> guest \<Rightarrow> bytes \<Rightarrow> bytes" where
  "ap_view stored_at p s key =
     (case stack_view (stack_of p s) key of Some x \<Rightarrow> x | None \<Rightarrow> core_view stored_at (gu_core s) key)"

lemma stack_view_snoc [simp]: "stack_view (st @ [m]) = stack_view st ++ m"
  by (simp add: stack_view_def)

lemma stack_view_Nil [simp]: "stack_view [] = Map.empty"
  by (simp add: stack_view_def)

lemma stack_put [simp]:
  "ap_store p < length (gu_stacks s) \<Longrightarrow> stack_of p (put_stack p st s) = st"
  "gu_core (put_stack p st s) = gu_core s"
  "length (gu_stacks (put_stack p st s)) = length (gu_stacks s)"
  by (simp_all add: stack_of_def put_stack_def)

lemma find_stack: "List.find (\<lambda>m. m key \<noteq> None) (rev st) = None \<longleftrightarrow> stack_view st key = None"
  "List.find (\<lambda>m. m key \<noteq> None) (rev st) = Some m \<Longrightarrow> stack_view st key = m key"
proof -
  show "List.find (\<lambda>m. m key \<noteq> None) (rev st) = None \<longleftrightarrow> stack_view st key = None"
    by (induction st rule: rev_induct) (auto simp: map_add_def split: option.splits)
  show "List.find (\<lambda>m. m key \<noteq> None) (rev st) = Some m \<Longrightarrow> stack_view st key = m key"
    by (induction st rule: rev_induct) (auto simp: map_add_def split: if_splits option.splits)
qed

lemma find_stack_nonempty: "List.find (\<lambda>m. m key \<noteq> None) xs = Some m \<Longrightarrow> m key \<noteq> None"
  by (induction xs) (auto split: if_splits)

interpretation ap: pointer_space "atomic_pointer_ops stored_at" ap_ok "ap_view stored_at"
  "\<lambda>p q. ap_store p = ap_store q" for stored_at
proof
  fix p key s
  assume ok: "ap_ok p s"
  let ?s = "s\<lparr>gu_stacks := gu_stacks s @ [[Map.empty]]\<rparr>" and ?q = "\<lparr>ap_pointer = key, ap_store = ap_store p\<rparr>"
  have "p_child (atomic_pointer_ops stored_at) p key s = Some (?q, ?s)"
    by (simp add: p_child_def atomic_pointer_ops_def ap_wrap_def default_stack_def ap_inherits_def pbind_def)
  moreover have "stack_of p ?s = stack_of p s" using ok by (simp add: ap_ok_def stack_of_def nth_append)
  ultimately show "\<exists>q s'. p_child (atomic_pointer_ops stored_at) p key s = Some (q, s')
      \<and> p_unwrap (atomic_pointer_ops stored_at) q = key \<and> ap_store p = ap_store q \<and> ap_ok p s'
      \<and> ap_view stored_at p s' = ap_view stored_at p s"
    using ok by (auto simp: atomic_pointer_ops_def ap_ok_def ap_view_def fun_eq_iff split: option.splits)
next
  fix p q :: atomic_pointer and s
  assume "ap_store p = ap_store q"
  then show "ap_ok q s = ap_ok p s \<and> ap_view stored_at q s = ap_view stored_at p s"
    by (simp add: ap_ok_def ap_view_def stack_of_def fun_eq_iff)
next
  fix p s
  assume ok: "ap_ok p s"
  let ?k = "ap_pointer p" and ?find = "List.find (\<lambda>m. m (ap_pointer p) \<noteq> None) (rev (stack_of p s))"
  show "\<exists>s'. p_get (atomic_pointer_ops stored_at) p s
      = Some (ap_view stored_at p s (p_unwrap (atomic_pointer_ops stored_at) p), s')
     \<and> ap_ok p s' \<and> ap_view stored_at p s' = ap_view stored_at p s"
  proof (cases ?find)
    case (Some m)
    with find_stack(2) [OF Some] find_stack_nonempty [OF Some] ok show ?thesis
      by (auto simp: atomic_pointer_ops_def ap_get_def ap_view_def)
  next
    case None
    obtain x c where xc: "lib_get stored_at ?k (gu_core s) = (x, c)" by (rule prod.exhaust)
    have "stack_of p (s\<lparr>gu_core := c\<rparr>) = stack_of p s" by (simp add: stack_of_def)
    with None find_stack(1) [of ?k "stack_of p s"] lib_get_view [of stored_at ?k "gu_core s"] xc ok show ?thesis
      by (simp add: atomic_pointer_ops_def ap_get_def ip_get_def ap_view_def ap_ok_def fun_eq_iff cong: option.case_cong)
  qed
next
  fix p v s
  assume ok: "ap_ok p s"
  then obtain cp below where st: "rev (stack_of p s) = cp # below"
    by (cases "rev (stack_of p s)") (auto simp: ap_ok_def)
  then have "stack_of p s = rev below @ [cp]" by (metis rev.simps(2) rev_rev_ident)
  with ok st show "\<exists>s'. p_set (atomic_pointer_ops stored_at) p v s = Some ((), s') \<and> ap_ok p s'
     \<and> ap_view stored_at p s' = (ap_view stored_at p s)(p_unwrap (atomic_pointer_ops stored_at) p := v)"
    by (auto simp: atomic_pointer_ops_def ap_set_def ap_ok_def ap_view_def fun_eq_iff map_add_def split: option.splits)
qed simp_all

end
