(* ===== verification/PointerProps.thy ===== *)
theory PointerProps
  imports AtomicPointer
begin

text \<open>
  Properties of pointers: sequences of the list methods of \<open>KeyValuePointer\<close> against the
  list they keep, linked lists, and the checkpoints of \<open>AtomicPointer\<close> as nested
  transactions. The lemmas hold for every pointer of the contract; the properties are about
  \<open>AtomicPointer\<close>, with the library's cache below its checkpoints.
\<close>

text \<open>What \<open>nullify\<close> writes.\<close>

abbreviation NULLED :: bytes where
  "NULLED \<equiv> [char_of (0 :: nat)]"

section \<open>Sequences of list calls\<close>

datatype list_call =
    Append bytes
  | AppendLinked bytes
  | Pop
  | DeleteValue u32
  | DropIndex u32
  | SetNextFor u32 u32
  | Length
  | GetList

datatype reply = Silent | Bytes bytes | Number u32 | Entries "bytes list"

definition reply_with :: "('a \<Rightarrow> reply) \<Rightarrow> ('s, 'a) pop \<Rightarrow> ('s, reply) pop" where
  "reply_with f m = pbind m (\<lambda>x. preturn (f x))"

fun list_method :: "('s, 'p) pointer \<Rightarrow> 'p \<Rightarrow> list_call \<Rightarrow> ('s, reply) pop" where
  "list_method I p (Append v) = reply_with (\<lambda>_. Silent) (p_append I p v)"
| "list_method I p (AppendLinked v) = reply_with (\<lambda>_. Silent) (p_append_ll I p v)"
| "list_method I p Pop = reply_with Bytes (p_pop I p)"
| "list_method I p (DeleteValue i) = reply_with (\<lambda>_. Silent) (p_delete_value I p i)"
| "list_method I p (DropIndex i) = reply_with (\<lambda>_. Silent) (p_drop_index I p i)"
| "list_method I p (SetNextFor i n) = reply_with (\<lambda>_. Silent) (p_set_next_for I p i n)"
| "list_method I p Length = reply_with Number (p_length I p)"
| "list_method I p GetList = reply_with Entries (p_get_list I p)"

primrec list_methods :: "('s, 'p) pointer \<Rightarrow> 'p \<Rightarrow> list_call list \<Rightarrow> ('s, reply list) pop" where
  "list_methods I p [] = preturn []"
| "list_methods I p (c # cs) =
     pbind (list_method I p c) (\<lambda>r. pbind (list_methods I p cs) (\<lambda>rs. preturn (r # rs)))"

text \<open>The answer to a call and its effect, on the function a pointer sees.\<close>

fun answer_of :: "bytes \<Rightarrow> list_call \<Rightarrow> (bytes \<Rightarrow> bytes) \<Rightarrow> reply" where
  "answer_of key Pop F = Bytes (if list_len key F = 0 then [] else F (index_key key (list_len key F - 1)))"
| "answer_of key Length F = Number (list_len key F)"
| "answer_of key GetList F = Entries (map (\<lambda>i. F (index_key key (of_nat i))) [0..<unat (list_len key F)])"
| "answer_of key _ F = Silent"

fun effect_of :: "bytes \<Rightarrow> list_call \<Rightarrow> (bytes \<Rightarrow> bytes) \<Rightarrow> bytes \<Rightarrow> bytes" where
  "effect_of key (Append v) F = (extended key F)(index_key key (list_len key F) := v)"
| "effect_of key (AppendLinked v) F = (extended key (linked key F))(index_key key (list_len key F) := v)"
| "effect_of key Pop F = (if list_len key F = 0 then F else F(len_key key := bv_to u32_view (list_len key F - 1)))"
| "effect_of key (DeleteValue i) F = deleted key i F"
| "effect_of key (DropIndex i) F = F(index_key key i := NULLED)"
| "effect_of key (SetNextFor i n) F = F(next_key key i := bv_to u32_view n)"
| "effect_of key _ F = F"

lemma typed_effect: "typed key F \<Longrightarrow> typed key (effect_of key c F)"
  by (cases c) (simp_all add: typed_updates typed_methods del: fun_upd_apply)

primrec effects_of :: "bytes \<Rightarrow> list_call list \<Rightarrow> (bytes \<Rightarrow> bytes) \<Rightarrow> bytes \<Rightarrow> bytes" where
  "effects_of key [] F = F"
| "effects_of key (c # cs) F = effects_of key cs (effect_of key c F)"

primrec answers_of :: "bytes \<Rightarrow> list_call list \<Rightarrow> (bytes \<Rightarrow> bytes) \<Rightarrow> reply list" where
  "answers_of key [] F = []"
| "answers_of key (c # cs) F = answer_of key c F # answers_of key cs (effect_of key c F)"

lemma typed_effects: "typed key F \<Longrightarrow> typed key (effects_of key cs F)"
  by (induction cs arbitrary: F) (simp_all add: typed_effect)

lemma effects_append: "effects_of key (cs @ ds) F = effects_of key ds (effects_of key cs F)"
  by (induction cs arbitrary: F) simp_all

lemma length_answers [simp]: "length (answers_of key cs F) = length cs"
  by (induction cs arbitrary: F) simp_all

context pointer_space
begin

lemma runs_reply: "runs p m x F F' \<Longrightarrow> r = f x \<Longrightarrow> runs p (reply_with f m) r F F'"
  unfolding reply_with_def by (rule runs_bind, assumption) (simp add: runs_return)

lemma runs_list_method:
  assumes "typed (p_unwrap I p) F"
  shows "runs p (list_method I p c) (answer_of (p_unwrap I p) c F) F (effect_of (p_unwrap I p) c F)"
  using runs_pop [OF assms, THEN runs_reply, OF refl, of Bytes] assms
  by (cases c) (auto simp del: fun_upd_apply intro!: runs_reply runs_append runs_append_ll
      runs_delete_value runs_drop_index runs_set_next_for runs_length [THEN runs_reply] runs_get_list [THEN runs_reply])

lemma runs_list_methods:
  assumes "typed (p_unwrap I p) F"
  shows "runs p (list_methods I p cs) (answers_of (p_unwrap I p) cs F) F (effects_of (p_unwrap I p) cs F)"
  using assms
proof (induction cs arbitrary: F)
  case (Cons c cs)
  show ?case
    unfolding list_methods.simps answers_of.simps effects_of.simps
    by (intro runs_bind [OF runs_list_method [OF Cons.prems]]
        runs_bind [OF Cons.IH [OF typed_effect [OF Cons.prems]]] runs_return)
qed (simp add: runs_return)

end

section \<open>The list a pointer keeps\<close>

definition keeps_list :: "bytes \<Rightarrow> (bytes \<Rightarrow> bytes) \<Rightarrow> bytes list \<Rightarrow> bool" where
  "keeps_list key F xs \<longleftrightarrow> list_len key F = of_nat (length xs) \<and> length xs < 4294967296
     \<and> (\<forall>i < length xs. F (index_key key (of_nat i)) = xs ! i)"

fun on_list :: "list_call \<Rightarrow> bytes list \<Rightarrow> reply \<times> bytes list" where
  "on_list (Append v) xs = (Silent, xs @ [v])"
| "on_list (AppendLinked v) xs = (Silent, xs @ [v])"
| "on_list Pop xs = (if xs = [] then (Bytes [], []) else (Bytes (last xs), butlast xs))"
| "on_list (DeleteValue i) xs = (Silent, xs[unat i := NULLED])"
| "on_list (DropIndex i) xs = (Silent, xs[unat i := NULLED])"
| "on_list (SetNextFor i n) xs = (Silent, xs)"
| "on_list Length xs = (Number (of_nat (length xs)), xs)"
| "on_list GetList xs = (Entries xs, xs)"

primrec on_lists :: "list_call list \<Rightarrow> bytes list \<Rightarrow> reply list \<times> bytes list" where
  "on_lists [] xs = ([], xs)"
| "on_lists (c # cs) xs = (case on_list c xs of (r, ys) \<Rightarrow> case on_lists cs ys of (rs, zs) \<Rightarrow> (r # rs, zs))"

lemma unat_of_nat_u32 [simp]: "n < 4294967296 \<Longrightarrow> unat (of_nat n :: u32) = n"
  by (simp add: unat_of_nat take_bit_nat_eq_self)

lemma of_nat_u32_eq: "i < 4294967296 \<Longrightarrow> j < 4294967296 \<Longrightarrow> (of_nat i :: u32) = of_nat j \<longleftrightarrow> i = j"
  by (metis unat_of_nat_u32)

lemma list_len_updates [simp]:
  "list_len key (F(index_key key i := v)) = list_len key F"
  "list_len key (F(next_key key i := v)) = list_len key F"
  "list_len key (F(head_key key := v)) = list_len key F"
  "list_len key (F(len_key key := bv_to u32_view n)) = n"
  by (simp_all add: list_len_def)

lemma list_len_methods [simp]:
  "list_len key (extended key F) = list_len key F + 1" "list_len key (deleted key i F) = list_len key F"
  by (simp_all add: extended_def deleted_def del: fun_upd_apply)

lemma index_methods [simp]:
  "extended key F (index_key key j) = F (index_key key j)" "linked key F (index_key key j) = F (index_key key j)"
  "deleted key i F (index_key key j) = (if j = i then NULLED else F (index_key key j))"
  by (simp_all add: extended_def linked_def deleted_def)

lemma keeps_append:
  assumes "keeps_list key F xs" "Suc (length xs) < 4294967296"
  shows "keeps_list key ((extended key F)(index_key key (list_len key F) := v)) (xs @ [v])"
    "keeps_list key ((extended key (linked key F))(index_key key (list_len key F) := v)) (xs @ [v])"
  using assms by (auto simp: keeps_list_def nth_append of_nat_u32_eq less_Suc_eq)

lemma keeps_update:
  assumes "keeps_list key F xs" "list_len key F' = list_len key F"
    and "\<And>j. F' (index_key key j) = (if j = i then v else F (index_key key j))"
  shows "keeps_list key F' (xs[unat i := v])"
proof -
  have "(of_nat j = i) = (unat i = j)" if "j < length xs" for j
    using that assms(1) unat_of_nat_u32 [of j] by (auto simp: keeps_list_def)
  with assms show ?thesis by (auto simp: keeps_list_def nth_list_update)
qed

lemma keeps_pop:
  assumes "keeps_list key F xs" "xs \<noteq> []"
  shows "keeps_list key (F(len_key key := bv_to u32_view (list_len key F - 1))) (butlast xs)"
    "list_len key F \<noteq> 0" "F (index_key key (list_len key F - 1)) = last xs"
proof -
  have n: "list_len key F = of_nat (length xs)" "length xs < 4294967296" "length xs > 0"
    using assms by (auto simp: keeps_list_def)
  then have pred: "list_len key F - 1 = of_nat (length xs - 1)"
    by (cases "length xs") simp_all
  show "list_len key F \<noteq> 0" using n of_nat_u32_eq [of "length xs" 0] by simp
  show "keeps_list key (F(len_key key := bv_to u32_view (list_len key F - 1))) (butlast xs)"
    "F (index_key key (list_len key F - 1)) = last xs"
    using assms n unfolding pred by (auto simp: keeps_list_def nth_butlast last_conv_nth)
qed

lemma on_list_refines:
  assumes "keeps_list key F xs" "Suc (length xs) < 4294967296"
  shows "answer_of key c F = fst (on_list c xs) \<and> keeps_list key (effect_of key c F) (snd (on_list c xs))"
proof (cases c)
  case Pop
  show ?thesis
  proof (cases "xs = []")
    case True
    with assms(1) Pop show ?thesis by (simp add: keeps_list_def)
  qed (use Pop keeps_pop [OF assms(1)] in simp)
next
  case (DeleteValue i)
  with keeps_update [OF assms(1), of "deleted key i F"] show ?thesis by simp
next
  case (DropIndex i)
  with keeps_update [OF assms(1), of "F(index_key key i := NULLED)"] show ?thesis by simp
next
  case GetList
  with assms(1) show ?thesis by (auto simp: keeps_list_def intro!: nth_equalityI)
next
  case Length
  with assms(1) show ?thesis by (simp add: keeps_list_def)
next
  case (SetNextFor i n)
  with assms(1) show ?thesis by (auto simp: keeps_list_def)
qed (use assms keeps_append in \<open>simp_all del: fun_upd_apply\<close>)

lemma length_on_list: "length (snd (on_list c xs)) \<le> Suc (length xs)"
  by (cases c) auto

lemma on_lists_refine:
  assumes "keeps_list key F xs" "length xs + length cs < 4294967296"
  shows "answers_of key cs F = fst (on_lists cs xs) \<and> keeps_list key (effects_of key cs F) (snd (on_lists cs xs))"
  using assms
proof (induction cs arbitrary: F xs)
  case (Cons c cs)
  have "keeps_list key (effect_of key c F) (snd (on_list c xs))" "answer_of key c F = fst (on_list c xs)"
    using on_list_refines [OF Cons.prems(1), of c] Cons.prems(2) by simp_all
  moreover have "length (snd (on_list c xs)) + length cs < 4294967296"
    using length_on_list [of c xs] Cons.prems(2) by simp
  ultimately show ?case using Cons.IH [of "effect_of key c F" "snd (on_list c xs)"] by (auto split: prod.splits)
qed simp

section \<open>Typed list calls\<close>

text \<open>What a typed read of a stored value returns; \<open>None\<close> is the panic of \<open>from_bytes\<close>.\<close>

definition read_as :: "'a byte_view \<Rightarrow> bytes \<Rightarrow> 'a option" where
  "read_as V v = (if v = [] then Some (bv_zero V) else bv_from V v)"

lemma map_append_Nil: "map_option ((@) []) r = r"
  by (cases r) simp_all

context pointer_space
begin

text \<open>\<open>outcome p m r F F'\<close>: as \<open>runs\<close> when \<open>r\<close> is a result, and a panic when it is \<open>None\<close>.\<close>

definition outcome :: "'p \<Rightarrow> ('s, 'a) pop \<Rightarrow> 'a option \<Rightarrow> (bytes \<Rightarrow> bytes) \<Rightarrow> (bytes \<Rightarrow> bytes) \<Rightarrow> bool" where
  "outcome p m r F F' \<longleftrightarrow>
     (case r of Some x \<Rightarrow> runs p m x F F' | None \<Rightarrow> \<forall>s. ok p s \<longrightarrow> peek p s = F \<longrightarrow> m s = None)"

lemma outcome_after_run:
  assumes "runs p m x F F1" "outcome p (f x) r F1 F2"
  shows "outcome p (pbind m f) r F F2"
proof (cases r)
  case None
  have "pbind m f s = None" if s: "ok p s" "peek p s = F" for s
  proof -
    obtain s1 where "m s = Some (x, s1)" "ok p s1" "peek p s1 = F1" using assms(1) s unfolding runs_def by blast
    with assms(2) None show ?thesis by (simp add: outcome_def)
  qed
  with None show ?thesis by (simp add: outcome_def)
qed (use assms runs_bind in \<open>auto simp: outcome_def\<close>)

lemma outcome_after_yield:
  assumes "yields p m key F F1" "\<And>q. same p q \<Longrightarrow> p_unwrap I q = key \<Longrightarrow> outcome p (f q) r F1 F2"
  shows "outcome p (pbind m f) r F F2"
proof (cases r)
  case None
  have "pbind m f s = None" if s: "ok p s" "peek p s = F" for s
  proof -
    obtain q s1 where q: "m s = Some (q, s1)" "same p q" "p_unwrap I q = key" "ok p s1" "peek p s1 = F1"
      using assms(1) s unfolding yields_def by blast
    with assms(2) [OF q(2,3)] None show ?thesis by (simp add: outcome_def)
  qed
  with None show ?thesis by (simp add: outcome_def)
next
  case (Some x)
  with assms(2) have "runs p (f q) x F1 F2" if "same p q" "p_unwrap I q = key" for q
    using that by (auto simp: outcome_def)
  then have "runs p (pbind m f) x F F2" by (rule yields_bind [OF assms(1)])
  with Some show ?thesis by (simp add: outcome_def)
qed

lemma outcome_get_value:
  assumes "same p q" "p_unwrap I q = key"
  shows "outcome p (p_get_value I V q) (read_as V (F key)) F F"
  unfolding p_get_value_def
  by (rule outcome_after_run [OF runs_get [OF assms, of F]])
     (auto simp: outcome_def runs_def read_as_def split: option.splits)

lemma outcome_index_value:
  "outcome p (pbind (p_select_index I p i) (p_get_value I V)) (read_as V (F (index_key (p_unwrap I p) i))) F F"
  by (rule outcome_after_yield [OF yields_index]) (rule outcome_get_value)

lemma outcome_collect:
  assumes "\<And>i. outcome p (f (of_nat i)) (g i) F F"
  shows "outcome p (p_collect f js res) (map_option ((@) res) (those (map g js))) F F"
proof (induction js arbitrary: res)
  case (Cons i js)
  show ?case
  proof (cases "g i")
    case None
    then have "\<And>s. ok p s \<Longrightarrow> peek p s = F \<Longrightarrow> f (of_nat i) s = None" using assms [of i] by (simp add: outcome_def)
    with None show ?thesis by (simp add: outcome_def pbind_def)
  next
    case (Some x)
    then have "runs p (f (of_nat i)) x F F" using assms [of i] by (simp add: outcome_def)
    have "outcome p (p_collect f (i # js) res) (map_option ((@) (res @ [x])) (those (map g js))) F F"
      unfolding p_collect.simps by (rule outcome_after_run [OF \<open>runs p (f (of_nat i)) x F F\<close>]) (rule Cons.IH)
    moreover have "map_option ((@) (res @ [x])) (those (map g js)) = map_option ((@) res) (those (map g (i # js)))"
      using Some by (cases "those (map g js)") simp_all
    ultimately show ?thesis by simp
  qed
qed (simp add: outcome_def runs_return)

lemma outcome_get_list_values:
  assumes "typed (p_unwrap I p) F"
  shows "outcome p (p_get_list_values I V p)
    (those (map (\<lambda>i. read_as V (F (index_key (p_unwrap I p) (of_nat i)))) [0..<unat (list_len (p_unwrap I p) F)])) F F"
proof -
  let ?k = "p_unwrap I p" and ?is = "[0..<unat (list_len (p_unwrap I p) F)]"
  have "outcome p (p_collect (\<lambda>i. pbind (p_select_index I p i) (p_get_value I V)) ?is [])
      (map_option ((@) []) (those (map (\<lambda>i. read_as V (F (index_key ?k (of_nat i)))) ?is))) F F"
    by (rule outcome_collect) (rule outcome_index_value)
  then have "outcome p (p_collect (\<lambda>i. pbind (p_select_index I p i) (p_get_value I V)) ?is [])
      (those (map (\<lambda>i. read_as V (F (index_key ?k (of_nat i)))) ?is)) F F" unfolding map_append_Nil .
  then show ?thesis
    unfolding p_get_list_values_def by (rule outcome_after_run [OF runs_length [OF assms]])
qed

lemma outcome_pop_value:
  assumes "typed (p_unwrap I p) F"
  shows "outcome p (p_pop_value I V p)
    (if list_len (p_unwrap I p) F = 0 then bv_from V []
     else read_as V (F (index_key (p_unwrap I p) (list_len (p_unwrap I p) F - 1)))) F
    (if list_len (p_unwrap I p) F = 0 then F
     else F(len_key (p_unwrap I p) := bv_to u32_view (list_len (p_unwrap I p) F - 1)))"
  unfolding p_pop_value_def
proof (rule outcome_after_yield [OF yields_len_key])
  fix q
  assume q: "same p q" "p_unwrap I q = len_key (p_unwrap I p)"
  let ?n = "list_len (p_unwrap I p) F" and ?k = "p_unwrap I p"
  let ?F = "F(len_key ?k := bv_to u32_view (?n - 1))"
  have "cell (F (len_key ?k))" using assms by (simp add: typed_def)
  then have len: "runs p (p_get_value I u32_view q) ?n F F" unfolding list_len_def by (rule runs_get_u32 [OF q])
  have "outcome p (pbind (p_select_index I p (?n - 1)) (p_get_value I V)) (read_as V (F (index_key ?k (?n - 1)))) ?F ?F"
    using outcome_index_value [where F = ?F and p = p and i = "?n - 1" and V = V] by simp
  then have "outcome p (pbind (p_set_value I u32_view q (?n - 1)) (\<lambda>_. pbind (p_select_index I p (?n - 1)) (p_get_value I V)))
      (read_as V (F (index_key ?k (?n - 1)))) F ?F" by (rule outcome_after_run [OF runs_set_u32 [OF q]])
  then show "outcome p (pbind (p_get_value I u32_view q) (\<lambda>len s. if len = 0 then map_option (\<lambda>x. (x, s)) (bv_from V [])
        else pbind (p_set_value I u32_view q (len - 1)) (\<lambda>_. pbind (p_select_index I p (len - 1)) (p_get_value I V)) s))
      (if ?n = 0 then bv_from V [] else read_as V (F (index_key ?k (?n - 1)))) F (if ?n = 0 then F else ?F)"
    by (intro outcome_after_run [OF len]) (auto simp: outcome_def runs_def split: option.splits)
qed

lemma runs_append_value:
  assumes "typed (p_unwrap I p) F"
  shows "runs p (p_append_value I V p v) ()
    F ((extended (p_unwrap I p) F)(index_key (p_unwrap I p) (list_len (p_unwrap I p) F) := bv_to V v))"
  using runs_append [OF assms, of "bv_to V v"] by (simp add: p_append_value_def p_append_def p_set_value_def)

lemma outcome_result: "outcome p m r F F' \<Longrightarrow> ok p s \<Longrightarrow> peek p s = F \<Longrightarrow> map_option fst (m s) = r"
  by (cases r) (fastforce simp: outcome_def runs_def)+

end

section \<open>Linked lists\<close>

text \<open>A linked list of the values \<open>xs\<close>, each entry linked to the one behind it, that starts at \<open>h\<close>.\<close>

definition linked_list :: "bytes \<Rightarrow> (bytes \<Rightarrow> bytes) \<Rightarrow> bytes list \<Rightarrow> nat \<Rightarrow> bool" where
  "linked_list key F xs h \<longleftrightarrow> keeps_list key F xs \<and> u32_of (F (head_key key)) = of_nat h
     \<and> (\<forall>i. next_of key F i = (if unat i + 1 < length xs then i + 1 else 0))"

lemma next_of_updates [simp]:
  "next_of key (F(index_key key i := v)) j = next_of key F j"
  "next_of key (F(len_key key := v)) j = next_of key F j"
  "next_of key (F(head_key key := v)) j = next_of key F j"
  "next_of key (F(next_key key i := bv_to u32_view n)) j = (if j = i then n else next_of key F j)"
  by (simp_all add: next_of_def)

lemma unat_succ_u32: "unat (i :: u32) + 1 < 4294967296 \<Longrightarrow> unat (i + 1) = unat i + 1"
  by (simp add: unat_word_ariths)

lemma linked_append:
  assumes "linked_list key F xs h" "Suc (length xs) < 4294967296"
  shows "linked_list key (effect_of key (AppendLinked v) F) (xs @ [v]) h"
proof -
  let ?F = "(extended key (linked key F))(index_key key (list_len key F) := v)"
  have keeps: "keeps_list key F xs" using assms(1) by (simp add: linked_list_def)
  then have n: "list_len key F = of_nat (length xs)" by (simp add: keeps_list_def)
  have "next_of key ?F i = (if unat i + 1 < length (xs @ [v]) then i + 1 else 0)" for i
  proof (cases "xs = []")
    case True
    with assms(1) n show ?thesis by (simp add: linked_list_def extended_def linked_def)
  next
    case False
    then have "(of_nat (length xs) :: u32) > 0"
      using assms(2) of_nat_u32_eq [of "length xs" 0] by (simp add: word_gt_0)
    then have next1: "next_of key ?F i = (if i = of_nat (length xs) - 1 then of_nat (length xs) else next_of key F i)"
      by (simp add: extended_def linked_def n)
    have pred: "of_nat (length xs) - 1 = (of_nat (length xs - 1) :: u32)" using False by (cases "length xs") simp_all
    have "length xs - 1 < 4294967296" using assms(2) by simp
    then have "i = of_nat (length xs - 1) \<longleftrightarrow> unat i = length xs - 1"
      by (metis unat_of_nat_u32 unsigned_word_eqI)
    moreover have "of_nat (length xs - 1) + 1 = (of_nat (length xs) :: u32)" using False by (cases "length xs") simp_all
    ultimately show ?thesis
      using assms(1) False unfolding next1 pred by (auto simp: linked_list_def)
  qed
  moreover have "?F (head_key key) = F (head_key key)" by (simp add: extended_def linked_def)
  ultimately show ?thesis
    using keeps_append(2) [OF keeps assms(2)] assms(1) by (simp add: linked_list_def del: fun_upd_apply)
qed

lemma linked_appends:
  "linked_list key F xs h \<Longrightarrow> length xs + length vs < 4294967296
   \<Longrightarrow> linked_list key (effects_of key (map AppendLinked vs) F) (xs @ vs) h"
proof (induction vs arbitrary: F xs)
  case (Cons v vs)
  have "linked_list key (effect_of key (AppendLinked v) F) (xs @ [v]) h"
    using Cons.prems by (intro linked_append) simp_all
  then show ?case
    using Cons.IH [of "effect_of key (AppendLinked v) F" "xs @ [v]"] Cons.prems(2) by (simp del: fun_upd_apply)
qed simp

text \<open>Deleting the first entry moves the head to the next one, or to 0 when there is none.\<close>

lemma linked_delete_head:
  assumes "linked_list key F xs h" "h < length xs"
  shows "linked_list key (effect_of key (DeleteValue (of_nat h)) F) (xs[h := NULLED])
    (if Suc h < length xs then Suc h else 0)"
proof -
  have keeps: "keeps_list key F xs" and hd: "u32_of (F (head_key key)) = of_nat h"
      and nexts: "\<And>i. next_of key F i = (if unat i + 1 < length xs then i + 1 else 0)"
    using assms(1) by (auto simp: linked_list_def)
  have h: "unat (of_nat h :: u32) = h" using keeps assms(2) by (simp add: keeps_list_def)
  let ?F = "deleted key (of_nat h) F"
  have F: "?F = F(head_key key := bv_to u32_view (next_of key F (of_nat h)),
      index_key key (of_nat h) := NULLED)"
    by (simp add: deleted_def hd)
  have "keeps_list key ?F (xs[unat (of_nat h :: u32) := NULLED])"
    by (rule keeps_update [OF keeps]) simp_all
  moreover have "u32_of (?F (head_key key)) = of_nat (if Suc h < length xs then Suc h else 0)"
    by (simp add: F nexts h)
  moreover have "next_of key ?F i = next_of key F i" for i by (simp add: F)
  ultimately show ?thesis by (simp add: linked_list_def nexts h)
qed

lemma linked_delete_front:
  assumes "linked_list key F xs 0" "k \<le> length xs"
  shows "linked_list key (effects_of key (map (\<lambda>i. DeleteValue (of_nat i)) [0..<k]) F)
    (replicate k NULLED @ drop k xs) (if k < length xs then k else 0)"
  using assms(2)
proof (induction k)
  case 0
  with assms(1) show ?case by (cases xs) simp_all
next
  case (Suc k)
  let ?xs = "replicate k NULLED @ drop k xs"
  have "?xs[k := NULLED] = replicate (Suc k) NULLED @ drop (Suc k) xs"
    using Suc.prems by (simp add: list_update_append Cons_nth_drop_Suc [symmetric] replicate_append_same)
  with linked_delete_head [of key _ ?xs k] Suc show ?case by (simp add: effects_append)
qed

lemma walk_linked:
  assumes "linked_list key F xs h" "i < length xs"
  shows "walk key F (list_len key F) (of_nat i) (map of_nat [i..<length xs])"
  using assms(2)
proof (induction "length xs - i" arbitrary: i)
  case (Suc d)
  have n: "list_len key F = of_nat (length xs)" "length xs < 4294967296"
      and nexts: "\<And>i. next_of key F i = (if unat i + 1 < length xs then i + 1 else 0)"
    using assms(1) by (auto simp: linked_list_def keeps_list_def)
  have i: "unat (of_nat i :: u32) = i" using Suc.prems n by simp
  have lt: "of_nat i < list_len key F" using i Suc.prems n by (simp add: word_less_nat_alt)
  show ?case
  proof (cases "Suc i < length xs")
    case True
    have nxt: "next_of key F (of_nat i) = of_nat (Suc i)" using True by (simp add: nexts i)
    have "next_of key F (of_nat i) \<noteq> 0"
      unfolding nxt using True n of_nat_u32_eq [of "Suc i" 0] by simp
    moreover have "walk key F (list_len key F) (of_nat (Suc i)) (map of_nat [Suc i..<length xs])"
      using Suc.hyps True by (metis Suc_diff_Suc Suc_inject Suc.prems)
    ultimately show ?thesis
      using walk.onwards [where key = key and F = F, OF lt, where js = "map of_nat [Suc i..<length xs]"] Suc.prems unfolding nxt
      by (simp add: upt_conv_Cons del: of_nat_Suc)
  next
    case False
    then have "length xs = Suc i" using Suc.prems by simp
    then show ?thesis using walk.last_one [OF lt] False by (simp add: nexts i)
  qed
qed simp

context pointer_space
begin

lemma runs_map_ll_get:
  assumes "typed (p_unwrap I p) F" "linked_list (p_unwrap I p) F xs h" "h < length xs \<or> xs = []"
  shows "runs p (p_map_ll I p (\<lambda>item _. p_get I item)) (drop h xs) F F"
proof -
  let ?key = "p_unwrap I p"
  have keeps: "keeps_list ?key F xs" and hd: "u32_of (F (head_key ?key)) = of_nat h"
    using assms(2) by (auto simp: linked_list_def)
  have "walk ?key F (list_len ?key F) (u32_of (F (head_key ?key))) (map of_nat [h..<length xs])"
  proof (cases "xs = []")
    case True
    then show ?thesis using keeps walk.beyond [where i = "of_nat h" and len = 0] by (simp add: hd keeps_list_def)
  qed (use walk_linked [OF assms(2)] assms(3) hd in simp)
  then have "runs p (p_map_ll I p (\<lambda>item _. p_get I item))
      (map (\<lambda>i. F (index_key ?key i)) (map of_nat [h..<length xs])) F F"
    by (rule runs_map_ll [OF assms(1)]) (rule runs_get)
  moreover have "map (\<lambda>i. F (index_key ?key i)) (map of_nat [h..<length xs]) = drop h xs"
    using keeps by (intro nth_equalityI) (simp_all add: keeps_list_def del: of_nat_add)
  ultimately show ?thesis by simp
qed

end

section \<open>Checkpoints\<close>

text \<open>
  What callers do with checkpoints: set values through derived pointers, and run a group of
  such steps between a checkpoint and its commit or rollback.
\<close>

datatype tx = TxSet bytes bytes | TxCommit "tx list" | TxRollback "tx list"

fun run_tx :: "(checkpoint \<Rightarrow> (bytes \<times> bytes) list) \<Rightarrow> atomic_pointer \<Rightarrow> tx \<Rightarrow> (guest, unit) pop"
  and run_txs :: "(checkpoint \<Rightarrow> (bytes \<times> bytes) list) \<Rightarrow> atomic_pointer \<Rightarrow> tx list \<Rightarrow> (guest, unit) pop" where
  "run_tx order p (TxSet key v) = ap_set (ap_derive p key) v"
| "run_tx order p (TxCommit ts) =
     pbind (ap_checkpoint p) (\<lambda>_. pbind (run_txs order p ts) (\<lambda>_. ap_commit order p))"
| "run_tx order p (TxRollback ts) =
     pbind (ap_checkpoint p) (\<lambda>_. pbind (run_txs order p ts) (\<lambda>_. ap_rollback p))"
| "run_txs order p [] = preturn ()"
| "run_txs order p (t # ts) = pbind (run_tx order p t) (\<lambda>_. run_txs order p ts)"

text \<open>Their meaning as nested transactions.\<close>

fun tx_meaning :: "tx \<Rightarrow> (bytes \<Rightarrow> bytes) \<Rightarrow> bytes \<Rightarrow> bytes"
  and txs_meaning :: "tx list \<Rightarrow> (bytes \<Rightarrow> bytes) \<Rightarrow> bytes \<Rightarrow> bytes" where
  "tx_meaning (TxSet key v) F = F(key := v)"
| "tx_meaning (TxCommit ts) F = txs_meaning ts F"
| "tx_meaning (TxRollback ts) F = F"
| "txs_meaning [] F = F"
| "txs_meaning (t # ts) F = txs_meaning ts (tx_meaning t F)"

definition over :: "checkpoint \<Rightarrow> (bytes \<Rightarrow> bytes) \<Rightarrow> bytes \<Rightarrow> bytes" where
  "over m F = (\<lambda>key. case m key of Some x \<Rightarrow> x | None \<Rightarrow> F key)"

lemma over_simps [simp]:
  "over Map.empty F = F" "over (m(key \<mapsto> v)) F = (over m F)(key := v)" "over (m ++ n) F = over n (over m F)"
  by (auto simp: over_def fun_eq_iff map_add_def split: option.splits)

lemma ap_view_over: "ap_view stored_at p s = over (stack_view (stack_of p s)) (core_view stored_at (gu_core s))"
  by (simp add: ap_view_def over_def fun_eq_iff)

lemma put_stack_twice [simp]: "put_stack p st' (put_stack p st s) = put_stack p st' s"
  by (simp add: put_stack_def)

lemma put_stack_same [simp]: "put_stack p (stack_of p s) s = s"
  by (simp add: put_stack_def stack_of_def)

text \<open>A group of steps works on the last checkpoint and leaves the rest of the state alone.\<close>

lemma run_tx_top:
  "ap_store p < length (gu_stacks s) \<Longrightarrow> stack_of p s = st @ [m] \<Longrightarrow> finite (dom m)
   \<Longrightarrow> \<exists>m'. run_tx order p t s = Some ((), put_stack p (st @ [m']) s) \<and> finite (dom m')
     \<and> (\<forall>F. over m' F = tx_meaning t (over m F))"
  "ap_store p < length (gu_stacks s) \<Longrightarrow> stack_of p s = st @ [m] \<Longrightarrow> finite (dom m)
   \<Longrightarrow> \<exists>m'. run_txs order p ts s = Some ((), put_stack p (st @ [m']) s) \<and> finite (dom m')
     \<and> (\<forall>F. over m' F = txs_meaning ts (over m F))"
proof (induction order p t and order p ts arbitrary: s st m and s st m rule: run_tx_run_txs.induct)
  case (1 order p key v)
  have "stack_of (ap_derive p key) s = st @ [m]" "put_stack (ap_derive p key) = put_stack p" "ap_pointer (ap_derive p key) = key"
    using "1.prems"(2) by (simp_all add: stack_of_def put_stack_def ap_derive_def fun_eq_iff)
  then have "run_tx order p (TxSet key v) s = Some ((), put_stack p (st @ [m(key \<mapsto> v)]) s)"
    by (simp add: ap_set_def)
  then show ?case using "1.prems"(3) by (intro exI [of _ "m(key \<mapsto> v)"]) (simp del: fun_upd_apply)
next
  case (2 order p ts)
  let ?s = "put_stack p ((st @ [m]) @ [Map.empty]) s"
  obtain m' where m': "run_txs order p ts ?s = Some ((), put_stack p ((st @ [m]) @ [m']) ?s)" "finite (dom m')"
      "\<forall>F. over m' F = txs_meaning ts (over Map.empty F)"
    using "2.IH" [of ?s "st @ [m]" Map.empty] "2.prems" by auto
  then have "run_tx order p (TxCommit ts) s = Some ((), put_stack p (st @ [m ++ m']) s)"
    using "2.prems" by (simp add: ap_checkpoint_def ap_commit_def pipe_to_def pbind_def)
  with m' show ?case using "2.prems"(3) by (intro exI [of _ "m ++ m'"]) simp
next
  case (3 order p ts)
  let ?s = "put_stack p ((st @ [m]) @ [Map.empty]) s"
  obtain m' where "run_txs order p ts ?s = Some ((), put_stack p ((st @ [m]) @ [m']) ?s)"
    using "3.IH" [of ?s "st @ [m]" Map.empty] "3.prems" by auto
  then have "run_tx order p (TxRollback ts) s = Some ((), put_stack p (st @ [m]) s)"
    using "3.prems" by (simp add: ap_checkpoint_def ap_rollback_def pbind_def butlast_append)
  then show ?case using "3.prems"(3) by (intro exI [of _ m]) simp
next
  case (4 order p)
  then show ?case by (intro exI [of _ m]) (metis put_stack_same run_txs.simps(1) preturn_app txs_meaning.simps(1))
next
  case (5 order p t ts)
  obtain m1 where m1: "run_tx order p t s = Some ((), put_stack p (st @ [m1]) s)" "finite (dom m1)"
      "\<forall>F. over m1 F = tx_meaning t (over m F)"
    using "5.IH"(1) [OF "5.prems"] by blast
  let ?s = "put_stack p (st @ [m1]) s"
  obtain m2 where "run_txs order p ts ?s = Some ((), put_stack p (st @ [m2]) ?s)" "finite (dom m2)"
      "\<forall>F. over m2 F = txs_meaning ts (over m1 F)"
    using "5.IH"(2) [of ?s st m1] m1(2) "5.prems"(1) by auto
  with m1 show ?case by (intro exI [of _ m2]) simp
qed

text \<open>A commit at depth 1 hands a checkpoint to the library.\<close>

definition iterates :: "(checkpoint \<Rightarrow> (bytes \<times> bytes) list) \<Rightarrow> bool" where
  "iterates order \<longleftrightarrow> (\<forall>m. finite (dom m) \<longrightarrow> distinct (map fst (order m)) \<and> map_of (order m) = m)"

lemma core_view_sets:
  "distinct (map fst kvs)
   \<Longrightarrow> core_view stored_at (fold (\<lambda>(k, v). core_set k v) kvs c) = over (map_of kvs) (core_view stored_at c)"
proof (induction kvs arbitrary: c)
  case (Cons kv kvs)
  obtain k v where kv: "kv = (k, v)" by (rule prod.exhaust)
  with Cons.prems have "map_of kvs k = None" by (simp add: map_of_eq_None_iff)
  then have "over (map_of kvs) ((core_view stored_at c)(k := v)) = (over (map_of kvs) (core_view stored_at c))(k := v)"
    by (auto simp: over_def fun_eq_iff split: option.splits)
  with Cons kv show ?case by (simp del: fun_upd_apply)
qed simp

lemma commit_to_library:
  assumes "iterates order" "stack_of p s = [m]" "finite (dom m)"
  shows "\<exists>c. ap_commit order p s = Some ((), s\<lparr>gu_core := c\<rparr>) \<and> core_view stored_at c = ap_view stored_at p s"
proof -
  let ?c = "fold (\<lambda>(k, v). core_set k v) (order m) (gu_core s)"
  have "ap_commit order p s = Some ((), s\<lparr>gu_core := ?c\<rparr>)" by (simp add: ap_commit_def assms(2))
  moreover have "core_view stored_at ?c = ap_view stored_at p s"
    using assms by (simp add: iterates_def core_view_sets ap_view_over stack_view_def)
  ultimately show ?thesis by blast
qed

section \<open>Properties\<close>

lemma atomic_unwrap [simp]: "p_unwrap (atomic_pointer_ops stored_at) p = ap_pointer p"
  by (simp add: atomic_pointer_ops_def)

lemma atomic_get [simp]: "p_get (atomic_pointer_ops stored_at) p = ap_get stored_at p"
  by (simp add: atomic_pointer_ops_def)

lemma atomic_list_methods:
  assumes "ap_ok p s" "typed (ap_pointer p) (ap_view stored_at p s)"
  shows "\<exists>s'. list_methods (atomic_pointer_ops stored_at) p cs s
      = Some (answers_of (ap_pointer p) cs (ap_view stored_at p s), s')
    \<and> ap_ok p s' \<and> ap_view stored_at p s' = effects_of (ap_pointer p) cs (ap_view stored_at p s)"
  using ap.runs_list_methods [where p = p and F = "ap_view stored_at p s"] assms unfolding ap.runs_def by simp

lemma atomic_typed_calls:
  assumes "ap_ok p s" "typed (ap_pointer p) (ap_view stored_at p s)"
  defines "F \<equiv> ap_view stored_at p s" and "key \<equiv> ap_pointer p"
  shows "p_append_value (atomic_pointer_ops stored_at) V p v s \<noteq> None"
    "map_option fst (p_pop_value (atomic_pointer_ops stored_at) V p s)
       = (if list_len key F = 0 then bv_from V [] else read_as V (F (index_key key (list_len key F - 1))))"
    "map_option fst (p_get_list_values (atomic_pointer_ops stored_at) V p s)
       = those (map (\<lambda>i. read_as V (F (index_key key (of_nat i)))) [0..<unat (list_len key F)])"
  using ap.runs_append_value [where p = p and F = F and V = V and v = v] assms(1,2)
    ap.outcome_result [OF ap.outcome_pop_value [where p = p and F = F and V = V]]
    ap.outcome_result [OF ap.outcome_get_list_values [where p = p and F = F and V = V]]
  unfolding ap.runs_def F_def key_def by fastforce+

lemma atomic_map_ll:
  assumes "ap_ok p s" "typed (ap_pointer p) (ap_view stored_at p s)"
    and "linked_list (ap_pointer p) (ap_view stored_at p s) xs h" "h < length xs \<or> xs = []"
  shows "\<exists>s'. p_map_ll (atomic_pointer_ops stored_at) p (\<lambda>item _. ap_get stored_at item) s = Some (drop h xs, s')"
  using ap.runs_map_ll_get [where p = p and F = "ap_view stored_at p s"] assms unfolding ap.runs_def by fastforce

text \<open>A guest that has not started, with one stack of checkpoints, and a pointer into it.\<close>

definition sample_guest :: guest where
  "sample_guest = \<lparr>gu_core = core_start, gu_stacks = [[Map.empty]]\<rparr>"

definition sample_pointer :: atomic_pointer where
  "sample_pointer = \<lparr>ap_pointer = ''/list'', ap_store = 0\<rparr>"

lemma sample_pointer_ok: "ap_ok sample_pointer sample_guest"
  "ap_view (\<lambda>_. []) sample_pointer sample_guest = (\<lambda>_. [])" "stack_of sample_pointer sample_guest = [Map.empty]"
  by (simp_all add: ap_ok_def ap_view_def stack_of_def sample_pointer_def sample_guest_def core_view_def
      core_start_def fun_eq_iff stack_view_def)

text \<open>
  C35: which list calls can panic. From a state in which the length, head and next cells
  under a pointer are absent or four bytes long, no sequence of \<open>append\<close>, \<open>append_ll\<close>, \<open>pop\<close>,
  \<open>delete_value\<close>, \<open>drop_index\<close>, \<open>set_next_for\<close>, \<open>length\<close> and \<open>get_list\<close> panics, and the cells
  are well typed again. Of the typed calls on the state it leads to, at any integer type,
  \<open>append_value\<close> never panics; \<open>pop_value\<close> panics on the empty list and on a last entry of
  another width (a nulled one, for every type but \<open>u8\<close>), and otherwise returns that entry;
  \<open>get_list_values\<close> returns the entries, absent ones as zero, and panics exactly when one has
  another width.
\<close>

theorem list_calls_panic_exactly:
  assumes "ap_ok p s" "typed (ap_pointer p) (ap_view stored_at p s)" "byte_view V width"
  shows "\<exists>rs s'. list_methods (atomic_pointer_ops stored_at) p cs s = Some (rs, s') \<and> length rs = length cs
    \<and> ap_ok p s' \<and> typed (ap_pointer p) (ap_view stored_at p s')
    \<and> (let key = ap_pointer p; F = ap_view stored_at p s'; n = list_len key F in
         p_append_value (atomic_pointer_ops stored_at) V p v s' \<noteq> None
       \<and> map_option fst (p_pop_value (atomic_pointer_ops stored_at) V p s')
           = (if n = 0 then None else read_as V (F (index_key key (n - 1))))
       \<and> map_option fst (p_get_list_values (atomic_pointer_ops stored_at) V p s')
           = those (map (\<lambda>i. read_as V (F (index_key key (of_nat i)))) [0..<unat n]))"
proof -
  obtain s' where s': "list_methods (atomic_pointer_ops stored_at) p cs s
      = Some (answers_of (ap_pointer p) cs (ap_view stored_at p s), s')"
      "ap_ok p s'" "ap_view stored_at p s' = effects_of (ap_pointer p) cs (ap_view stored_at p s)"
    using atomic_list_methods [OF assms(1,2)] by blast
  let ?F = "ap_view stored_at p s'"
  have t: "typed (ap_pointer p) ?F" using typed_effects [OF assms(2)] s'(3) by simp
  have none: "bv_from V [] = None"
    using byte_view.from_length [OF assms(3)] byte_view.positive [OF assms(3)] by simp
  note calls = atomic_typed_calls [OF s'(2) t, of V]
  show ?thesis using s'(1,2) t calls none by (auto simp: Let_def)
qed

lemma typed_empty: "typed key (\<lambda>_. [])"
  by (simp add: typed_def cell_def)

theorem list_calls_panic_exactly_witness:
  "\<exists>rs s'. list_methods (atomic_pointer_ops (\<lambda>_. [])) sample_pointer [Pop, DeleteValue 7, Append ''v'', Pop] sample_guest
     = Some (rs, s') \<and> length rs = 4 \<and> p_append_value (atomic_pointer_ops (\<lambda>_. [])) u64_view sample_pointer 5 s' \<noteq> None"
  using list_calls_panic_exactly [where cs = "[Pop, DeleteValue 7, Append ''v'', Pop]" and v = 5,
      OF sample_pointer_ok(1) _ u64.byte_view_axioms, of "\<lambda>_. []"]
  by (auto simp: sample_pointer_ok typed_empty Let_def)

text \<open>
  C34: the list methods implement a list. Whatever sequence of calls is made on a pointer
  that keeps the list \<open>xs\<close>, below however many checkpoints, the replies are those of the
  operations on \<open>xs\<close>, and the pointer then keeps the list they lead to: \<open>append\<close> adds at the
  end, \<open>pop\<close> removes and returns the last value and answers the empty value on the empty
  list, and a deleted or dropped entry is nulled and keeps its index. The one bound is the
  code's 32-bit length.
\<close>

theorem list_methods_implement_list:
  assumes "ap_ok p s" "typed (ap_pointer p) (ap_view stored_at p s)"
    and "keeps_list (ap_pointer p) (ap_view stored_at p s) xs" "length xs + length cs < 4294967296"
  shows "\<exists>s'. list_methods (atomic_pointer_ops stored_at) p cs s = Some (fst (on_lists cs xs), s')
    \<and> keeps_list (ap_pointer p) (ap_view stored_at p s') (snd (on_lists cs xs))"
proof -
  obtain s' where "list_methods (atomic_pointer_ops stored_at) p cs s
      = Some (answers_of (ap_pointer p) cs (ap_view stored_at p s), s')"
      "ap_view stored_at p s' = effects_of (ap_pointer p) cs (ap_view stored_at p s)"
    using atomic_list_methods [OF assms(1,2)] by blast
  with on_lists_refine [OF assms(3,4)] show ?thesis by simp
qed

lemma keeps_empty: "keeps_list key (\<lambda>_. []) []"
  by (simp add: keeps_list_def list_len_def u32_of_def)

theorem list_methods_implement_list_witness:
  "\<exists>s'. list_methods (atomic_pointer_ops (\<lambda>_. [])) sample_pointer
       [Append ''a'', Append ''b'', DropIndex 0, GetList, Pop, Length, Pop, Pop] sample_guest
     = Some ([Silent, Silent, Silent, Entries [NULLED, ''b''], Bytes ''b'', Number 1, Bytes NULLED, Bytes []], s')"
  using list_methods_implement_list [where xs = "[]" and stored_at = "\<lambda>_. []"
      and cs = "[Append ''a'', Append ''b'', DropIndex 0, GetList, Pop, Length, Pop, Pop]", OF sample_pointer_ok(1)]
  by (auto simp: sample_pointer_ok typed_empty keeps_empty)

text \<open>
  C33: checkpoints are nested transactions. A sequence of writes, committed groups and
  rolled-back groups, nested to any depth, runs to its end; the pointer then sees exactly
  the writes that no rollback undid, at the depth it started from, and neither the library's
  cache and flush queue nor another stack of checkpoints has changed. A commit at depth 1
  then makes what the pointer sees what the library answers.
\<close>

theorem checkpoints_are_transactions:
  assumes "ap_store p < length (gu_stacks s)" "stack_of p s = st @ [m]" "finite (dom m)" "iterates order"
  shows "\<exists>s'. run_txs order p ts s = Some ((), s') \<and> gu_core s' = gu_core s
    \<and> checkpoint_depth p s' = checkpoint_depth p s
    \<and> (\<forall>i. i \<noteq> ap_store p \<longrightarrow> gu_stacks s' ! i = gu_stacks s ! i)
    \<and> ap_view stored_at p s' = txs_meaning ts (ap_view stored_at p s)
    \<and> (checkpoint_depth p s = 1 \<longrightarrow> (\<exists>c. ap_commit order p s' = Some ((), s'\<lparr>gu_core := c\<rparr>)
         \<and> core_view stored_at c = txs_meaning ts (ap_view stored_at p s)))"
proof -
  obtain m' where m': "run_txs order p ts s = Some ((), put_stack p (st @ [m']) s)" "finite (dom m')"
      "\<forall>F. over m' F = txs_meaning ts (over m F)"
    using run_tx_top(2) [OF assms(1-3)] by blast
  let ?s = "put_stack p (st @ [m']) s"
  have stack: "stack_of p ?s = st @ [m']" using assms(1) by simp
  have view: "ap_view stored_at p ?s = txs_meaning ts (ap_view stored_at p s)"
    unfolding ap_view_over stack assms(2) by (simp add: m'(3))
  have "\<exists>c. ap_commit order p ?s = Some ((), ?s\<lparr>gu_core := c\<rparr>) \<and> core_view stored_at c = ap_view stored_at p ?s"
    if "checkpoint_depth p s = 1"
  proof (rule commit_to_library [OF assms(4) _ m'(2)])
    show "stack_of p ?s = [m']" using that assms(2) stack by (simp add: checkpoint_depth_def depth_def)
  qed
  with m'(1) view stack assms(1,2) show ?thesis
    by (intro exI [of _ ?s]) (auto simp: checkpoint_depth_def depth_def put_stack_def)
qed

definition by_key :: "checkpoint \<Rightarrow> (bytes \<times> bytes) list" where
  "by_key m = map (\<lambda>k. (k, the (m k))) (sorted_list_of_set (dom m))"

lemma by_key_iterates: "iterates by_key"
  unfolding iterates_def
proof (intro allI impI conjI)
  fix m :: checkpoint
  assume fin: "finite (dom m)"
  then show "distinct (map fst (by_key m))" by (simp add: by_key_def comp_def)
  show "map_of (by_key m) = m"
    using fin by (fastforce simp: by_key_def map_of_map_restrict [where f = "\<lambda>k. the (m k)"] fun_eq_iff restrict_map_def
      domIff)
qed

theorem checkpoints_are_transactions_witness:
  "\<exists>s'. run_txs by_key sample_pointer
       [TxSet ''k'' ''1'', TxRollback [TxSet ''k'' ''2'', TxCommit [TxSet ''l'' ''3'']], TxCommit [TxSet ''m'' ''4'']]
       sample_guest = Some ((), s')
     \<and> ap_view (\<lambda>_. []) sample_pointer s' ''k'' = ''1'' \<and> ap_view (\<lambda>_. []) sample_pointer s' ''l'' = []
     \<and> ap_view (\<lambda>_. []) sample_pointer s' ''m'' = ''4''"
proof -
  have "ap_store sample_pointer < length (gu_stacks sample_guest)" by (simp add: sample_pointer_def sample_guest_def)
  from checkpoints_are_transactions [where m = Map.empty and st = "[]" and stored_at = "\<lambda>_. []"
      and ts = "[TxSet ''k'' ''1'', TxRollback [TxSet ''k'' ''2'', TxCommit [TxSet ''l'' ''3'']], TxCommit [TxSet ''m'' ''4'']]",
      OF this _ _ by_key_iterates]
  show ?thesis by (force simp: sample_pointer_ok)
qed

text \<open>
  C36: iterating a linked list after deletions from its front. \<open>append_ll\<close> links the values,
  and \<open>map_ll\<close> visits what is left after the first \<open>k\<close> are deleted, as long as one is left.
  When all of them are deleted, the head is 0 again, which is an index of the list: the
  iteration starts over and visits every deleted entry, each with the nulled value.
\<close>

theorem emptied_linked_list_returns:
  assumes "ap_ok p s" "\<forall>key. ap_view stored_at p s key = []" "length vs < 4294967296" "k \<le> length vs"
  shows "\<exists>rs s1 s2. list_methods (atomic_pointer_ops stored_at) p
        (map AppendLinked vs @ map (\<lambda>i. DeleteValue (of_nat i)) [0..<k]) s = Some (rs, s1)
    \<and> p_map_ll (atomic_pointer_ops stored_at) p (\<lambda>item _. ap_get stored_at item) s1
        = Some (if k < length vs then drop k vs else replicate (length vs) NULLED, s2)"
proof -
  let ?key = "ap_pointer p" and ?F = "ap_view stored_at p s"
  let ?cs = "map AppendLinked vs @ map (\<lambda>i. DeleteValue (of_nat i)) [0..<k]"
  let ?xs = "replicate k NULLED @ drop k vs" and ?h = "if k < length vs then k else 0"
  have F: "?F = (\<lambda>_. [])" using assms(2) by (simp add: fun_eq_iff)
  have typed: "typed ?key ?F" unfolding F by (rule typed_empty)
  obtain rs s1 where s1: "list_methods (atomic_pointer_ops stored_at) p ?cs s = Some (rs, s1)" "ap_ok p s1"
      "ap_view stored_at p s1 = effects_of ?key ?cs ?F"
    using atomic_list_methods [OF assms(1) typed] by blast
  have "linked_list ?key ?F [] 0"
    unfolding F linked_list_def using keeps_empty by (simp add: next_of_def u32_of_def)
  then have "linked_list ?key (effects_of ?key (map AppendLinked vs) ?F) vs 0"
    using linked_appends [of ?key ?F "[]" 0 vs] assms(3) by simp
  from linked_delete_front [OF this assms(4)]
  have "linked_list ?key (ap_view stored_at p s1) ?xs ?h" by (simp add: s1(3) effects_append)
  moreover have "typed ?key (ap_view stored_at p s1)" unfolding s1(3) by (rule typed_effects [OF typed])
  moreover have "?h < length ?xs \<or> ?xs = []" using assms(4) by auto
  ultimately obtain s2 where "p_map_ll (atomic_pointer_ops stored_at) p (\<lambda>item _. ap_get stored_at item) s1
      = Some (drop ?h ?xs, s2)"
    using atomic_map_ll [OF s1(2)] by blast
  with s1(1) assms(4) show ?thesis by auto
qed

theorem emptied_linked_list_returns_witness:
  "\<exists>rs s1 s2. list_methods (atomic_pointer_ops (\<lambda>_. [])) sample_pointer
        [AppendLinked ''a'', AppendLinked ''b'', DeleteValue 0, DeleteValue 1] sample_guest = Some (rs, s1)
    \<and> p_map_ll (atomic_pointer_ops (\<lambda>_. [])) sample_pointer (\<lambda>item _. ap_get (\<lambda>_. []) item) s1
        = Some ([NULLED, NULLED], s2)"
  using emptied_linked_list_returns [where vs = "[''a'', ''b'']" and k = 2 and stored_at = "\<lambda>_. []",
      OF sample_pointer_ok(1)]
  by (simp add: sample_pointer_ok upt_conv_Cons numeral_2_eq_2)

end
