(* ===== verification/Validator.thy ===== *)
theory Validator
  imports SyncEngine ByteView
begin

text \<open>
  Chain-validation policies, \<open>crates/metashrew-validator-core\<close>: the encoding of requests and
  verdicts (\<open>src/wire.rs\<close>), the policies that \<open>--spv-type\<close> selects and the built-in
  validators (\<open>src/lib.rs\<close>). SHA-256, the \<open>hex\<close> crate, the networks of the \<open>bitcoin\<close> crate
  (their names and genesis hashes) and \<open>Debug\<close> for strings are parameters. A 32-byte array
  is a byte string whose length is 32 in a well-formed request; a \<open>String\<close> is its UTF-8 bytes.
\<close>

unbundle bit_operations_syntax

section \<open>Requests and verdicts on the wire\<close>

definition WIRE_VERSION :: byte where
  "WIRE_VERSION = char_of (1 :: nat)"

record verdict =
  accepted :: bool
  reason :: string

definition verdict_accept :: verdict where
  "verdict_accept = \<lparr>accepted = True, reason = ''''\<rparr>"

definition verdict_reject :: "string \<Rightarrow> verdict" where
  "verdict_reject why = \<lparr>accepted = False, reason = why\<rparr>"

definition flag_byte :: "bool \<Rightarrow> byte" where
  "flag_byte b = (if b then char_of (1 :: nat) else char_of (0 :: nat))"

definition encode_request :: "validation_request \<Rightarrow> bytes" where
  "encode_request r =
     [WIRE_VERSION] @ le_bytes 4 (req_height r) @ [flag_byte (req_prev_hash r \<noteq> None)]
     @ req_claimed_hash r @ le_bytes 4 (length (req_header r)) @ req_header r
     @ (case req_prev_hash r of Some p \<Rightarrow> p | None \<Rightarrow> [])"

text \<open>\<open>take\<close>: the next \<open>n\<close> bytes, when they are there.\<close>

definition take_at :: "bytes \<Rightarrow> nat \<Rightarrow> nat \<Rightarrow> bytes option" where
  "take_at b at n = (if at + n \<le> length b then Some (take n (drop at b)) else None)"

definition decode_request :: "bytes \<Rightarrow> validation_request option" where
  "decode_request b =
     Option.bind (take_at b 0 1) (\<lambda>version.
     if version ! 0 \<noteq> WIRE_VERSION then None else
     Option.bind (take_at b 1 4) (\<lambda>h.
     Option.bind (take_at b 5 1) (\<lambda>flags.
     let has_prev = flags ! 0 = char_of (1 :: nat) in
     Option.bind (take_at b 6 32) (\<lambda>claimed_hash.
     Option.bind (take_at b 38 4) (\<lambda>len.
     let header_len = from_le len in
     if header_len > length b then None else
     Option.bind (take_at b 42 header_len) (\<lambda>header.
     map_option (\<lambda>prev_hash. \<lparr>req_height = from_le h, req_header = header,
         req_claimed_hash = claimed_hash, req_prev_hash = prev_hash\<rparr>)
       (if has_prev then map_option Some (take_at b (42 + header_len) 32) else Some None)))))))"

definition encode_verdict :: "verdict \<Rightarrow> bytes" where
  "encode_verdict v =
     [WIRE_VERSION, flag_byte (accepted v)] @ le_bytes 4 (length (reason v)) @ reason v"

definition decode_verdict :: "bytes \<Rightarrow> verdict option" where
  "decode_verdict b =
     (if length b < 6 \<or> b ! 0 \<noteq> WIRE_VERSION then None
      else map_option (\<lambda>why. \<lparr>accepted = (b ! 1 = char_of (1 :: nat)), reason = utf8_lossy why\<rparr>)
             (take_at b 6 (from_le (take 4 (drop 2 b)))))"

section \<open>Policies\<close>

datatype network = Bitcoin | Testnet | Signet | Regtest

datatype policy =
    Bitcoin_policy network
  | AuxPow
  | Continuity
  | Custom string

definition parse_policy :: "(string \<Rightarrow> string) \<Rightarrow> string \<Rightarrow> policy result" where
  "parse_policy debug s =
     (if take 7 s = ''custom:'' then
        (if drop 7 s = '''' then Inl ''custom: needs a path to a .wasm validator'' else Inr (Custom (drop 7 s)))
      else if s = ''mainnet'' \<or> s = ''bitcoin'' then Inr (Bitcoin_policy Bitcoin)
      else if s = ''testnet'' then Inr (Bitcoin_policy Testnet)
      else if s = ''signet'' then Inr (Bitcoin_policy Signet)
      else if s = ''regtest'' then Inr (Bitcoin_policy Regtest)
      else if s = ''auxpow'' then Inr AuxPow
      else if s = ''continuity'' then Inr Continuity
      else Inl (''unknown --spv-type '' @ debug s @ ''; expected one of mainnet, testnet, signet, ''
             @ ''regtest, auxpow, continuity, or custom:<path>.wasm''))"

definition em_dash :: string where
  "em_dash = map char_of [226 :: nat, 128, 148]"

fun describe_policy :: "(network \<Rightarrow> string) \<Rightarrow> policy \<Rightarrow> string" where
  "describe_policy name_of (Bitcoin_policy n) =
     ''bitcoin/'' @ name_of n @ '': hash binding + parent linkage + genesis anchor + proof of work ''
     @ ''(retarget schedule NOT validated)''"
| "describe_policy name_of AuxPow =
     ''auxpow: hash binding + parent linkage + genesis anchor (proof of work NOT validated '' @ em_dash
     @ '' merged mining)''"
| "describe_policy name_of Continuity = ''continuity: hash binding + parent linkage only (no proof of work)''"
| "describe_policy name_of (Custom p) = ''custom wasm validator: '' @ p"

section \<open>Hashes and targets\<close>

definition block_hash :: "(bytes \<Rightarrow> bytes) \<Rightarrow> bytes \<Rightarrow> bytes" where
  "block_hash sha header = rev (sha (sha header))"

definition to_be_bytes :: "32 word \<Rightarrow> bytes" where
  "to_be_bytes w = rev (le_bytes 4 (unat w))"

definition zeros :: "nat \<Rightarrow> bytes" where
  "zeros n = replicate n (char_of (0 :: nat))"

definition target_from_bits :: "32 word \<Rightarrow> bytes option" where
  "target_from_bits bits =
     (let exponent = unat (drop_bit 24 bits);
          mantissa = bits AND 0x007fffff
      in if bits AND 0x00800000 \<noteq> 0 then None
         else if mantissa = 0 then None
         else if exponent \<le> 3 then
           let shifted = drop_bit (8 * (3 - exponent)) mantissa
           in Some (zeros 29 @ drop 1 (to_be_bytes shifted))
         else if exponent > 32 then None
         else
           let start = 32 - exponent
           in if start + 3 > 32 then None
              else Some (zeros start @ drop 1 (to_be_bytes mantissa) @ zeros (29 - start)))"

text \<open>Slices are compared lexicographically.\<close>

definition meets_target :: "bytes \<Rightarrow> 32 word \<Rightarrow> bool" where
  "meets_target hash_display_order bits =
     (case target_from_bits bits of None \<Rightarrow> False | Some target \<Rightarrow> hash_display_order \<le> target)"

definition bits_of :: "bytes \<Rightarrow> 32 word option" where
  "bits_of header = (if length header < 80 then None else Some (of_nat (from_le (take 4 (drop 72 header)))))"

definition prev_hash_of :: "bytes \<Rightarrow> bytes option" where
  "prev_hash_of header = (if length header < 80 then None else Some (rev (take 32 (drop 4 header))))"

section \<open>Validators\<close>

definition check_continuity :: "(bytes \<Rightarrow> bytes) \<Rightarrow> (bytes \<Rightarrow> string) \<Rightarrow> validation_request \<Rightarrow> bytes result" where
  "check_continuity sha hexe req =
     (if length (req_header req) < 80 then
        Inl (''block '' @ dec (req_height req) @ '' header is '' @ dec (length (req_header req))
           @ '' bytes, need at least 80'')
      else
        let computed = block_hash sha (take 80 (req_header req))
        in if computed \<noteq> req_claimed_hash req then
             Inl (''block '' @ dec (req_height req) @ '' body hashes to '' @ hexe computed
                @ '' but the node called it '' @ hexe (req_claimed_hash req))
           else if req_height req > 0 then
             (case prev_hash_of (req_header req) of
                None \<Rightarrow> Inl ''short header''
              | Some parent \<Rightarrow>
                  (case req_prev_hash req of
                     Some stored \<Rightarrow>
                       if parent \<noteq> stored then
                         Inl (''block '' @ dec (req_height req) @ '' names parent '' @ hexe parent
                            @ '' but we stored '' @ hexe stored @ '' at height '' @ dec (req_height req - 1))
                       else Inr computed
                   | None \<Rightarrow>
                       Inl (''block '' @ dec (req_height req) @ '' cannot be linked: no stored hash for height ''
                          @ dec (req_height req - 1))))
           else Inr computed)"

definition continuity_validate :: "(bytes \<Rightarrow> bytes) \<Rightarrow> (bytes \<Rightarrow> string) \<Rightarrow> validation_request \<Rightarrow> verdict" where
  "continuity_validate sha hexe req =
     (case check_continuity sha hexe req of Inr _ \<Rightarrow> verdict_accept | Inl e \<Rightarrow> verdict_reject e)"

definition auxpow_validate :: "(bytes \<Rightarrow> bytes) \<Rightarrow> (bytes \<Rightarrow> string) \<Rightarrow> validation_request \<Rightarrow> verdict" where
  "auxpow_validate sha hexe req =
     (case check_continuity sha hexe req of Inr _ \<Rightarrow> verdict_accept | Inl e \<Rightarrow> verdict_reject e)"

text \<open>\<open>genesis_of\<close> is the hash of the network's genesis block in internal order.\<close>

record bitcoin_validator =
  bv_network :: network
  bv_genesis :: bytes

definition bitcoin_validator_new :: "(network \<Rightarrow> bytes) \<Rightarrow> network \<Rightarrow> bitcoin_validator" where
  "bitcoin_validator_new genesis_of n = \<lparr>bv_network = n, bv_genesis = rev (genesis_of n)\<rparr>"

definition bitcoin_validate ::
    "(bytes \<Rightarrow> bytes) \<Rightarrow> (bytes \<Rightarrow> string) \<Rightarrow> (network \<Rightarrow> string) \<Rightarrow> bitcoin_validator \<Rightarrow> validation_request \<Rightarrow> verdict" where
  "bitcoin_validate sha hexe name_of V req =
     (case check_continuity sha hexe req of
        Inl e \<Rightarrow> verdict_reject e
      | Inr hash \<Rightarrow>
          if req_height req = 0 \<and> hash \<noteq> bv_genesis V then
            verdict_reject (''block 0 is '' @ hexe hash @ '' but '' @ name_of (bv_network V) @ '' genesis is ''
              @ hexe (bv_genesis V) @ '' '' @ em_dash
              @ '' this endpoint is not serving the chain we were configured for'')
          else
            (case bits_of (req_header req) of
               None \<Rightarrow> verdict_reject (''block '' @ dec (req_height req) @ '' header too short for bits'')
             | Some bits \<Rightarrow>
                 if \<not> meets_target hash bits then
                   verdict_reject (''block '' @ dec (req_height req)
                     @ '' does not meet its own stated difficulty (hash '' @ hexe hash @ '', bits 0x''
                     @ hexe (to_be_bytes bits) @ '')'')
                 else verdict_accept))"

text \<open>
  \<open>validator_for\<close>; \<open>load\<close> reads and compiles a custom module, and a build without the
  \<open>host-wasm\<close> feature has none.
\<close>

definition validator_for ::
    "(bytes \<Rightarrow> bytes) \<Rightarrow> (bytes \<Rightarrow> string) \<Rightarrow> (network \<Rightarrow> string) \<Rightarrow> (network \<Rightarrow> bytes)
     \<Rightarrow> (string \<Rightarrow> (validation_request \<Rightarrow> verdict) result) option \<Rightarrow> policy \<Rightarrow> (validation_request \<Rightarrow> verdict) result" where
  "validator_for sha hexe name_of genesis_of load p =
     (case p of
        Bitcoin_policy n \<Rightarrow> Inr (bitcoin_validate sha hexe name_of (bitcoin_validator_new genesis_of n))
      | AuxPow \<Rightarrow> Inr (auxpow_validate sha hexe)
      | Continuity \<Rightarrow> Inr (continuity_validate sha hexe)
      | Custom path \<Rightarrow>
          (case load of
             None \<Rightarrow> Inl ''custom: validators need this build to enable the `host-wasm` feature''
           | Some f \<Rightarrow>
               (case f path of
                  Inr v \<Rightarrow> Inr v
                | Inl e \<Rightarrow> Inl (''failed to load custom validator '' @ path @ '': '' @ e))))"

end
