(* ===== verification/ValidatorProps.thy ===== *)
theory ValidatorProps
  imports Validator SyncBackends
begin

text \<open>
  Properties of the validators: the wire encodings round-trip and reject every truncation;
  the Bitcoin policy, as the sync engine runs it on a block, accepts exactly the blocks that
  are bound to their hash, linked to the stored parent or to the configured genesis, and
  carry the work their header claims, with targets as the integers they stand for.
\<close>

section \<open>The wire\<close>

definition wf_request :: "validation_request \<Rightarrow> bool" where
  "wf_request r \<longleftrightarrow> req_height r \<le> u32_max \<and> length (req_header r) \<le> u32_max
     \<and> length (req_claimed_hash r) = 32 \<and> (\<forall>p. req_prev_hash r = Some p \<longrightarrow> length p = 32)"

definition wf_verdict :: "verdict \<Rightarrow> bool" where
  "wf_verdict v \<longleftrightarrow> utf8_lossy (reason v) = reason v \<and> length (reason v) \<le> u32_max"

lemma take_at_append:
  assumes "length pre = at" "length xs = n"
  shows "take_at (pre @ xs @ post) at n = Some xs"
  using assms by (simp add: take_at_def)

lemma flag_byte_eq [simp]: "flag_byte b = char_of (Suc 0) \<longleftrightarrow> b"
proof -
  have "of_char (char_of (0 :: nat)) = (0 :: nat)" "of_char (char_of (Suc 0)) = (1 :: nat)" by simp_all
  then show ?thesis by (auto simp: flag_byte_def simp del: of_char_of)
qed

lemma request_fields:
  assumes "wf_request r"
  defines "prev \<equiv> case req_prev_hash r of Some p \<Rightarrow> p | None \<Rightarrow> []"
  shows "take_at (encode_request r @ x) 0 1 = Some [WIRE_VERSION]"
    "take_at (encode_request r @ x) 1 4 = Some (le_bytes 4 (req_height r))"
    "take_at (encode_request r @ x) 5 1 = Some [flag_byte (req_prev_hash r \<noteq> None)]"
    "take_at (encode_request r @ x) 6 32 = Some (req_claimed_hash r)"
    "take_at (encode_request r @ x) 38 4 = Some (le_bytes 4 (length (req_header r)))"
    "take_at (encode_request r @ x) 42 (length (req_header r)) = Some (req_header r)"
    "take_at (encode_request r @ x) (42 + length (req_header r)) (length prev) = Some prev"
proof -
  let ?v = "[WIRE_VERSION]" and ?h = "le_bytes 4 (req_height r)" and ?f = "[flag_byte (req_prev_hash r \<noteq> None)]"
    and ?c = "req_claimed_hash r" and ?n = "le_bytes 4 (length (req_header r))" and ?b = "req_header r"
  have e: "encode_request r @ x = ?v @ ?h @ ?f @ ?c @ ?n @ ?b @ prev @ x"
    by (simp add: encode_request_def prev_def)
  have c: "length ?c = 32" using assms(1) by (simp add: wf_request_def)
  show "take_at (encode_request r @ x) 0 1 = Some ?v"
    unfolding e using take_at_append [of "[]" 0 ?v 1] by simp
  show "take_at (encode_request r @ x) 1 4 = Some ?h"
    unfolding e by (rule take_at_append) simp_all
  show "take_at (encode_request r @ x) 5 1 = Some ?f"
    unfolding e using take_at_append [of "?v @ ?h" 5 ?f 1] by simp
  show "take_at (encode_request r @ x) 6 32 = Some ?c"
    unfolding e using take_at_append [of "?v @ ?h @ ?f" 6 ?c 32] c by simp
  show "take_at (encode_request r @ x) 38 4 = Some ?n"
    unfolding e using take_at_append [of "?v @ ?h @ ?f @ ?c" 38 ?n 4] c by simp
  show "take_at (encode_request r @ x) 42 (length ?b) = Some ?b"
    unfolding e using take_at_append [of "?v @ ?h @ ?f @ ?c @ ?n" 42 ?b] c by simp
  show "take_at (encode_request r @ x) (42 + length ?b) (length prev) = Some prev"
    unfolding e using take_at_append [of "?v @ ?h @ ?f @ ?c @ ?n @ ?b" "42 + length ?b" prev] c by simp
qed

lemma decode_encode_request:
  assumes "wf_request r"
  shows "decode_request (encode_request r @ x) = Some r"
proof -
  note f = request_fields [OF assms, of x]
  have n: "from_le (le_bytes 4 (length (req_header r))) = length (req_header r)"
    and h: "from_le (le_bytes 4 (req_height r)) = req_height r"
    using assms by (simp_all add: wf_request_def)
  have fits: "length (req_header r) \<le> length (encode_request r @ x)" by (simp add: encode_request_def)
  show ?thesis
  proof (cases "req_prev_hash r")
    case None
    then show ?thesis
      using f(1-6) fits by (simp add: decode_request_def Let_def n h del: append_assoc le_bytes.simps)
  next
    case (Some p)
    then have "length p = 32" using assms by (simp add: wf_request_def)
    with Some show ?thesis
      using f fits by (simp add: decode_request_def Let_def n h del: append_assoc le_bytes.simps)
  qed
qed

text \<open>What a decoded buffer must hold.\<close>

lemma decode_request_needs:
  assumes "decode_request b = Some r"
  shows "42 \<le> length b"
    and "42 + from_le (take 4 (drop 38 b)) + (if b ! 5 = char_of (1 :: nat) then 32 else 0) \<le> length b"
proof -
  have flag: "take (Suc 0) (drop 5 b) ! 0 = b ! 5" if "42 \<le> length b" using that by simp
  from assms show "42 \<le> length b"
    by (auto simp: decode_request_def take_at_def Let_def bind_eq_Some_conv split: if_splits)
  with assms flag show "42 + from_le (take 4 (drop 38 b)) + (if b ! 5 = char_of (1 :: nat) then 32 else 0) \<le> length b"
    by (auto simp: decode_request_def take_at_def Let_def bind_eq_Some_conv split: if_splits)
qed

lemma length_encode_request:
  "wf_request r \<Longrightarrow> length (encode_request r) = 42 + length (req_header r) + (if req_prev_hash r = None then 0 else 32)"
  by (auto simp: encode_request_def wf_request_def split: option.splits)

lemma decode_request_prefix:
  assumes "wf_request r" "k < length (encode_request r)"
  shows "decode_request (take k (encode_request r)) = None"
proof (rule ccontr)
  let ?e = "encode_request r"
  assume "decode_request (take k ?e) \<noteq> None"
  then obtain r' where r': "decode_request (take k ?e) = Some r'" by blast
  have k: "42 \<le> k" using decode_request_needs(1) [OF r'] assms(2) by simp
  have "take 4 (drop 38 (take k ?e)) = take 4 (drop 38 ?e)"
    using k by (simp add: drop_take min_def)
  moreover have "take_at ?e 38 4 = Some (le_bytes 4 (length (req_header r)))"
    using request_fields(5) [OF assms(1), of "[]"] by (simp del: le_bytes.simps)
  then have "take 4 (drop 38 ?e) = le_bytes 4 (length (req_header r))"
    by (simp add: take_at_def split: if_splits)
  moreover have "from_le (le_bytes 4 (length (req_header r))) = length (req_header r)"
    using assms(1) by (simp add: wf_request_def)
  moreover have "take k ?e ! 5 = flag_byte (req_prev_hash r \<noteq> None)"
    using k by (simp add: encode_request_def nth_append)
  ultimately have "42 + length (req_header r) + (if req_prev_hash r \<noteq> None then 32 else 0) \<le> k"
    using decode_request_needs(2) [OF r'] assms(2) by (simp add: min_def split: if_splits)
  with assms length_encode_request show False by (auto split: if_splits)
qed

lemma decode_encode_verdict:
  assumes "wf_verdict v"
  shows "decode_verdict (encode_verdict v @ x) = Some v"
proof -
  have "take 4 (drop 2 (encode_verdict v @ x)) = le_bytes 4 (length (reason v))" by (simp add: encode_verdict_def)
  moreover have "take_at (encode_verdict v @ x) 6 (length (reason v)) = Some (reason v)"
    using take_at_append [of "[WIRE_VERSION, flag_byte (accepted v)] @ le_bytes 4 (length (reason v))" 6 "reason v"]
    by (simp add: encode_verdict_def)
  ultimately show ?thesis
    using assms by (simp add: decode_verdict_def wf_verdict_def encode_verdict_def)
qed

lemma decode_verdict_prefix:
  assumes "wf_verdict v" "k < length (encode_verdict v)"
  shows "decode_verdict (take k (encode_verdict v)) = None"
proof (cases "k < 6")
  case False
  then have "take 4 (drop 2 (take k (encode_verdict v))) = take 4 (drop 2 (encode_verdict v))"
    by (simp add: drop_take min_def)
  also have "\<dots> = le_bytes 4 (length (reason v))" by (simp add: encode_verdict_def)
  finally have "from_le (take 4 (drop 2 (take k (encode_verdict v)))) = length (reason v)"
    using assms(1) by (simp add: wf_verdict_def)
  with assms(2) show ?thesis by (simp add: decode_verdict_def take_at_def encode_verdict_def)
qed (simp add: decode_verdict_def min_def)

section \<open>Targets\<close>

definition from_be :: "bytes \<Rightarrow> nat" where
  "from_be bs = from_le (rev bs)"

lemma from_le_append: "from_le (xs @ ys) = from_le xs + 256 ^ length xs * from_le ys"
  by (induction xs) (simp_all add: algebra_simps)

lemma from_be_Cons: "from_be (x # xs) = of_char x * 256 ^ length xs + from_be xs"
  by (simp add: from_be_def from_le_append)

lemma from_be_append: "from_be (xs @ ys) = from_be xs * 256 ^ length ys + from_be ys"
  by (simp add: from_be_def from_le_append)

lemma from_be_less: "from_be xs < 256 ^ length xs"
  using from_le_less [of "rev xs"] by (simp add: from_be_def)

lemma zeros_simps [simp]: "length (zeros n) = n" "from_be (zeros n) = 0"
  by (simp add: zeros_def) (induction n, simp_all add: zeros_def from_be_Cons from_be_def [of "[]"])

lemma lex_le_from_be: "length xs = length ys \<Longrightarrow> xs \<le> ys \<longleftrightarrow> from_be xs \<le> from_be ys"
proof (induction xs ys rule: list_induct2)
  case (Cons x xs y ys)
  let ?p = "256 ^ length xs :: nat"
  have b: "from_be xs < ?p" "from_be ys < ?p" using from_be_less [of xs] from_be_less [of ys] Cons.hyps by simp_all
  have lt: "of_char u * ?p + s < of_char v * ?p + t"
    if "(of_char u :: nat) < of_char v" "s < ?p" for u v :: char and s t :: nat
  proof -
    have "of_char u * ?p + s < (of_char u + 1) * ?p" using that(2) by (simp add: algebra_simps)
    also have "\<dots> \<le> of_char v * ?p" using that(1) by (intro mult_right_mono) auto
    finally show ?thesis by simp
  qed
  have ne: "(of_char x :: nat) \<noteq> of_char y" if "x \<noteq> y" using that by simp
  show ?case
  proof (cases "x = y")
    case True
    with Cons show ?thesis by (simp add: from_be_Cons)
  next
    case False
    with ne have "(of_char x :: nat) < of_char y \<or> (of_char y :: nat) < of_char x" by (meson linorder_neqE_nat)
    then show ?thesis
      using lt [of x y "from_be xs" "from_be ys"] lt [of y x "from_be ys" "from_be xs"] b False Cons.hyps
      by (auto simp: from_be_Cons less_char_def)
  qed
qed simp

definition mantissa_of :: "32 word \<Rightarrow> nat" where
  "mantissa_of bits = unat (bits AND 0x007fffff)"

definition exponent_of :: "32 word \<Rightarrow> nat" where
  "exponent_of bits = unat (drop_bit 24 bits)"

definition valid_bits :: "32 word \<Rightarrow> bool" where
  "valid_bits bits \<longleftrightarrow> bits AND 0x00800000 = 0 \<and> mantissa_of bits \<noteq> 0 \<and> exponent_of bits \<le> 32"

text \<open>The mantissa scaled by \<open>256 ^ (exponent - 3)\<close>, rounded down.\<close>

definition target_of :: "32 word \<Rightarrow> nat" where
  "target_of bits = mantissa_of bits * 256 ^ exponent_of bits div 256 ^ 3"

lemma mantissa_less: "unat ((bits :: 32 word) AND 0x007fffff) < 8388608"
proof -
  have "unat (bits AND 0x007fffff) = unat bits AND 8388607" by (simp add: unsigned_and_eq)
  also have "(8388607 :: nat) = mask 23" by (simp add: mask_eq_exp_minus_1)
  finally show ?thesis using take_bit_nat_less_exp [of 23 "unat bits"] by (simp add: take_bit_eq_mask)
qed

lemma take_le_bytes: "i \<le> w \<Longrightarrow> take i (le_bytes w n) = le_bytes i n"
proof (induction i arbitrary: w n)
  case (Suc i)
  then show ?case by (cases w) simp_all
qed simp

lemma from_be_mantissa:
  assumes "unat m < 16777216"
  shows "from_be (drop 1 (to_be_bytes m)) = unat m" "length (drop 1 (to_be_bytes m)) = 3"
proof -
  have "rev (drop 1 (to_be_bytes m)) = take 3 (le_bytes 4 (unat m))"
    by (simp add: to_be_bytes_def rev_drop)
  also have "\<dots> = le_bytes 3 (unat m)" by (rule take_le_bytes) simp
  finally show "from_be (drop 1 (to_be_bytes m)) = unat m"
    using assms by (simp add: from_be_def from_le_le_bytes)
qed (simp add: to_be_bytes_def)

lemma target_from_bits_cases:
  shows "\<not> valid_bits bits \<Longrightarrow> target_from_bits bits = None"
    and "valid_bits bits \<Longrightarrow> \<exists>t. target_from_bits bits = Some t \<and> length t = 32 \<and> from_be t = target_of bits"
proof -
  let ?m = "bits AND 0x007fffff" and ?e = "exponent_of bits"
  have zero: "mantissa_of bits = 0 \<longleftrightarrow> ?m = 0" by (simp add: mantissa_of_def unat_eq_0)
  show "\<not> valid_bits bits \<Longrightarrow> target_from_bits bits = None"
    by (auto simp: target_from_bits_def valid_bits_def zero exponent_of_def Let_def)
  assume v: "valid_bits bits"
  then have nz: "bits AND 0x00800000 = 0" "?m \<noteq> 0" "?e \<le> 32" by (auto simp: valid_bits_def zero)
  show "\<exists>t. target_from_bits bits = Some t \<and> length t = 32 \<and> from_be t = target_of bits"
  proof (cases "?e \<le> 3")
    case True
    let ?s = "drop_bit (8 * (3 - ?e)) ?m"
    have s: "unat ?s = unat ?m div 256 ^ (3 - ?e)"
      unfolding unat_drop_bit_eq by (simp add: drop_bit_eq_div power_mult)
    have "unat ?m div 256 ^ (3 - ?e) < 16777216"
      using le_less_trans [OF div_le_dividend mantissa_less [of bits], of "256 ^ (3 - ?e)"] by simp
    then have "unat ?s < 16777216" unfolding s .
    note b = from_be_mantissa [OF this]
    have "(256 :: nat) ^ 3 = 256 ^ (3 - ?e) * 256 ^ ?e" unfolding power_add [symmetric] using True by simp
    then have "target_of bits = unat ?m * 256 ^ ?e div (256 ^ (3 - ?e) * 256 ^ ?e)"
      unfolding target_of_def mantissa_of_def by (rule arg_cong)
    also have "\<dots> = unat ?m div 256 ^ (3 - ?e)" by (rule div_mult_mult2) simp
    finally have "target_of bits = unat ?m div 256 ^ (3 - ?e)" .
    then show ?thesis
      using nz True b s by (simp add: target_from_bits_def Let_def exponent_of_def [symmetric] from_be_append)
  next
    case False
    have "unat ?m < 16777216" using mantissa_less [of bits] by simp
    note b = from_be_mantissa [OF this]
    have "(256 :: nat) ^ ?e = 256 ^ (?e - 3) * 256 ^ 3"
      unfolding power_add [symmetric] using False by simp
    then have "target_of bits = unat ?m * 256 ^ (?e - 3)" by (simp add: target_of_def mantissa_of_def)
    moreover have "29 - (32 - ?e) = ?e - 3" using nz(3) by simp
    ultimately show ?thesis
      using nz False b by (simp add: target_from_bits_def Let_def exponent_of_def [symmetric] from_be_append)
  qed
qed

lemma meets_target_iff:
  "length hash = 32 \<Longrightarrow> meets_target hash bits \<longleftrightarrow> valid_bits bits \<and> from_be hash \<le> target_of bits"
  using target_from_bits_cases [of bits] lex_le_from_be [of hash]
  by (cases "valid_bits bits") (auto simp: meets_target_def)


section \<open>The policies\<close>

text \<open>What every policy checks, and the work the Bitcoin policy adds.\<close>

definition bound_and_linked :: "(bytes \<Rightarrow> bytes) \<Rightarrow> validation_request \<Rightarrow> bool" where
  "bound_and_linked sha r \<longleftrightarrow> 80 \<le> length (req_header r)
     \<and> req_claimed_hash r = block_hash sha (take 80 (req_header r))
     \<and> (0 < req_height r \<longrightarrow> req_prev_hash r = Some (rev (take 32 (drop 4 (req_header r)))))"

definition has_work :: "bytes \<Rightarrow> bytes \<Rightarrow> bool" where
  "has_work hash header \<longleftrightarrow>
     (let bits = of_nat (from_le (take 4 (drop 72 header))) in valid_bits bits \<and> from_be hash \<le> target_of bits)"

lemma check_continuity_Inr:
  "(\<exists>h. check_continuity sha hexe r = Inr h) \<longleftrightarrow> bound_and_linked sha r"
  "check_continuity sha hexe r = Inr h \<Longrightarrow> h = req_claimed_hash r"
  by (auto simp: check_continuity_def bound_and_linked_def prev_hash_of_def Let_def split: if_splits option.splits)

lemma continuity_accepts: "accepted (continuity_validate sha hexe r) \<longleftrightarrow> bound_and_linked sha r"
  using check_continuity_Inr(1) [of sha hexe r]
  by (auto simp: continuity_validate_def verdict_accept_def verdict_reject_def split: sum.splits)

lemma bitcoin_accepts:
  assumes "\<And>b. length (sha b) = 32"
  shows "accepted (bitcoin_validate sha hexe name_of V r) \<longleftrightarrow>
    bound_and_linked sha r \<and> (req_height r = 0 \<longrightarrow> req_claimed_hash r = bv_genesis V)
    \<and> has_work (req_claimed_hash r) (req_header r)"
proof (cases "check_continuity sha hexe r")
  case (Inl e)
  then have "\<not> bound_and_linked sha r" using check_continuity_Inr(1) [of sha hexe r] by simp
  with Inl show ?thesis by (simp add: bitcoin_validate_def verdict_reject_def)
next
  case (Inr h)
  then have c: "bound_and_linked sha r" "h = req_claimed_hash r"
    using check_continuity_Inr [of sha hexe r] by auto
  then have "80 \<le> length (req_header r)" "length h = 32"
    using assms by (simp_all add: bound_and_linked_def block_hash_def)
  with Inr c show ?thesis
    by (auto simp: bitcoin_validate_def bits_of_def meets_target_iff has_work_def Let_def
        verdict_accept_def verdict_reject_def)
qed

lemma stored_parent:
  assumes "80 \<le> length data"
  shows "Option.bind parent (\<lambda>v. if length v = 32 then Some v else None) = Some (rev (take 32 (drop 4 data)))
    \<longleftrightarrow> parent = Some (rev (take 32 (drop 4 data)))"
  using assms by (cases parent) auto

text \<open>The engine's check of a block under a policy.\<close>

lemma validate_with_policy:
  assumes "length hash = 32" "0 < h \<Longrightarrow> s_block_hash S (h - 1) w = (Inr parent, w)"
  shows "validate_block_connects sha decode_header (Some validate) S h data hash w
    = (Inr (validate \<lparr>req_height = h, req_header = take 80 data, req_claimed_hash = hash,
        req_prev_hash = (if h = 0 then None else Option.bind parent (\<lambda>v. if length v = 32 then Some v else None))\<rparr>), w)"
proof -
  have "(if 80 \<le> length data then take 80 data else data) = take 80 data" by simp
  with assms show ?thesis
    by (cases "h = 0"; cases parent) (simp_all add: validate_block_connects_def sbind_def)
qed

section \<open>Properties\<close>

text \<open>
  The wire between the node and a custom validator: a request or verdict that is encoded
  decodes to itself, whatever follows it in the buffer, and no truncated encoding decodes
  to anything.
\<close>

theorem wire_round_trip:
  assumes "wf_request r" "wf_verdict v"
  shows "decode_request (encode_request r @ x) = Some r \<and> decode_verdict (encode_verdict v @ x) = Some v
    \<and> (\<forall>k < length (encode_request r). decode_request (take k (encode_request r)) = None)
    \<and> (\<forall>k < length (encode_verdict v). decode_verdict (take k (encode_verdict v)) = None)"
  using assms decode_encode_request decode_request_prefix decode_encode_verdict decode_verdict_prefix by simp

definition sample_request :: validation_request where
  "sample_request = \<lparr>req_height = 300, req_header = replicate 80 CHR ''h'', req_claimed_hash = replicate 32 CHR ''c'',
     req_prev_hash = Some (replicate 32 CHR ''p'')\<rparr>"

theorem wire_round_trip_witness:
  "decode_request (encode_request sample_request) = Some sample_request
   \<and> decode_verdict (encode_verdict (verdict_reject ''odd'')) = Some (verdict_reject ''odd'')
   \<and> decode_request (take 100 (encode_request sample_request)) = None"
proof -
  have "wf_request sample_request" by (simp add: wf_request_def sample_request_def u32_max_def)
  moreover have "wf_verdict (verdict_reject ''odd'')" by (simp add: wf_verdict_def verdict_reject_def u32_max_def)
  ultimately have "decode_request (encode_request sample_request @ []) = Some sample_request
      \<and> decode_verdict (encode_verdict (verdict_reject ''odd'') @ []) = Some (verdict_reject ''odd'')
      \<and> (\<forall>k < length (encode_request sample_request). decode_request (take k (encode_request sample_request)) = None)"
    using wire_round_trip by blast
  moreover have "100 < length (encode_request sample_request)"
    by (simp add: encode_request_def sample_request_def)
  ultimately show ?thesis by simp
qed

text \<open>
  C37: the node under \<open>--spv-type\<close> with a Bitcoin network. With the validator the policy
  selects installed, the engine's check of a block succeeds exactly when the block has a
  header, the given hash is the header's, the header names the stored hash of the block
  below (and one is stored), or at height 0 the hash is the configured network's genesis,
  and the hash as an integer is at most the target that the header's compact bits denote,
  with invalid bits refused.
\<close>

theorem bitcoin_policy_decides:
  assumes "\<And>b. length (sha b) = 32" "\<And>n. length (genesis_of n) = 32"
    and "validator_for sha hexe name_of genesis_of load (Bitcoin_policy n) = Inr validate"
    and "0 < h \<Longrightarrow> s_block_hash S (h - 1) w = (Inr parent, w)"
  shows "validate_block_connects sha decode_header (Some (\<lambda>r. accepted (validate r))) S h data hash w
    = (Inr (80 \<le> length data \<and> hash = block_hash sha (take 80 data)
        \<and> (if h = 0 then hash = rev (genesis_of n) else parent = Some (rev (take 32 (drop 4 data))))
        \<and> has_work hash data), w)"
proof (cases "length hash = 32")
  case False
  then have "hash \<noteq> block_hash sha (take 80 data)" using assms(1) by (auto simp: block_hash_def)
  with False show ?thesis
    by (simp add: validate_block_connects_def)
next
  case True
  have v: "validate = bitcoin_validate sha hexe name_of (bitcoin_validator_new genesis_of n)"
    using assms(3) by (simp add: validator_for_def)
  have fields: "take 32 (drop 4 (take 80 data)) = take 32 (drop 4 data)"
      "take 4 (drop 72 (take 80 data)) = take 4 (drop 72 data)" by (simp_all add: drop_take min_def)
  show ?thesis
    by (subst validate_with_policy [OF True assms(4)])
      (auto simp: v bitcoin_accepts [OF assms(1)] bound_and_linked_def bitcoin_validator_new_def has_work_def fields
        Let_def stored_parent)
qed

text \<open>A header with the bits of the main network's first blocks, above a stored block.\<close>

definition easy_block :: bytes where
  "easy_block = zeros 72 @ map char_of [255 :: nat, 255, 0, 29] @ zeros 4"

lemma easy_block_work: "has_work (zeros 32) easy_block"
proof -
  have "take 4 (drop 72 easy_block) = map char_of [255 :: nat, 255, 0, 29]" by (simp add: easy_block_def)
  then have "from_le (take 4 (drop 72 easy_block)) = 0x1d00ffff" by simp
  then show ?thesis by (simp add: has_work_def valid_bits_def mantissa_of_def exponent_of_def)
qed

theorem bitcoin_policy_decides_witness:
  "\<exists>validate. validator_for (\<lambda>b. zeros 32) encode_hex_fast (\<lambda>n. '''') (\<lambda>n. zeros 32) None (Bitcoin_policy Signet)
      = Inr validate
   \<and> validate_block_connects (\<lambda>b. zeros 32) (\<lambda>_. Inl '''') (Some (\<lambda>r. accepted (validate r))) (mem_adapter None) 1
       easy_block (zeros 32) (with_data [(block_hash_record 0, zeros 32)], ())
     = (Inr True, (with_data [(block_hash_record 0, zeros 32)], ()))
   \<and> validate_block_connects (\<lambda>b. zeros 32) (\<lambda>_. Inl '''') (Some (\<lambda>r. accepted (validate r))) (mem_adapter None) 1
       easy_block (zeros 32) (with_data [], ()) = (Inr False, (with_data [], ()))"
proof -
  let ?V = "bitcoin_validate (\<lambda>b. zeros 32) encode_hex_fast (\<lambda>n. '''') (bitcoin_validator_new (\<lambda>n. zeros 32) Signet)"
  have v: "validator_for (\<lambda>b. zeros 32) encode_hex_fast (\<lambda>n. '''') (\<lambda>n. zeros 32) None (Bitcoin_policy Signet) = Inr ?V"
    by (simp add: validator_for_def)
  have block: "80 \<le> length easy_block" "rev (take 32 (drop 4 easy_block)) = zeros 32"
      "block_hash (\<lambda>b. zeros 32) x = zeros 32" for x
    by (simp_all add: easy_block_def zeros_def block_hash_def)
  have read: "s_block_hash (mem_adapter None) (1 - 1) (with_data [(block_hash_record 0, zeros 32)], ())
      = (Inr (Some (zeros 32)), (with_data [(block_hash_record 0, zeros 32)], ()))"
    "s_block_hash (mem_adapter None) (1 - 1) (with_data [], ()) = (Inr None, (with_data [], ()))"
    by (simp_all add: adapter_defs mem_get_block_hash_def mem_get_def with_data_def to_labeled_key_def)
  note decides = bitcoin_policy_decides [where sha = "\<lambda>b. zeros 32" and hash = "zeros 32" and data = easy_block
      and h = 1 and S = "mem_adapter None" and decode_header = "\<lambda>_. Inl ''''", OF _ _ v]
  show ?thesis
    using v decides [OF _ _ read(1)] decides [OF _ _ read(2)] easy_block_work by (simp add: block)
qed

end
