(* ===== verification/ValidatorWasm.thy ===== *)
theory ValidatorWasm
  imports ValidatorProps GuestProps
begin

text \<open>
  Custom validators: the sandbox that runs one (\<open>crates/metashrew-validator-core/src/wasm_host.rs\<close>)
  and the library one is written with (\<open>src/guest.rs\<close>). A module is a parameter, as in the
  indexer's runtime: what it does next, given its memory. It may never answer (\<open>None\<close>).
\<close>

section \<open>The sandbox\<close>

datatype validator_import =
    RequestLen
  | LoadRequest i32
  | Unknown_import string

datatype 'g validator_action =
    Own_step 'g "bytes option"
  | Import validator_import "i32 \<Rightarrow> 'g" "bytes option"
  | Answer i32 "bytes option"
  | Trapping string "bytes option"

text \<open>\<open>vm_enter\<close> is the lookup of the export \<open>validate\<close> with its type.\<close>

record 'g validator_module =
  vm_instantiate :: "'g result"
  vm_memory :: "bytes option"
  vm_enter :: "'g \<Rightarrow> 'g result"
  vm_step :: "'g \<Rightarrow> bytes option \<Rightarrow> 'g validator_action"

text \<open>\<open>__load_request\<close>: a write that does not fit is dropped.\<close>

definition load_request :: "bytes \<Rightarrow> i32 \<Rightarrow> bytes option \<Rightarrow> bytes option" where
  "load_request req p mem =
     (case mem of
        None \<Rightarrow> None
      | Some data \<Rightarrow> (case mem_store_at (as_usize p) req data of Some data' \<Rightarrow> Some data' | None \<Rightarrow> Some data))"

partial_function (option) call_validate ::
    "'g validator_module \<Rightarrow> bytes \<Rightarrow> 'g \<Rightarrow> bytes option \<Rightarrow> (i32 \<times> bytes option) result option" where
  "call_validate M req g mem =
     (case vm_step M g mem of
        Own_step g' mem' \<Rightarrow> call_validate M req g' mem'
      | Import i k mem' \<Rightarrow>
          (case i of
             RequestLen \<Rightarrow> call_validate M req (k (of_nat (length req))) mem'
           | LoadRequest p \<Rightarrow> call_validate M req (k 0) (load_request req p mem')
           | Unknown_import name \<Rightarrow> Some (Inl (''unknown import: '' @ name)))
      | Answer p mem' \<Rightarrow> Some (Inr (p, mem'))
      | Trapping e mem' \<Rightarrow> Some (Inl e))"

definition show_i32 :: "i32 \<Rightarrow> string" where
  "show_i32 p = (if sint p < 0 then ''-'' @ dec (nat (- sint p)) else dec (nat (sint p)))"

text \<open>What the host makes of the returned pointer.\<close>

definition read_verdict :: "i32 \<Rightarrow> bytes option \<Rightarrow> verdict result" where
  "read_verdict ptr mem =
     (case mem of
        None \<Rightarrow> Inl ''validator exports no memory''
      | Some data \<Rightarrow>
          let start = as_usize ptr
          in if start < 4 \<or> start > length data
             then Inl (''validator returned an out-of-range pointer '' @ show_i32 ptr)
             else
               case take_at data (start - 4) 4 of
                 None \<Rightarrow> Inl ''validator response has no length prefix''
               | Some lenb \<Rightarrow>
                   let len = from_le lenb
                   in case take_at data start len of
                        None \<Rightarrow> Inl (''validator response length '' @ dec len @ '' runs past memory'')
                      | Some payload \<Rightarrow>
                          (case decode_verdict payload of
                             None \<Rightarrow> Inl ''validator returned a malformed verdict''
                           | Some v \<Rightarrow> Inr v))"

definition run_validator :: "'g validator_module \<Rightarrow> validation_request \<Rightarrow> verdict result option" where
  "run_validator M r =
     (case vm_instantiate M of
        Inl e \<Rightarrow> Some (Inl (''instantiating validator: '' @ e))
      | Inr g \<Rightarrow>
          (case vm_enter M g of
             Inl e \<Rightarrow> Some (Inl (''validator has no `validate() -> i32` export: '' @ e))
           | Inr g' \<Rightarrow>
               map_option (\<lambda>called. case called of
                   Inl e \<Rightarrow> Inl (''validator trapped: '' @ e)
                 | Inr (ptr, mem) \<Rightarrow> read_verdict ptr mem)
                 (call_validate M (encode_request r) g' (vm_memory M))))"

text \<open>A validator that cannot run does not approve.\<close>

definition wasm_validate :: "string \<Rightarrow> 'g validator_module \<Rightarrow> validation_request \<Rightarrow> verdict option" where
  "wasm_validate label M r =
     map_option (\<lambda>res. case res of
         Inr v \<Rightarrow> v
       | Inl e \<Rightarrow> verdict_reject (''custom validator '' @ label @ '' failed to produce a verdict: '' @ e))
       (run_validator M r)"

text \<open>\<open>from_bytes\<close> runs the module once on a request of zeros.\<close>

definition smoke_request :: validation_request where
  "smoke_request = \<lparr>req_height = 0, req_header = zeros 80, req_claimed_hash = zeros 32, req_prev_hash = None\<rparr>"

definition validator_from_bytes ::
    "(bytes \<Rightarrow> 'g validator_module result) \<Rightarrow> bytes \<Rightarrow> 'g validator_module result option" where
  "validator_from_bytes compile_module bs =
     (case compile_module bs of
        Inl e \<Rightarrow> Some (Inl (''compiling validator module: '' @ e))
      | Inr M \<Rightarrow>
          map_option (\<lambda>res. case res of
              Inr _ \<Rightarrow> Inr M
            | Inl e \<Rightarrow> Inl (''validator module did not run; expected an exported `validate() -> i32`: '' @ e))
            (run_validator M smoke_request))"

section \<open>The guest library\<close>

text \<open>
  A validator's code is a program over its memory. \<open>place\<close> is the allocator: where it puts
  \<open>n\<close> bytes; addresses are 32-bit.
\<close>

datatype validator_prog =
    Allocate nat "nat \<Rightarrow> validator_prog"
  | Put_bytes nat bytes validator_prog
  | Get_bytes nat nat "bytes \<Rightarrow> validator_prog"
  | Call_import validator_import "i32 \<Rightarrow> validator_prog"
  | Give i32

definition guest_request :: "(validation_request option \<Rightarrow> validator_prog) \<Rightarrow> validator_prog" where
  "guest_request k =
     Call_import RequestLen (\<lambda>n.
       let len = unat n
       in Allocate len (\<lambda>buf. Put_bytes buf (zeros len)
            (Call_import (LoadRequest (of_nat buf)) (\<lambda>_.
              Get_bytes buf len (\<lambda>bs. k (decode_request bs))))))"

definition guest_respond :: "verdict \<Rightarrow> validator_prog" where
  "guest_respond v =
     (let payload = encode_verdict v;
          framed = le_bytes 4 (length payload) @ payload
      in Allocate (length framed) (\<lambda>ptr. Put_bytes ptr framed (Give (of_nat ptr + 4))))"

definition guest_run :: "(validation_request \<Rightarrow> verdict) \<Rightarrow> validator_prog" where
  "guest_run policy =
     guest_request (\<lambda>r. case r of
         Some req \<Rightarrow> guest_respond (policy req)
       | None \<Rightarrow> guest_respond (verdict_reject
           ''validator could not decode its request; refusing to accept the block''))"

text \<open>The module such a program compiles to.\<close>

fun validator_step :: "(bytes \<Rightarrow> nat \<Rightarrow> nat) \<Rightarrow> validator_prog \<Rightarrow> bytes option \<Rightarrow> validator_prog validator_action" where
  "validator_step place p None = Trapping ''no memory'' None"
| "validator_step place (Allocate n k) (Some mem) = Own_step (k (place mem n)) (Some mem)"
| "validator_step place (Put_bytes a bs p) (Some mem) =
     (case mem_store_at a bs mem of
        Some mem' \<Rightarrow> Own_step p (Some mem')
      | None \<Rightarrow> Trapping ''out of bounds'' (Some mem))"
| "validator_step place (Get_bytes a n k) (Some mem) =
     (if a + n \<le> length mem then Own_step (k (take n (drop a mem))) (Some mem)
      else Trapping ''out of bounds'' (Some mem))"
| "validator_step place (Call_import i k) (Some mem) = Import i k (Some mem)"
| "validator_step place (Give r) (Some mem) = Answer r (Some mem)"

definition validator_program :: "(bytes \<Rightarrow> nat \<Rightarrow> nat) \<Rightarrow> bytes \<Rightarrow> validator_prog \<Rightarrow> validator_prog validator_module" where
  "validator_program place mem0 p =
     \<lparr>vm_instantiate = Inr p, vm_memory = Some mem0, vm_enter = Inr, vm_step = validator_step place\<rparr>"

section \<open>The protocol\<close>

lemma call_give: "call_validate (validator_program place mem0 p) req (Give r) (Some mem) = Some (Inr (r, Some mem))"
  by (subst call_validate.simps) (simp add: validator_program_def)

lemma call_allocate:
  "call_validate (validator_program place mem0 p) req (Allocate n k) (Some mem)
     = call_validate (validator_program place mem0 p) req (k (place mem n)) (Some mem)"
  by (subst call_validate.simps) (simp add: validator_program_def)

lemma call_put:
  "a + length bs \<le> length mem \<Longrightarrow> call_validate (validator_program place mem0 p) req (Put_bytes a bs q) (Some mem)
     = call_validate (validator_program place mem0 p) req q (Some (take a mem @ bs @ drop (a + length bs) mem))"
  by (subst call_validate.simps) (simp add: validator_program_def mem_store_at_def)

lemma call_get:
  "a + n \<le> length mem \<Longrightarrow> call_validate (validator_program place mem0 p) req (Get_bytes a n k) (Some mem)
     = call_validate (validator_program place mem0 p) req (k (take n (drop a mem))) (Some mem)"
  by (subst call_validate.simps) (simp add: validator_program_def)

lemma call_request_len:
  "call_validate (validator_program place mem0 p) req (Call_import RequestLen k) (Some mem)
     = call_validate (validator_program place mem0 p) req (k (of_nat (length req))) (Some mem)"
  by (subst call_validate.simps) (simp add: validator_program_def)

lemma call_load_request:
  assumes "a + length req \<le> length mem" "length mem < 2147483648"
  shows "call_validate (validator_program place mem0 p) req (Call_import (LoadRequest (of_nat a)) k) (Some mem)
     = call_validate (validator_program place mem0 p) req (k 0) (Some (take a mem @ req @ drop (a + length req) mem))"
proof -
  have "as_usize (of_nat a) = a" using assms by (intro as_usize_i32) simp
  with assms show ?thesis
    by (subst call_validate.simps) (simp add: validator_program_def load_request_def mem_store_at_def)
qed

text \<open>The guest sees the request that was made, and its verdict is what the host reads.\<close>

lemma call_guest_request:
  assumes "allocates place cap room" "length mem = room" "length req \<le> cap"
  shows "\<exists>mem'. length mem' = room \<and> call_validate (validator_program place mem0 p) req (guest_request k) (Some mem)
     = call_validate (validator_program place mem0 p) req (k (decode_request req)) (Some mem')"
proof -
  let ?n = "length req" and ?a = "place mem (length req)"
  let ?m1 = "take ?a mem @ zeros ?n @ drop (?a + ?n) mem"
  let ?m2 = "take ?a ?m1 @ req @ drop (?a + ?n) ?m1"
  have room: "room < 2147483648" "?a + ?n \<le> length mem" using assms by (auto simp: allocates_def)
  with assms(2) have n: "unat (of_nat ?n :: i32) = ?n" by (simp add: unat_of_nat take_bit_nat_eq_self)
  have m1: "length ?m1 = length mem" using room by (simp add: zeros_def)
  have m2: "length ?m2 = room" "take ?n (drop ?a ?m2) = req" using room assms(2) by (simp_all add: zeros_def)
  have "call_validate (validator_program place mem0 p) req (guest_request k) (Some mem)
      = call_validate (validator_program place mem0 p) req (k (decode_request req)) (Some ?m2)"
    unfolding guest_request_def call_request_len Let_def n call_allocate
    using room assms(2) m1 m2
    by (simp add: call_put call_load_request call_get zeros_def del: take_append drop_append append_take_drop_id)
  with m2(1) show ?thesis by blast
qed

lemma call_guest_respond:
  assumes "allocates place cap room" "length mem = room" "length (encode_verdict v) + 4 \<le> cap" "wf_verdict v"
  shows "\<exists>ptr mem'. call_validate (validator_program place mem0 p) req (guest_respond v) (Some mem)
      = Some (Inr (ptr, Some mem')) \<and> read_verdict ptr (Some mem') = Inr v"
proof -
  let ?pay = "encode_verdict v"
  let ?fr = "le_bytes 4 (length ?pay) @ ?pay"
  let ?a = "place mem (length ?fr)"
  let ?m = "take ?a mem @ ?fr @ drop (?a + length ?fr) mem"
  have fits: "?a + length ?fr \<le> length mem" and small: "room < 2147483648"
    using assms(1-3) by (auto simp: allocates_def)
  have run: "call_validate (validator_program place mem0 p) req (guest_respond v) (Some mem)
      = Some (Inr (of_nat ?a + 4, Some ?m))"
    unfolding guest_respond_def Let_def call_allocate call_put [OF fits] call_give by (rule refl)
  have "(of_nat ?a + 4 :: i32) = of_nat (?a + 4)" by simp
  also have "as_usize \<dots> = ?a + 4" using fits small assms(2) by (intro as_usize_i32) simp
  finally have start: "as_usize (of_nat ?a + 4) = ?a + 4" .
  have at: "take_at ?m ?a 4 = Some (le_bytes 4 (length ?pay))" "take_at ?m (?a + 4) (length ?pay) = Some ?pay"
    using fits take_at_append [of "take ?a mem" ?a "le_bytes 4 (length ?pay)" 4 "?pay @ drop (?a + length ?fr) mem"]
      take_at_append [of "take ?a mem @ le_bytes 4 (length ?pay)" "?a + 4" ?pay _ "drop (?a + length ?fr) mem"]
    by (simp_all del: le_bytes.simps)
  have "length ?pay \<le> u32_max" using fits small assms(2) by (simp add: u32_max_def)
  then have len: "from_le (le_bytes 4 (length ?pay)) = length ?pay" by simp
  have v: "decode_verdict ?pay = Some v" using decode_encode_verdict [OF assms(4), of "[]"] by simp
  have read: "read_verdict p (Some m) = Inr v"
    if "as_usize p = a + 4" "take_at m a 4 = Some (le_bytes 4 (length ?pay))" "take_at m (a + 4) (length ?pay) = Some ?pay"
      "a + 4 \<le> length m" for p a m
    using that by (simp add: read_verdict_def len v Let_def del: le_bytes.simps)
  have "?a + 4 \<le> length ?m" using fits by simp
  then have "read_verdict (of_nat ?a + 4) (Some ?m) = Inr v" by (rule read [OF start at])
  with run show ?thesis by blast
qed

text \<open>
  C38: a custom validator written with the guest library decides as its policy does. Whatever
  the policy, the verdict that the sandbox reads out of the module is the policy's verdict
  on the very request the node made, provided the allocator of the module finds room for the
  request and the verdict in a memory below 2 GiB; and a validator that traps, never exports
  its entry point or returns anything but a well-formed verdict in its memory is a rejection.
\<close>

theorem custom_validator_decides_as_policy:
  assumes "allocates place cap (length mem0)" "wf_request r" "wf_verdict (policy r)"
    and "length (encode_request r) \<le> cap" "length (encode_verdict (policy r)) + 4 \<le> cap"
  shows "wasm_validate label (validator_program place mem0 (guest_run policy)) r = Some (policy r)
    \<and> (\<forall>M res. run_validator M r = Some (Inl res) \<longrightarrow>
         (\<exists>why. wasm_validate label M r = Some (verdict_reject why)))"
proof -
  let ?M = "validator_program place mem0 (guest_run policy)"
  have "decode_request (encode_request r) = Some r"
    using decode_encode_request [OF assms(2), of "[]"] by simp
  moreover obtain k where k: "guest_run policy = guest_request k" "k (Some r) = guest_respond (policy r)"
    by (simp add: guest_run_def)
  ultimately obtain mem' where mem': "length mem' = length mem0"
      "call_validate ?M (encode_request r) (guest_run policy) (Some mem0)
        = call_validate ?M (encode_request r) (guest_respond (policy r)) (Some mem')"
    using call_guest_request [OF assms(1) refl assms(4), where k = k] by metis
  obtain ptr mem2 where "call_validate ?M (encode_request r) (guest_respond (policy r)) (Some mem') = Some (Inr (ptr, Some mem2))"
      "read_verdict ptr (Some mem2) = Inr (policy r)"
    using call_guest_respond [OF assms(1) mem'(1) assms(5,3)] by blast
  with mem'(2) have "run_validator ?M r = Some (Inr (policy r))"
    by (simp add: run_validator_def validator_program_def)
  then show ?thesis by (auto simp: wasm_validate_def)
qed

text \<open>A policy on even heights, in a module of 400 bytes whose allocations start at 100.\<close>

definition even_policy :: "validation_request \<Rightarrow> verdict" where
  "even_policy r = (if even (req_height r) then verdict_accept else verdict_reject ''odd'')"

theorem custom_validator_decides_as_policy_witness:
  "wasm_validate ''even'' (validator_program (\<lambda>mem n. 100) (zeros 400) (guest_run even_policy)) smoke_request
     = Some verdict_accept"
proof -
  have m: "even_policy smoke_request = verdict_accept" by (simp add: even_policy_def smoke_request_def)
  have "allocates (\<lambda>mem n. 100) 300 (length (zeros 400))" by (simp add: allocates_def zeros_def)
  moreover have "wf_request smoke_request" by (simp add: wf_request_def smoke_request_def zeros_def u32_max_def)
  moreover have "wf_verdict (even_policy smoke_request)" by (simp add: m wf_verdict_def verdict_accept_def)
  moreover have "length (encode_request smoke_request) \<le> 300"
    by (simp add: encode_request_def smoke_request_def zeros_def)
  moreover have "length (encode_verdict (even_policy smoke_request)) + 4 \<le> 300"
    by (simp add: m encode_verdict_def verdict_accept_def)
  ultimately have "wasm_validate ''even'' (validator_program (\<lambda>mem n. 100) (zeros 400) (guest_run even_policy)) smoke_request
      = Some (even_policy smoke_request)"
    using custom_validator_decides_as_policy by blast
  then show ?thesis unfolding m .
qed

end
