(* ===== verification/Spec2Isabelle.thy ===== *)
theory Spec2Isabelle
  imports RocksChain SmtBatched SyncStartup PipelineProps MonoProps WasmChain PointerProps ValidatorWasm
begin

text \<open>
  Metashrew indexes the Bitcoin chain. A node adapter fetches blocks; an indexer, a
  WebAssembly module, turns each block into key-value pairs; the runtime builds one write
  batch per block out of them, with an append-only log for every key, a manifest of the keys
  the block touched, and a state root; a storage adapter commits the batch together with
  the block hash and the height pointers. Queries read a key as of a height. A chain
  reorganisation is found by comparing stored block hashes with the node's, and undone by
  truncating the logs. This library models those parts as executable functions and step
  relations and proves what makes them correct; paths below are under \<open>src/crates\<close>.

  \<^bold>\<open>The parts and their theories\<close>, in the order they build on one another.

  \<^item> Vocabulary. \<open>Prelude\<close>: byte strings (a byte is a HOL character), results as sums with the
    error on the left, code on a mutable state as state-passing functions that keep the state
    on the error path, machine-integer bounds. \<open>Bytes\<close>: little-endian and decimal numbers,
    \<open>parse::<u32>\<close>, lossy UTF-8. \<open>Store\<close>: batches as lists of operations, a store as a map.
    \<open>HexCodec\<close>: the contract of the \<open>hex\<close> crate, a locale interpreted on the encoder of
    \<open>key_utils.rs\<close>. \<open>RocksDb\<close>: RocksDB as a record of operations with its documented contract
    \<open>rocks_ok\<close>; \<open>list_rocks\<close> is an instance.

  \<^item> Storage layout and history (\<open>metashrew-runtime/src\<close>: \<open>key_utils.rs\<close>, \<open>smt.rs\<close>). \<open>KeyUtils\<close>: key
    construction, labels and the injectivity of the layouts. \<open>AppendLog\<close>: \<open>put_to_batch\<close>,
    both binary searches, the rollback of keys; \<open>LogSpec\<close> gives each key its log of updates
    (\<open>has_log\<close>) and specifies the operations on it. \<open>Manifest\<close>, \<open>StateRoot\<close>, \<open>BlockBatch\<close>: the
    per-block manifest, the root records and \<open>build_state_root_batch_unwritten\<close>. \<open>Chain\<close>: a
    chain of blocks committed batch by batch, against the logs of its blocks.

  \<^item> The sparse Merkle tree (\<open>smt.rs\<close>). \<open>SmtNode\<close>: nodes, hashing, storage format. \<open>SmtTree\<close>: lookups
    and the updates of \<open>SMTHelper\<close>; \<open>SmtSpec\<close>: the abstract tree of the keys and the relation
    \<open>stored\<close> to the database; \<open>SmtUpdate\<close>, \<open>SmtRoots\<close>: the operations refine insertion into that
    tree; \<open>SmtBatched\<close>: the copies of \<open>BatchedSMTHelper\<close> over the two caches.

  \<^item> Rollback (\<open>metashrew-runtime/src/rollback.rs\<close>). \<open>Rollback\<close>: the backend trait is the locale
    \<open>smt_rollback\<close>; the manifest path and the full scan truncate every log of a chain.

  \<^item> Backends. \<open>MemStore\<close> (\<open>memshrew-runtime/src/adapter.rs\<close>), \<open>RocksStorage\<close> and
    \<open>RocksRuntime\<close> (\<open>rockshrew-runtime/src/storage_adapter.rs\<close>, \<open>adapter.rs\<close>): the storage and
    runtime adapters, with labels, the tip written with each batch, the shadow of previews and
    the fork. \<open>KvStore\<close> is their contract \<open>KeyValueStoreLike\<close> as the locale \<open>kv_store\<close>;
    \<open>RocksChain\<close> has the commits, rollbacks and the start-up repair on the durable backend.

  \<^item> Execution (\<open>metashrew-runtime/src/runtime.rs\<close>, \<open>context.rs\<close>). \<open>WasmHost\<close>: linear memory and the
    host functions of the three linkers. \<open>WasmRuntime\<close>: a module as a parameter (its own steps
    and host calls), memory refresh, \<open>process_block_atomic\<close>, views and previews. \<open>WasmBackends\<close>:
    the locale \<open>wasm_backend\<close> on both backends. \<open>WasmProps\<close>, \<open>WasmFaults\<close>: what holds for every
    guest, and the edges of the host functions.

  \<^item> The guest side (\<open>metashrew-core\<close>, \<open>metashrew-support\<close>). \<open>GuestCore\<close>: the library's cache and
    flush queue, and indexers as programs over it; \<open>GuestProps\<close>: such a program on the host
    computes the reference meaning of its code. \<open>ByteView\<close>, \<open>IndexPointer\<close>: typed values, lists
    and linked lists under a key; \<open>PointerSpec\<close>: the contract of a pointer, the locale
    \<open>pointer_space\<close>; \<open>AtomicPointer\<close>, \<open>PointerProps\<close>: the two implementations, checkpoints.

  \<^item> Synchronisation (\<open>metashrew-sync/src\<close>). \<open>SyncTypes\<close>: errors, configuration, the adapter
    traits as records of operations, the retry delays. \<open>SyncEngine\<close>: validation, applying a
    block with its retry budget, reorganisations, the start-up repair, the query interface.
    \<open>SyncBackends\<close>: the backends as adapters. \<open>SyncApply\<close>, \<open>SyncReorg\<close>, \<open>SyncStartup\<close>: what
    these operations do to the database. \<open>SyncPipeline\<close>: the concurrent pipeline as a step
    relation of its three tasks; \<open>PipelineProofs\<close>, \<open>PipelineProps\<close>: its reachable states.

  \<^item> Validation policies (\<open>metashrew-validator-core/src\<close>). \<open>Validator\<close>, \<open>ValidatorProps\<close>: the wire
    encodings, compact targets, the built-in policies and the engine under them;
    \<open>ValidatorWasm\<close>: custom validators, from their library through the sandbox.

  \<^item> The binary (\<open>rockshrew-mono/src\<close>). \<open>MonoAdapters\<close>: the JSON-RPC node adapter with its retries
    and its block identity check, and the runtime adapter (\<open>adapters.rs\<close>). \<open>MonoPipeline\<close>: the
    fetcher, processor and result tasks that \<open>lib.rs\<close> spawns, with the operations of
    \<open>metashrew-sync/src/snapshot_sync.rs\<close> they drive, as a step relation; \<open>MonoProofs\<close>, \<open>MonoLive\<close>,
    \<open>MonoProps\<close>: its invariant and its progress. \<open>WasmChain\<close>: a chain indexed end to end, from
    the guest's code to historical queries.

  \<^bold>\<open>What is proved.\<close> History: a query at a height answers the last write at or below it, by
  either search, after any chain of blocks. Atomicity: a commit takes full effect or none; only
  the block after the tip commits; executions, views and previews write nothing; blocks are
  independent of one another. Rollback restores the logs of the shorter chain on either
  backend, and no historical query sees a reorganised branch. The tree: an update is an
  insertion, equal roots have equal leaves unless SHA-256 collides, the cached calculations
  agree with the plain ones while the caches agree with the storage, or a counterexample.
  Synchronisation: a block is applied at most once and within its budget, every reachable
  database of either pipeline is a prefix of the node's chain while it stands still, the
  binary's tasks can always go on to the tip, the repair reconciles the pointers; and the
  schedules and restarts that wedge the library's pipeline. Validation:
  the Bitcoin policy accepts exactly linked blocks with work; custom validators answer as
  their policies. Pointers: the list methods implement lists, which typed
  calls panic, checkpoints are transactions.

  \<^bold>\<open>Interfaces.\<close> Each locale is interpreted on the model's own definitions: \<open>hex_codec\<close> on the
  encoder of \<open>key_utils.rs\<close>; \<open>smt_rollback\<close>, \<open>kv_store\<close>, \<open>smt_store\<close> and \<open>wasm_backend\<close> on the
  in-memory and the durable backend; \<open>hash_reads\<close> on both storage adapters; \<open>byte_view\<close> on the six
  integer types; \<open>pointer_space\<close> on \<open>IndexPointer\<close> and \<open>AtomicPointer\<close>; \<open>pipeline_env\<close>, which is
  the environment of the pipeline and not a contract between components, on a sample chain.

  \<^bold>\<open>Parameters.\<close> SHA-256, the hex, protobuf, JSON and block decoders, RocksDB, the WebAssembly
  module with its engine and its allocator, the node's transport and the clock are arguments of
  the definitions that use them; what is assumed of them is a named hypothesis (\<open>hex_codec\<close>,
  \<open>rocks_ok\<close>, \<open>batch_format\<close>, \<open>allocates\<close>, lengths of digests, absence of collisions on the nodes
  in question), and the witnesses instantiate them.

  \<^bold>\<open>Bounds and fuel.\<close> A \<open>u32\<close> is a natural number with its bound where an operation can reach it
  (heights below \<open>u32_max\<close>, lists of a pointer below \<open>2 ^ 32\<close>, a guest memory below 2 GiB), or a
  word where it wraps. No definition has fuel: loops are structural, carry a measure (the
  retry loop's budget of 30 attempts, the scan of a reorganisation), or are partial functions
  whose value \<open>None\<close> is a loop that never ends (a guest, the pipeline's block apply,
  \<open>map_ll\<close>); termination is then part of the statement.

  \<^bold>\<open>Not modelled.\<close> The snapshot subsystem (\<open>rockshrew-mono/src/snapshot*.rs\<close>, and
  \<open>metashrew-sync/src/snapshot*.rs\<close> but for the block path above): files, compression and HTTP
  around a copy of the database. \<open>rockshrew-mono/src/main.rs\<close> and the rest of \<open>lib.rs\<close>: the command
  line, the HTTP server and the shutdown of the tasks; \<open>ssh_tunnel.rs\<close>, \<open>cpu_isolation.rs\<close>: processes and operating-system calls.
  \<open>memshrew-p2p\<close>: a peer-to-peer client. \<open>view_limits.rs\<close>: a semaphore and the free memory of the
  host. \<open>metashrew-support\<close>: \<open>address.rs\<close>, \<open>block.rs\<close> and \<open>utils.rs\<close>, parsers around the \<open>bitcoin\<close>
  crate. \<open>fork_adapter.rs\<close> and \<open>optimized_config.rs\<close>: a dispatch between two adapters, and RocksDB
  tuning. \<open>metashrew-minimal\<close>, \<open>metashrew-memory-stress\<close>, \<open>rockshrew-diff\<close>, mocks, tests and block
  builders: examples and test code. Of \<open>runtime.rs\<close>: the configuration of the engine, the
  memory preallocation and the deprecated entry points.
\<close>

end
